(* ===== verification/Prelude.thy ===== *)
theory Prelude
  imports Main "HOL-Library.Word" "HOL-Library.Monad_Syntax" "HOL-Library.Char_ord"
begin

text \<open>
  Shared vocabulary of the development: the machine types of the 32-bit build
  (CMakeLists.txt compiles with -m32), characters read as C char values, bounds-checked
  reads of a character buffer, the forward and backward scanning loops that the string
  and URL code is made of, the standard library searches of std::string, and the generic
  lemmas on lists and options that the component theories use.
\<close>

section \<open>Named collections\<close>

named_theorems scan_simps
  \<open>evaluation of bounds-checked reads and scans on buffers of known shape\<close>

named_theorems frame_simps
  \<open>fields that an operation leaves alone\<close>

section \<open>Machine types\<close>

type_synonym u32 = "32 word"

text \<open>A size_t that was decremented below zero, and std::string::npos.\<close>

definition npos :: nat where
  "npos = 4294967295"

text \<open>The value of a (signed, on x86) C char.\<close>

definition schar :: "char \<Rightarrow> int" where
  "schar c = (let n = of_char c :: int in if n < 128 then n else n - 256)"

lemma schar_ascii [simp]: "(of_char c :: int) < 128 \<Longrightarrow> schar c = of_char c"
  by (simp add: schar_def)

section \<open>Lists\<close>

lemma takeWhile_eq_Nil_hd: "xs \<noteq> [] \<Longrightarrow> \<not> P (hd xs) \<Longrightarrow> takeWhile P xs = []"
  by (cases xs) auto

lemma length_dropWhile_less: "xs \<noteq> [] \<Longrightarrow> P (hd xs) \<Longrightarrow> length (dropWhile P xs) < length xs"
  by (cases xs) (auto simp: length_dropWhile_le less_Suc_eq_le)

lemma length_takeWhile_lt: "x \<in> set xs \<Longrightarrow> \<not> P x \<Longrightarrow> length (takeWhile P xs) < length xs"
  by (induction xs) auto

lemma takeWhile_append_stop:
  "(\<And>x. x \<in> set xs \<Longrightarrow> P x) \<Longrightarrow> \<not> P y \<Longrightarrow> takeWhile P (xs @ y # ys) = xs"
  by (induction xs) auto

lemma dropWhile_append_stop:
  "(\<And>x. x \<in> set xs \<Longrightarrow> P x) \<Longrightarrow> \<not> P y \<Longrightarrow> dropWhile P (xs @ y # ys) = y # ys"
  by (induction xs) auto

lemma takeWhile_drop_id: "takeWhile P xs @ drop (length (takeWhile P xs)) xs = xs"
  by (metis dropWhile_eq_drop takeWhile_dropWhile_id)

lemma drop_nth_Cons: "i < length xs \<Longrightarrow> drop i xs = xs ! i # drop (Suc i) xs"
  by (rule Cons_nth_drop_Suc [symmetric])

lemma take_drop_Suc:
  "k \<le> i \<Longrightarrow> i < length xs \<Longrightarrow>
   take (Suc i - k) (drop k xs) = take (i - k) (drop k xs) @ [xs ! i]"
  by (simp add: Suc_diff_le take_Suc_conv_app_nth)

lemma drop_eq_take_append:
  "a \<le> b \<Longrightarrow> drop a xs = take (b - a) (drop a xs) @ drop b xs"
proof -
  assume "a \<le> b"
  then have "drop b xs = drop (b - a) (drop a xs)" by simp
  then show ?thesis by (simp only: append_take_drop_id)
qed

section \<open>Buffers: bounds-checked reads\<close>

text \<open>
  A C char buffer is the list of its characters. A read outside it has no defined value:
  it is None here, and None propagates, so a parse that returns Some read only inside the
  buffer.
\<close>

definition rd :: "string \<Rightarrow> int \<Rightarrow> char option" where
  "rd s i = (if 0 \<le> i \<and> i < int (length s) then Some (s ! nat i) else None)"

lemma rd_in [simp]: "0 \<le> i \<Longrightarrow> i < int (length s) \<Longrightarrow> rd s i = Some (s ! nat i)"
  by (simp add: rd_def)

lemma rd_out: "i < 0 \<or> int (length s) \<le> i \<Longrightarrow> rd s i = None"
  by (auto simp: rd_def)

lemma rd_Some_iff: "rd s i = Some c \<longleftrightarrow> 0 \<le> i \<and> i < int (length s) \<and> s ! nat i = c"
  by (auto simp: rd_def)

lemma rd_app [scan_simps]: "rd (A @ c # B) (int (length A)) = Some c"
  by (simp add: rd_def)

text \<open>The text of a buffer from index i to index j, read as std::string (p + i, j - i).\<close>

definition slice :: "string \<Rightarrow> int \<Rightarrow> int \<Rightarrow> string" where
  "slice s i j = take (nat (j - i)) (drop (nat i) s)"

lemma slice_empty [simp]: "j \<le> i \<Longrightarrow> slice s i j = []"
  by (simp add: slice_def)

lemma length_slice:
  "0 \<le> i \<Longrightarrow> i \<le> j \<Longrightarrow> j \<le> int (length s) \<Longrightarrow> length (slice s i j) = nat (j - i)"
  by (simp add: slice_def nat_diff_distrib)

lemma slice_append_mid:
  "slice (xs @ ys @ zs) (int (length xs)) (int (length xs) + int (length ys)) = ys"
  by (simp add: slice_def)

section \<open>Scanning loops\<close>

text \<open>
  The loop shape \<open>while (i < e && !P(s[i])) i++\<close>: the first index from i on where P
  holds, or e.
\<close>

function scan_fwd :: "(char \<Rightarrow> bool) \<Rightarrow> string \<Rightarrow> int \<Rightarrow> int \<Rightarrow> int option" where
  "scan_fwd P s i e =
     (if i < e then
        (case rd s i of
           None \<Rightarrow> None
         | Some c \<Rightarrow> if P c then Some i else scan_fwd P s (i + 1) e)
      else Some i)"
  by pat_completeness auto
termination
  by (relation "measure (\<lambda>(P, s, i, e). nat (e - i))") auto

declare scan_fwd.simps [simp del]

text \<open>
  The loop shape \<open>while (i > b && !P(s[i])) i--\<close>: the last index down to b (exclusive)
  where P holds, or b.
\<close>

function scan_bwd :: "(char \<Rightarrow> bool) \<Rightarrow> string \<Rightarrow> int \<Rightarrow> int \<Rightarrow> int option" where
  "scan_bwd P s i b =
     (if b < i then
        (case rd s i of
           None \<Rightarrow> None
         | Some c \<Rightarrow> if P c then Some i else scan_bwd P s (i - 1) b)
      else Some i)"
  by pat_completeness auto
termination
  by (relation "measure (\<lambda>(P, s, i, b). nat (i - b))") auto

declare scan_bwd.simps [simp del]

text \<open>What a forward scan inside the buffer returns.\<close>

lemma scan_fwd_spec:
  assumes "0 \<le> i" and "i \<le> e" and "e \<le> int (length s)"
  shows "\<exists>j. scan_fwd P s i e = Some j \<and> i \<le> j \<and> j \<le> e \<and>
             (\<forall>k. i \<le> k \<and> k < j \<longrightarrow> \<not> P (s ! nat k)) \<and> (j < e \<longrightarrow> P (s ! nat j))"
  using assms
proof (induction P s i e rule: scan_fwd.induct)
  case (1 P s i e)
  show ?case
  proof (cases "i < e \<and> \<not> P (s ! nat i)")
    case True
    then have rdi: "rd s i = Some (s ! nat i)"
      using "1.prems" by simp
    from True "1.IH" [OF _ rdi] "1.prems" obtain j where
      j: "scan_fwd P s (i + 1) e = Some j" "i + 1 \<le> j" "j \<le> e"
      "\<forall>k. i + 1 \<le> k \<and> k < j \<longrightarrow> \<not> P (s ! nat k)" "j < e \<longrightarrow> P (s ! nat j)"
      by auto
    have step: "scan_fwd P s i e = Some j"
      using True rdi j(1) by (subst scan_fwd.simps) simp
    have low: "\<not> P (s ! nat k)" if "i \<le> k \<and> k < j" for k
      using that True j(4) by (cases "k = i") auto
    show ?thesis
      using step j(2,3,5) low by auto
  next
    case False
    then have "scan_fwd P s i e = Some i"
      using "1.prems" by (subst scan_fwd.simps) auto
    then show ?thesis
      using False "1.prems" by auto
  qed
qed

lemma scan_fwd_total:
  assumes "0 \<le> i" and "e \<le> int (length s)"
  shows "\<exists>j. scan_fwd P s i e = Some j \<and> i \<le> j \<and> (i \<le> e \<longrightarrow> j \<le> e)"
proof (cases "i \<le> e")
  case True
  then show ?thesis using scan_fwd_spec [of i e s P] assms by auto
next
  case False
  then show ?thesis by (subst scan_fwd.simps) simp
qed

lemma scan_fwd_stop [scan_simps]:
  assumes "0 \<le> i" and "i \<le> j" and "j < e" and "e \<le> int (length s)"
    and "\<And>k. i \<le> k \<Longrightarrow> k < j \<Longrightarrow> \<not> P (s ! nat k)" and "P (s ! nat j)"
  shows "scan_fwd P s i e = Some j"
proof -
  have ie: "i \<le> e" using assms(2,3) by simp
  from assms(1,4) ie obtain m where m: "scan_fwd P s i e = Some m" "i \<le> m" "m \<le> e"
    "\<forall>k. i \<le> k \<and> k < m \<longrightarrow> \<not> P (s ! nat k)" "m < e \<longrightarrow> P (s ! nat m)"
    using scan_fwd_spec [of i e s P] by blast
  have "\<not> j < m" using m(4) assms(2,6) by auto
  moreover have "\<not> m < j" using m(2,5) assms(3,5) by force
  ultimately show ?thesis using m(1) by simp
qed

lemma scan_fwd_none [scan_simps]:
  assumes "0 \<le> i" and "i \<le> e" and "e \<le> int (length s)"
    and "\<And>k. i \<le> k \<Longrightarrow> k < e \<Longrightarrow> \<not> P (s ! nat k)"
  shows "scan_fwd P s i e = Some e"
proof -
  from assms(1-4) obtain m where m: "scan_fwd P s i e = Some m" "i \<le> m" "m \<le> e"
    "m < e \<longrightarrow> P (s ! nat m)"
    using scan_fwd_spec [of i e s P] by blast
  have "m = e" using m assms(4) [of m] by auto
  then show ?thesis using m(1) by simp
qed

text \<open>What a backward scan inside the buffer returns.\<close>

lemma scan_bwd_spec:
  assumes "-1 \<le> b" and "b \<le> i" and "i < int (length s)"
  shows "\<exists>j. scan_bwd P s i b = Some j \<and> b \<le> j \<and> j \<le> i \<and>
             (\<forall>k. j < k \<and> k \<le> i \<longrightarrow> \<not> P (s ! nat k)) \<and> (b < j \<longrightarrow> P (s ! nat j))"
  using assms
proof (induction P s i b rule: scan_bwd.induct)
  case (1 P s i b)
  show ?case
  proof (cases "b < i \<and> \<not> P (s ! nat i)")
    case True
    then have rdi: "rd s i = Some (s ! nat i)"
      using "1.prems" by simp
    from True "1.IH" [OF _ rdi] "1.prems" obtain j where
      j: "scan_bwd P s (i - 1) b = Some j" "b \<le> j" "j \<le> i - 1"
      "\<forall>k. j < k \<and> k \<le> i - 1 \<longrightarrow> \<not> P (s ! nat k)" "b < j \<longrightarrow> P (s ! nat j)"
      by auto
    have step: "scan_bwd P s i b = Some j"
      using True rdi j(1) by (subst scan_bwd.simps) simp
    have high: "\<not> P (s ! nat k)" if "j < k \<and> k \<le> i" for k
      using that True j(4) by (cases "k = i") auto
    show ?thesis
      using step j(2,3,5) high by auto
  next
    case False
    then have "scan_bwd P s i b = Some i"
      using "1.prems" by (subst scan_bwd.simps) auto
    then show ?thesis
      using False "1.prems" by auto
  qed
qed

lemma scan_bwd_stop [scan_simps]:
  assumes "-1 \<le> b" and "b \<le> j" and "j \<le> i" and "i < int (length s)"
    and "\<And>k. j < k \<Longrightarrow> k \<le> i \<Longrightarrow> \<not> P (s ! nat k)" and "P (s ! nat j)"
  shows "scan_bwd P s i b = Some j"
proof -
  have bi: "b \<le> i" using assms(2,3) by simp
  from assms(1,4) bi obtain m where m: "scan_bwd P s i b = Some m" "b \<le> m" "m \<le> i"
    "\<forall>k. m < k \<and> k \<le> i \<longrightarrow> \<not> P (s ! nat k)" "b < m \<longrightarrow> P (s ! nat m)"
    using scan_bwd_spec [of b i s P] by blast
  have "\<not> m < j" using m(4) assms(3,6) by auto
  moreover have "\<not> j < m" using m(3,5) assms(2,5) by force
  ultimately show ?thesis using m(1) by simp
qed

lemma scan_bwd_none [scan_simps]:
  assumes "-1 \<le> b" and "b \<le> i" and "i < int (length s)"
    and "\<And>k. b < k \<Longrightarrow> k \<le> i \<Longrightarrow> \<not> P (s ! nat k)"
  shows "scan_bwd P s i b = Some b"
proof -
  from assms(1-4) obtain m where m: "scan_bwd P s i b = Some m" "b \<le> m" "m \<le> i"
    "b < m \<longrightarrow> P (s ! nat m)"
    using scan_bwd_spec [of b i s P] by blast
  have "m = b" using m assms(4) [of m] by auto
  then show ?thesis using m(1) by simp
qed

text \<open>Scans over a buffer given as a concatenation.\<close>

lemma nth_mid:
  "int (length xs) \<le> k \<Longrightarrow> k < int (length xs) + int (length ys) \<Longrightarrow>
     (xs @ ys @ zs) ! nat k = ys ! (nat k - length xs) \<and> nat k - length xs < length ys"
  by (auto simp: nth_append)

lemma scan_fwd_app:
  assumes "\<forall>c\<in>set ys. \<not> P c" and "P d"
    and "int (length xs) + int (length ys) < e" and "e \<le> int (length (xs @ ys @ d # zs))"
  shows "scan_fwd P (xs @ ys @ d # zs) (int (length xs)) e = Some (int (length xs) + int (length ys))"
proof (rule scan_fwd_stop)
  fix k assume "int (length xs) \<le> k" "k < int (length xs) + int (length ys)"
  with nth_mid [of xs k ys "d # zs"] assms(1)
  show "\<not> P ((xs @ ys @ d # zs) ! nat k)" by (metis nth_mem)
qed (use assms in \<open>auto simp: nth_append nat_add_distrib\<close>)

lemma scan_fwd_app_none:
  assumes "\<forall>c\<in>set ys. \<not> P c"
  shows "scan_fwd P (xs @ ys @ zs) (int (length xs)) (int (length xs) + int (length ys)) =
           Some (int (length xs) + int (length ys))"
proof (rule scan_fwd_none)
  fix k assume "int (length xs) \<le> k" "k < int (length xs) + int (length ys)"
  with nth_mid [of xs k ys zs] assms(1)
  show "\<not> P ((xs @ ys @ zs) ! nat k)" by (metis nth_mem)
qed auto

lemma scan_fwd_text:
  "scan_fwd P (A @ X @ B) (int (length A)) (int (length A) + int (length X)) =
     Some (int (length A) + int (length (takeWhile (\<lambda>c. \<not> P c) X)))"
proof (induction X arbitrary: A)
  case Nil
  then show ?case by (simp add: scan_fwd.simps)
next
  case (Cons x X)
  from Cons.IH [of "A @ [x]"] show ?case
    by (subst scan_fwd.simps) (simp add: nth_append algebra_simps)
qed

lemma scan_bwd_app:
  assumes "\<forall>c\<in>set ys. \<not> P c" and "P d" and "-1 \<le> b" and "b \<le> int (length xs)"
  shows "scan_bwd P (xs @ d # ys @ zs) (int (length xs) + int (length ys)) b = Some (int (length xs))"
proof (rule scan_bwd_stop)
  fix k assume "int (length xs) < k" "k \<le> int (length xs) + int (length ys)"
  with nth_mid [of "xs @ [d]" k ys zs] assms(1)
  show "\<not> P ((xs @ d # ys @ zs) ! nat k)" by (auto simp: nth_mem)
qed (use assms in \<open>auto simp: nth_append\<close>)

section \<open>Searches of std::string\<close>

text \<open>find_first_of and its kin: the first index at or after pos where P holds.\<close>

fun find_first_from :: "(char \<Rightarrow> bool) \<Rightarrow> nat \<Rightarrow> string \<Rightarrow> nat option" where
  "find_first_from P n [] = None"
| "find_first_from P n (c # cs) = (if P c then Some n else find_first_from P (Suc n) cs)"

definition find_first :: "(char \<Rightarrow> bool) \<Rightarrow> string \<Rightarrow> nat option" where
  "find_first P s = find_first_from P 0 s"

text \<open>find_last_of and its kin: the last index where P holds.\<close>

definition find_last :: "(char \<Rightarrow> bool) \<Rightarrow> string \<Rightarrow> nat option" where
  "find_last P s = map_option (\<lambda>n. length s - 1 - n) (find_first P (rev s))"

lemma find_first_from_eq:
  "find_first_from P n s =
     (if \<exists>x\<in>set s. P x then Some (n + length (takeWhile (\<lambda>c. \<not> P c) s)) else None)"
  by (induction s arbitrary: n) auto

lemma find_first_eq:
  "find_first P s =
     (if \<exists>x\<in>set s. P x then Some (length (takeWhile (\<lambda>c. \<not> P c) s)) else None)"
  by (simp add: find_first_def find_first_from_eq)

lemma find_first_None_iff: "find_first P s = None \<longleftrightarrow> (\<forall>x\<in>set s. \<not> P x)"
  by (simp add: find_first_eq)

lemma find_last_eq:
  "find_last P s =
     (if \<exists>x\<in>set s. P x
      then Some (length s - 1 - length (takeWhile (\<lambda>c. \<not> P c) (rev s))) else None)"
  by (simp add: find_last_def find_first_eq)

lemma find_last_None_iff: "find_last P s = None \<longleftrightarrow> (\<forall>x\<in>set s. \<not> P x)"
  by (simp add: find_last_eq)

text \<open>std::string::find of a substring from a position on.\<close>

fun find_sub_from :: "string \<Rightarrow> nat \<Rightarrow> string \<Rightarrow> nat option" where
  "find_sub_from s n [] = (if s = [] then Some n else None)"
| "find_sub_from s n (c # cs) =
     (if take (length s) (c # cs) = s then Some n else find_sub_from s (Suc n) cs)"

definition find_sub :: "string \<Rightarrow> string \<Rightarrow> nat \<Rightarrow> nat option" where
  "find_sub str s pos = (if length str < pos then None else find_sub_from s pos (drop pos str))"

lemma find_sub_from_Some:
  "find_sub_from s n t = Some m \<Longrightarrow>
     n \<le> m \<and> m - n + length s \<le> length t \<and> take (length s) (drop (m - n) t) = s"
proof (induction s n t rule: find_sub_from.induct)
  case (1 s n)
  then show ?case by (simp split: if_splits)
next
  case (2 s n c cs)
  show ?case
  proof (cases "take (length s) (c # cs) = s")
    case True
    then have "length s \<le> length (c # cs)"
      by (metis length_take min.cobounded1)
    with True "2.prems" show ?thesis by simp
  next
    case False
    with "2.prems" have "find_sub_from s (Suc n) cs = Some m" by simp
    then have ih: "Suc n \<le> m \<and> m - Suc n + length s \<le> length cs \<and>
        take (length s) (drop (m - Suc n) cs) = s"
      by (rule "2.IH" [OF False])
    then obtain k where "m = Suc n + k" using le_Suc_ex by blast
    with ih show ?thesis by simp
  qed
qed

lemma find_sub_Some:
  assumes "find_sub str s pos = Some m"
  shows "pos \<le> m \<and> m + length s \<le> length str \<and> take (length s) (drop m str) = s"
proof -
  from assms have le: "pos \<le> length str" and f: "find_sub_from s pos (drop pos str) = Some m"
    by (auto simp: find_sub_def split: if_splits)
  from find_sub_from_Some [OF f] le show ?thesis
    by (auto simp: drop_drop add.commute)
qed

lemma find_sub_None_prefix:
  "find_sub_from s n t = None \<Longrightarrow> take (length s) t \<noteq> s"
  by (cases t) (auto split: if_splits)

section \<open>Option pipelines\<close>

fun the_default :: "'a \<Rightarrow> 'a option \<Rightarrow> 'a" where
  "the_default d None = d"
| "the_default d (Some x) = x"

lemma bind_Some_iff: "Option.bind m f = Some y \<longleftrightarrow> (\<exists>x. m = Some x \<and> f x = Some y)"
  by (cases m) auto

section \<open>Decimal conversion of the C library\<close>

text \<open>
  std::atoi on the strings the program gives it: optional white space, an optional sign,
  then the longest run of digits. Values outside int are undefined in C and are the
  mathematical value here.
\<close>

definition is_space :: "char \<Rightarrow> bool" where
  "is_space c = (c = CHR '' '' \<or> (9 \<le> (of_char c :: nat) \<and> (of_char c :: nat) \<le> 13))"

definition is_digit :: "char \<Rightarrow> bool" where
  "is_digit c = (48 \<le> (of_char c :: nat) \<and> (of_char c :: nat) \<le> 57)"

definition digit_val :: "char \<Rightarrow> nat" where
  "digit_val c = of_char c - 48"

definition digits_val :: "string \<Rightarrow> nat" where
  "digits_val ds = foldl (\<lambda>n c. 10 * n + digit_val c) 0 ds"

definition atoi :: "string \<Rightarrow> int" where
  "atoi s =
     (case dropWhile is_space s of
        [] \<Rightarrow> 0
      | c # cs \<Rightarrow>
          if c = CHR ''-'' then - int (digits_val (takeWhile is_digit cs))
          else if c = CHR ''+'' then int (digits_val (takeWhile is_digit cs))
          else int (digits_val (takeWhile is_digit (c # cs))))"

lemma atoi_Nil [simp]: "atoi [] = 0"
  by (simp add: atoi_def)

lemma digits_val_bound:
  assumes "\<forall>c\<in>set ds. is_digit c"
  shows "digits_val ds < 10 ^ length ds"
proof -
  have "foldl (\<lambda>n c. 10 * n + digit_val c) n ds < (n + 1) * 10 ^ length ds" for n
    using assms
  proof (induction ds arbitrary: n)
    case Nil
    then show ?case by simp
  next
    case (Cons d ds)
    have d: "digit_val d \<le> 9"
      using Cons.prems by (auto simp: digit_val_def is_digit_def)
    have "foldl (\<lambda>n c. 10 * n + digit_val c) (10 * n + digit_val d) ds
            < (10 * n + digit_val d + 1) * 10 ^ length ds"
      using Cons by simp
    also have "\<dots> \<le> (10 * n + 10) * 10 ^ length ds"
      by (rule mult_right_mono) (use d in auto)
    finally show ?case by (simp add: algebra_simps)
  qed
  from this [of 0] show ?thesis by (simp add: digits_val_def)
qed

section \<open>Text of numbers\<close>

text \<open>An integer written to a stream in decimal, the default of std::ostream.\<close>

fun digits_rev :: "nat \<Rightarrow> string" where
  "digits_rev n =
     (if n < 10 then [char_of (48 + n)] else char_of (48 + n mod 10) # digits_rev (n div 10))"

declare digits_rev.simps [simp del]

definition show_nat :: "nat \<Rightarrow> string" where
  "show_nat n = rev (digits_rev n)"

definition show_int :: "int \<Rightarrow> string" where
  "show_int i = (if i < 0 then CHR ''-'' # show_nat (nat (- i)) else show_nat (nat i))"

lemma digits_val_snoc: "digits_val (ds @ [d]) = 10 * digits_val ds + digit_val d"
  by (simp add: digits_val_def)

lemma of_char_digit: "n < 10 \<Longrightarrow> (of_char (char_of (48 + n :: nat)) :: nat) = 48 + n"
  by (simp add: of_char_of)

lemma is_digit_char: "(n::nat) < 10 \<Longrightarrow> is_digit (char_of (48 + n))"
  by (simp add: is_digit_def of_char_digit)

lemma digits_rev_digits: "list_all is_digit (digits_rev n)"
proof (induction n rule: digits_rev.induct)
  case (1 n)
  then show ?case by (subst digits_rev.simps) (simp add: is_digit_char)
qed

lemma digits_val_rev: "digits_val (rev (digits_rev n)) = n"
proof (induction n rule: digits_rev.induct)
  case (1 n)
  then show ?case
    by (subst digits_rev.simps) (simp add: digits_val_snoc digit_val_def of_char_digit, simp add: digits_val_def digit_val_def of_char_digit)
qed

lemma digits_rev_last: "n \<noteq> 0 \<Longrightarrow> last (digits_rev n) \<noteq> CHR ''0''"
proof (induction n rule: digits_rev.induct)
  case (1 n)
  have nonzero: "char_of (48 + m) \<noteq> CHR ''0''" if "m \<noteq> 0" "m < 10" for m :: nat
  proof
    assume "char_of (48 + m) = CHR ''0''"
    then have "(of_char (char_of (48 + m) :: char) :: nat) = of_char (CHR ''0'')" by simp
    with of_char_digit [OF that(2)] that(1) show False by simp
  qed
  show ?case
  proof (cases "n < 10")
    case True
    with 1 nonzero show ?thesis by (subst digits_rev.simps) simp
  next
    case False
    then have "digits_rev (n div 10) \<noteq> []" by (subst digits_rev.simps) simp
    with False 1 show ?thesis by (subst digits_rev.simps) simp
  qed
qed

lemma show_nat_not_Nil [simp]: "show_nat n \<noteq> []"
  by (simp add: show_nat_def) (subst digits_rev.simps, simp)

lemma show_nat_digits: "list_all is_digit (show_nat n)"
  by (simp add: show_nat_def digits_rev_digits)

lemma digits_val_show_nat [simp]: "digits_val (show_nat n) = n"
  by (simp add: show_nat_def digits_val_rev)

lemma show_nat_no_leading_zero: "hd (show_nat n) = CHR ''0'' \<Longrightarrow> n = 0"
  using digits_rev_last [of n] by (auto simp: show_nat_def hd_rev)

lemma show_nat_0: "show_nat 0 = ''0''"
  by code_simp

section \<open>Transition systems with an invariant\<close>

text \<open>
  The interface of a component that runs as a sequence of steps: the states it starts in, its
  steps, and a property that holds at the start and that every step keeps.
\<close>

locale invariant_system =
  fixes init :: "'s \<Rightarrow> bool"
    and step :: "'s \<Rightarrow> 's \<Rightarrow> bool"
    and inv :: "'s \<Rightarrow> bool"
  assumes init_inv: "init s \<Longrightarrow> inv s"
    and step_inv: "inv s \<Longrightarrow> step s t \<Longrightarrow> inv t"
begin

lemma steps_inv: "step\<^sup>*\<^sup>* s t \<Longrightarrow> inv s \<Longrightarrow> inv t"
  by (induction rule: rtranclp_induct) (auto intro: step_inv)

lemma reach_inv: "init s \<Longrightarrow> step\<^sup>*\<^sup>* s t \<Longrightarrow> inv t"
  using steps_inv init_inv by blast

lemma reach_step_inv: "init s \<Longrightarrow> step\<^sup>*\<^sup>* s t \<Longrightarrow> step t u \<Longrightarrow> inv t \<and> inv u"
  using reach_inv step_inv by blast

end

end
