(* ===== verification/Strings.thy ===== *)
theory Strings
  imports Prelude
begin

text \<open>
  The string utilities: src/chromium/string_util.cc and string_util.hh (trimming,
  case-insensitive comparison, joining, placeholder replacement) and
  src/chromium/string_split.cc (splitting). Loops over indices keep the indices of the
  code; the reference functions they are compared with (\<open>strip\<close>, \<open>split_on\<close>,
  \<open>words_of\<close>) are structural.
\<close>

section \<open>Characters\<close>

definition ToLowerASCII :: "char \<Rightarrow> char" where
  "ToLowerASCII c =
     (if 65 \<le> (of_char c :: nat) \<and> (of_char c :: nat) \<le> 90
      then char_of ((of_char c :: nat) + (97 - 65)) else c)"

definition IsAsciiWhitespace :: "char \<Rightarrow> bool" where
  "IsAsciiWhitespace c = (c = CHR '' '' \<or> c = CHR 0x0D \<or> c = CHR 0x0A \<or> c = CHR 0x09)"

definition IsAsciiAlpha :: "char \<Rightarrow> bool" where
  "IsAsciiAlpha c =
     ((65 \<le> (of_char c :: nat) \<and> (of_char c :: nat) \<le> 90) \<or>
      (97 \<le> (of_char c :: nat) \<and> (of_char c :: nat) \<le> 122))"

definition IsAsciiDigit :: "char \<Rightarrow> bool" where
  "IsAsciiDigit c = (48 \<le> (of_char c :: nat) \<and> (of_char c :: nat) \<le> 57)"

definition IsHexDigit :: "char \<Rightarrow> bool" where
  "IsHexDigit c =
     ((48 \<le> (of_char c :: nat) \<and> (of_char c :: nat) \<le> 57) \<or>
      (65 \<le> (of_char c :: nat) \<and> (of_char c :: nat) \<le> 70) \<or>
      (97 \<le> (of_char c :: nat) \<and> (of_char c :: nat) \<le> 102))"

definition HexDigitToInt :: "char \<Rightarrow> nat" where
  "HexDigitToInt c =
     (let n = (of_char c :: nat) in
      if 48 \<le> n \<and> n \<le> 57 then n - 48
      else if 65 \<le> n \<and> n \<le> 70 then n - 65 + 10
      else if 97 \<le> n \<and> n \<le> 102 then n - 97 + 10
      else 0)"

lemma HexDigitToInt_less: "HexDigitToInt c < 16"
  by (auto simp: HexDigitToInt_def Let_def)

lemma HexDigitToInt_ToLower: "HexDigitToInt (ToLowerASCII c) = HexDigitToInt c"
  by (auto simp: HexDigitToInt_def ToLowerASCII_def Let_def)

lemma of_char_ToLower:
  "of_char (ToLowerASCII c) =
     (if 65 \<le> (of_char c :: nat) \<and> (of_char c :: nat) \<le> 90
      then of_char c + 32 else (of_char c :: nat))"
  by (auto simp: ToLowerASCII_def)

lemma ToLowerASCII_idem [simp]: "ToLowerASCII (ToLowerASCII c) = ToLowerASCII c"
  by (auto simp: ToLowerASCII_def)

section \<open>Trimming\<close>

datatype TrimPositions = TRIM_NONE | TRIM_LEADING | TRIM_TRAILING | TRIM_ALL

text \<open>The enumerators are bit masks: bit 0 is leading, bit 1 trailing.\<close>

definition trims_leading :: "TrimPositions \<Rightarrow> bool" where
  "trims_leading p = (p = TRIM_LEADING \<or> p = TRIM_ALL)"

definition trims_trailing :: "TrimPositions \<Rightarrow> bool" where
  "trims_trailing p = (p = TRIM_TRAILING \<or> p = TRIM_ALL)"

definition trim_mask :: "bool \<Rightarrow> bool \<Rightarrow> TrimPositions" where
  "trim_mask l t =
     (if l then (if t then TRIM_ALL else TRIM_LEADING)
      else (if t then TRIM_TRAILING else TRIM_NONE))"

definition kWhitespaceASCII :: "char list" where
  "kWhitespaceASCII = [CHR 0x09, CHR 0x0A, CHR 0x0B, CHR 0x0C, CHR 0x0D, CHR 0x20]"

text \<open>
  The result is the return value and the new content of *output. An index of the search
  functions is None for npos.
\<close>

definition TrimStringT :: "string \<Rightarrow> char list \<Rightarrow> TrimPositions \<Rightarrow> TrimPositions \<times> string" where
  "TrimStringT input trim_chars positions =
     (let last_char = length input - 1;
          first_good_char =
            (if trims_leading positions then find_first (\<lambda>c. c \<notin> set trim_chars) input else Some 0);
          last_good_char =
            (if trims_trailing positions then find_last (\<lambda>c. c \<notin> set trim_chars) input
             else Some last_char)
      in if input = [] \<or> first_good_char = None \<or> last_good_char = None
         then (if input = [] then TRIM_NONE else positions, [])
         else (trim_mask (the first_good_char \<noteq> 0) (the last_good_char \<noteq> last_char),
               take (the last_good_char - the first_good_char + 1)
                 (drop (the first_good_char) input)))"

definition TrimString :: "string \<Rightarrow> char list \<Rightarrow> bool \<times> string" where
  "TrimString input trim_chars =
     (let (p, out) = TrimStringT input trim_chars TRIM_ALL in (p \<noteq> TRIM_NONE, out))"

definition TrimWhitespaceASCII :: "string \<Rightarrow> TrimPositions \<Rightarrow> TrimPositions \<times> string" where
  "TrimWhitespaceASCII input positions = TrimStringT input kWhitespaceASCII positions"

definition TrimWhitespace :: "string \<Rightarrow> TrimPositions \<Rightarrow> TrimPositions \<times> string" where
  "TrimWhitespace input positions = TrimWhitespaceASCII input positions"

text \<open>Reference: drop from the front, drop from the back.\<close>

definition strip :: "(char \<Rightarrow> bool) \<Rightarrow> string \<Rightarrow> string" where
  "strip P s = rev (dropWhile P (rev (dropWhile P s)))"

abbreviation ws :: "char \<Rightarrow> bool" where
  "ws c \<equiv> c \<in> set kWhitespaceASCII"

lemma strip_Nil [simp]: "strip P [] = []"
  by (simp add: strip_def)

lemma rev_dropWhile_rev:
  "rev (dropWhile P (rev xs)) = take (length xs - length (takeWhile P (rev xs))) xs"
  by (simp add: dropWhile_eq_drop rev_drop)

lemma hd_take_pos: "0 < n \<Longrightarrow> hd (take n xs) = hd xs"
  by (cases xs; cases n) auto

lemma strip_id:
  assumes "xs \<noteq> [] \<Longrightarrow> \<not> P (hd xs)" and "xs \<noteq> [] \<Longrightarrow> \<not> P (List.last xs)"
  shows "strip P xs = xs"
proof (cases "xs = []")
  case False
  then have "dropWhile P xs = xs" and "dropWhile P (rev xs) = rev xs"
    using assms by (auto simp: dropWhile_eq_self_iff hd_rev)
  then show ?thesis by (simp add: strip_def)
qed simp

lemma strip_all: "\<forall>x\<in>set s. P x \<Longrightarrow> strip P s = []"
  by (auto simp: strip_def dest: set_dropWhileD)

lemma strip_eq_Nil_iff: "strip P s = [] \<longleftrightarrow> (\<forall>x\<in>set s. P x)"
proof
  assume "strip P s = []"
  then have "\<forall>x\<in>set (dropWhile P s). P x"
    by (simp add: strip_def dropWhile_eq_Nil_conv)
  moreover have "\<not> P (hd (dropWhile P s))" "hd (dropWhile P s) \<in> set (dropWhile P s)"
    if "dropWhile P s \<noteq> []"
    using that by (rule hd_dropWhile, rule hd_in_set)
  ultimately have "dropWhile P s = []" by blast
  then show "\<forall>x\<in>set s. P x" by (simp add: dropWhile_eq_Nil_conv)
qed (rule strip_all)

lemma set_strip: "set (strip P s) \<subseteq> set s"
  by (auto simp: strip_def dest!: set_dropWhileD)

lemma hd_strip: "strip P s \<noteq> [] \<Longrightarrow> \<not> P (hd (strip P s))"
proof -
  let ?d = "dropWhile P s"
  let ?n = "length ?d - length (takeWhile P (rev ?d))"
  assume ne: "strip P s \<noteq> []"
  have d: "?d \<noteq> []"
  proof
    assume "?d = []"
    then have "strip P s = []" by (simp only: strip_def rev.simps dropWhile.simps)
    with ne show False by simp
  qed
  have eq: "strip P s = take ?n ?d"
    by (simp only: strip_def rev_dropWhile_rev)
  then have "0 < ?n" using ne by (cases ?n) auto
  then have "hd (strip P s) = hd ?d" by (simp only: eq hd_take_pos)
  then show ?thesis using hd_dropWhile [OF d] by simp
qed

lemma last_strip: "strip P s \<noteq> [] \<Longrightarrow> \<not> P (List.last (strip P s))"
  by (simp add: strip_def last_rev hd_dropWhile)

lemma strip_idem [simp]: "strip P (strip P s) = strip P s"
  using hd_strip [of P s] last_strip [of P s] by (auto intro: strip_id)

lemma strip_eq_take_drop:
  assumes "\<exists>x\<in>set s. \<not> P x"
  shows "strip P s =
    take (length s - 1 - length (takeWhile P (rev s)) - length (takeWhile P s) + 1)
      (drop (length (takeWhile P s)) s)"
proof -
  let ?d = "dropWhile P s"
  have dne: "?d \<noteq> []" using assms by (auto simp: dropWhile_eq_Nil_conv)
  have hdd: "\<not> P (hd ?d)" by (rule hd_dropWhile [OF dne])
  have mem: "hd ?d \<in> set (rev ?d)" using dne by simp
  have revs: "rev s = rev ?d @ rev (takeWhile P s)"
    by (metis rev_append takeWhile_dropWhile_id)
  have tw: "takeWhile P (rev s) = takeWhile P (rev ?d)"
    unfolding revs by (rule takeWhile_append1) (rule mem, rule hdd)
  have "length (takeWhile P (rev ?d)) < length ?d"
    using length_takeWhile_lt [of _ _ P, OF mem hdd] by simp
  moreover have "length s = length (takeWhile P s) + length ?d"
    by (metis length_append takeWhile_dropWhile_id)
  ultimately have n: "length s - 1 - length (takeWhile P (rev s)) - length (takeWhile P s) + 1
      = length ?d - length (takeWhile P (rev ?d))"
    by (simp add: tw)
  have "strip P s = take (length ?d - length (takeWhile P (rev ?d))) ?d"
    by (simp only: strip_def rev_dropWhile_rev)
  then show ?thesis
    by (simp only: n dropWhile_eq_drop [of P s, symmetric])
qed

text \<open>TrimStringT with TRIM_ALL leaves exactly the stripped text.\<close>

lemma snd_TrimStringT_all:
  "snd (TrimStringT s cs TRIM_ALL) = strip (\<lambda>c. c \<in> set cs) s"
proof (cases "\<exists>x\<in>set s. x \<notin> set cs")
  case True
  then have "s \<noteq> []" by auto
  with True show ?thesis
    by (simp add: TrimStringT_def trims_leading_def trims_trailing_def find_first_eq find_last_eq
        strip_eq_take_drop Let_def)
next
  case False
  then show ?thesis
    by (auto simp: TrimStringT_def trims_leading_def trims_trailing_def find_first_eq
        find_last_eq strip_all Let_def)
qed

lemma snd_TrimWhitespace [simp]: "snd (TrimWhitespace s TRIM_ALL) = strip ws s"
  by (simp add: TrimWhitespace_def TrimWhitespaceASCII_def snd_TrimStringT_all)

section \<open>Comparison\<close>

text \<open>b is the content of a C string, up to its terminator.\<close>

fun DoLowerCaseEqualsASCII :: "string \<Rightarrow> string \<Rightarrow> bool" where
  "DoLowerCaseEqualsASCII [] b = (b = [])"
| "DoLowerCaseEqualsASCII (a # as) [] = False"
| "DoLowerCaseEqualsASCII (a # as) (b # bs) =
     (if ToLowerASCII a \<noteq> b then False else DoLowerCaseEqualsASCII as bs)"

definition LowerCaseEqualsASCII :: "string \<Rightarrow> string \<Rightarrow> bool" where
  "LowerCaseEqualsASCII a b = DoLowerCaseEqualsASCII a b"

lemma LowerCaseEqualsASCII_iff: "LowerCaseEqualsASCII a b \<longleftrightarrow> List.map ToLowerASCII a = b"
  unfolding LowerCaseEqualsASCII_def by (induction a b rule: DoLowerCaseEqualsASCII.induct) auto

section \<open>Joining\<close>

fun join_loop :: "string \<Rightarrow> string list \<Rightarrow> string \<Rightarrow> string" where
  "join_loop result [] sep = result"
| "join_loop result (p # ps) sep = join_loop (result @ sep @ p) ps sep"

definition JoinStringT :: "string list \<Rightarrow> string \<Rightarrow> string" where
  "JoinStringT parts sep =
     (case parts of [] \<Rightarrow> [] | p # ps \<Rightarrow> join_loop p ps sep)"

definition JoinString :: "string list \<Rightarrow> char \<Rightarrow> string" where
  "JoinString parts sep = JoinStringT parts [sep]"

lemma join_loop_eq: "join_loop r ps sep = r @ concat (List.map (\<lambda>p. sep @ p) ps)"
  by (induction ps arbitrary: r) auto

lemma JoinString_Nil [simp]: "JoinString [] c = []"
  by (simp add: JoinString_def JoinStringT_def)

lemma JoinString_single [simp]: "JoinString [p] c = p"
  by (simp add: JoinString_def JoinStringT_def)

lemma JoinString_Cons [simp]: "ps \<noteq> [] \<Longrightarrow> JoinString (p # ps) c = p @ c # JoinString ps c"
  by (cases ps) (auto simp: JoinString_def JoinStringT_def join_loop_eq)

section \<open>Placeholder replacement\<close>

text \<open>ReplacementOffset: the placeholder's index and its position in the output.\<close>

record ReplacementOffset =
  parameter :: u32
  offset :: nat

definition CompareParameter :: "ReplacementOffset \<Rightarrow> ReplacementOffset \<Rightarrow> bool" where
  "CompareParameter elem1 elem2 = (parameter elem1 < parameter elem2)"

text \<open>std::lower_bound and insert on the list kept sorted by parameter.\<close>

definition insert_offset :: "ReplacementOffset \<Rightarrow> ReplacementOffset list \<Rightarrow> ReplacementOffset list" where
  "insert_offset r rs =
     takeWhile (\<lambda>e. CompareParameter e r) rs @ r # dropWhile (\<lambda>e. CompareParameter e r) rs"

text \<open>The digits after a dollar sign, as a uintptr_t of the 32-bit build.\<close>

definition placeholder_index :: "string \<Rightarrow> u32" where
  "placeholder_index ds = foldl (\<lambda>index c. index * 10 + of_nat (digit_val c)) 0 ds - 1"

function replace_loop ::
  "string list \<Rightarrow> string \<Rightarrow> string \<Rightarrow> ReplacementOffset list \<Rightarrow> string \<times> ReplacementOffset list"
where
  "replace_loop subst [] formatted r_offsets = (formatted, r_offsets)"
| "replace_loop subst (c # cs) formatted r_offsets =
     (if c = CHR ''$'' then
        (case cs of
           [] \<Rightarrow> (formatted, r_offsets)
         | d # _ \<Rightarrow>
             if d = CHR ''$'' then
               replace_loop subst (dropWhile (\<lambda>x. x = CHR ''$'') cs)
                 (formatted @ takeWhile (\<lambda>x. x = CHR ''$'') cs) r_offsets
             else
               (let index = placeholder_index (takeWhile is_digit cs);
                    r_offset = \<lparr>parameter = index, offset = length formatted\<rparr>
                in replace_loop subst (dropWhile is_digit cs)
                     (if unat index < length subst then formatted @ subst ! unat index
                      else formatted)
                     (insert_offset r_offset r_offsets)))
      else replace_loop subst cs (formatted @ [c]) r_offsets)"
  by pat_completeness auto
termination
  by (relation "measure (\<lambda>(subst, s, f, r). length s)")
     (auto simp: less_Suc_eq_le intro: le_SucI length_dropWhile_le)

text \<open>
  DoReplaceStringPlaceholders: the text and, when the caller passed an offsets vector,
  the offsets appended to it (in the order of the parameters).
\<close>

definition ReplaceStringPlaceholders ::
  "string \<Rightarrow> string list \<Rightarrow> nat list option \<Rightarrow> string \<times> nat list option" where
  "ReplaceStringPlaceholders format_string subst offsets =
     (let (formatted, r_offsets) = replace_loop subst format_string [] []
      in (formatted, map_option (\<lambda>os. os @ List.map offset r_offsets) offsets))"

lemma replace_loop_literal:
  "CHR ''$'' \<notin> set s \<Longrightarrow>
   replace_loop subst (s @ t) f r = replace_loop subst t (f @ s) r"
  by (induction s arbitrary: f) auto

lemma replace_loop_placeholder:
  assumes "ds \<noteq> []" and "\<forall>c\<in>set ds. is_digit c" and "t = [] \<or> \<not> is_digit (hd t)"
    and "unat (placeholder_index ds) < length subst"
  shows "replace_loop subst (CHR ''$'' # ds @ t) f r =
           replace_loop subst t (f @ subst ! unat (placeholder_index ds))
             (insert_offset \<lparr>parameter = placeholder_index ds, offset = length f\<rparr> r)"
proof -
  have nd: "d \<noteq> CHR ''$''" if "d \<in> set ds" for d
    using assms(2) that by (auto simp: is_digit_def)
  from assms(1) obtain d ds' where ds: "ds = d # ds'" by (cases ds) auto
  have tw: "takeWhile is_digit (ds @ t) = ds"
    using assms(2,3) by (cases t) (auto simp: takeWhile_append)
  have dw: "dropWhile is_digit (ds @ t) = t"
    using assms(2,3) by (cases t) (auto simp: dropWhile_append)
  from nd [of d] tw dw show ?thesis
    using assms(4) by (simp add: ds Let_def)
qed

section \<open>Splitting\<close>

text \<open>
  SplitStringT: the loop over i from 0 to c = str.size() inclusive; \<open>start\<close> is the
  variable \<open>last\<close> of the code.
\<close>

function split_loop ::
  "string \<Rightarrow> char \<Rightarrow> bool \<Rightarrow> nat \<Rightarrow> nat \<Rightarrow> string list \<Rightarrow> string list" where
  "split_loop str s trim_whitespace i start r =
     (if i \<le> length str then
        (if i = length str \<or> str ! i = s then
           (let tmp = take (i - start) (drop start str) in
            split_loop str s trim_whitespace (i + 1) (i + 1)
              (r @ [if trim_whitespace then snd (TrimWhitespace tmp TRIM_ALL) else tmp]))
         else split_loop str s trim_whitespace (i + 1) start r)
      else r)"
  by pat_completeness auto
termination
  by (relation "measure (\<lambda>(str, s, tr, i, st, r). length str + 1 - i)") auto

declare split_loop.simps [simp del]

definition SplitStringT :: "string \<Rightarrow> char \<Rightarrow> bool \<Rightarrow> string list \<Rightarrow> string list" where
  "SplitStringT str s trim_whitespace r = split_loop str s trim_whitespace 0 0 r"

text \<open>Both front ends append to the vector the caller passes.\<close>

definition SplitString :: "string \<Rightarrow> char \<Rightarrow> string list \<Rightarrow> string list" where
  "SplitString str c r = SplitStringT str c True r"

definition SplitStringDontTrim :: "string \<Rightarrow> char \<Rightarrow> string list \<Rightarrow> string list" where
  "SplitStringDontTrim str c r = SplitStringT str c False r"

text \<open>Reference splitting.\<close>

fun split_on :: "char \<Rightarrow> string \<Rightarrow> string list" where
  "split_on d [] = [[]]"
| "split_on d (c # cs) =
     (if c = d then [] # split_on d cs
      else (case split_on d cs of p # ps \<Rightarrow> (c # p) # ps | [] \<Rightarrow> [[c]]))"

lemma split_on_ne [simp]: "split_on d s \<noteq> []"
  by (induction s) (auto split: list.splits)

lemma split_on_no_delim: "\<forall>p\<in>set (split_on d s). d \<notin> set p"
  by (induction s) (auto split: list.splits)

lemma join_split_on: "JoinString (split_on d s) d = s"
proof (induction s)
  case (Cons c s)
  obtain p ps where ps: "split_on d s = p # ps" by (cases "split_on d s") auto
  show ?case
  proof (cases "c = d")
    case True
    with Cons ps show ?thesis by simp
  next
    case False
    with Cons ps show ?thesis by (cases ps) auto
  qed
qed simp

lemma split_on_single: "d \<notin> set p \<Longrightarrow> split_on d p = [p]"
  by (induction p) auto

lemma split_on_append: "d \<notin> set p \<Longrightarrow> split_on d (p @ d # s) = p # split_on d s"
  by (induction p) auto

lemma split_on_join:
  "ps \<noteq> [] \<Longrightarrow> \<forall>p\<in>set ps. d \<notin> set p \<Longrightarrow> split_on d (JoinString ps d) = ps"
proof (induction ps)
  case (Cons p ps)
  then show ?case
    by (cases "ps = []") (auto simp: split_on_single split_on_append)
qed simp

lemma length_split_on: "length (split_on d s) = count_list s d + 1"
  by (induction s) (auto split: list.splits)

lemma split_loop_eq:
  assumes "start \<le> i" and "i \<le> length str"
  shows "split_loop str s tr i start r =
    r @ (case split_on s (drop i str) of
           p # ps \<Rightarrow> List.map (\<lambda>q. if tr then strip ws q else q)
                       ((take (i - start) (drop start str) @ p) # ps)
         | [] \<Rightarrow> [])"
  using assms
proof (induction str s tr i start r rule: split_loop.induct)
  case (1 str s tr i start r)
  show ?case
  proof (cases "i = length str")
    case True
    then show ?thesis
      by (simp add: split_loop.simps [of str s tr "length str" start r]
          split_loop.simps [of str s tr "Suc (length str)"] Let_def)
  next
    case False
    then have lt: "i < length str" using "1.prems" by simp
    note d = drop_nth_Cons [OF lt]
    obtain p ps where ps: "split_on s (drop (Suc i) str) = p # ps"
      by (cases "split_on s (drop (Suc i) str)") auto
    show ?thesis
    proof (cases "str ! i = s")
      case True
      with lt "1.IH"(1) ps show ?thesis
        by (simp add: split_loop.simps [of str s tr i start r] d Let_def)
    next
      case no: False
      with lt "1.IH"(2) "1.prems" ps show ?thesis
        by (simp add: split_loop.simps [of str s tr i start r] d take_drop_Suc)
    qed
  qed
qed

lemma SplitStringDontTrim_eq: "SplitStringDontTrim str c r = r @ split_on c str"
  by (simp add: SplitStringDontTrim_def SplitStringT_def split_loop_eq split: list.splits)

lemma SplitString_eq: "SplitString str c r = r @ List.map (strip ws) (split_on c str)"
  by (simp add: SplitString_def SplitStringT_def split_loop_eq split: list.splits)

subsection \<open>Key-value pairs\<close>

text \<open>SplitStringIntoKeyValues: the return value, *key and *values.\<close>

definition SplitStringIntoKeyValues :: "string \<Rightarrow> char \<Rightarrow> bool \<times> string \<times> string list" where
  "SplitStringIntoKeyValues line key_value_delimiter =
     (case find_first (\<lambda>c. c = key_value_delimiter) line of
        None \<Rightarrow> (False, [], [])
      | Some end_key_pos \<Rightarrow>
          (let key = take end_key_pos line;
               remains = drop end_key_pos line
           in case find_first (\<lambda>c. c \<noteq> key_value_delimiter) remains of
                None \<Rightarrow> (False, key, [])
              | Some begin_values_pos \<Rightarrow> (True, key, [drop begin_values_pos remains])))"

text \<open>The loop over the pairs: success so far and the pairs pushed so far.\<close>

fun kv_pairs_loop ::
  "char \<Rightarrow> string list \<Rightarrow> bool \<Rightarrow> (string \<times> string) list \<Rightarrow> bool \<times> (string \<times> string) list" where
  "kv_pairs_loop d [] success kv_pairs = (success, kv_pairs)"
| "kv_pairs_loop d (p # ps) success kv_pairs =
     (if p = [] then kv_pairs_loop d ps success kv_pairs
      else
        (let (ok, key, value) = SplitStringIntoKeyValues p d in
         kv_pairs_loop d ps (if ok then success else False)
           (kv_pairs @ [(key, if value = [] then [] else value ! 0)])))"

definition SplitStringIntoKeyValuePairs ::
  "string \<Rightarrow> char \<Rightarrow> char \<Rightarrow> bool \<times> (string \<times> string) list" where
  "SplitStringIntoKeyValuePairs line key_value_delimiter key_value_pair_delimiter =
     kv_pairs_loop key_value_delimiter (SplitString line key_value_pair_delimiter []) True []"

lemma SplitStringIntoKeyValues_pair:
  assumes "d \<notin> set k" and "v \<noteq> []" and "hd v \<noteq> d"
  shows "SplitStringIntoKeyValues (k @ d # v) d = (True, k, [v])"
proof -
  have e: "find_first (\<lambda>c. c = d) (k @ d # v) = Some (length k)"
  proof -
    have "takeWhile (\<lambda>c. c \<noteq> d) (k @ d # v) = k"
      by (rule takeWhile_append_stop) (use assms(1) in auto)
    then show ?thesis by (simp add: find_first_eq)
  qed
  obtain c v' where v: "v = c # v'" "c \<noteq> d"
    using assms(2,3) by (cases v) auto
  have b: "find_first (\<lambda>c. c \<noteq> d) (d # v) = Some 1"
    by (simp add: find_first_def v)
  show ?thesis
    by (simp add: SplitStringIntoKeyValues_def e b)
qed

lemma kv_pairs_loop_append:
  "kv_pairs_loop d (ps @ qs) ok kvs =
     (let (ok', kvs') = kv_pairs_loop d ps ok kvs in kv_pairs_loop d qs ok' kvs')"
  by (induction d ps ok kvs rule: kv_pairs_loop.induct) (auto simp: Let_def split: prod.splits)

lemma kv_pairs_loop_print:
  assumes "\<forall>(k, v)\<in>set kvs. k \<noteq> [] \<and> v \<noteq> [] \<and> d \<notin> set k \<and> hd v \<noteq> d"
  shows "kv_pairs_loop d (List.map (\<lambda>(k, v). k @ d # v) kvs) ok acc = (ok, acc @ kvs)"
  using assms
proof (induction kvs arbitrary: acc)
  case (Cons kv kvs)
  obtain k v where kv: "kv = (k, v)" by (cases kv)
  from Cons kv show ?case
    by (simp add: SplitStringIntoKeyValues_pair)
qed simp

subsection \<open>Splitting at a substring\<close>

text \<open>
  The while (true) loop of SplitStringUsingSubstrT. It returns for every delimiter but the
  empty one; None is a loop that does not end.
\<close>

partial_function (option) SplitStringUsingSubstrT ::
  "string \<Rightarrow> string \<Rightarrow> nat \<Rightarrow> string list \<Rightarrow> string list option" where
  "SplitStringUsingSubstrT str s begin_index r =
     (case find_sub str s begin_index of
        None \<Rightarrow> Some (r @ [snd (TrimWhitespace (drop begin_index str) TRIM_ALL)])
      | Some end_index \<Rightarrow>
          SplitStringUsingSubstrT str s (end_index + length s)
            (r @ [snd (TrimWhitespace
                     (take (end_index - begin_index) (drop begin_index str)) TRIM_ALL)]))"

definition SplitStringUsingSubstr :: "string \<Rightarrow> string \<Rightarrow> string list \<Rightarrow> string list option" where
  "SplitStringUsingSubstr str s r = SplitStringUsingSubstrT str s 0 r"

lemma SplitStringUsingSubstrT_returns:
  assumes "s \<noteq> []" and "begin_index \<le> length str"
  shows "\<exists>ps. SplitStringUsingSubstrT str s begin_index r = Some (r @ List.map (strip ws) ps) \<and>
           ps \<noteq> [] \<and> JoinStringT ps s = drop begin_index str"
  using assms(2)
proof (induction "length str - begin_index" arbitrary: begin_index r rule: less_induct)
  case less
  show ?case
  proof (cases "find_sub str s begin_index")
    case None
    have "JoinStringT [drop begin_index str] s = drop begin_index str"
      by (simp add: JoinStringT_def)
    with None show ?thesis
      by (intro exI [of _ "[drop begin_index str]"])
         (simp add: SplitStringUsingSubstrT.simps [of str s begin_index])
  next
    case (Some e)
    note e = find_sub_Some [OF Some]
    let ?p = "take (e - begin_index) (drop begin_index str)"
    have "0 < length s" using assms(1) by simp
    then have "length str - (e + length s) < length str - begin_index" and "e + length s \<le> length str"
      using e by linarith+
    then obtain ps where ps:
      "SplitStringUsingSubstrT str s (e + length s) (r @ [strip ws ?p]) =
         Some ((r @ [strip ws ?p]) @ List.map (strip ws) ps)"
      "ps \<noteq> []" "JoinStringT ps s = drop (e + length s) str"
      using less.hyps [of "e + length s" "r @ [strip ws ?p]"] by blast
    have "drop begin_index str = ?p @ drop e str"
      using e by (intro drop_eq_take_append) simp
    also have "drop e str = s @ drop (e + length s) str"
      using e drop_eq_take_append [of e "e + length s" str] by simp
    finally have d: "drop begin_index str = ?p @ s @ drop (e + length s) str" .
    have "JoinStringT (?p # ps) s = ?p @ s @ JoinStringT ps s"
      using ps(2) by (cases ps) (auto simp: JoinStringT_def join_loop_eq)
    with ps d [symmetric] Some show ?thesis
      by (intro exI [of _ "?p # ps"])
         (simp add: SplitStringUsingSubstrT.simps [of str s begin_index])
  qed
qed

text \<open>With the empty delimiter the index never advances.\<close>

lemma find_sub_empty: "begin_index \<le> length str \<Longrightarrow> find_sub str [] begin_index = Some begin_index"
  by (simp add: find_sub_def) (cases "drop begin_index str"; simp)

lemma SplitStringUsingSubstrT_diverges:
  "b \<le> length str \<Longrightarrow> SplitStringUsingSubstrT str [] b r = None"
proof -
  assume b: "b \<le> length str"
  have "False" if "SplitStringUsingSubstrT str [] b r = Some x" for x
  proof -
    have "s = [] \<longrightarrow> b \<le> length str \<longrightarrow> False"
      if "SplitStringUsingSubstrT str s b r = Some x" for s
      using that
    proof (rule SplitStringUsingSubstrT.raw_induct
        [where P = "\<lambda>str s b r x. s = [] \<longrightarrow> b \<le> length str \<longrightarrow> False", rotated])
      fix f str s b r x
      assume IH: "\<And>str s b r x. f str s b r = Some x \<Longrightarrow> s = [] \<longrightarrow> b \<le> length str \<longrightarrow> False"
        and eq: "(case find_sub str s b of
          None \<Rightarrow> Some (r @ [snd (TrimWhitespace (drop b str) TRIM_ALL)])
        | Some end_index \<Rightarrow> f str s (end_index + length s)
            (r @ [snd (TrimWhitespace (take (end_index - b) (drop b str)) TRIM_ALL)])) = Some x"
      show "s = [] \<longrightarrow> b \<le> length str \<longrightarrow> False"
        using IH eq by (auto simp: find_sub_empty)
    qed
    with that b show False by blast
  qed
  then show ?thesis by (cases "SplitStringUsingSubstrT str [] b r") auto
qed

subsection \<open>Splitting along white space\<close>

definition is_html_ws :: "char \<Rightarrow> bool" where
  "is_html_ws c =
     (c = CHR '' '' \<or> c = CHR 0x09 \<or> c = CHR 0x0A \<or> c = CHR 0x0B \<or> c = CHR 0x0C \<or>
      c = CHR 0x0D)"

function along_ws_loop ::
  "string \<Rightarrow> nat \<Rightarrow> bool \<Rightarrow> nat \<Rightarrow> string list \<Rightarrow> string list" where
  "along_ws_loop str i last_was_ws last_non_ws_start result =
     (if i < length str then
        (if is_html_ws (str ! i) then
           (if \<not> last_was_ws then
              along_ws_loop str (i + 1) True last_non_ws_start
                (if i > 0 then
                   result @ [take (i - last_non_ws_start) (drop last_non_ws_start str)]
                 else result)
            else along_ws_loop str (i + 1) last_was_ws last_non_ws_start result)
         else
           (if last_was_ws then along_ws_loop str (i + 1) False i result
            else along_ws_loop str (i + 1) last_was_ws last_non_ws_start result))
      else
        (if \<not> last_was_ws then
           result @ [take (length str - last_non_ws_start) (drop last_non_ws_start str)]
         else result))"
  by pat_completeness auto
termination
  by (relation "measure (\<lambda>(str, i, w, st, r). length str - i)") auto

declare along_ws_loop.simps [simp del]

definition SplitStringAlongWhitespace :: "string \<Rightarrow> string list \<Rightarrow> string list" where
  "SplitStringAlongWhitespace str result =
     (if length str = 0 then result else along_ws_loop str 0 False 0 result)"

text \<open>Reference: the maximal runs of other characters.\<close>

fun words_acc :: "string \<Rightarrow> string \<Rightarrow> string list" where
  "words_acc w [] = (if w = [] then [] else [w])"
| "words_acc w (c # cs) =
     (if is_html_ws c then (if w = [] then words_acc [] cs else w # words_acc [] cs)
      else words_acc (w @ [c]) cs)"

definition words_of :: "string \<Rightarrow> string list" where
  "words_of s = words_acc [] s"

lemma along_ws_loop_eq:
  assumes "i \<le> length str" and "start \<le> i" and "str \<noteq> []"
    and "\<not> lw \<Longrightarrow> 0 < i \<Longrightarrow> start < i"
  shows "along_ws_loop str i lw start r =
     r @ words_acc (if lw then [] else take (i - start) (drop start str)) (drop i str)"
  using assms
proof (induction str i lw start r rule: along_ws_loop.induct)
  case (1 str i lw start r)
  show ?case
  proof (cases "i < length str")
    case False
    then have i: "i = length str" "0 < i" using "1.prems" by auto
    with "1.prems" show ?thesis
      by (auto simp: along_ws_loop.simps [of str "length str"])
  next
    case True
    note d = drop_nth_Cons [OF True]
    show ?thesis
    proof (cases "is_html_ws (str ! i)")
      case ws: True
      show ?thesis
      proof (cases lw)
        case True
        with ws \<open>i < length str\<close> "1.IH"(2) "1.prems" show ?thesis
          by (simp add: along_ws_loop.simps [of str i] d)
      next
        case False
        show ?thesis
        proof (cases "i = 0")
          case True
          obtain c cs where str: "str = c # cs" using "1.prems"(3) by (cases str) auto
          with ws False True "1.IH"(1) "1.prems" show ?thesis
            by (simp add: along_ws_loop.simps [of "c # cs" 0])
        next
          case pos: False
          with ws False \<open>i < length str\<close> "1.IH"(1) "1.prems" show ?thesis
            by (simp add: along_ws_loop.simps [of str i] d)
        qed
      qed
    next
      case nws: False
      show ?thesis
      proof (cases lw)
        case True
        with nws \<open>i < length str\<close> "1.IH"(3) "1.prems" show ?thesis
          by (simp add: along_ws_loop.simps [of str i] d take_Suc_conv_app_nth)
      next
        case False
        with nws \<open>i < length str\<close> "1.IH"(4) "1.prems" show ?thesis
          by (simp add: along_ws_loop.simps [of str i] d take_drop_Suc)
      qed
    qed
  qed
qed

lemma SplitStringAlongWhitespace_eq:
  "SplitStringAlongWhitespace s r = r @ words_of s"
  by (simp add: SplitStringAlongWhitespace_def words_of_def along_ws_loop_eq)

lemma words_acc_wf:
  "list_all (\<lambda>c. \<not> is_html_ws c) w \<Longrightarrow>
     list_all (\<lambda>p. p \<noteq> [] \<and> list_all (\<lambda>c. \<not> is_html_ws c) p) (words_acc w s)"
proof (induction w s rule: words_acc.induct)
  case (2 w c cs)
  then show ?case by (cases "is_html_ws c"; cases "w = []") simp_all
qed simp

lemma words_acc_append:
  "\<forall>c\<in>set p. \<not> is_html_ws c \<Longrightarrow> words_acc w (p @ s) = words_acc (w @ p) s"
  by (induction p arbitrary: w) auto

lemma words_of_join:
  assumes "is_html_ws d" and "\<forall>p\<in>set ps. p \<noteq> [] \<and> (\<forall>c\<in>set p. \<not> is_html_ws c)"
  shows "words_of (JoinString ps d) = ps"
  using assms(2)
proof (induction ps)
  case (Cons p ps)
  then have p: "p \<noteq> []" and app: "words_acc [] (p @ s) = words_acc p s" for s
    using words_acc_append [of p "[]" s] by auto
  show ?case
  proof (cases "ps = []")
    case True
    with p app [of "[]"] show ?thesis by (simp add: words_of_def)
  next
    case False
    with p app Cons assms(1) show ?thesis by (simp add: words_of_def)
  qed
qed (simp add: words_of_def)

end
