(* ===== verification/Strings_Props.thy ===== *)
theory Strings_Props
  imports Strings
begin

text \<open>
  What src/chromium/string_util.cc and string_split.cc promise to their callers: trimming
  leaves the longest stripped middle, splitting at a character is inverse to joining,
  splitting along white space gives the words, splitting at a string returns for every
  delimiter but the empty one.
\<close>

text \<open>TrimString returns the input without its leading and trailing characters of the set
  and says whether anything was removed: what is left and what was cut make up the input, and
  what is left neither starts nor ends with a character of the set.\<close>

theorem TrimString_correct:
  "\<exists>a b. s = a @ snd (TrimString s cs) @ b \<and> set a \<subseteq> set cs \<and> set b \<subseteq> set cs \<and>
     (case snd (TrimString s cs) of [] \<Rightarrow> True | c # t \<Rightarrow> c \<notin> set cs \<and> last (c # t) \<notin> set cs) \<and>
     fst (TrimString s cs) = (a @ b \<noteq> [])"
proof -
  let ?P = "\<lambda>c. c \<in> set cs"
  let ?m = "strip ?P s"
  have out: "snd (TrimString s cs) = ?m"
    using snd_TrimStringT_all [of s cs] by (cases "TrimStringT s cs TRIM_ALL") (simp add: TrimString_def)
  let ?a = "takeWhile ?P s" and ?b = "rev (takeWhile ?P (rev (dropWhile ?P s)))"
  have "dropWhile ?P s = ?m @ ?b"
    unfolding strip_def by (metis rev_append rev_rev_ident takeWhile_dropWhile_id)
  then have s: "s = ?a @ ?m @ ?b" using takeWhile_dropWhile_id [of ?P s] by metis
  have sub: "set ?a \<subseteq> set cs" "set ?b \<subseteq> set cs" by (auto dest: set_takeWhileD)
  have ends: "case ?m of [] \<Rightarrow> True | c # t \<Rightarrow> c \<notin> set cs \<and> last (c # t) \<notin> set cs"
    using hd_strip [of ?P s] last_strip [of ?P s] by (auto split: list.split)
  have "fst (TrimString s cs) = (?a @ ?b \<noteq> [])"
  proof (cases "\<exists>x\<in>set s. x \<notin> set cs")
    case True
    let ?n = "length s - 1 - length (takeWhile ?P (rev s))"
    have ne: "s \<noteq> []" "dropWhile ?P s \<noteq> []" using True by (auto simp: dropWhile_eq_Nil_conv)
    have "rev s = rev (dropWhile ?P s) @ rev ?a" by (metis rev_append takeWhile_dropWhile_id)
    moreover have "hd (dropWhile ?P s) \<in> set (rev (dropWhile ?P s))" using ne by simp
    ultimately have tail: "takeWhile ?P (rev (dropWhile ?P s)) = takeWhile ?P (rev s)"
      using hd_dropWhile [OF ne(2)] takeWhile_append1 [of _ "rev (dropWhile ?P s)" ?P] by metis
    have "length (takeWhile ?P (rev s)) < length (rev s)"
      using True length_takeWhile_lt [of _ "rev s" ?P] by auto
    then have "(?n \<noteq> length s - 1) = (takeWhile ?P (rev s) \<noteq> [])"
      by (cases "takeWhile ?P (rev s)") auto
    moreover have "TrimStringT s cs TRIM_ALL =
        (trim_mask (length ?a \<noteq> 0) (?n \<noteq> length s - 1), ?m)"
      using True ne(1) strip_eq_take_drop [of s ?P]
      by (simp add: TrimStringT_def trims_leading_def trims_trailing_def find_first_eq find_last_eq)
    ultimately show ?thesis
      by (auto simp: TrimString_def trim_mask_def tail)
  next
    case False
    then have "takeWhile ?P s = s" by (simp add: takeWhile_eq_all_conv)
    moreover have "fst (TrimString s cs) = (s \<noteq> [])"
      using False by (auto simp: TrimString_def TrimStringT_def trims_leading_def trims_trailing_def
          find_first_eq find_last_eq Let_def)
    moreover have "dropWhile ?P s = []" using False by simp
    ultimately show ?thesis by (simp del: dropWhile_eq_Nil_conv takeWhile_eq_all_conv)
  qed
  with s sub ends show ?thesis unfolding out by blast
qed

text \<open>C28: Splitting without trimming and joining are inverse: joining the pieces of a text gives
  the text, and splitting a joined list of pieces that do not hold the separator gives the list.\<close>

theorem split_join_roundtrip:
  assumes "ps \<noteq> []" and "\<forall>p\<in>set ps. c \<notin> set p"
  shows "JoinString (SplitStringDontTrim s c []) c = s \<and>
     SplitStringDontTrim (JoinString ps c) c [] = ps \<and>
     SplitString (JoinString ps c) c [] = map (\<lambda>p. snd (TrimWhitespace p TRIM_ALL)) ps"
  using split_on_join [OF assms] by (simp add: SplitStringDontTrim_eq SplitString_eq join_split_on)

theorem split_join_roundtrip_witness:
  "SplitString (JoinString [''a '', [], '' b''] (CHR '','')) (CHR '','') [] = [''a'', [], ''b'']"
proof -
  have "map (\<lambda>p. snd (TrimWhitespace p TRIM_ALL)) [''a '', [], '' b''] = [''a'', [], ''b'']" by code_simp
  with split_join_roundtrip [of "[''a '', [], '' b'']" "CHR '',''" "[]"] show ?thesis by simp
qed

text \<open>Splitting along white space gives the words: pieces that are not empty and hold no white
  space, and the words of a text made of such words with single white space between them are these.\<close>

theorem SplitStringAlongWhitespace_words:
  assumes "is_html_ws d" and "\<forall>p\<in>set ps. p \<noteq> [] \<and> (\<forall>c\<in>set p. \<not> is_html_ws c)"
  shows "SplitStringAlongWhitespace (JoinString ps d) r = r @ ps \<and>
     (\<forall>p\<in>set (SplitStringAlongWhitespace s []). p \<noteq> [] \<and> (\<forall>c\<in>set p. \<not> is_html_ws c))"
  using words_of_join [OF assms] words_acc_wf [of "[]" s]
  by (simp add: SplitStringAlongWhitespace_eq words_of_def list_all_iff)

theorem SplitStringAlongWhitespace_words_witness:
  "SplitStringAlongWhitespace (JoinString [''IBM.N'', ''TRI.N''] (CHR 0x0A)) [''old''] =
     [''old'', ''IBM.N'', ''TRI.N'']"
  using SplitStringAlongWhitespace_words [of "CHR 0x0A" "[''IBM.N'', ''TRI.N'']" "[''old'']"]
  by (simp add: is_html_ws_def)

text \<open>The loop that splits at a string returns exactly when the delimiter is not empty.\<close>

theorem SplitStringUsingSubstr_terminates_iff:
  "(\<exists>ps. SplitStringUsingSubstr str s r = Some ps) \<longleftrightarrow> s \<noteq> []"
  using SplitStringUsingSubstrT_diverges [of 0 str r] SplitStringUsingSubstrT_returns [of s 0 str r]
  by (auto simp: SplitStringUsingSubstr_def)

end
