(* ===== verification/Url_Parse.thy ===== *)
theory Url_Parse
  imports Prelude
begin

text \<open>
  The URL parser: src/googleurl/url_parse.h, url_parse_internal.h and url_parse.cc.
  A Component is an offset and a length into the parsed buffer. Every parsing function
  reads the buffer through \<open>rd\<close>, so its result is None when the code would read outside
  it; \<open>Some\<close> results are the components the code stores through its out-parameters.
  Offsets are C ints; they never leave the buffer (see the bounds lemmas), so for buffers
  below 2^31 characters no int operation overflows. The member inner_parsed_ (nested
  filesystem: URLs) is never set in this program and is left out.
\<close>

section \<open>Components\<close>

record Component =
  cbegin :: int
  clen :: int

definition mk_Component :: "int \<Rightarrow> int \<Rightarrow> Component" where
  "mk_Component b l = \<lparr>cbegin = b, clen = l\<rparr>"

definition no_Component :: Component where
  "no_Component = \<lparr>cbegin = 0, clen = -1\<rparr>"

definition cend :: "Component \<Rightarrow> int" where
  "cend c = cbegin c + clen c"

definition is_valid :: "Component \<Rightarrow> bool" where
  "is_valid c = (clen c \<noteq> -1)"

definition is_nonempty :: "Component \<Rightarrow> bool" where
  "is_nonempty c = (clen c > 0)"

definition creset :: "Component \<Rightarrow> Component" where
  "creset c = c\<lparr>cbegin := 0, clen := -1\<rparr>"

definition MakeRange :: "int \<Rightarrow> int \<Rightarrow> Component" where
  "MakeRange b e = mk_Component b (e - b)"

record Parsed =
  scheme :: Component
  username :: Component
  password :: Component
  host :: Component
  port :: Component
  path :: Component
  query :: Component
  ref :: Component

definition new_Parsed :: Parsed where
  "new_Parsed =
     \<lparr>scheme = no_Component, username = no_Component, password = no_Component,
      host = no_Component, port = no_Component, path = no_Component,
      query = no_Component, ref = no_Component\<rparr>"

lemma creset_eq [simp]: "creset c = no_Component"
  by (simp add: creset_def no_Component_def)

section \<open>Characters\<close>

definition IsPortDigit :: "char \<Rightarrow> bool" where
  "IsPortDigit ch = (schar ch \<ge> 48 \<and> schar ch \<le> 57)"

definition IsURLSlash :: "char \<Rightarrow> bool" where
  "IsURLSlash ch = (ch = CHR ''/'' \<or> ch = CHR 0x5C)"

definition ShouldTrimFromURL :: "char \<Rightarrow> bool" where
  "ShouldTrimFromURL ch = (schar ch \<le> 32)"

definition IsAuthorityTerminator :: "char \<Rightarrow> bool" where
  "IsAuthorityTerminator ch = (IsURLSlash ch \<or> ch = CHR ''?'' \<or> ch = CHR ''#'')"

section \<open>Scanning helpers\<close>

text \<open>TrimURL: the new values of *begin and *len (len is an end offset).\<close>

definition TrimURL :: "string \<Rightarrow> int \<Rightarrow> int \<Rightarrow> (int \<times> int) option" where
  "TrimURL spec b l =
     do {
       b' \<leftarrow> scan_fwd (\<lambda>c. \<not> ShouldTrimFromURL c) spec b l;
       i \<leftarrow> scan_bwd (\<lambda>c. \<not> ShouldTrimFromURL c) spec (l - 1) (b' - 1);
       Some (b', i + 1)
     }"

definition CountConsecutiveSlashes :: "string \<Rightarrow> int \<Rightarrow> int \<Rightarrow> int option" where
  "CountConsecutiveSlashes str begin_offset str_len =
     do {
       i \<leftarrow> scan_fwd (\<lambda>c. \<not> IsURLSlash c) str begin_offset str_len;
       Some (i - begin_offset)
     }"

definition FindNextAuthorityTerminator :: "string \<Rightarrow> int \<Rightarrow> int \<Rightarrow> int option" where
  "FindNextAuthorityTerminator spec start_offset spec_len =
     do {
       i \<leftarrow> scan_fwd IsAuthorityTerminator spec start_offset spec_len;
       Some (if i < spec_len then i else spec_len)
     }"

section \<open>The authority\<close>

definition ParseUserInfo :: "string \<Rightarrow> Component \<Rightarrow> (Component \<times> Component) option" where
  "ParseUserInfo spec user =
     do {
       i \<leftarrow> scan_fwd (\<lambda>c. c = CHR '':'') spec (cbegin user) (cbegin user + clen user);
       let colon_offset = i - cbegin user;
       if colon_offset < clen user then
         Some (mk_Component (cbegin user) colon_offset,
               MakeRange (cbegin user + colon_offset + 1) (cbegin user + clen user))
       else Some (user, no_Component)
     }"

text \<open>The loop of ParseServerInfo: the last right bracket and the last colon.\<close>

function server_loop :: "string \<Rightarrow> int \<Rightarrow> int \<Rightarrow> int \<Rightarrow> int \<Rightarrow> (int \<times> int) option" where
  "server_loop spec i e ipv6_terminator colon =
     (if i < e then
        (case rd spec i of
           None \<Rightarrow> None
         | Some c \<Rightarrow>
             server_loop spec (i + 1) e
               (if c = CHR '']'' then i else ipv6_terminator)
               (if c = CHR '':'' then i else colon))
      else Some (ipv6_terminator, colon))"
  by pat_completeness auto
termination
  by (relation "measure (\<lambda>(s, i, e, t, c). nat (e - i))") auto

declare server_loop.simps [simp del]

definition ParseServerInfo :: "string \<Rightarrow> Component \<Rightarrow> (Component \<times> Component) option" where
  "ParseServerInfo spec serverinfo =
     (if clen serverinfo = 0 then Some (no_Component, no_Component)
      else
        do {
          c0 \<leftarrow> rd spec (cbegin serverinfo);
          let ipv6_terminator = (if c0 = CHR ''['' then cend serverinfo else -1);
          (ipv6_terminator, colon) \<leftarrow>
            server_loop spec (cbegin serverinfo) (cend serverinfo) ipv6_terminator (-1);
          if colon > ipv6_terminator then
            (let hostname = MakeRange (cbegin serverinfo) colon in
             Some (if clen hostname = 0 then creset hostname else hostname,
                   MakeRange (colon + 1) (cend serverinfo)))
          else Some (serverinfo, no_Component)
        })"

text \<open>DoParseAuthority: username, password, host name and port.\<close>

definition DoParseAuthority ::
  "string \<Rightarrow> Component \<Rightarrow> (Component \<times> Component \<times> Component \<times> Component) option" where
  "DoParseAuthority spec auth =
     (if clen auth = 0 then Some (no_Component, no_Component, no_Component, no_Component)
      else
        do {
          i \<leftarrow> scan_bwd (\<lambda>c. c = CHR ''@'') spec (cbegin auth + clen auth - 1) (cbegin auth);
          c \<leftarrow> rd spec i;
          if c = CHR ''@'' then
            do {
              (u, p) \<leftarrow> ParseUserInfo spec (mk_Component (cbegin auth) (i - cbegin auth));
              (h, n) \<leftarrow> ParseServerInfo spec (MakeRange (i + 1) (cbegin auth + clen auth));
              Some (u, p, h, n)
            }
          else
            do {
              (h, n) \<leftarrow> ParseServerInfo spec auth;
              Some (no_Component, no_Component, h, n)
            }
        })"

section \<open>The path\<close>

function path_loop :: "string \<Rightarrow> int \<Rightarrow> int \<Rightarrow> int \<Rightarrow> int \<Rightarrow> (int \<times> int) option" where
  "path_loop spec i path_end query_separator ref_separator =
     (if i < path_end then
        (case rd spec i of
           None \<Rightarrow> None
         | Some c \<Rightarrow>
             path_loop spec (i + 1) path_end
               (if c = CHR ''?'' \<and> ref_separator < 0 \<and> query_separator < 0 then i
                else query_separator)
               (if c = CHR ''#'' \<and> ref_separator < 0 then i else ref_separator))
      else Some (query_separator, ref_separator))"
  by pat_completeness auto
termination
  by (relation "measure (\<lambda>(s, i, e, q, r). nat (e - i))") auto

declare path_loop.simps [simp del]

text \<open>ParsePath: file path, query and ref.\<close>

definition ParsePath :: "string \<Rightarrow> Component \<Rightarrow> (Component \<times> Component \<times> Component) option" where
  "ParsePath spec pth =
     (if clen pth = -1 then Some (no_Component, no_Component, no_Component)
      else
        do {
          let path_end = cbegin pth + clen pth;
          (query_separator, ref_separator) \<leftarrow> path_loop spec (cbegin pth) path_end (-1) (-1);
          let query_end = (if ref_separator \<ge> 0 then ref_separator else path_end);
          let rf = (if ref_separator \<ge> 0 then MakeRange (ref_separator + 1) path_end
                    else no_Component);
          let file_end = (if query_separator \<ge> 0 then query_separator else query_end);
          let qry = (if query_separator \<ge> 0 then MakeRange (query_separator + 1) query_end
                     else no_Component);
          Some (if file_end \<noteq> cbegin pth then MakeRange (cbegin pth) file_end else no_Component,
                qry, rf)
        })"

section \<open>Whole URLs\<close>

text \<open>DoExtractScheme: the return value and *scheme, which is left alone on failure.\<close>

definition DoExtractScheme :: "string \<Rightarrow> int \<Rightarrow> Component \<Rightarrow> (bool \<times> Component) option" where
  "DoExtractScheme url url_len sch =
     do {
       b \<leftarrow> scan_fwd (\<lambda>c. \<not> ShouldTrimFromURL c) url 0 url_len;
       if b = url_len then Some (False, sch)
       else
         do {
           i \<leftarrow> scan_fwd (\<lambda>c. c = CHR '':'') url b url_len;
           if i < url_len then Some (True, MakeRange b i) else Some (False, sch)
         }
     }"

definition DoParseAfterScheme :: "string \<Rightarrow> int \<Rightarrow> int \<Rightarrow> Parsed \<Rightarrow> Parsed option" where
  "DoParseAfterScheme spec spec_len after_scheme parsed =
     do {
       num_slashes \<leftarrow> CountConsecutiveSlashes spec after_scheme spec_len;
       let after_slashes = after_scheme + num_slashes;
       end_auth \<leftarrow> FindNextAuthorityTerminator spec after_slashes spec_len;
       let authority = mk_Component after_slashes (end_auth - after_slashes);
       let full_path = (if end_auth = spec_len then no_Component
                        else mk_Component end_auth (spec_len - end_auth));
       (u, p, h, n) \<leftarrow> DoParseAuthority spec authority;
       (f, q, r) \<leftarrow> ParsePath spec full_path;
       Some (parsed\<lparr>username := u, password := p, host := h, port := n,
                    path := f, query := q, ref := r\<rparr>)
     }"

definition ParseStandardURL :: "string \<Rightarrow> int \<Rightarrow> Parsed \<Rightarrow> Parsed option" where
  "ParseStandardURL spec spec_len parsed =
     do {
       (b, l) \<leftarrow> TrimURL spec 0 spec_len;
       (ok, sch) \<leftarrow> DoExtractScheme spec l (scheme parsed);
       if ok then
         DoParseAfterScheme spec l (cend sch + 1) (parsed\<lparr>scheme := sch\<rparr>)
       else
         DoParseAfterScheme spec l b (parsed\<lparr>scheme := creset (scheme parsed)\<rparr>)
     }"

definition ParsePathURL :: "string \<Rightarrow> int \<Rightarrow> Parsed \<Rightarrow> Parsed option" where
  "ParsePathURL spec spec_len parsed0 =
     (let parsed = parsed0\<lparr>username := no_Component, password := no_Component,
            host := no_Component, port := no_Component, query := no_Component,
            ref := no_Component\<rparr>
      in do {
       (b, l) \<leftarrow> TrimURL spec 0 spec_len;
       if b = l then Some (parsed\<lparr>scheme := no_Component, path := no_Component\<rparr>)
       else
         do {
           (ok, sch) \<leftarrow> DoExtractScheme (drop (nat b) spec) (l - b) (scheme parsed);
           if ok then
             (let sch' = sch\<lparr>cbegin := cbegin sch + b\<rparr> in
              Some (parsed\<lparr>scheme := sch',
                path := (if cend sch' = l - 1 then no_Component
                         else MakeRange (cend sch' + 1) l)\<rparr>))
           else Some (parsed\<lparr>scheme := no_Component, path := MakeRange b l\<rparr>)
         }
     })"

definition ParseMailtoURL :: "string \<Rightarrow> int \<Rightarrow> Parsed \<Rightarrow> Parsed option" where
  "ParseMailtoURL spec spec_len parsed0 =
     (let parsed = parsed0\<lparr>username := no_Component, password := no_Component,
            host := no_Component, port := no_Component, ref := no_Component,
            query := no_Component\<rparr>
      in do {
       (b, l) \<leftarrow> TrimURL spec 0 spec_len;
       if b = l then Some (parsed\<lparr>scheme := no_Component, path := no_Component\<rparr>)
       else
         do {
           (ok, sch) \<leftarrow> DoExtractScheme (drop (nat b) spec) (l - b) (scheme parsed);
           let sch' = (if ok then sch\<lparr>cbegin := cbegin sch + b\<rparr> else no_Component);
           let (path_begin, path_end) =
             (if ok then (if cend sch' \<noteq> l - 1 then (cend sch' + 1, l) else (-1, -1))
              else (b, l));
           i \<leftarrow> scan_fwd (\<lambda>c. c = CHR ''?'') spec path_begin path_end;
           let qry = (if i < path_end then MakeRange (i + 1) path_end else query parsed);
           let path_end = (if i < path_end then i else path_end);
           Some (parsed\<lparr>scheme := sch', query := qry,
             path := (if path_begin = path_end then no_Component
                      else MakeRange path_begin path_end)\<rparr>)
         }
     })"

section \<open>Port numbers\<close>

definition PORT_UNSPECIFIED :: int where "PORT_UNSPECIFIED = -1"

definition PORT_INVALID :: int where "PORT_INVALID = -2"

text \<open>The copy loop of DoParsePort: None is a read outside, Some None a bad digit.\<close>

fun port_digits :: "string \<Rightarrow> int \<Rightarrow> nat \<Rightarrow> string option option" where
  "port_digits spec b 0 = Some (Some [])"
| "port_digits spec b (Suc n) =
     (case rd spec b of
        None \<Rightarrow> None
      | Some ch \<Rightarrow>
          if \<not> IsPortDigit ch then Some None
          else map_option (map_option (\<lambda>ds. ch # ds)) (port_digits spec (b + 1) n))"

definition ParsePort :: "string \<Rightarrow> Component \<Rightarrow> int option" where
  "ParsePort spec component =
     (if \<not> is_nonempty component then Some PORT_UNSPECIFIED
      else
        do {
          i \<leftarrow> scan_fwd (\<lambda>c. c \<noteq> CHR ''0'') spec (cbegin component) (cend component);
          let digits_comp = (if i < cend component then MakeRange i (cend component)
                             else mk_Component (cend component) 0);
          if clen digits_comp = 0 then Some 0
          else if clen digits_comp > 5 then Some PORT_INVALID
          else
            do {
              ds \<leftarrow> port_digits spec (cbegin digits_comp) (nat (clen digits_comp));
              case ds of
                None \<Rightarrow> Some PORT_INVALID
              | Some digits \<Rightarrow>
                  (let p = atoi digits in Some (if p > 65535 then PORT_INVALID else p))
            }
        })"

section \<open>File name and query\<close>

definition ExtractFileName :: "string \<Rightarrow> Component \<Rightarrow> Component option" where
  "ExtractFileName spec pth =
     (if \<not> is_nonempty pth then Some no_Component
      else
        do {
          i \<leftarrow> scan_bwd (\<lambda>c. c = CHR '';'') spec (cend pth - 1) (cbegin pth);
          let file_end = (if i > cbegin pth then i else cend pth);
          j \<leftarrow> scan_bwd IsURLSlash spec (file_end - 1) (cbegin pth - 1);
          Some (if j \<ge> cbegin pth then MakeRange (j + 1) file_end
                else MakeRange (cbegin pth) file_end)
        })"

text \<open>
  ExtractQueryKeyValue: the return value and the new *query, *key and *value; nothing is
  stored when it returns false.
\<close>

definition ExtractQueryKeyValue ::
  "string \<Rightarrow> Component \<Rightarrow> Component \<Rightarrow> Component \<Rightarrow>
     (bool \<times> Component \<times> Component \<times> Component) option" where
  "ExtractQueryKeyValue spec qry key val =
     (if \<not> is_nonempty qry then Some (False, qry, key, val)
      else
        do {
          let start = cbegin qry;
          let e = cend qry;
          cur \<leftarrow> scan_fwd (\<lambda>c. c = CHR ''&'' \<or> c = CHR ''='') spec start e;
          let key = \<lparr>cbegin = start, clen = cur - start\<rparr>;
          cur \<leftarrow> (if cur < e
                  then map_option (\<lambda>c. if c = CHR ''='' then cur + 1 else cur) (rd spec cur)
                  else Some cur);
          let vbegin = cur;
          cur \<leftarrow> scan_fwd (\<lambda>c. c = CHR ''&'') spec cur e;
          let val = \<lparr>cbegin = vbegin, clen = cur - vbegin\<rparr>;
          cur \<leftarrow> (if cur < e
                  then map_option (\<lambda>c. if c = CHR ''&'' then cur + 1 else cur) (rd spec cur)
                  else Some cur);
          Some (True, MakeRange cur e, key, val)
        })"

section \<open>Counting characters\<close>

datatype ComponentType = SCHEME | USERNAME | PASSWORD | HOST | PORT | PATH | QUERY | REF

text \<open>The numeric order of the enumerators.\<close>

fun ctype_num :: "ComponentType \<Rightarrow> nat" where
  "ctype_num SCHEME = 0" | "ctype_num USERNAME = 1" | "ctype_num PASSWORD = 2"
| "ctype_num HOST = 3" | "ctype_num PORT = 4" | "ctype_num PATH = 5"
| "ctype_num QUERY = 6" | "ctype_num REF = 7"

instantiation ComponentType :: linorder
begin

definition less_eq_ComponentType :: "ComponentType \<Rightarrow> ComponentType \<Rightarrow> bool" where
  "less_eq_ComponentType a b = (ctype_num a \<le> ctype_num b)"

definition less_ComponentType :: "ComponentType \<Rightarrow> ComponentType \<Rightarrow> bool" where
  "less_ComponentType a b = (ctype_num a < ctype_num b)"

instance
proof
  fix a b :: ComponentType
  assume "a \<le> b" "b \<le> a"
  then show "a = b"
    by (cases a; cases b) (auto simp: less_eq_ComponentType_def)
qed (auto simp: less_eq_ComponentType_def less_ComponentType_def)

end

definition CountCharactersBefore :: "Parsed \<Rightarrow> ComponentType \<Rightarrow> bool \<Rightarrow> int" where
  "CountCharactersBefore p ty include_delimiter =
     (if ty = SCHEME then cbegin (scheme p)
      else
        (let cur = (if is_valid (scheme p) then cend (scheme p) + 1 else 0) in
         if is_valid (username p) \<and> ty \<le> USERNAME then cbegin (username p)
         else
        (let cur = (if is_valid (username p) then cend (username p) + 1 else cur) in
         if is_valid (password p) \<and> ty \<le> PASSWORD then cbegin (password p)
         else
        (let cur = (if is_valid (password p) then cend (password p) + 1 else cur) in
         if is_valid (host p) \<and> ty \<le> HOST then cbegin (host p)
         else
        (let cur = (if is_valid (host p) then cend (host p) else cur) in
         if is_valid (port p) \<and> (ty < PORT \<or> (ty = PORT \<and> include_delimiter))
         then cbegin (port p) - 1
         else if is_valid (port p) \<and> ty = PORT then cbegin (port p)
         else
        (let cur = (if is_valid (port p) then cend (port p) else cur) in
         if is_valid (path p) \<and> ty \<le> PATH then cbegin (path p)
         else
        (let cur = (if is_valid (path p) then cend (path p) else cur) in
         if is_valid (query p) \<and> (ty < QUERY \<or> (ty = QUERY \<and> include_delimiter))
         then cbegin (query p) - 1
         else if is_valid (query p) \<and> ty = QUERY then cbegin (query p)
         else
        (let cur = (if is_valid (query p) then cend (query p) else cur) in
         if is_valid (ref p) \<and> ty = REF \<and> \<not> include_delimiter then cbegin (ref p)
         else if is_valid (ref p) then cbegin (ref p) - 1
         else cur))))))))"

definition Parsed_Length :: "Parsed \<Rightarrow> int" where
  "Parsed_Length p =
     (if is_valid (ref p) then cend (ref p) else CountCharactersBefore p REF False)"

section \<open>Every read is inside the buffer, every component too\<close>

definition comp_in :: "Component \<Rightarrow> int \<Rightarrow> int \<Rightarrow> bool" where
  "comp_in c lo hi = (c = no_Component \<or> (lo \<le> cbegin c \<and> 0 \<le> clen c \<and> cend c \<le> hi))"

lemmas comp_defs = mk_Component_def MakeRange_def cend_def is_valid_def is_nonempty_def

lemma comp_in_no [simp]: "comp_in no_Component lo hi"
  by (simp add: comp_in_def)

lemma comp_in_mk [simp]: "lo \<le> b \<Longrightarrow> 0 \<le> l \<Longrightarrow> b + l \<le> hi \<Longrightarrow> comp_in (mk_Component b l) lo hi"
  by (simp add: comp_in_def mk_Component_def cend_def)

lemma comp_in_range [simp]: "lo \<le> b \<Longrightarrow> b \<le> e \<Longrightarrow> e \<le> hi \<Longrightarrow> comp_in (MakeRange b e) lo hi"
  by (simp add: MakeRange_def)

lemma comp_in_mono: "comp_in c lo hi \<Longrightarrow> lo' \<le> lo \<Longrightarrow> hi \<le> hi' \<Longrightarrow> comp_in c lo' hi'"
  by (auto simp: comp_in_def)

lemma comp_in_valid:
  "comp_in c lo hi \<Longrightarrow> is_valid c \<Longrightarrow> lo \<le> cbegin c \<and> 0 \<le> clen c \<and> cend c \<le> hi"
  by (auto simp: comp_in_def is_valid_def no_Component_def)

lemma server_loop_total:
  assumes "0 \<le> i" and "e \<le> int (length spec)"
  shows "\<exists>t' c'. server_loop spec i e t c = Some (t', c') \<and>
           (t' = t \<or> i \<le> t' \<and> t' < e) \<and> (c' = c \<or> i \<le> c' \<and> c' < e)"
  using assms
proof (induction spec i e t c rule: server_loop.induct)
  case (1 spec i e t c)
  show ?case
  proof (cases "i < e")
    case True
    then have r: "rd spec i = Some (spec ! nat i)" using "1.prems" by simp
    have "0 \<le> i + 1" using "1.prems" by simp
    from "1.IH" [OF True r this "1.prems"(2)] obtain t' c' where
      step: "server_loop spec (i + 1) e (if spec ! nat i = CHR '']'' then i else t)
               (if spec ! nat i = CHR '':'' then i else c) = Some (t', c')"
      and t': "t' = (if spec ! nat i = CHR '']'' then i else t) \<or> i + 1 \<le> t' \<and> t' < e"
      and c': "c' = (if spec ! nat i = CHR '':'' then i else c) \<or> i + 1 \<le> c' \<and> c' < e"
      by blast
    from step True r have "server_loop spec i e t c = Some (t', c')"
      by (subst server_loop.simps) simp
    moreover have "t' = t \<or> i \<le> t' \<and> t' < e" using t' True by (auto split: if_splits)
    moreover have "c' = c \<or> i \<le> c' \<and> c' < e" using c' True by (auto split: if_splits)
    ultimately show ?thesis by blast
  next
    case False
    then show ?thesis by (subst server_loop.simps) simp
  qed
qed

lemma path_loop_total:
  assumes "0 \<le> i" and "e \<le> int (length spec)"
  shows "\<exists>q' r'. path_loop spec i e q r = Some (q', r') \<and>
           (q' = q \<or> i \<le> q' \<and> q' < e \<and> (0 \<le> r' \<longrightarrow> q' < r')) \<and>
           (r' = r \<or> i \<le> r' \<and> r' < e)"
  using assms
proof (induction spec i e q r rule: path_loop.induct)
  case (1 spec i e q r)
  show ?case
  proof (cases "i < e")
    case True
    then have rdi: "rd spec i = Some (spec ! nat i)" using "1.prems" by simp
    have "0 \<le> i + 1" using "1.prems" by simp
    let ?q = "if spec ! nat i = CHR ''?'' \<and> r < 0 \<and> q < 0 then i else q"
    let ?r = "if spec ! nat i = CHR ''#'' \<and> r < 0 then i else r"
    from "1.IH" [OF True rdi \<open>0 \<le> i + 1\<close> "1.prems"(2)] obtain q' r' where
      step: "path_loop spec (i + 1) e ?q ?r = Some (q', r')"
      and q': "q' = ?q \<or> i + 1 \<le> q' \<and> q' < e \<and> (0 \<le> r' \<longrightarrow> q' < r')"
      and r': "r' = ?r \<or> i + 1 \<le> r' \<and> r' < e"
      by blast
    from step True rdi have "path_loop spec i e q r = Some (q', r')"
      by (subst path_loop.simps) simp
    moreover have "q' = q \<or> i \<le> q' \<and> q' < e \<and> (0 \<le> r' \<longrightarrow> q' < r')"
      using q' r' True by (auto split: if_splits)
    moreover have "r' = r \<or> i \<le> r' \<and> r' < e" using r' True by (auto split: if_splits)
    ultimately show ?thesis by blast
  next
    case False
    then show ?thesis by (subst path_loop.simps) simp
  qed
qed

lemma ParseUserInfo_total:
  assumes "0 \<le> cbegin user" and "0 \<le> clen user" and "cend user \<le> int (length spec)"
  shows "\<exists>u p. ParseUserInfo spec user = Some (u, p) \<and>
           comp_in u (cbegin user) (cend user) \<and> comp_in p (cbegin user) (cend user)"
proof -
  from scan_fwd_spec [of "cbegin user" "cbegin user + clen user" spec "\<lambda>c. c = CHR '':''"] assms
  obtain i where i: "scan_fwd (\<lambda>c. c = CHR '':'') spec (cbegin user) (cbegin user + clen user) = Some i"
    "cbegin user \<le> i" "i \<le> cbegin user + clen user"
    by (auto simp: cend_def)
  with assms show ?thesis
    by (auto simp: ParseUserInfo_def comp_in_def comp_defs Let_def)
qed

lemma ParseServerInfo_total:
  assumes "0 \<le> cbegin sv" and "0 \<le> clen sv" and "cend sv \<le> int (length spec)"
  shows "\<exists>h n. ParseServerInfo spec sv = Some (h, n) \<and>
           comp_in h (cbegin sv) (cend sv) \<and> comp_in n (cbegin sv) (cend sv)"
proof (cases "clen sv = 0")
  case True
  then show ?thesis by (simp add: ParseServerInfo_def)
next
  case False
  with assms have r: "rd spec (cbegin sv) = Some (spec ! nat (cbegin sv))"
    by (simp add: cend_def)
  let ?t0 = "if spec ! nat (cbegin sv) = CHR ''['' then cend sv else -1"
  from server_loop_total [OF assms(1,3), of ?t0 "-1"] obtain t c where
    loop: "server_loop spec (cbegin sv) (cend sv) ?t0 (-1) = Some (t, c)"
    and t: "t = ?t0 \<or> cbegin sv \<le> t \<and> t < cend sv" and c: "c = -1 \<or> cbegin sv \<le> c \<and> c < cend sv"
    by blast
  have "-1 \<le> t" using t assms by (auto simp: cend_def split: if_splits)
  with c loop r False assms show ?thesis
    by (auto simp: ParseServerInfo_def Let_def comp_in_def comp_defs)
qed

lemma DoParseAuthority_total:
  assumes "0 \<le> cbegin auth" and "0 \<le> clen auth" and "cend auth \<le> int (length spec)"
  shows "\<exists>u p h n. DoParseAuthority spec auth = Some (u, p, h, n) \<and>
           comp_in u (cbegin auth) (cend auth) \<and> comp_in p (cbegin auth) (cend auth) \<and>
           comp_in h (cbegin auth) (cend auth) \<and> comp_in n (cbegin auth) (cend auth)"
proof (cases "clen auth = 0")
  case True
  then show ?thesis by (simp add: DoParseAuthority_def)
next
  case False
  let ?b = "cbegin auth" and ?e = "cbegin auth + clen auth"
  have "-1 \<le> ?b" "?b \<le> ?e - 1" "?e - 1 < int (length spec)"
    using False assms by (auto simp: cend_def)
  from scan_bwd_spec [OF this, of "\<lambda>c. c = CHR ''@''"] obtain i where
    i: "scan_bwd (\<lambda>c. c = CHR ''@'') spec (?e - 1) ?b = Some i" "?b \<le> i" "i \<le> ?e - 1"
    by blast
  have r: "rd spec i = Some (spec ! nat i)"
    using i assms by (simp add: cend_def)
  show ?thesis
  proof (cases "spec ! nat i = CHR ''@''")
    case True
    let ?user = "mk_Component ?b (i - ?b)" and ?sv = "MakeRange (i + 1) ?e"
    from ParseUserInfo_total [of ?user spec] i assms obtain u p where
      u: "ParseUserInfo spec ?user = Some (u, p)" "comp_in u ?b i" "comp_in p ?b i"
      by (auto simp: comp_defs)
    from ParseServerInfo_total [of ?sv spec] i assms obtain h n where
      h: "ParseServerInfo spec ?sv = Some (h, n)" "comp_in h (i + 1) ?e" "comp_in n (i + 1) ?e"
      by (auto simp: comp_defs)
    have "comp_in u ?b ?e" "comp_in p ?b ?e" "comp_in h ?b ?e" "comp_in n ?b ?e"
      using u(2,3) h(2,3) i(2,3) by (auto elim!: comp_in_mono)
    with u(1) h(1) i(1) r True False show ?thesis
      by (simp add: DoParseAuthority_def cend_def)
  next
    case no: False
    from ParseServerInfo_total [OF assms] obtain h n where
      "ParseServerInfo spec auth = Some (h, n)"
      "comp_in h ?b (cend auth)" "comp_in n ?b (cend auth)"
      by blast
    with i(1) r no False show ?thesis by (simp add: DoParseAuthority_def)
  qed
qed

lemma ParsePath_total:
  assumes "pth = no_Component \<or> (0 \<le> cbegin pth \<and> 0 \<le> clen pth \<and> cend pth \<le> int (length spec))"
  shows "\<exists>f q r. ParsePath spec pth = Some (f, q, r) \<and> comp_in f (cbegin pth) (cend pth) \<and>
           comp_in q (cbegin pth) (cend pth) \<and> comp_in r (cbegin pth) (cend pth)"
proof (cases "clen pth = -1")
  case True
  then show ?thesis by (simp add: ParsePath_def)
next
  case False
  with assms have p: "0 \<le> cbegin pth" "0 \<le> clen pth" "cend pth \<le> int (length spec)"
    by (auto simp: no_Component_def)
  from path_loop_total [OF p(1,3), of "-1" "-1"] obtain q r where
    loop: "path_loop spec (cbegin pth) (cend pth) (-1) (-1) = Some (q, r)"
    and q: "q = -1 \<or> cbegin pth \<le> q \<and> q < cend pth \<and> (0 \<le> r \<longrightarrow> q < r)"
    and r: "r = -1 \<or> cbegin pth \<le> r \<and> r < cend pth"
    by blast
  from loop False p q r show ?thesis
    by (auto simp: ParsePath_def Let_def cend_def comp_in_def comp_defs)
qed

lemma DoParseAfterScheme_total:
  assumes "0 \<le> a" and "a \<le> l" and "l \<le> int (length spec)"
  shows "\<exists>p'. DoParseAfterScheme spec l a p = Some p' \<and> scheme p' = scheme p \<and>
           comp_in (username p') a l \<and> comp_in (password p') a l \<and> comp_in (host p') a l \<and>
           comp_in (port p') a l \<and> comp_in (path p') a l \<and> comp_in (query p') a l \<and>
           comp_in (ref p') a l"
proof -
  from scan_fwd_spec [OF assms, of "\<lambda>c. \<not> IsURLSlash c"] obtain i where
    i: "scan_fwd (\<lambda>c. \<not> IsURLSlash c) spec a l = Some i" "a \<le> i" "i \<le> l"
    by blast
  then have "0 \<le> i" using assms by simp
  from scan_fwd_spec [OF this i(3) assms(3), of IsAuthorityTerminator] obtain j where
    j: "scan_fwd IsAuthorityTerminator spec i l = Some j" "i \<le> j" "j \<le> l"
    by blast
  let ?auth = "mk_Component i (j - i)"
  let ?full = "if j = l then no_Component else mk_Component j (l - j)"
  from DoParseAuthority_total [of ?auth spec] i j assms obtain u p2 h n where
    auth: "DoParseAuthority spec ?auth = Some (u, p2, h, n)"
      "comp_in u i j" "comp_in p2 i j" "comp_in h i j" "comp_in n i j"
    by (auto simp: comp_defs)
  have "?full = no_Component \<or> 0 \<le> cbegin ?full \<and> 0 \<le> clen ?full \<and> cend ?full \<le> int (length spec)"
    using i j assms by (simp add: comp_defs)
  from ParsePath_total [OF this] obtain f q r where
    pth: "ParsePath spec ?full = Some (f, q, r)" "comp_in f (cbegin ?full) (cend ?full)"
      "comp_in q (cbegin ?full) (cend ?full)" "comp_in r (cbegin ?full) (cend ?full)"
    by blast
  have full: "comp_in c (cbegin ?full) (cend ?full) \<Longrightarrow> comp_in c a l" for c
    using i(2) j(2,3) by (auto simp: comp_defs no_Component_def comp_in_def split: if_splits)
  have au: "comp_in c i j \<Longrightarrow> comp_in c a l" for c
    using i(2) j(3) by (auto elim!: comp_in_mono)
  have eq: "DoParseAfterScheme spec l a p =
      Some (p\<lparr>username := u, password := p2, host := h, port := n, path := f, query := q, ref := r\<rparr>)"
  proof (cases "j = l")
    case True
    with i(1) j(1) auth(1) pth(1) show ?thesis
      by (simp add: DoParseAfterScheme_def CountConsecutiveSlashes_def
          FindNextAuthorityTerminator_def Let_def)
  next
    case False
    with i(1) j(1,3) auth(1) pth(1) show ?thesis
      by (simp add: DoParseAfterScheme_def CountConsecutiveSlashes_def
          FindNextAuthorityTerminator_def Let_def)
  qed
  show ?thesis
    unfolding eq using au [OF auth(2)] au [OF auth(3)] au [OF auth(4)] au [OF auth(5)]
      full [OF pth(2)] full [OF pth(3)] full [OF pth(4)] by simp
qed

lemma TrimURL_total:
  assumes "0 \<le> l" and "l \<le> int (length spec)"
  shows "\<exists>b e. TrimURL spec 0 l = Some (b, e) \<and> 0 \<le> b \<and> b \<le> e \<and> e \<le> l"
proof -
  from scan_fwd_spec [of 0 l spec "\<lambda>c. \<not> ShouldTrimFromURL c"] assms obtain b where
    b: "scan_fwd (\<lambda>c. \<not> ShouldTrimFromURL c) spec 0 l = Some b" "0 \<le> b" "b \<le> l"
    by auto
  from scan_bwd_spec [of "b - 1" "l - 1" spec "\<lambda>c. \<not> ShouldTrimFromURL c"] b assms obtain i where
    "scan_bwd (\<lambda>c. \<not> ShouldTrimFromURL c) spec (l - 1) (b - 1) = Some i" "b - 1 \<le> i" "i \<le> l - 1"
    by auto
  with b show ?thesis by (simp add: TrimURL_def)
qed

lemma DoExtractScheme_total:
  assumes "0 \<le> l" and "l \<le> int (length url)"
  shows "\<exists>ok c. DoExtractScheme url l sch = Some (ok, c) \<and>
           (if ok then 0 \<le> cbegin c \<and> 0 \<le> clen c \<and> cend c < l else c = sch)"
proof -
  from scan_fwd_spec [of 0 l url "\<lambda>c. \<not> ShouldTrimFromURL c"] assms obtain b where
    b: "scan_fwd (\<lambda>c. \<not> ShouldTrimFromURL c) url 0 l = Some b" "0 \<le> b" "b \<le> l"
    by auto
  from scan_fwd_spec [of b l url "\<lambda>c. c = CHR '':''"] b assms obtain i where
    "scan_fwd (\<lambda>c. c = CHR '':'') url b l = Some i" "b \<le> i" "i \<le> l"
    by auto
  with b show ?thesis
    by (auto simp: DoExtractScheme_def comp_defs)
qed

text \<open>C9: ParseStandardURL never reads outside the buffer it is given: for every length up to
  the buffer's it returns, and every component it stores is either unspecified or lies
  inside the first spec_len characters, whatever the Parsed object held before.\<close>

theorem ParseStandardURL_in_bounds:
  assumes "0 \<le> l" and "l \<le> int (length spec)"
  shows "\<exists>p'. ParseStandardURL spec l p = Some p' \<and>
           (\<forall>f \<in> {scheme, username, password, host, port, path, query, ref}. comp_in (f p') 0 l)"
proof -
  from TrimURL_total [OF assms] obtain b e where
    be: "TrimURL spec 0 l = Some (b, e)" "0 \<le> b" "b \<le> e" "e \<le> l" by blast
  then have e: "0 \<le> e" "e \<le> int (length spec)" using assms by auto
  from DoExtractScheme_total [OF e, of "scheme p"] obtain ok c where
    c: "DoExtractScheme spec e (scheme p) = Some (ok, c)"
      "if ok then 0 \<le> cbegin c \<and> 0 \<le> clen c \<and> cend c < e else c = scheme p" by blast
  let ?a = "if ok then cend c + 1 else b"
  let ?p = "p\<lparr>scheme := if ok then c else no_Component\<rparr>"
  have a: "0 \<le> ?a" "?a \<le> e" using c(2) be by (auto simp: cend_def split: if_splits)
  have sch: "comp_in (scheme ?p) 0 l"
    using c(2) be(4) by (auto simp: comp_in_def)
  from DoParseAfterScheme_total [OF a e(2), of ?p] obtain p' where
    p': "DoParseAfterScheme spec e ?a ?p = Some p'" "scheme p' = scheme ?p"
      "comp_in (username p') ?a e" "comp_in (password p') ?a e" "comp_in (host p') ?a e"
      "comp_in (port p') ?a e" "comp_in (path p') ?a e" "comp_in (query p') ?a e"
      "comp_in (ref p') ?a e" by blast
  have "ParseStandardURL spec l p = Some p'"
    using be(1) c(1) p'(1) by (auto simp: ParseStandardURL_def split: if_splits)
  moreover have "comp_in x ?a e \<Longrightarrow> comp_in x 0 l" for x
    using a be(4) by (auto elim!: comp_in_mono simp del: comp_in_mk)
  ultimately show ?thesis using p' sch by auto
qed

theorem ParseStandardURL_in_bounds_witness:
  "\<exists>p'. ParseStandardURL ''rssl://h:1/S'' 12 new_Parsed = Some p' \<and>
     (\<forall>f \<in> {scheme, username, password, host, port, path, query, ref}. comp_in (f p') 0 12)"
  by (rule ParseStandardURL_in_bounds) simp_all

end
