(* ===== verification/Url_Props.thy ===== *)
theory Url_Props
  imports Url_Parse
begin

text \<open>
  What the URL parser computes: printing the parts of a URL and parsing the text gives the
  parts back, the value of a port number, and the result does not depend on what the Parsed
  object held. The abstract syntax of a URL here is the reference the parser is checked
  against.
\<close>

section \<open>Abstract syntax and its text\<close>

record UrlParts =
  u_scheme :: string
  u_user :: "(string \<times> string option) option"
  u_host :: string
  u_port :: "string option"
  u_path :: string
  u_query :: "string option"
  u_ref :: "string option"

fun opt_text :: "char \<Rightarrow> string option \<Rightarrow> string" where
  "opt_text d None = []"
| "opt_text d (Some s) = d # s"

fun user_text :: "(string \<times> string option) option \<Rightarrow> string" where
  "user_text None = []"
| "user_text (Some (n, p)) = n @ opt_text (CHR '':'') p @ ''@''"

definition server_text :: "UrlParts \<Rightarrow> string" where
  "server_text u = u_host u @ opt_text (CHR '':'') (u_port u)"

definition path_text :: "UrlParts \<Rightarrow> string" where
  "path_text u = u_path u @ opt_text (CHR ''?'') (u_query u) @ opt_text (CHR ''#'') (u_ref u)"

definition url_text :: "UrlParts \<Rightarrow> string" where
  "url_text u = u_scheme u @ ''://'' @ user_text (u_user u) @ server_text u @ path_text u"

definition part_ok :: "(char \<Rightarrow> bool) \<Rightarrow> string \<Rightarrow> bool" where
  "part_ok P s = list_all (\<lambda>c. \<not> ShouldTrimFromURL c \<and> \<not> P c) s"

definition host_ok :: "string \<Rightarrow> bool" where
  "host_ok h =
     (h \<noteq> [] \<and> (hd h = CHR ''['' \<longrightarrow> CHR '']'' \<in> set h) \<and>
      (CHR '':'' \<in> set h \<longrightarrow> List.last h = CHR '']''))"

definition url_ok :: "UrlParts \<Rightarrow> bool" where
  "url_ok u =
     (part_ok (\<lambda>c. c = CHR '':'') (u_scheme u) \<and>
      (case u_user u of
         None \<Rightarrow> True
       | Some (n, p) \<Rightarrow>
           part_ok (\<lambda>c. c = CHR '':'' \<or> IsAuthorityTerminator c) n \<and>
           (case p of None \<Rightarrow> True | Some p \<Rightarrow> part_ok IsAuthorityTerminator p)) \<and>
      host_ok (u_host u) \<and>
      part_ok (\<lambda>c. c = CHR ''@'' \<or> IsAuthorityTerminator c) (u_host u) \<and>
      (case u_port u of
         None \<Rightarrow> True
       | Some p \<Rightarrow>
           part_ok (\<lambda>c. c = CHR ''@'' \<or> c = CHR '':'' \<or> c = CHR '']'' \<or> IsAuthorityTerminator c) p) \<and>
      (u_path u \<noteq> [] \<longrightarrow> IsURLSlash (hd (u_path u))) \<and>
      part_ok (\<lambda>c. c = CHR ''?'' \<or> c = CHR ''#'') (u_path u) \<and>
      (case u_query u of None \<Rightarrow> True | Some q \<Rightarrow> part_ok (\<lambda>c. c = CHR ''#'') q) \<and>
      (case u_ref u of None \<Rightarrow> True | Some r \<Rightarrow> part_ok (\<lambda>c. False) r))"

text \<open>The text a component denotes, None for an unspecified one.\<close>

definition ctext :: "string \<Rightarrow> Component \<Rightarrow> string option" where
  "ctext s c = (if is_valid c then Some (slice s (cbegin c) (cend c)) else None)"

definition unprint :: "string \<Rightarrow> Parsed \<Rightarrow> UrlParts" where
  "unprint s p =
     \<lparr>u_scheme = the_default [] (ctext s (scheme p)),
      u_user = map_option (\<lambda>n. (n, ctext s (password p))) (ctext s (username p)),
      u_host = the_default [] (ctext s (host p)),
      u_port = ctext s (port p),
      u_path = the_default [] (ctext s (path p)),
      u_query = ctext s (query p),
      u_ref = ctext s (ref p)\<rparr>"

section \<open>Components of a concatenation\<close>

definition piece :: "string \<Rightarrow> string \<Rightarrow> Component" where
  "piece A X = mk_Component (int (length A)) (int (length X))"

lemma piece_simps [simp]:
  "cbegin (piece A X) = int (length A)" "clen (piece A X) = int (length X)"
  "cend (piece A X) = int (length A) + int (length X)" "is_valid (piece A X)"
  by (simp_all add: piece_def comp_defs)

lemma ctext_piece [simp]: "ctext (A @ X @ B) (piece A X) = Some X"
  by (simp add: ctext_def slice_append_mid)

lemma ctext_no [simp]: "ctext s no_Component = None"
  by (simp add: ctext_def is_valid_def no_Component_def)

lemma piece_range: "MakeRange (int (length A)) (int (length A) + int (length X)) = piece A X"
  by (simp add: piece_def MakeRange_def)


text \<open>The last position of a character, counted from i, or acc.\<close>

fun last_pos :: "char \<Rightarrow> int \<Rightarrow> string \<Rightarrow> int \<Rightarrow> int" where
  "last_pos d i [] acc = acc"
| "last_pos d i (c # cs) acc = last_pos d (i + 1) cs (if c = d then i else acc)"

lemma last_pos_notin [simp]: "d \<notin> set xs \<Longrightarrow> last_pos d i xs acc = acc"
  by (induction xs arbitrary: i acc) auto

lemma last_pos_append [simp]:
  "last_pos d i (xs @ ys) acc = last_pos d (i + int (length xs)) ys (last_pos d i xs acc)"
  by (induction xs arbitrary: i acc) (auto simp: algebra_simps)

lemma last_pos_bounds:
  "d \<in> set xs \<Longrightarrow> i \<le> last_pos d i xs acc \<and> last_pos d i xs acc < i + int (length xs)"
proof (induction xs arbitrary: i acc)
  case (Cons c cs)
  show ?case
  proof (cases "d \<in> set cs")
    case True
    from Cons.IH [OF this, of "i + 1" i] Cons.IH [OF this, of "i + 1" acc] show ?thesis by auto
  next
    case False
    with Cons.prems show ?thesis by auto
  qed
qed simp

lemma last_pos_last:
  "xs \<noteq> [] \<Longrightarrow> List.last xs = d \<Longrightarrow> last_pos d i xs acc = i + int (length xs) - 1"
  by (induction xs rule: rev_induct) auto

lemma last_pos_le:
  "acc < i \<Longrightarrow> last_pos d i xs acc < i + int (length xs)"
  by (cases "d \<in> set xs") (auto dest: last_pos_bounds)

lemma server_loop_app:
  "server_loop (A @ X @ B) (int (length A)) (int (length A) + int (length X)) t c =
     Some (last_pos (CHR '']'') (int (length A)) X t, last_pos (CHR '':'') (int (length A)) X c)"
proof (induction X arbitrary: A t c)
  case Nil
  then show ?case by (simp add: server_loop.simps)
next
  case (Cons x X)
  from Cons.IH [of "A @ [x]"] show ?case
    by (subst server_loop.simps) (simp add: nth_append algebra_simps)
qed

text \<open>The separators found by path_loop, as a function of the path text alone.\<close>

fun path_seps :: "int \<Rightarrow> string \<Rightarrow> int \<Rightarrow> int \<Rightarrow> int \<times> int" where
  "path_seps i [] q r = (q, r)"
| "path_seps i (c # cs) q r =
     path_seps (i + 1) cs (if c = CHR ''?'' \<and> r < 0 \<and> q < 0 then i else q)
       (if c = CHR ''#'' \<and> r < 0 then i else r)"

lemma path_loop_app:
  "path_loop (A @ X @ B) (int (length A)) (int (length A) + int (length X)) q r =
     Some (path_seps (int (length A)) X q r)"
proof (induction X arbitrary: A q r)
  case Nil
  then show ?case by (simp add: path_loop.simps)
next
  case (Cons x X)
  from Cons.IH [of "A @ [x]"] show ?case
    by (subst path_loop.simps) (simp add: nth_append algebra_simps)
qed

lemma path_seps_append:
  "path_seps i (xs @ ys) q r =
     (case path_seps i xs q r of (q', r') \<Rightarrow> path_seps (i + int (length xs)) ys q' r')"
  by (induction xs arbitrary: i q r) (auto simp: algebra_simps)

lemma path_seps_skip:
  "list_all (\<lambda>c. (c = CHR ''?'' \<longrightarrow> 0 \<le> r \<or> 0 \<le> q) \<and> (c = CHR ''#'' \<longrightarrow> 0 \<le> r)) xs \<Longrightarrow>
     path_seps i xs q r = (q, r)"
  by (induction xs arbitrary: i) auto

lemma path_seps_done: "0 \<le> r \<Longrightarrow> path_seps i xs q r = (q, r)"
  by (induction xs arbitrary: i) auto

section \<open>The sub-parsers on printed text\<close>

lemma part_ok_imp: "part_ok P s \<Longrightarrow> c \<in> set s \<Longrightarrow> \<not> P c \<and> \<not> ShouldTrimFromURL c"
  by (auto simp: part_ok_def list_all_iff)

lemma ParseUserInfo_text:
  assumes "CHR '':'' \<notin> set n"
  shows "ParseUserInfo (A @ (n @ opt_text (CHR '':'') p) @ B) (piece A (n @ opt_text (CHR '':'') p)) =
           Some (piece A n, case p of None \<Rightarrow> no_Component | Some p' \<Rightarrow> piece (A @ n @ '':'') p')"
proof (cases p)
  case None
  have "scan_fwd (\<lambda>c. c = CHR '':'') (A @ n @ B) (int (length A)) (int (length A) + int (length n)) =
          Some (int (length A) + int (length n))"
    by (rule scan_fwd_app_none) (use assms in auto)
  with None show ?thesis by (simp add: ParseUserInfo_def)
next
  case (Some p')
  have "scan_fwd (\<lambda>c. c = CHR '':'') (A @ n @ CHR '':'' # (p' @ B)) (int (length A))
           (int (length A) + int (length (n @ CHR '':'' # p'))) =
          Some (int (length A) + int (length n))"
    by (rule scan_fwd_app) (use assms in auto)
  with Some show ?thesis
    by (simp add: ParseUserInfo_def piece_def MakeRange_def mk_Component_def Let_def)
qed

lemma ParseServerInfo_text:
  assumes "host_ok h" and "\<And>q. p = Some q \<Longrightarrow> CHR '':'' \<notin> set q \<and> CHR '']'' \<notin> set q"
  shows "ParseServerInfo (A @ (h @ opt_text (CHR '':'') p) @ B) (piece A (h @ opt_text (CHR '':'') p)) =
           Some (piece A h, case p of None \<Rightarrow> no_Component | Some q \<Rightarrow> piece (A @ h @ '':'') q)"
proof -
  let ?X = "h @ opt_text (CHR '':'') p" and ?a = "int (length A)"
  let ?init = "if hd h = CHR ''['' then cend (piece A ?X) else -1"
  let ?t = "last_pos (CHR '']'') ?a h ?init" and ?c = "last_pos (CHR '':'') ?a h (-1)"
  obtain x h' where h: "h = x # h'" using assms(1) by (cases h) (auto simp: host_ok_def)
  have h0: "h \<noteq> []" using h by simp
  have r: "rd (A @ ?X @ B) ?a = Some (hd h)" using h by (simp add: nth_append)
  have t_lt: "?t < ?a + int (length h)"
  proof (cases "CHR '']'' \<in> set h")
    case True
    then show ?thesis using last_pos_bounds [OF True, of ?a ?init] by simp
  next
    case False
    then show ?thesis using assms(1) h by (auto simp: host_ok_def)
  qed
  have loop: "server_loop (A @ ?X @ B) ?a (?a + int (length ?X)) ?init (-1) =
      Some (last_pos (CHR '']'') ?a ?X ?init, last_pos (CHR '':'') ?a ?X (-1))"
    by (rule server_loop_app)
  show ?thesis
  proof (cases p)
    case None
    have "?c \<le> ?t"
    proof (cases "CHR '':'' \<in> set h")
      case True
      then have "?t = ?a + int (length h) - 1"
        using assms(1) by (intro last_pos_last) (auto simp: host_ok_def)
      then show ?thesis using last_pos_bounds [OF True, of ?a "-1"] by simp
    next
      case False
      then have "?c = -1" by simp
      moreover have "-1 \<le> ?t"
      proof (cases "CHR '']'' \<in> set h")
        case True
        then show ?thesis using last_pos_bounds [OF True, of ?a ?init] by simp
      qed simp
      ultimately show ?thesis by simp
    qed
    with None loop r h0 show ?thesis
      by (cases "hd h = CHR ''[''") (simp_all add: ParseServerInfo_def)
  next
    case (Some q)
    with assms(2) [OF Some] have
      "last_pos (CHR '']'') ?a ?X ?init = ?t" "last_pos (CHR '':'') ?a ?X (-1) = ?a + int (length h)"
      by simp_all
    with Some loop r h0 t_lt show ?thesis
      by (cases "hd h = CHR ''[''")
        (simp_all add: ParseServerInfo_def piece_def comp_defs Let_def)
  qed
qed


definition user_comp :: "string \<Rightarrow> (string \<times> string option) option \<Rightarrow> Component" where
  "user_comp A us = (case us of None \<Rightarrow> no_Component | Some (n, _) \<Rightarrow> piece A n)"

definition pass_comp :: "string \<Rightarrow> (string \<times> string option) option \<Rightarrow> Component" where
  "pass_comp A us =
     (case us of Some (n, Some w) \<Rightarrow> piece (A @ n @ '':'') w | _ \<Rightarrow> no_Component)"

definition opt_comp :: "string \<Rightarrow> string option \<Rightarrow> Component" where
  "opt_comp A p = (case p of None \<Rightarrow> no_Component | Some q \<Rightarrow> piece A q)"

lemma DoParseAuthority_text:
  assumes user: "case us of None \<Rightarrow> True | Some (n, _) \<Rightarrow> CHR '':'' \<notin> set n"
    and host: "host_ok h" "CHR ''@'' \<notin> set h"
    and port: "\<And>q. p = Some q \<Longrightarrow> CHR '':'' \<notin> set q \<and> CHR '']'' \<notin> set q \<and> CHR ''@'' \<notin> set q"
  defines "sv \<equiv> h @ opt_text (CHR '':'') p"
  shows "DoParseAuthority (A @ (user_text us @ sv) @ B) (piece A (user_text us @ sv)) =
           Some (user_comp A us, pass_comp A us, piece (A @ user_text us) h,
                 opt_comp (A @ user_text us @ h @ '':'') p)"
proof -
  have noat: "\<forall>c\<in>set sv. c \<noteq> CHR ''@''"
    using host(2) port by (cases p) (auto simp: sv_def)
  have ne: "sv \<noteq> []" using host(1) by (auto simp: sv_def host_ok_def)
  have sv: "ParseServerInfo (C @ sv @ B) (piece C sv) = Some (piece C h, opt_comp (C @ h @ '':'') p)" for C
    unfolding sv_def opt_comp_def by (rule ParseServerInfo_text) (use host port in auto)
  show ?thesis
  proof (cases us)
    case None
    obtain x sv' where x: "sv = x # sv'" using ne by (cases sv) auto
    have "scan_bwd (\<lambda>c. c = CHR ''@'') (A @ sv @ B) (int (length A) + int (length sv) - 1) (int (length A)) =
            Some (int (length A))"
    proof (rule scan_bwd_none)
      fix k assume "int (length A) < k" "k \<le> int (length A) + int (length sv) - 1"
      with nth_mid [of A k sv B] noat show "(A @ sv @ B) ! nat k \<noteq> CHR ''@''"
        by (metis (no_types, lifting) le_less nth_mem zle_diff1_eq)
    qed (use ne in \<open>auto simp: Suc_le_eq\<close>)
    moreover have "rd (A @ sv @ B) (int (length A)) = Some x" "x \<noteq> CHR ''@''"
      using x noat by (auto simp: nth_append)
    ultimately show ?thesis
      using None sv [of A] ne by (simp add: DoParseAuthority_def user_comp_def pass_comp_def)
  next
    case (Some np)
    obtain n w where np: "us = Some (n, w)" using Some by (cases np) auto
    let ?X = "n @ opt_text (CHR '':'') w"
    have bwd: "scan_bwd (\<lambda>c. c = CHR ''@'') ((A @ ?X) @ CHR ''@'' # sv @ B)
        (int (length (A @ ?X)) + int (length sv)) (int (length A)) = Some (int (length (A @ ?X)))"
      by (rule scan_bwd_app) (use noat in auto)
    have ui: "ParseUserInfo (A @ ?X @ (''@'' @ sv @ B)) (piece A ?X) =
        Some (piece A n, case w of None \<Rightarrow> no_Component | Some w' \<Rightarrow> piece (A @ n @ '':'') w')"
      by (rule ParseUserInfo_text) (use user np in auto)
    have at: "rd ((A @ ?X) @ CHR ''@'' # sv @ B) (int (length (A @ ?X))) = Some (CHR ''@'')"
      by (rule rd_app)
    have ucomp: "mk_Component (int (length A)) (int (length n) + int (length (opt_text (CHR '':'') w)))
        = piece A ?X"
      by (simp add: piece_def)
    have scomp: "MakeRange (int (length A) + (int (length n) + int (length (opt_text (CHR '':'') w))) + 1)
        (int (length A) + (int (length n) + (1 + (int (length (opt_text (CHR '':'') w)) + int (length sv)))))
        = piece (A @ ?X @ ''@'') sv"
      by (simp add: piece_def MakeRange_def mk_Component_def)
    have "user_text us = ?X @ ''@''" using np by simp
    then show ?thesis
      using np bwd ui at ucomp scomp sv [of "A @ ?X @ ''@''"]
      by (cases w) (simp_all add: DoParseAuthority_def user_comp_def pass_comp_def algebra_simps)
  qed
qed

lemma ParsePath_text:
  fixes r :: "string option"
  assumes "list_all (\<lambda>c. c \<noteq> CHR ''?'' \<and> c \<noteq> CHR ''#'') f"
    and "\<And>x. q = Some x \<Longrightarrow> list_all (\<lambda>c. c \<noteq> CHR ''#'') x"
  defines "X \<equiv> f @ opt_text (CHR ''?'') q @ opt_text (CHR ''#'') r"
  shows "ParsePath (A @ X @ B) (piece A X) =
           Some (if f = [] then no_Component else piece A f,
                 opt_comp (A @ f @ ''?'') q,
                 opt_comp (A @ f @ opt_text (CHR ''?'') q @ ''#'') r)"
proof -
  let ?a = "int (length A)"
  have f: "path_seps i f (-1) (-1) = (-1, -1)" for i
    by (rule path_seps_skip) (use assms(1) in \<open>auto simp: list_all_iff\<close>)
  have qq: "0 \<le> k \<Longrightarrow> q = Some x \<Longrightarrow> path_seps i x k (-1) = (k, -1)" for i k x
    by (rule path_seps_skip) (use assms(2) in \<open>auto simp: list_all_iff\<close>)
  have "path_seps ?a X (-1) (-1) =
      (if q = None then -1 else ?a + int (length f),
       if r = None then -1 else ?a + int (length f) + int (length (opt_text (CHR ''?'') q)))"
    by (cases q; cases r)
      (auto simp: X_def path_seps_append f qq path_seps_done algebra_simps)
  with path_loop_app [of A X B "-1" "-1"] show ?thesis
    by (cases q; cases r)
      (auto simp: ParsePath_def X_def piece_def MakeRange_def mk_Component_def opt_comp_def Let_def)
qed


lemma slash_facts [simp]:
  "IsURLSlash (CHR ''/'')" "\<not> IsURLSlash (CHR '':'')" "\<not> IsURLSlash (CHR ''@'')"
  "\<not> IsAuthorityTerminator (CHR '':'')" "\<not> IsAuthorityTerminator (CHR ''@'')"
  "IsAuthorityTerminator (CHR ''?'')" "IsAuthorityTerminator (CHR ''#'')"
  "IsAuthorityTerminator (CHR ''/'')"
  by (simp_all add: IsURLSlash_def IsAuthorityTerminator_def)

lemma slash_terminates: "IsURLSlash c \<Longrightarrow> IsAuthorityTerminator c"
  by (simp add: IsAuthorityTerminator_def)

lemma trim_facts [simp]:
  "\<not> ShouldTrimFromURL (CHR '':'')" "\<not> ShouldTrimFromURL (CHR ''/'')"
  "\<not> ShouldTrimFromURL (CHR ''@'')" "\<not> ShouldTrimFromURL (CHR ''?'')"
  "\<not> ShouldTrimFromURL (CHR ''#'')"
  by (simp_all add: ShouldTrimFromURL_def schar_def)

lemma TrimURL_id:
  assumes "list_all (\<lambda>c. \<not> ShouldTrimFromURL c) s" and "s \<noteq> []"
  shows "TrimURL s 0 (int (length s)) = Some (0, int (length s))"
proof -
  obtain x xs where s: "s = x # xs" using assms(2) by (cases s) auto
  have "\<not> ShouldTrimFromURL x" "\<not> ShouldTrimFromURL (s ! (length s - 1))"
    using assms by (auto simp: s list_all_length nth_Cons')
  moreover from this have "scan_fwd (\<lambda>c. \<not> ShouldTrimFromURL c) s 0 (int (length s)) = Some 0"
    by (subst scan_fwd.simps) (simp add: s)
  moreover have "nat (int (length s) - 1) = length s - 1" "0 \<le> int (length s) - 1"
    by (simp_all add: s)
  ultimately show ?thesis
    by (subst TrimURL_def) (subst scan_bwd.simps, simp)
qed

lemma DoParseAfterScheme_text:
  assumes auth: "auth \<noteq> []" "list_all (\<lambda>c. \<not> IsAuthorityTerminator c) auth"
    and full: "full = [] \<or> IsAuthorityTerminator (hd full)"
    and pa: "DoParseAuthority (A @ ''//'' @ auth @ full) (piece (A @ ''//'') auth) = Some (u, w, h, n)"
    and pp: "ParsePath (A @ ''//'' @ auth @ full)
               (if full = [] then no_Component else piece (A @ ''//'' @ auth) full) = Some (f, q, r)"
  shows "DoParseAfterScheme (A @ ''//'' @ auth @ full)
           (int (length (A @ ''//'' @ auth @ full))) (int (length A)) p =
         Some (p\<lparr>username := u, password := w, host := h, port := n, path := f, query := q, ref := r\<rparr>)"
proof -
  let ?s = "A @ ''//'' @ auth @ full" and ?l = "int (length (A @ ''//'' @ auth @ full))"
  obtain x xs where x: "auth = x # xs" using auth(1) by (cases auth) auto
  have nx: "\<not> IsURLSlash x" using auth(2) slash_terminates by (auto simp: x)
  have sl: "scan_fwd (\<lambda>c. \<not> IsURLSlash c) (A @ ''//'' @ x # (xs @ full)) (int (length A)) ?l =
      Some (int (length A) + int (length ''//''))"
    by (rule scan_fwd_app) (use nx in \<open>simp_all add: x\<close>)
  have te: "scan_fwd IsAuthorityTerminator ((A @ ''//'') @ auth @ full) (int (length (A @ ''//''))) ?l =
      Some (int (length (A @ ''//'')) + int (length auth))"
  proof (cases full)
    case Nil
    have "scan_fwd IsAuthorityTerminator ((A @ ''//'') @ auth @ []) (int (length (A @ ''//'')))
        (int (length (A @ ''//'')) + int (length auth)) =
        Some (int (length (A @ ''//'')) + int (length auth))"
      by (rule scan_fwd_app_none) (use auth(2) in \<open>auto simp: list_all_iff\<close>)
    with Nil show ?thesis by (simp add: algebra_simps)
  next
    case (Cons y ys)
    have "scan_fwd IsAuthorityTerminator ((A @ ''//'') @ auth @ y # ys) (int (length (A @ ''//''))) ?l =
      Some (int (length (A @ ''//'')) + int (length auth))"
      by (rule scan_fwd_app) (use auth(2) full Cons in \<open>auto simp: list_all_iff\<close>)
    with Cons show ?thesis by simp
  qed
  have ce: "mk_Component (2 + int (length A)) (int (length auth)) = piece (A @ ''//'') auth"
    "mk_Component (2 + (int (length A) + int (length auth))) (int (length full)) =
       piece (A @ ''//'' @ auth) full"
    by (simp_all add: piece_def)
  show ?thesis
  proof (cases "full = []")
    case True
    with sl te pa pp ce x show ?thesis
      by (simp add: DoParseAfterScheme_def CountConsecutiveSlashes_def FindNextAuthorityTerminator_def
          Let_def algebra_simps)
  next
    case False
    with sl te pa pp ce x show ?thesis
      by (simp add: DoParseAfterScheme_def CountConsecutiveSlashes_def FindNextAuthorityTerminator_def
          Let_def algebra_simps)
  qed
qed


lemma DoExtractScheme_text:
  assumes "part_ok (\<lambda>c. c = CHR '':'') sch" and "\<not> ShouldTrimFromURL (hd (sch @ '':''))"
  shows "DoExtractScheme (sch @ CHR '':'' # B) (int (length (sch @ CHR '':'' # B))) c0 =
           Some (True, piece [] sch)"
proof -
  have 0: "scan_fwd (\<lambda>c. \<not> ShouldTrimFromURL c) (sch @ CHR '':'' # B) 0
      (int (length (sch @ CHR '':'' # B))) = Some 0"
    using assms(2) by (subst scan_fwd.simps) (cases sch; simp)
  have "scan_fwd (\<lambda>c. c = CHR '':'') ([] @ sch @ CHR '':'' # B) (int (length ([] :: string)))
      (int (length (sch @ CHR '':'' # B))) = Some (int (length ([] :: string)) + int (length sch))"
    by (rule scan_fwd_app) (use assms(1) part_ok_imp in auto)
  with 0 show ?thesis
    by (simp add: DoExtractScheme_def piece_def MakeRange_def)
qed

lemma ctext_at: "s = A @ X @ B \<Longrightarrow> ctext s (piece A X) = Some X"
  by simp

lemma opt_text_ok:
  "\<not> P d \<Longrightarrow> \<not> ShouldTrimFromURL d \<Longrightarrow> (\<And>s. x = Some s \<Longrightarrow> part_ok P s) \<Longrightarrow> part_ok P (opt_text d x)"
  by (cases x) (auto simp: part_ok_def)

lemma part_ok_append [simp]: "part_ok P (xs @ ys) \<longleftrightarrow> part_ok P xs \<and> part_ok P ys"
  by (simp add: part_ok_def)

lemma part_ok_weaken: "part_ok Q s \<Longrightarrow> (\<And>c. P c \<Longrightarrow> Q c) \<Longrightarrow> part_ok P s"
  by (auto simp: part_ok_def list_all_iff)

lemma user_text_ok:
  assumes "url_ok u" and "\<not> P (CHR '':'')" and "\<not> P (CHR ''@'')"
    and "\<And>c. P c \<Longrightarrow> IsAuthorityTerminator c"
  shows "part_ok P (user_text (u_user u))"
proof (cases "u_user u")
  case None
  then show ?thesis by (simp add: part_ok_def)
next
  case (Some np)
  obtain n w where np: "u_user u = Some (n, w)" using Some by (cases np) auto
  with assms(1) have n: "part_ok (\<lambda>c. c = CHR '':'' \<or> IsAuthorityTerminator c) n"
    and w: "\<And>s. w = Some s \<Longrightarrow> part_ok IsAuthorityTerminator s"
    by (simp_all add: url_ok_def)
  have "part_ok P n" using n by (rule part_ok_weaken) (simp add: assms(4))
  moreover have "part_ok P (opt_text (CHR '':'') w)"
  proof (rule opt_text_ok)
    fix s assume "w = Some s"
    from w [OF this] assms(4) show "part_ok P s" by (rule part_ok_weaken)
  qed (use assms(2) in simp_all)
  moreover have "part_ok P ''@''" using assms(3) by (simp add: part_ok_def)
  ultimately show ?thesis by (simp add: np)
qed

lemma server_text_ok:
  assumes "url_ok u" and "\<not> P (CHR '':'')" and "\<And>c. P c \<Longrightarrow> IsAuthorityTerminator c"
  shows "part_ok P (server_text u)"
proof -
  have "part_ok (\<lambda>c. c = CHR ''@'' \<or> IsAuthorityTerminator c) (u_host u)"
    using assms(1) by (simp add: url_ok_def)
  then have "part_ok P (u_host u)" by (rule part_ok_weaken) (use assms(3) in blast)
  moreover have "part_ok P (opt_text (CHR '':'') (u_port u))"
  proof (rule opt_text_ok)
    fix s assume "u_port u = Some s"
    with assms(1) have
      "part_ok (\<lambda>c. c = CHR ''@'' \<or> c = CHR '':'' \<or> c = CHR '']'' \<or> IsAuthorityTerminator c) s"
      by (simp add: url_ok_def)
    then show "part_ok P s" by (rule part_ok_weaken) (use assms(3) in blast)
  qed (use assms(2) in simp_all)
  ultimately show ?thesis by (simp add: server_text_def)
qed

lemma path_text_ok:
  assumes "url_ok u"
  shows "part_ok (\<lambda>c. False) (path_text u)"
proof -
  have "part_ok (\<lambda>c. False) (opt_text (CHR ''?'') (u_query u))"
  proof (rule opt_text_ok)
    fix s assume "u_query u = Some s"
    with assms have "part_ok (\<lambda>c. c = CHR ''#'') s" by (simp add: url_ok_def)
    then show "part_ok (\<lambda>c. False) s" by (rule part_ok_weaken) simp
  qed simp_all
  moreover have "part_ok (\<lambda>c. False) (opt_text (CHR ''#'') (u_ref u))"
    using assms by (intro opt_text_ok) (auto simp: url_ok_def)
  moreover have "part_ok (\<lambda>c. c = CHR ''?'' \<or> c = CHR ''#'') (u_path u)"
    using assms by (simp add: url_ok_def)
  then have "part_ok (\<lambda>c. False) (u_path u)" by (rule part_ok_weaken) simp
  ultimately show ?thesis by (simp add: path_text_def)
qed

lemma part_ok_notin: "part_ok P s \<Longrightarrow> P c \<Longrightarrow> c \<notin> set s"
  by (auto dest: part_ok_imp)

lemma part_ok_no_trim: "part_ok P s \<Longrightarrow> list_all (\<lambda>c. \<not> ShouldTrimFromURL c) s"
  unfolding part_ok_def by (erule list.pred_mono_strong) simp

lemma part_ok_list_all: "part_ok P s \<Longrightarrow> list_all (\<lambda>c. \<not> P c) s"
  unfolding part_ok_def by (erule list.pred_mono_strong) simp

lemma url_text_no_trim:
  assumes "url_ok u"
  shows "list_all (\<lambda>c. \<not> ShouldTrimFromURL c) (url_text u)"
proof -
  have "part_ok (\<lambda>c. c = CHR '':'') (u_scheme u)" using assms by (simp add: url_ok_def)
  with user_text_ok [OF assms, of "\<lambda>c. False"] server_text_ok [OF assms, of "\<lambda>c. False"]
    path_text_ok [OF assms]
  show ?thesis
    by (simp add: url_text_def part_ok_no_trim)
qed

text \<open>The components that parsing a printed URL stores.\<close>

definition url_comps :: "UrlParts \<Rightarrow> Parsed" where
  "url_comps u =
     (let A = u_scheme u @ ''://''; S = A @ user_text (u_user u); F = S @ server_text u in
      \<lparr>scheme = piece [] (u_scheme u),
       username = user_comp A (u_user u), password = pass_comp A (u_user u),
       host = piece S (u_host u), port = opt_comp (S @ u_host u @ '':'') (u_port u),
       path = (if u_path u = [] then no_Component else piece F (u_path u)),
       query = opt_comp (F @ u_path u @ ''?'') (u_query u),
       ref = opt_comp (F @ u_path u @ opt_text (CHR ''?'') (u_query u) @ ''#'') (u_ref u)\<rparr>)"

lemma ParseStandardURL_text:
  assumes ok: "url_ok u"
  shows "ParseStandardURL (url_text u) (int (length (url_text u))) p = Some (url_comps u)"
proof -
  let ?sch = "u_scheme u" and ?full = "path_text u"
  let ?auth = "user_text (u_user u) @ server_text u"
  let ?A = "?sch @ '':''"
  have utext: "url_text u = ?A @ ''//'' @ ?auth @ ?full"
    by (simp add: url_text_def)
  have trim: "TrimURL (url_text u) 0 (int (length (url_text u))) = Some (0, int (length (url_text u)))"
    by (rule TrimURL_id [OF url_text_no_trim [OF ok]]) (simp add: url_text_def)
  have hd: "\<not> ShouldTrimFromURL (hd (?sch @ '':''))"
    using ok by (cases ?sch) (auto simp: url_ok_def part_ok_def)
  have sch: "DoExtractScheme (url_text u) (int (length (url_text u))) c = Some (True, piece [] ?sch)" for c
    using DoExtractScheme_text [OF _ hd, of "''//'' @ ?auth @ ?full" c] ok
    by (simp add: url_text_def url_ok_def)
  have port: "CHR '':'' \<notin> set q \<and> CHR '']'' \<notin> set q \<and> CHR ''@'' \<notin> set q" if "u_port u = Some q" for q
  proof -
    from ok that have
      "part_ok (\<lambda>c. c = CHR ''@'' \<or> c = CHR '':'' \<or> c = CHR '']'' \<or> IsAuthorityTerminator c) q"
      by (simp add: url_ok_def)
    from part_ok_notin [OF this] show ?thesis by simp
  qed
  have user: "case u_user u of None \<Rightarrow> True | Some (n, _) \<Rightarrow> CHR '':'' \<notin> set n"
    using ok part_ok_notin [of "\<lambda>c. c = CHR '':'' \<or> IsAuthorityTerminator c" _ "CHR '':''"]
    by (cases "u_user u" rule: user_text.cases) (simp_all add: url_ok_def)
  have host: "host_ok (u_host u)" "CHR ''@'' \<notin> set (u_host u)"
    using ok part_ok_notin [of "\<lambda>c. c = CHR ''@'' \<or> IsAuthorityTerminator c" _ "CHR ''@''"]
    by (simp_all add: url_ok_def)
  have pa: "DoParseAuthority (?A @ ''//'' @ ?auth @ ?full) (piece (?A @ ''//'') ?auth) =
      Some (user_comp (?A @ ''//'') (u_user u), pass_comp (?A @ ''//'') (u_user u),
            piece (?A @ ''//'' @ user_text (u_user u)) (u_host u),
            opt_comp (?A @ ''//'' @ user_text (u_user u) @ u_host u @ '':'') (u_port u))"
    using DoParseAuthority_text [OF user host port, where A = "?A @ ''//''" and B = ?full]
    by (simp add: server_text_def)
  have pp: "ParsePath (?A @ ''//'' @ ?auth @ ?full)
      (if ?full = [] then no_Component else piece (?A @ ''//'' @ ?auth) ?full) =
      Some (path (url_comps u), query (url_comps u), ref (url_comps u))"
  proof (cases "?full = []")
    case True
    then have "u_path u = []" "u_query u = None" "u_ref u = None"
      by (auto simp: path_text_def elim!: opt_text.elims)
    with True show ?thesis
      by (simp add: ParsePath_def url_comps_def opt_comp_def no_Component_def Let_def)
  next
    case False
    have "part_ok (\<lambda>c. c = CHR ''?'' \<or> c = CHR ''#'') (u_path u)"
      using ok by (simp add: url_ok_def)
    from part_ok_list_all [OF this]
    have f: "list_all (\<lambda>c. c \<noteq> CHR ''?'' \<and> c \<noteq> CHR ''#'') (u_path u)" by simp
    have q: "list_all (\<lambda>c. c \<noteq> CHR ''#'') x" if "u_query u = Some x" for x
      using ok that by (simp add: url_ok_def part_ok_list_all)
    from ParsePath_text [OF f q, where q = "u_query u" and A = "?A @ ''//'' @ ?auth" and r = "u_ref u" and B = "[]"]
    show ?thesis
      unfolding if_not_P [OF False]
      by (cases "u_path u = []") (simp_all add: path_text_def url_comps_def Let_def)
  qed
  have ne: "?auth \<noteq> []"
    using host(1) by (simp add: server_text_def host_ok_def)
  have noterm: "list_all (\<lambda>c. \<not> IsAuthorityTerminator c) ?auth"
    using user_text_ok [OF ok, of IsAuthorityTerminator] server_text_ok [OF ok, of IsAuthorityTerminator]
    by (simp add: part_ok_list_all)
  have full: "?full = [] \<or> IsAuthorityTerminator (hd ?full)"
    using ok by (cases "u_path u"; cases "u_query u"; cases "u_ref u")
      (auto simp: path_text_def url_ok_def slash_terminates)
  have "DoParseAfterScheme (url_text u) (int (length (url_text u))) (int (length ?A)) q =
      Some (url_comps u\<lparr>scheme := scheme q\<rparr>)" for q
    using DoParseAfterScheme_text [OF ne noterm full pa pp, of q]
    by (simp add: utext url_comps_def Let_def)
  from this [of "p\<lparr>scheme := piece [] ?sch\<rparr>"] trim sch show ?thesis
    by (simp add: ParseStandardURL_def url_comps_def Let_def algebra_simps)
qed


section \<open>Printing and parsing\<close>

lemma ctext_user_comp:
  "s = A @ user_text us @ B \<Longrightarrow> ctext s (user_comp A us) = map_option fst us"
  by (cases us rule: user_text.cases) (simp_all add: user_comp_def)

lemma ctext_pass_comp:
  assumes "s = A @ user_text us @ B"
  shows "ctext s (pass_comp A us) = Option.bind us snd"
proof (cases us rule: user_text.cases)
  case (2 n p)
  show ?thesis
  proof (cases p)
    case (Some w)
    have "s = (A @ n @ '':'') @ w @ (''@'' @ B)" using assms 2 Some by simp
    from ctext_at [OF this] 2 Some show ?thesis by (simp add: pass_comp_def)
  qed (use 2 in \<open>simp add: pass_comp_def\<close>)
qed (simp add: pass_comp_def)

lemma ctext_opt_comp:
  assumes "s = A @ opt_text d p @ B"
  shows "ctext s (opt_comp (A @ [d]) p) = p"
proof (cases p)
  case (Some w)
  have "s = (A @ [d]) @ w @ B" using assms Some by simp
  from ctext_at [OF this] Some show ?thesis by (simp add: opt_comp_def)
qed (simp add: opt_comp_def)

lemma ctext_url_comps:
  shows "ctext (url_text u) (scheme (url_comps u)) = Some (u_scheme u)"
    and "ctext (url_text u) (username (url_comps u)) = map_option fst (u_user u)"
    and "ctext (url_text u) (password (url_comps u)) = Option.bind (u_user u) snd"
    and "ctext (url_text u) (host (url_comps u)) = Some (u_host u)"
    and "ctext (url_text u) (port (url_comps u)) = u_port u"
    and "ctext (url_text u) (path (url_comps u)) = (if u_path u = [] then None else Some (u_path u))"
    and "ctext (url_text u) (query (url_comps u)) = u_query u"
    and "ctext (url_text u) (ref (url_comps u)) = u_ref u"
proof -
  let ?A = "u_scheme u @ ''://''" and ?B = "server_text u @ path_text u"
  let ?S = "?A @ user_text (u_user u)" and ?F = "(?A @ user_text (u_user u)) @ server_text u"
  let ?s = "url_text u"
  have sch: "ctext ?s (piece [] (u_scheme u)) = Some (u_scheme u)"
    by (rule ctext_at [where B = "''://'' @ user_text (u_user u) @ ?B"]) (simp add: url_text_def)
  have un: "ctext ?s (user_comp ?A (u_user u)) = map_option fst (u_user u)"
    by (rule ctext_user_comp [where B = ?B]) (simp add: url_text_def)
  have pw: "ctext ?s (pass_comp ?A (u_user u)) = Option.bind (u_user u) snd"
    by (rule ctext_pass_comp [where B = ?B]) (simp add: url_text_def)
  have ho: "ctext ?s (piece ?S (u_host u)) = Some (u_host u)"
    by (rule ctext_at [where B = "opt_text (CHR '':'') (u_port u) @ path_text u"])
      (simp add: url_text_def server_text_def)
  have po: "ctext ?s (opt_comp ((?S @ u_host u) @ '':'') (u_port u)) = u_port u"
    by (rule ctext_opt_comp [where B = "path_text u"]) (simp add: url_text_def server_text_def)
  have pa: "ctext ?s (piece ?F (u_path u)) = Some (u_path u)"
    by (rule ctext_at [where B = "opt_text (CHR ''?'') (u_query u) @ opt_text (CHR ''#'') (u_ref u)"])
      (simp add: url_text_def path_text_def)
  have qu: "ctext ?s (opt_comp ((?F @ u_path u) @ ''?'') (u_query u)) = u_query u"
    by (rule ctext_opt_comp [where B = "opt_text (CHR ''#'') (u_ref u)"])
      (simp add: url_text_def path_text_def)
  have re: "ctext ?s (opt_comp ((?F @ u_path u @ opt_text (CHR ''?'') (u_query u)) @ ''#'') (u_ref u))
      = u_ref u"
    by (rule ctext_opt_comp [where B = "[]"]) (simp add: url_text_def path_text_def)
  show "ctext (url_text u) (scheme (url_comps u)) = Some (u_scheme u)"
    "ctext (url_text u) (username (url_comps u)) = map_option fst (u_user u)"
    "ctext (url_text u) (password (url_comps u)) = Option.bind (u_user u) snd"
    "ctext (url_text u) (host (url_comps u)) = Some (u_host u)"
    "ctext (url_text u) (port (url_comps u)) = u_port u"
    "ctext (url_text u) (path (url_comps u)) = (if u_path u = [] then None else Some (u_path u))"
    "ctext (url_text u) (query (url_comps u)) = u_query u"
    "ctext (url_text u) (ref (url_comps u)) = u_ref u"
    using sch un pw ho po pa qu re by (simp_all add: url_comps_def Let_def)
qed

lemma unprint_url_comps: "unprint (url_text u) (url_comps u) = u"
proof -
  have "map_option (\<lambda>n. (n, Option.bind (u_user u) snd)) (map_option fst (u_user u)) = u_user u"
    by (cases "u_user u") auto
  then show ?thesis
    by (cases u) (simp add: unprint_def ctext_url_comps)
qed

lemma ctext_SomeD: "ctext s c = Some t \<Longrightarrow> is_valid c \<and> slice s (cbegin c) (cend c) = t"
  by (auto simp: ctext_def split: if_splits)

lemma ctext_NoneD: "ctext s c = None \<Longrightarrow> \<not> is_valid c"
  by (auto simp: ctext_def split: if_splits)


text \<open>The session URL of the README.\<close>

definition readme_url :: UrlParts where
  "readme_url =
     \<lparr>u_scheme = ''SSLED'', u_user = Some (''user1'', None), u_host = ''nylabads2'',
      u_port = Some ''8101'', u_path = ''/IDN_RDF'',
      u_query = Some ''application-id=256&instance-id=Instance1&position=127.0.0.1/net'',
      u_ref = None\<rparr>"


text \<open>The components stored do not depend on what the Parsed object held before.\<close>

lemma ParseStandardURL_fresh: "ParseStandardURL s l p = ParseStandardURL s l q"
proof -
  have ext: "DoExtractScheme s e c = map_option (\<lambda>(ok, x). (ok, if ok then x else c))
      (DoExtractScheme s e no_Component)" for e c
    by (cases "scan_fwd (\<lambda>c. \<not> ShouldTrimFromURL c) s 0 e")
      (auto simp: DoExtractScheme_def split: Option.bind_split)
  have aft: "DoParseAfterScheme s e a (p\<lparr>scheme := c\<rparr>) = DoParseAfterScheme s e a (q\<lparr>scheme := c\<rparr>)"
    for e a c
    by (auto simp: DoParseAfterScheme_def Let_def intro!: Option.bind_cong)
  show ?thesis
  proof (cases "TrimURL s 0 l")
    case (Some be)
    then show ?thesis
      unfolding ParseStandardURL_def ext [of _ "scheme p"] ext [of _ "scheme q"]
      by (cases "DoExtractScheme s (snd be) no_Component") (auto simp: aft split: prod.splits)
  qed (simp add: ParseStandardURL_def)
qed


section \<open>Port numbers\<close>

lemma IsPortDigit_iff [simp]: "IsPortDigit c = is_digit c"
proof -
  obtain n where n: "n = (of_char c :: nat)" by blast
  have e: "(of_char c :: int) = int n" unfolding n by (simp only: of_nat_of_char)
  have "n < 256" unfolding n by (rule nat_of_char_less_256)
  then show ?thesis
    unfolding IsPortDigit_def is_digit_def schar_def Let_def e n [symmetric] by auto
qed

lemma port_digits_text:
  "port_digits (A @ X @ B) (int (length A)) (length X) =
     Some (if list_all is_digit X then Some X else None)"
proof (induction X arbitrary: A)
  case (Cons x X)
  from Cons.IH [of "A @ [x]"] show ?case by (simp add: nth_append algebra_simps)
qed simp

lemma digits_val_foldl: "foldl (\<lambda>n c. 10 * n + digit_val c) n ds = n * 10 ^ length ds + digits_val ds"
proof (induction ds arbitrary: n)
  case (Cons d ds)
  from Cons.IH [of "10 * n + digit_val d"] Cons.IH [of "digit_val d"] show ?case
    by (simp add: digits_val_def algebra_simps)
qed (simp add: digits_val_def)

lemma digits_val_Cons: "digits_val (d # ds) = digit_val d * 10 ^ length ds + digits_val ds"
  using digits_val_foldl [of "digit_val d" ds] by (simp add: digits_val_def)

lemma digits_val_zeros: "digits_val (dropWhile (\<lambda>c. c = CHR ''0'') ds) = digits_val ds"
  by (induction ds) (auto simp: digits_val_Cons digit_val_def)

lemma all_digit_zeros:
  "list_all is_digit (dropWhile (\<lambda>c. c = CHR ''0'') ds) = list_all is_digit ds"
  by (induction ds) (auto simp: is_digit_def)

lemma atoi_digits:
  assumes "list_all is_digit ds"
  shows "atoi ds = int (digits_val ds)"
proof (cases ds)
  case (Cons d ds')
  with assms have d: "is_digit d" by simp
  then have "\<not> is_space d" "d \<noteq> CHR ''-''" "d \<noteq> CHR ''+''"
    by (auto simp: is_digit_def is_space_def)
  moreover have "takeWhile is_digit ds = ds"
    using assms by (simp add: takeWhile_eq_all_conv list_all_iff)
  ultimately show ?thesis using Cons by (simp only: atoi_def dropWhile.simps list.case if_False)
qed (simp add: digits_val_def)

lemma digits_val_big:
  assumes "is_digit d" and "d \<noteq> CHR ''0''" and "5 \<le> length ds"
  shows "100000 \<le> digits_val (d # ds)"
proof -
  have "1 \<le> digit_val d"
  proof (rule ccontr)
    assume "\<not> 1 \<le> digit_val d"
    then have "\<not> 1 \<le> (of_char d :: nat) - 48" by (simp add: digit_val_def)
    moreover have "48 \<le> (of_char d :: nat)" using assms(1) by (simp add: is_digit_def)
    ultimately have "(of_char d :: nat) = 48" by linarith
    then have "of_char d = (of_char (CHR ''0'') :: nat)" by simp
    with assms(2) show False by (simp only: of_char_eq_iff)
  qed
  moreover have "(10 :: nat) ^ 5 \<le> 10 ^ length ds"
    using assms(3) by (intro power_increasing) simp_all
  ultimately have "1 * 10 ^ 5 \<le> digit_val d * 10 ^ length ds"
    by (intro mult_le_mono)
  then show ?thesis by (simp add: digits_val_Cons)
qed

lemma piece_of_slice:
  assumes "0 \<le> cbegin c" and "0 \<le> clen c" and "cend c \<le> int (length s)"
  obtains A X B where "s = A @ X @ B" "c = piece A X" "X = slice s (cbegin c) (cend c)"
proof -
  let ?b = "nat (cbegin c)" and ?l = "nat (clen c)"
  have b: "?b + ?l \<le> length s" using assms by (simp add: cend_def)
  have s: "s = take ?b s @ take ?l (drop ?b s) @ drop (?b + ?l) s"
    by (metis append_take_drop_id drop_drop add.commute)
  have c: "c = piece (take ?b s) (take ?l (drop ?b s))"
    using assms b by (simp add: piece_def mk_Component_def min_def)
  have "take ?l (drop ?b s) = slice s (cbegin c) (cend c)"
    by (simp add: slice_def cend_def)
  with s c show ?thesis using that by blast
qed

lemma leading_zeros:
  obtains Z Y where "X = Z @ Y" "\<forall>c\<in>set Z. \<not> c \<noteq> CHR ''0''" "Y = [] \<or> hd Y \<noteq> CHR ''0''"
    "digits_val X = digits_val Y" "list_all is_digit X = list_all is_digit Y"
proof
  show "X = takeWhile (\<lambda>c. c = CHR ''0'') X @ dropWhile (\<lambda>c. c = CHR ''0'') X" by simp
  show "\<forall>c\<in>set (takeWhile (\<lambda>c. c = CHR ''0'') X). \<not> c \<noteq> CHR ''0''"
    by (auto dest: set_takeWhileD)
  show "dropWhile (\<lambda>c. c = CHR ''0'') X = [] \<or> hd (dropWhile (\<lambda>c. c = CHR ''0'') X) \<noteq> CHR ''0''"
    using hd_dropWhile [of "\<lambda>c. c = CHR ''0''" X] by blast
qed (simp_all only: digits_val_zeros all_digit_zeros)

lemma ParsePort_text:
  assumes z: "\<forall>c\<in>set Z. \<not> c \<noteq> CHR ''0''" and y: "Y = [] \<or> hd Y \<noteq> CHR ''0''" and ne: "Z @ Y \<noteq> []"
  shows "ParsePort (A @ (Z @ Y) @ B) (piece A (Z @ Y)) =
           Some (if list_all is_digit Y \<and> digits_val Y \<le> 65535 then int (digits_val Y) else PORT_INVALID)"
proof (cases Y)
  case Nil
  from scan_fwd_app_none [OF z, of A B] Nil ne show ?thesis
    by (simp add: ParsePort_def is_nonempty_def mk_Component_def digits_val_def)
next
  case (Cons d ds)
  let ?s = "A @ Z @ d # ds @ B"
  have "scan_fwd (\<lambda>c. c \<noteq> CHR ''0'') ?s (int (length A)) (cend (piece A (Z @ d # ds))) =
      Some (int (length A) + int (length Z))"
    by (rule scan_fwd_app) (use z y Cons in simp_all)
  moreover have "port_digits ?s (int (length A) + int (length Z)) (Suc (length ds)) =
      Some (if list_all is_digit (d # ds) then Some (d # ds) else None)"
    using port_digits_text [of "A @ Z" "d # ds" B] by simp
  moreover have "nat (1 + int (length ds)) = Suc (length ds)" by simp
  ultimately have port: "ParsePort ?s (piece A (Z @ d # ds)) =
      (if 5 < Suc (length ds) then Some PORT_INVALID
       else if list_all is_digit (d # ds)
         then Some (if 65535 < atoi (d # ds) then PORT_INVALID else atoi (d # ds))
       else Some PORT_INVALID)"
    by (simp add: ParsePort_def is_nonempty_def MakeRange_def mk_Component_def Let_def algebra_simps
        del: port_digits.simps)
  show ?thesis
  proof (cases "list_all is_digit (d # ds)")
    case True
    have "\<not> 65535 < digits_val (d # ds)" if "\<not> 5 < Suc (length ds)" "digits_val (d # ds) \<le> 65535"
      using that by simp
    moreover have "\<not> digits_val (d # ds) \<le> 65535" if "5 < Suc (length ds)"
      using digits_val_big [of d ds] that y Cons True by simp
    ultimately show ?thesis
      using port True atoi_digits [OF True] Cons by auto
  next
    case False
    with port Cons show ?thesis by auto
  qed
qed

text \<open>ParsePort returns PORT_UNSPECIFIED for an absent or empty component; otherwise the
  decimal value of the text when it is all digits (leading zeros included) and fits 16 bits,
  and PORT_INVALID in every other case. It reads nothing outside the component.\<close>

theorem ParsePort_value:
  assumes "0 \<le> cbegin c" and "0 \<le> clen c" and "cend c \<le> int (length s)"
  shows "ParsePort s c =
           Some (let t = slice s (cbegin c) (cend c) in
                 if t = [] then PORT_UNSPECIFIED
                 else if list_all is_digit t \<and> digits_val t \<le> 65535 then int (digits_val t)
                 else PORT_INVALID)"
proof -
  from piece_of_slice [OF assms] obtain A X B where
    s: "s = A @ X @ B" and c: "c = piece A X" and X: "X = slice s (cbegin c) (cend c)" .
  from leading_zeros [of X] obtain Z Y where
    ZY: "X = Z @ Y" and z: "\<forall>c\<in>set Z. \<not> c \<noteq> CHR ''0''" and y: "Y = [] \<or> hd Y \<noteq> CHR ''0''"
    and v: "digits_val X = digits_val Y" "list_all is_digit X = list_all is_digit Y" .
  show ?thesis
  proof (cases "X = []")
    case True
    then show ?thesis unfolding X [symmetric] by (simp add: ParsePort_def c is_nonempty_def)
  next
    case False
    with ParsePort_text [OF z y, of A B, folded ZY] v
    have "ParsePort s c = Some (if list_all is_digit X \<and> digits_val X \<le> 65535
        then int (digits_val X) else PORT_INVALID)"
      unfolding s c by (simp only: simp_thms)
    with False show ?thesis unfolding X [symmetric] by (simp only: Let_def if_False)
  qed
qed

theorem ParsePort_value_witness:
  "ParsePort ''http://h:00080/'' (mk_Component 9 5) = Some 80"
proof -
  have "slice ''http://h:00080/'' 9 14 = ''00080''" by (simp add: slice_def eval_nat_numeral)
  then show ?thesis
    using ParsePort_value [of "mk_Component 9 5" "''http://h:00080/''"]
    by (simp add: comp_defs is_digit_def digits_val_def digit_val_def)
qed

end
