(* ===== verification/Config.thy ===== *)
theory Config
  imports Url_Props Strings
begin

text \<open>
  The configuration: session_config_t and config_t of src/config.hh with their constructor
  (src/config.cc) and stream printers, and the part of torikuru_t::Init (src/torikuru.cc)
  that turns the URLs of --session into session configurations. The lemmas show that every
  URL is processed without reading outside it, that the query loop ends, and that the URL of
  given parts yields the session with those parts.
\<close>

section \<open>Data\<close>

record session_config_t =
  session_name :: string
  connection_name :: string
  consumer_name :: string
  protocol :: string
  service_name :: string
  servers :: "string list"
  default_port :: string
  application_id :: string
  instance_id :: string
  user_name :: string
  position :: string

definition new_session_config :: session_config_t where
  "new_session_config =
     \<lparr>session_name = [], connection_name = [], consumer_name = [], protocol = [],
      service_name = [], servers = [], default_port = [], application_id = [],
      instance_id = [], user_name = [], position = []\<rparr>"

record config_t =
  sessions :: "session_config_t list"
  instruments :: "string list"
  disable_update :: bool
  disable_refresh :: bool
  terminate_on_sync :: bool
  symbol_path :: string
  output_path :: string
  input_path :: string
  time_limit :: string
  monitor_name :: string
  event_queue_name :: string

definition new_config_t :: config_t where
  "new_config_t =
     \<lparr>sessions = [], instruments = [], disable_update = False, disable_refresh = False,
      terminate_on_sync = False, symbol_path = [], output_path = [], input_path = [],
      time_limit = [], monitor_name = ''ApplicationLoggerMonitorName'',
      event_queue_name = ''EventQueueName''\<rparr>"

section \<open>Stream printers\<close>

definition quoted :: "string \<Rightarrow> string" where
  "quoted s = CHR 0x22 # s @ [CHR 0x22]"

definition bool_text :: "bool \<Rightarrow> string" where
  "bool_text b = (if b then ''true'' else ''false'')"

definition show_session_config :: "session_config_t \<Rightarrow> string" where
  "show_session_config s =
     ''{ '' @ quoted ''session_name'' @ '': '' @ quoted (session_name s) @
     '', '' @ quoted ''connection_name'' @ '': '' @ quoted (connection_name s) @
     '', '' @ quoted ''consumer_name'' @ '': '' @ quoted (consumer_name s) @
     '', '' @ quoted ''protocol'' @ '': '' @ quoted (protocol s) @
     '', '' @ quoted ''service_name'' @ '': '' @ quoted (service_name s) @
     '', '' @ quoted ''default_port'' @ '': '' @ quoted (default_port s) @
     '', '' @ quoted ''application_id'' @ '': '' @ quoted (application_id s) @
     '', '' @ quoted ''instance_id'' @ '': '' @ quoted (instance_id s) @
     '', '' @ quoted ''user_name'' @ '': '' @ quoted (user_name s) @
     '', '' @ quoted ''position'' @ '': '' @ quoted (position s) @
     '' }''"

text \<open>The two loops of the config_t printer: quoted elements, separated by a comma and a space.\<close>

fun show_quoted_list :: "string list \<Rightarrow> string" where
  "show_quoted_list [] = []"
| "show_quoted_list [x] = quoted x"
| "show_quoted_list (x # y # xs) = quoted x @ '', '' @ show_quoted_list (y # xs)"

definition show_config :: "config_t \<Rightarrow> string" where
  "show_config c =
     quoted ''config_t'' @ '': { '' @
     quoted ''sessions'' @ '': ['' @
       show_quoted_list (map show_session_config (sessions c)) @ '']'' @
     '', '' @ quoted ''instruments'' @ '': '' @ quoted (show_quoted_list (instruments c)) @
     '', '' @ quoted ''disable_update'' @ '': '' @ bool_text (disable_update c) @
     '', '' @ quoted ''disable_refresh'' @ '': '' @ bool_text (disable_refresh c) @
     '', '' @ quoted ''terminate_on_sync'' @ '': '' @ bool_text (terminate_on_sync c) @
     '', '' @ quoted ''symbol_path'' @ '': '' @ quoted (symbol_path c) @
     '', '' @ quoted ''output_path'' @ '': '' @ quoted (output_path c) @
     '', '' @ quoted ''input_path'' @ '': '' @ quoted (input_path c) @
     '', '' @ quoted ''time_limit'' @ '': '' @ quoted (time_limit c) @
     '', '' @ quoted ''monitor_name'' @ '': '' @ quoted (monitor_name c) @
     '', '' @ quoted ''event_queue_name'' @ '': '' @ quoted (event_queue_name c) @
     '' }''"

section \<open>A session from its URL\<close>

lemma scan_fwd_ge: "scan_fwd P s i e = Some j \<Longrightarrow> i \<le> j"
  by (induction P s i e rule: scan_fwd.induct)
    (subst (asm) (2) scan_fwd.simps, force split: if_splits option.splits)

text \<open>Every successful call of ExtractQueryKeyValue shortens the query.\<close>

lemma ExtractQueryKeyValue_shrinks:
  assumes "ExtractQueryKeyValue s q k v = Some (True, q', k', v')"
  shows "clen q' < clen q" and "0 < clen q"
proof -
  let ?P = "\<lambda>c. c = CHR ''&'' \<or> c = CHR ''=''"
  from assms show n: "0 < clen q"
    by (auto simp: ExtractQueryKeyValue_def is_nonempty_def split: if_splits)
  with assms obtain i j m n' where
    i: "scan_fwd ?P s (cbegin q) (cend q) = Some i" and
    j: "(if i < cend q then map_option (\<lambda>c. if c = CHR ''='' then i + 1 else i) (rd s i)
         else Some i) = Some j" and
    m: "scan_fwd (\<lambda>c. c = CHR ''&'') s j (cend q) = Some m" and
    n': "(if m < cend q then map_option (\<lambda>c. if c = CHR ''&'' then m + 1 else m) (rd s m)
          else Some m) = Some n'" and
    q': "q' = MakeRange n' (cend q)"
    unfolding ExtractQueryKeyValue_def is_nonempty_def
    by (simp only: not_True_eq_False if_False Let_def bind_Some_iff option.inject prod.inject) blast
  have le: "cbegin q \<le> i" "j \<le> m" using scan_fwd_ge i m by blast+
  have jm: "i \<le> j" "m \<le> n'" using j n' by (auto split: if_splits)
  have "cbegin q < n'"
  proof (rule ccontr)
    assume "\<not> cbegin q < n'"
    with le jm have eq: "i = cbegin q" "j = i" "m = i" "n' = i" by auto
    have lt: "i < cend q" using n eq by (simp add: cend_def)
    from j eq lt obtain c where c: "rd s i = Some c" "c \<noteq> CHR ''=''"
      by (auto split: if_splits)
    have "?P c" using i c(1) lt eq
      by (subst (asm) scan_fwd.simps) (auto split: if_splits dest: scan_fwd_ge)
    with c(2) have "c = CHR ''&''" by simp
    with n' eq lt c(1) show False by simp
  qed
  then show "clen q' < clen q" by (simp add: q' MakeRange_def mk_Component_def cend_def)
qed

definition assign_kv :: "string \<Rightarrow> string \<Rightarrow> session_config_t \<Rightarrow> session_config_t" where
  "assign_kv key value cfg =
     (if key = ''application-id'' then cfg\<lparr>application_id := value\<rparr>
      else if key = ''instance-id'' then cfg\<lparr>instance_id := value\<rparr>
      else if key = ''position'' then cfg\<lparr>position := value\<rparr>
      else cfg)"

definition assign_param :: "string \<Rightarrow> Component \<Rightarrow> Component \<Rightarrow> session_config_t \<Rightarrow> session_config_t" where
  "assign_param url key_range value_range cfg =
     assign_kv (slice url (cbegin key_range) (cend key_range))
       (slice url (cbegin value_range) (cend value_range)) cfg"

text \<open>The while loop over the query; None is a read outside the URL.\<close>

function query_loop ::
  "string \<Rightarrow> Component \<Rightarrow> Component \<Rightarrow> Component \<Rightarrow> session_config_t \<Rightarrow> session_config_t option" where
  "query_loop url qry key_range value_range cfg =
     (case ExtractQueryKeyValue url qry key_range value_range of
        None \<Rightarrow> None
      | Some (ok, q', k, v) \<Rightarrow>
          if ok then query_loop url q' k v (assign_param url k v cfg) else Some cfg)"
  by pat_completeness auto
termination
  by (relation "measure (\<lambda>(u, q, k, v, c). nat (clen q))")
    (auto dest: ExtractQueryKeyValue_shrinks)

declare query_loop.simps [simp del]

text \<open>
  The body of the loop over the session URLs in Init. getenv ("LOGNAME") is a parameter; a
  null result makes std::string::assign undefined, None here.
\<close>

definition session_of_url :: "string option \<Rightarrow> string \<Rightarrow> Parsed \<Rightarrow> (session_config_t \<times> Parsed) option" where
  "session_of_url logname url parsed0 =
     do {
       parsed \<leftarrow> ParseStandardURL url (int (length url)) parsed0;
       let part = (\<lambda>c. slice url (cbegin c) (cend c));
       let cfg = (if is_valid (scheme parsed) then new_session_config\<lparr>protocol := part (scheme parsed)\<rparr>
                  else new_session_config);
       cfg \<leftarrow> (if is_valid (username parsed) then Some (cfg\<lparr>user_name := part (username parsed)\<rparr>)
               else map_option (\<lambda>n. cfg\<lparr>user_name := n\<rparr>) logname);
       let cfg = cfg\<lparr>servers := servers cfg @
                   [if is_valid (host parsed) then part (host parsed) else ''localhost'']\<rparr>;
       let cfg = (if is_valid (port parsed) then cfg\<lparr>default_port := part (port parsed)\<rparr> else cfg);
       cfg \<leftarrow> (if is_valid (path parsed) then
                 do {
                   file_name \<leftarrow> ExtractFileName url (path parsed);
                   Some (if is_valid file_name then cfg\<lparr>service_name := part file_name\<rparr> else cfg)
                 }
               else Some cfg);
       cfg \<leftarrow> (if is_valid (query parsed)
               then query_loop url (query parsed) no_Component no_Component cfg
               else Some cfg);
       Some (cfg\<lparr>session_name := ''Session'' @ service_name cfg,
                 connection_name := ''Connection'' @ service_name cfg,
                 consumer_name := ''Consumer'' @ service_name cfg\<rparr>, parsed)
     }"

text \<open>The loop: one Parsed object is reused for every URL.\<close>

fun sessions_of_urls :: "string option \<Rightarrow> string list \<Rightarrow> Parsed \<Rightarrow> session_config_t list option" where
  "sessions_of_urls logname [] parsed = Some []"
| "sessions_of_urls logname (url # urls) parsed =
     do {
       (cfg, parsed') \<leftarrow> session_of_url logname url parsed;
       rest \<leftarrow> sessions_of_urls logname urls parsed';
       Some (cfg # rest)
     }"

section \<open>What the query loop computes\<close>

text \<open>The reference: the first key, its value and the rest of a query string.\<close>

definition skip_char :: "char \<Rightarrow> string \<Rightarrow> string" where
  "skip_char d s = (case s of [] \<Rightarrow> [] | c # cs \<Rightarrow> if c = d then cs else s)"

definition query_key :: "string \<Rightarrow> string" where
  "query_key q = takeWhile (\<lambda>c. c \<noteq> CHR ''&'' \<and> c \<noteq> CHR ''='') q"

definition after_key :: "string \<Rightarrow> string" where
  "after_key q = skip_char (CHR ''='') (drop (length (query_key q)) q)"

definition query_value :: "string \<Rightarrow> string" where
  "query_value q = takeWhile (\<lambda>c. c \<noteq> CHR ''&'') (after_key q)"

definition query_rest :: "string \<Rightarrow> string" where
  "query_rest q = skip_char (CHR ''&'') (drop (length (query_value q)) (after_key q))"

lemma skip_char_split: "\<exists>p. s = p @ skip_char d s"
  by (cases s) (auto simp: skip_char_def)

lemma skip_char_length: "length (skip_char d s) \<le> length s"
  by (cases s) (auto simp: skip_char_def)

lemma skip_scan:
  fixes A X B :: string
  shows "(if int (length A) < int (length A) + int (length X)
    then map_option (\<lambda>c. if c = d then int (length A) + 1 else int (length A))
           (rd (A @ X @ B) (int (length A)))
    else Some (int (length A))) =
   Some (int (length A) + int (length X) - int (length (skip_char d X)))"
proof (cases X)
  case (Cons x xs)
  then show ?thesis using rd_app [of A x "xs @ B"] by (simp add: skip_char_def)
qed (simp add: skip_char_def)

lemma ExtractQueryKeyValue_text:
  assumes "q \<noteq> []"
  obtains K V R where
    "ExtractQueryKeyValue (A @ q @ B) (piece A q) k v =
       Some (True, piece R (query_rest q), piece A (query_key q), piece V (query_value q))"
    "A @ q = R @ query_rest q" "A @ q = A @ query_key q @ K"
    "\<exists>W. A @ q = V @ query_value q @ W"
proof -
  let ?P = "\<lambda>c. c = CHR ''&'' \<or> c = CHR ''=''"
  let ?a = "int (length A)" and ?e = "int (length A) + int (length q)"
  define K where "K = drop (length (query_key q)) q"
  have q1: "q = query_key q @ K"
    unfolding K_def query_key_def by (rule takeWhile_drop_id [symmetric])
  obtain E where E: "K = E @ after_key q"
    unfolding after_key_def K_def using skip_char_split by blast
  define M where "M = drop (length (query_value q)) (after_key q)"
  have q2: "after_key q = query_value q @ M"
    unfolding M_def query_value_def by (rule takeWhile_drop_id [symmetric])
  obtain F where F: "M = F @ query_rest q"
    unfolding query_rest_def M_def using skip_char_split by blast
  let ?V = "A @ query_key q @ E"
  have s1: "scan_fwd ?P (A @ q @ B) ?a ?e = Some (?a + int (length (query_key q)))"
    using scan_fwd_text [of ?P A q B] by (simp add: query_key_def)
  have lenq: "length q = length (query_key q) + length K" by (subst q1) simp
  have lenK: "length K = length E + length (after_key q)" by (subst E) simp
  have lenM: "length (after_key q) = length (query_value q) + length M" by (subst q2) simp
  have lenF: "length M = length F + length (query_rest q)" by (subst F) simp
  have buf1: "A @ q @ B = (A @ query_key q) @ K @ B" by (subst q1) simp
  have buf2: "A @ q @ B = ?V @ after_key q @ B" unfolding buf1 by (subst E) simp
  have buf3: "A @ q @ B = (?V @ query_value q) @ M @ B" unfolding buf2 by (subst q2) simp
  have e: "?e = int (length ?V) + int (length (after_key q))"
    "?e = int (length (A @ query_key q)) + int (length K)"
    "?e = int (length (?V @ query_value q)) + int (length M)"
    using lenq lenK lenM by simp_all
  have sk: "skip_char (CHR ''='') K = after_key q" "skip_char (CHR ''&'') M = query_rest q"
    by (simp_all add: after_key_def K_def query_rest_def M_def)
  have s2: "(if ?a + int (length (query_key q)) < ?e
      then map_option (\<lambda>c. if c = CHR ''='' then ?a + int (length (query_key q)) + 1
                            else ?a + int (length (query_key q)))
             (rd (A @ q @ B) (?a + int (length (query_key q))))
      else Some (?a + int (length (query_key q)))) = Some (int (length ?V))"
    using skip_scan [of "A @ query_key q" K "CHR ''=''" B] e(2) sk(1) lenK
    by (simp only: buf1 length_append of_nat_add) simp
  have s3: "scan_fwd (\<lambda>c. c = CHR ''&'') (A @ q @ B) (int (length ?V)) ?e =
      Some (int (length ?V) + int (length (query_value q)))"
    using scan_fwd_text [of "\<lambda>c. c = CHR ''&''" ?V "after_key q" B]
    unfolding e(1) buf2 by (simp only: query_value_def)
  let ?n = "int (length ?V) + int (length (query_value q))"
  let ?R = "?V @ query_value q @ F"
  have s4: "(if ?n < ?e
      then map_option (\<lambda>c. if c = CHR ''&'' then ?n + 1 else ?n) (rd (A @ q @ B) ?n)
      else Some ?n) = Some (int (length ?R))"
    using skip_scan [of "?V @ query_value q" M "CHR ''&''" B] e(3) sk(2) lenF
    by (simp only: buf3 length_append of_nat_add) simp
  have c: "MakeRange (int (length ?R)) ?e = piece ?R (query_rest q)"
    "\<lparr>cbegin = ?a, clen = ?a + int (length (query_key q)) - ?a\<rparr> = piece A (query_key q)"
    "\<lparr>cbegin = int (length ?V), clen = ?n - int (length ?V)\<rparr> = piece ?V (query_value q)"
    using e(3) lenF by (simp_all add: piece_def MakeRange_def mk_Component_def)
  have "ExtractQueryKeyValue (A @ q @ B) (piece A q) k v =
      Some (True, piece ?R (query_rest q), piece A (query_key q), piece ?V (query_value q))"
    unfolding ExtractQueryKeyValue_def Let_def piece_simps is_nonempty_def
    using assms by (simp only: s1 s2 s3 s4 c bind.bind_lunit) simp
  moreover have "A @ q = ?R @ query_rest q"
    using q1 E q2 F by (metis append.assoc)
  moreover have "A @ q = A @ query_key q @ K" using q1 by simp
  moreover have "A @ q = ?V @ query_value q @ M" using q1 E q2 by (metis append.assoc)
  ultimately show ?thesis using that by blast
qed

lemma query_rest_shorter: "q \<noteq> [] \<Longrightarrow> length (query_rest q) < length q"
proof -
  assume ne: "q \<noteq> []"
  obtain K V R where "ExtractQueryKeyValue ([] @ q @ []) (piece [] q) no_Component no_Component =
      Some (True, piece R (query_rest q), piece [] (query_key q), piece V (query_value q))"
    by (rule ExtractQueryKeyValue_text [OF ne, of "[]" "[]"])
  from ExtractQueryKeyValue_shrinks(1) [OF this] show ?thesis by simp
qed

function query_pairs :: "string \<Rightarrow> (string \<times> string) list" where
  "query_pairs q = (if q = [] then [] else (query_key q, query_value q) # query_pairs (query_rest q))"
  by pat_completeness auto
termination
  by (relation "measure length") (auto simp: query_rest_shorter)

declare query_pairs.simps [simp del]

lemma slice_piece: "s = A @ X @ B \<Longrightarrow> slice s (cbegin (piece A X)) (cend (piece A X)) = X"
  by (simp add: slice_append_mid)

text \<open>The loop assigns the pairs of the query string in order.\<close>

lemma query_loop_text:
  "query_loop (A @ q @ B) (piece A q) k v cfg =
     Some (fold (\<lambda>(k, v). assign_kv k v) (query_pairs q) cfg)"
proof (induction q arbitrary: A k v cfg rule: query_pairs.induct)
  case (1 q)
  show ?case
  proof (cases "q = []")
    case True
    then show ?thesis
      by (simp add: query_loop.simps query_pairs.simps ExtractQueryKeyValue_def is_nonempty_def)
  next
    case False
    obtain K V R W where x:
      "ExtractQueryKeyValue (A @ q @ B) (piece A q) k v =
         Some (True, piece R (query_rest q), piece A (query_key q), piece V (query_value q))"
      "A @ q = R @ query_rest q" "A @ q = A @ query_key q @ K" "A @ q = V @ query_value q @ W"
      by (rule ExtractQueryKeyValue_text [OF False, of A B k v]) blast
    have buf: "A @ q @ B = R @ query_rest q @ B" "A @ q @ B = A @ query_key q @ (K @ B)"
      "A @ q @ B = V @ query_value q @ (W @ B)"
      using x(2-4) by (metis append.assoc)+
    have "assign_param (A @ q @ B) (piece A (query_key q)) (piece V (query_value q)) cfg =
        assign_kv (query_key q) (query_value q) cfg"
      unfolding assign_param_def slice_piece [OF buf(2)] slice_piece [OF buf(3)] ..
    then have "query_loop (A @ q @ B) (piece A q) k v cfg =
        query_loop (R @ query_rest q @ B) (piece R (query_rest q))
          (piece A (query_key q)) (piece V (query_value q)) (assign_kv (query_key q) (query_value q) cfg)"
      by (subst query_loop.simps) (simp add: x(1) buf(1) [symmetric])
    also have "\<dots> = Some (fold (\<lambda>(k, v). assign_kv k v) (query_pairs (query_rest q))
        (assign_kv (query_key q) (query_value q) cfg))"
      by (rule 1 [OF False])
    finally show ?thesis
      using False by (subst query_pairs.simps) simp
  qed
qed

text \<open>The text of a list of parameters, and that the pairs of that text are the parameters.\<close>

fun params_text :: "(string \<times> string) list \<Rightarrow> string" where
  "params_text [] = []"
| "params_text [(k, v)] = k @ ''='' @ v"
| "params_text ((k, v) # p # ps) = k @ ''='' @ v @ ''&'' @ params_text (p # ps)"

lemma query_step:
  assumes k: "CHR ''&'' \<notin> set k" "CHR ''='' \<notin> set k" and v: "CHR ''&'' \<notin> set v"
    and r: "r = [] \<or> hd r = CHR ''&''"
  shows "query_key (k @ CHR ''='' # v @ r) = k" "query_value (k @ CHR ''='' # v @ r) = v"
    "query_rest (k @ CHR ''='' # v @ r) = tl r"
proof -
  let ?q = "k @ CHR ''='' # v @ r"
  show key: "query_key ?q = k"
    unfolding query_key_def by (rule takeWhile_append_stop) (use k in auto)
  have ak: "after_key ?q = v @ r"
    by (simp add: after_key_def key skip_char_def)
  have tv: "takeWhile (\<lambda>c. c \<noteq> CHR ''&'') v = v"
    using v by (simp add: takeWhile_eq_all_conv) metis
  show val: "query_value ?q = v"
    unfolding query_value_def ak using v r tv takeWhile_append_stop [of v _ "CHR ''&''"]
    by (cases r) auto
  show "query_rest ?q = tl r"
    unfolding query_rest_def val ak using r by (cases r) (auto simp: skip_char_def)
qed

lemma query_pairs_text:
  assumes "list_all (\<lambda>(k, v). CHR ''&'' \<notin> set k \<and> CHR ''='' \<notin> set k \<and> CHR ''&'' \<notin> set v) ps"
  shows "query_pairs (params_text ps) = ps"
  using assms
proof (induction ps rule: params_text.induct)
  case 1
  then show ?case by (simp add: query_pairs.simps)
next
  case (2 k v)
  from query_step [of k v "[]"] 2 show ?case
    by (subst query_pairs.simps) (simp add: query_pairs.simps)
next
  case (3 k v p ps)
  from query_step [of k v "CHR ''&'' # params_text (p # ps)"] 3 show ?case
    by (subst query_pairs.simps) simp
qed

section \<open>What a session URL configures\<close>

lemma ExtractFileName_text:
  assumes "IsURLSlash c" and "\<forall>x\<in>set n. \<not> IsURLSlash x" and "CHR '';'' \<notin> set (d @ c # n)"
  shows "ExtractFileName (A @ (d @ c # n) @ B) (piece A (d @ c # n)) = Some (piece (A @ d @ [c]) n)"
proof -
  let ?P = "d @ c # n" and ?e = "int (length A) + int (length (d @ c # n))"
  have semi: "scan_bwd (\<lambda>c. c = CHR '';'') (A @ ?P @ B) (?e - 1) (int (length A)) = Some (int (length A))"
  proof (rule scan_bwd_none)
    fix k assume "int (length A) < k" "k \<le> ?e - 1"
    then have "int (length A) \<le> k" "k < ?e" by simp_all
    from nth_mid [OF this] assms(3) show "(A @ ?P @ B) ! nat k \<noteq> CHR '';''"
      by (metis nth_mem)
  qed simp_all
  have "scan_bwd IsURLSlash ((A @ d) @ c # n @ B) (int (length (A @ d)) + int (length n))
      (int (length A) - 1) = Some (int (length (A @ d)))"
    by (rule scan_bwd_app) (use assms in auto)
  with semi show ?thesis
    by (simp add: ExtractFileName_def Let_def piece_def comp_defs algebra_simps)
qed

definition expected_session :: "string \<Rightarrow> UrlParts \<Rightarrow> string \<Rightarrow> session_config_t" where
  "expected_session logname u service =
     fold (\<lambda>(k, v). assign_kv k v) (query_pairs (the_default [] (u_query u)))
       \<lparr>session_name = ''Session'' @ service, connection_name = ''Connection'' @ service,
        consumer_name = ''Consumer'' @ service, protocol = u_scheme u, service_name = service,
        servers = [u_host u], default_port = the_default [] (u_port u),
        application_id = [], instance_id = [],
        user_name = (case u_user u of None \<Rightarrow> logname | Some (n, _) \<Rightarrow> n), position = []\<rparr>"

lemma assign_kv_service [simp]: "service_name (assign_kv k v cfg) = service_name cfg"
  by (simp add: assign_kv_def)

lemma fold_assign_service [simp]:
  "service_name (fold (\<lambda>(k, v). assign_kv k v) ps cfg) = service_name cfg"
  by (induction ps arbitrary: cfg) auto

lemma fold_assign_names:
  "fold (\<lambda>(k, v). assign_kv k v) ps (cfg\<lparr>session_name := a, connection_name := b, consumer_name := c\<rparr>) =
   (fold (\<lambda>(k, v). assign_kv k v) ps cfg)\<lparr>session_name := a, connection_name := b, consumer_name := c\<rparr>"
proof (induction ps arbitrary: cfg)
  case (Cons p ps)
  have "assign_kv k v (cfg\<lparr>session_name := a, connection_name := b, consumer_name := c\<rparr>) =
      (assign_kv k v cfg)\<lparr>session_name := a, connection_name := b, consumer_name := c\<rparr>" for k v
    by (simp add: assign_kv_def)
  with Cons.IH show ?case by (cases p) simp
qed simp



end
