(* ===== verification/Consumer.thy ===== *)
theory Consumer
  imports Config
begin

text \<open>
  The RFA consumer: item_stream_t and consumer_t of src/consumer.hh and src/consumer.cc.
  The RFA library and the system clock are third-party code: what their calls return is the
  record rfa_api, an argument of the operations (a reply may depend on how many calls were
  made before), and the calls the program makes are recorded in order in the world. The world
  also holds what the operations share: the item streams by address, the records written to
  the archive stream, and how often the on_sync callback was invoked. A result None means
  that the code dereferences a null or dangling pointer (CHECK only logs in this program, it
  does not stop); an exception is the left value of a sum.
\<close>

section \<open>Data\<close>

datatype pc =
    RFA_EVENTS_RECEIVED | RFA_EVENTS_DISCARDED
  | OMM_ITEM_EVENTS_RECEIVED | OMM_ITEM_EVENTS_DISCARDED
  | RESPONSE_MSGS_RECEIVED | RESPONSE_MSGS_DISCARDED
  | MMT_LOGIN_RESPONSE_RECEIVED | MMT_LOGIN_RESPONSE_DISCARDED
  | MMT_LOGIN_SUCCESS | MMT_LOGIN_SUSPECT | MMT_LOGIN_CLOSED
  | OMM_CMD_ERRORS
  | MMT_LOGIN_VALIDATED | MMT_LOGIN_MALFORMED | MMT_LOGIN_EXCEPTION | MMT_LOGIN_SENT
  | MMT_MARKET_PRICE_RECEIVED
  | MMT_MARKET_PRICE_REQUEST_VALIDATED | MMT_MARKET_PRICE_REQUEST_MALFORMED
  | MMT_MARKET_PRICE_REQUEST_EXCEPTION | MMT_MARKET_PRICE_REQUEST_SENT
  | MARKET_DATA_SVC_EVENTS_RECEIVED | CONNECTION_EVENTS_RECEIVED
  | ENTITLEMENT_EVENTS_RECEIVED | LICENSE_EVENTS_RECEIVED
  | MARKET_DATA_ITEM_EVENTS_RECEIVED

text \<open>A ptime that was never set is not_a_date_time, None here.\<close>

record item_stream_t =
  rfa_item_name :: string
  rfa_service_name :: string
  item_handle :: "nat option"
  last_activity :: int
  last_refresh :: "int option"
  last_status :: "int option"
  last_update :: "int option"
  msg_count :: u32
  refresh_received :: u32
  status_received :: u32
  update_received :: u32
  is_closed :: bool

definition new_item_stream :: "int \<Rightarrow> item_stream_t" where
  "new_item_stream now =
     \<lparr>rfa_item_name = [], rfa_service_name = [], item_handle = None, last_activity = now,
      last_refresh = None, last_status = None, last_update = None,
      msg_count = 0, refresh_received = 0, status_received = 0, update_received = 0,
      is_closed = False\<rparr>"

text \<open>The message of src/archive.proto; None is a field that is not set.\<close>

record Marketfeed =
  tv_sec :: "u32 option"
  tv_usec :: "u32 option"
  message_type :: "u32 option"
  mf_service_name :: "string option"
  item_name :: "string option"
  packed_buffer :: "string option"
  new_item_name :: "string option"

definition Marketfeed_Clear :: Marketfeed where
  "Marketfeed_Clear =
     \<lparr>tv_sec = None, tv_usec = None, message_type = None, mf_service_name = None,
      item_name = None, packed_buffer = None, new_item_name = None\<rparr>"

definition IsInitialized :: "Marketfeed \<Rightarrow> bool" where
  "IsInitialized m =
     (tv_sec m \<noteq> None \<and> tv_usec m \<noteq> None \<and> message_type m \<noteq> None \<and>
      mf_service_name m \<noteq> None \<and> item_name m \<noteq> None)"

datatype stream_state = OpenEnum | ClosedEnum | OtherStreamState int
datatype data_state = OkEnum | SuspectEnum | OtherDataState int

text \<open>
  A shared_ptr to a handle with a deleter: empty, or owning the pointer it was reset to, which
  may be null (then the deleter still runs on it).
\<close>

datatype slot = NoSlot | Owned "nat option"

fun slot_set :: "slot \<Rightarrow> bool" where
  "slot_set NoSlot = False"
| "slot_set (Owned h) = (h \<noteq> None)"

record consumer_t =
  c_config :: session_config_t
  c_session :: bool
  c_omm_consumer :: bool
  c_market_data_subscriber :: bool
  c_error_item_handle :: slot
  c_item_handle :: slot
  c_mfeed :: Marketfeed
  c_coded_stream :: bool
  c_disable_update :: bool
  c_disable_refresh :: bool
  c_interest_after_refresh :: "bool option"
  c_refresh_count :: u32
  c_in_sync :: bool
  c_on_sync :: bool
  c_rwf_major_version :: "8 word"
  c_rwf_minor_version :: "8 word"
  c_is_muted :: bool
  c_stream_state :: "stream_state option"
  c_data_state :: "data_state option"
  c_directory :: "(string \<times> nat) list"
  c_last_activity :: int
  c_cumulative_stats :: "pc \<Rightarrow> u32"
  c_snap_stats :: "pc \<Rightarrow> u32"

text \<open>Members that the constructor leaves uninitialised are None.\<close>

definition new_consumer :: "session_config_t \<Rightarrow> bool \<Rightarrow> int \<Rightarrow> consumer_t" where
  "new_consumer cfg coded_stream now =
     \<lparr>c_config = cfg, c_session = False, c_omm_consumer = False,
      c_market_data_subscriber = False, c_error_item_handle = NoSlot, c_item_handle = NoSlot,
      c_mfeed = Marketfeed_Clear, c_coded_stream = coded_stream,
      c_disable_update = False, c_disable_refresh = False, c_interest_after_refresh = None,
      c_refresh_count = 0, c_in_sync = False, c_on_sync = False,
      c_rwf_major_version = 0, c_rwf_minor_version = 0, c_is_muted = True,
      c_stream_state = None, c_data_state = None, c_directory = [], c_last_activity = now,
      c_cumulative_stats = (\<lambda>_. 0), c_snap_stats = (\<lambda>_. 0)\<rparr>"

section \<open>The library calls and the world\<close>

datatype exn = InvalidUsageException | InvalidConfigurationException | StdException

datatype ename = ENAME_APP_ID | ENAME_POSITION | ENAME_INST_ID

record login_request =
  lr_user :: string
  lr_elements :: "(ename \<times> string) list"

datatype rfa_call =
    AcquireSession string
  | CreateOMMConsumer string
  | CreateMarketDataSubscriber string
  | RegisterErrorInterest
  | RegisterMarketDataStatus
  | RegisterLogin login_request
  | RegisterItem string string nat
  | Subscribe string string nat
  | UnregisterClient "nat option"
  | ReleaseSession
  | DestroyConsumer
  | DestroySubscriber

text \<open>
  What a call that creates or registers something returns: an object or handle, a null
  pointer, or an exception. validateMsg answers or throws.
\<close>

datatype reply = Handle nat | NullHandle | Raises exn

datatype validation = ValidationOk | ValidationWarning | ValidationRaises exn

datatype md_msg_type =
    Image | Update | UnsolicitedImage | Status | Correction | ClosingRun | Rename
  | PermissionData | GroupChange | OtherMsgType nat

record rfa_api =
  api_reply :: "nat \<Rightarrow> reply"
  api_validate :: "nat \<Rightarrow> validation"
  api_rwf_version :: "8 word \<times> 8 word"
  api_msg_type :: "md_msg_type \<Rightarrow> nat"
  api_iter_order :: "(string \<times> nat) list \<Rightarrow> (string \<times> nat) list"
  api_dcheck_is_on :: bool

text \<open>w_now is the clock in microseconds since the epoch, constant during one operation.\<close>

record world =
  w_heap :: "nat \<Rightarrow> item_stream_t option"
  w_calls :: "rfa_call list"
  w_archive :: "Marketfeed list"
  w_sync_calls :: nat
  w_now :: int

type_synonym cstate = "consumer_t \<times> world"

definition second_clock :: "world \<Rightarrow> int" where
  "second_clock w = w_now w div 1000000"

definition bump :: "pc \<Rightarrow> consumer_t \<Rightarrow> consumer_t" where
  "bump k c = c\<lparr>c_cumulative_stats := (c_cumulative_stats c)(k := c_cumulative_stats c k + 1)\<rparr>"

text \<open>A call: its entry in the log, and the library's reply.\<close>

definition do_call :: "rfa_api \<Rightarrow> rfa_call \<Rightarrow> world \<Rightarrow> reply \<times> world" where
  "do_call api k w = (api_reply api (length (w_calls w)), w\<lparr>w_calls := w_calls w @ [k]\<rparr>)"

definition set_stream :: "nat \<Rightarrow> item_stream_t \<Rightarrow> world \<Rightarrow> world" where
  "set_stream a st w = w\<lparr>w_heap := (w_heap w)(a \<mapsto> st)\<rparr>"

section \<open>Requests\<close>

definition login_elements :: "session_config_t \<Rightarrow> (ename \<times> string) list" where
  "login_elements cfg =
     [(ENAME_APP_ID, application_id cfg), (ENAME_POSITION, position cfg)] @
     (if instance_id cfg \<noteq> [] then [(ENAME_INST_ID, instance_id cfg)] else [])"

definition count_validation :: "validation \<Rightarrow> pc \<Rightarrow> pc \<Rightarrow> pc \<Rightarrow> consumer_t \<Rightarrow> consumer_t" where
  "count_validation v validated malformed exception c =
     (case v of
        ValidationOk \<Rightarrow> bump validated c
      | ValidationWarning \<Rightarrow> bump validated c
      | ValidationRaises InvalidUsageException \<Rightarrow> bump malformed c
      | ValidationRaises _ \<Rightarrow> bump exception c)"

definition SendLoginRequest :: "rfa_api \<Rightarrow> cstate \<Rightarrow> ((exn + bool) \<times> cstate) option" where
  "SendLoginRequest api = (\<lambda>(c, w).
     let c = count_validation (api_validate api (length (w_calls w)))
               MMT_LOGIN_VALIDATED MMT_LOGIN_MALFORMED MMT_LOGIN_EXCEPTION c;
         req = \<lparr>lr_user = user_name (c_config c), lr_elements = login_elements (c_config c)\<rparr> in
     if \<not> c_omm_consumer c then None
     else
       (case do_call api (RegisterLogin req) w of
          (Raises e, w) \<Rightarrow> Some (Inl e, c, w)
        | (NullHandle, w) \<Rightarrow> Some (Inr False, bump MMT_LOGIN_SENT (c\<lparr>c_item_handle := Owned None\<rparr>), w)
        | (Handle h, w) \<Rightarrow>
            Some (Inr True,
                  (bump MMT_LOGIN_SENT (c\<lparr>c_item_handle := Owned (Some h)\<rparr>))
                    \<lparr>c_rwf_major_version := fst (api_rwf_version api),
                     c_rwf_minor_version := snd (api_rwf_version api)\<rparr>, w)))"

definition SendItemRequest :: "rfa_api \<Rightarrow> nat \<Rightarrow> cstate \<Rightarrow> ((exn + bool) \<times> cstate) option" where
  "SendItemRequest api a = (\<lambda>(c, w).
     case w_heap w a of
       None \<Rightarrow> None
     | Some st \<Rightarrow>
         (let c = (if api_dcheck_is_on api
                   then count_validation (api_validate api (length (w_calls w)))
                          MMT_MARKET_PRICE_REQUEST_VALIDATED MMT_MARKET_PRICE_REQUEST_MALFORMED
                          MMT_MARKET_PRICE_REQUEST_EXCEPTION c
                   else c) in
          if \<not> c_omm_consumer c then None
          else
            (case do_call api (RegisterItem (rfa_item_name st) (rfa_service_name st) a) w of
               (Raises e, w) \<Rightarrow> Some (Inl e, c, w)
             | (NullHandle, w) \<Rightarrow>
                 Some (Inr False, bump MMT_MARKET_PRICE_REQUEST_SENT c,
                       set_stream a (st\<lparr>item_handle := None\<rparr>) w)
             | (Handle h, w) \<Rightarrow>
                 Some (Inr True, bump MMT_MARKET_PRICE_REQUEST_SENT c,
                       set_stream a (st\<lparr>item_handle := Some h\<rparr>) w))))"

definition AddSubscription :: "rfa_api \<Rightarrow> nat \<Rightarrow> cstate \<Rightarrow> ((exn + bool) \<times> cstate) option" where
  "AddSubscription api a = (\<lambda>(c, w).
     case w_heap w a of
       None \<Rightarrow> None
     | Some st \<Rightarrow>
         if \<not> c_market_data_subscriber c then None
         else
           (case do_call api (Subscribe (rfa_service_name st) (rfa_item_name st) a) w of
              (Raises e, w) \<Rightarrow> Some (Inl e, c, w)
            | (NullHandle, w) \<Rightarrow> Some (Inr False, c, set_stream a (st\<lparr>item_handle := None\<rparr>) w)
            | (Handle h, w) \<Rightarrow> Some (Inr True, c, set_stream a (st\<lparr>item_handle := Some h\<rparr>) w)))"

text \<open>
  The loop of Resubscribe over the directory: weak_ptr::lock fails for a stream that is gone,
  and only streams without a handle are requested. An exception ends the loop.
\<close>

fun resubscribe_loop ::
  "(nat \<Rightarrow> cstate \<Rightarrow> ((exn + bool) \<times> cstate) option) \<Rightarrow> (string \<times> nat) list \<Rightarrow> cstate \<Rightarrow>
     ((exn + unit) \<times> cstate) option" where
  "resubscribe_loop send [] s = Some (Inr (), s)"
| "resubscribe_loop send ((key, a) # rest) s =
     (case w_heap (snd s) a of
        None \<Rightarrow> resubscribe_loop send rest s
      | Some st \<Rightarrow>
          if item_handle st = None then
            (case send a s of
               None \<Rightarrow> None
             | Some (Inl e, s') \<Rightarrow> Some (Inl e, s')
             | Some (Inr _, s') \<Rightarrow> resubscribe_loop send rest s')
          else resubscribe_loop send rest s)"

definition Resubscribe :: "rfa_api \<Rightarrow> cstate \<Rightarrow> ((exn + bool) \<times> cstate) option" where
  "Resubscribe api = (\<lambda>(c, w).
     let run = (\<lambda>send.
       (case resubscribe_loop send (api_iter_order api (c_directory c)) (c, w) of
          None \<Rightarrow> None
        | Some (Inl e, s) \<Rightarrow> Some (Inl e, s)
        | Some (Inr _, s) \<Rightarrow> Some (Inr True, s))) in
     if LowerCaseEqualsASCII (protocol (c_config c)) ''rssl'' then
       (if \<not> c_omm_consumer c then Some (Inr False, c, w) else run (SendItemRequest api))
     else if LowerCaseEqualsASCII (protocol (c_config c)) ''ssled'' then
       (if \<not> c_market_data_subscriber c then Some (Inr False, c, w) else run (AddSubscription api))
     else Some (Inr False, c, w))"

section \<open>Construction, login and destruction\<close>

definition Init_rssl :: "rfa_api \<Rightarrow> cstate \<Rightarrow> ((exn + bool) \<times> cstate) option" where
  "Init_rssl api = (\<lambda>(c, w).
     case do_call api (CreateOMMConsumer (consumer_name (c_config c))) w of
       (Raises e, w) \<Rightarrow> Some (Inl e, c, w)
     | (NullHandle, w) \<Rightarrow> Some (Inr False, c\<lparr>c_omm_consumer := False\<rparr>, w)
     | (Handle _, w) \<Rightarrow>
         (let c = c\<lparr>c_omm_consumer := True\<rparr> in
          case do_call api RegisterErrorInterest w of
            (Raises e, w) \<Rightarrow> Some (Inl e, c, w)
          | (NullHandle, w) \<Rightarrow> Some (Inr False, c\<lparr>c_error_item_handle := Owned None\<rparr>, w)
          | (Handle h, w) \<Rightarrow>
              SendLoginRequest api (c\<lparr>c_error_item_handle := Owned (Some h)\<rparr>, w)))"

definition Init_ssled :: "rfa_api \<Rightarrow> cstate \<Rightarrow> ((exn + bool) \<times> cstate) option" where
  "Init_ssled api = (\<lambda>(c, w).
     case do_call api (CreateMarketDataSubscriber (consumer_name (c_config c))) w of
       (Raises e, w) \<Rightarrow> Some (Inl e, c, w)
     | (NullHandle, w) \<Rightarrow> Some (Inr False, c\<lparr>c_market_data_subscriber := False\<rparr>, w)
     | (Handle _, w) \<Rightarrow>
         (let c = c\<lparr>c_market_data_subscriber := True\<rparr> in
          case do_call api RegisterMarketDataStatus w of
            (Raises e, w) \<Rightarrow> Some (Inl e, c, w)
          | (NullHandle, w) \<Rightarrow> Some (Inr False, c\<lparr>c_error_item_handle := Owned None\<rparr>, w)
          | (Handle h, w) \<Rightarrow> Some (Inr True, c\<lparr>c_error_item_handle := Owned (Some h)\<rparr>, w)))"

definition consumer_Init ::
  "rfa_api \<Rightarrow> bool \<Rightarrow> bool \<Rightarrow> bool \<Rightarrow> bool \<Rightarrow> cstate \<Rightarrow> ((exn + bool) \<times> cstate) option" where
  "consumer_Init api no_update no_refresh interest_after_refresh on_sync = (\<lambda>(c, w).
     let c = c\<lparr>c_last_activity := w_now w, c_disable_update := no_update,
               c_disable_refresh := no_refresh,
               c_interest_after_refresh := Some interest_after_refresh, c_on_sync := on_sync\<rparr> in
     case do_call api (AcquireSession (session_name (c_config c))) w of
       (Raises e, w) \<Rightarrow> Some (Inl e, c, w)
     | (NullHandle, w) \<Rightarrow> Some (Inr False, c\<lparr>c_session := False\<rparr>, w)
     | (Handle _, w) \<Rightarrow>
         (let c = c\<lparr>c_session := True\<rparr> in
          if LowerCaseEqualsASCII (protocol (c_config c)) ''rssl'' then Init_rssl api (c, w)
          else if LowerCaseEqualsASCII (protocol (c_config c)) ''ssled'' then Init_ssled api (c, w)
          else Some (Inr False, c, w)))"

text \<open>
  The destructor. The deleter of an owned handle unregisters it; on the market data
  subscriber it dereferences the pointer first.
\<close>

definition release_slot :: "bool \<Rightarrow> slot \<Rightarrow> world \<Rightarrow> world option" where
  "release_slot by_reference sl w =
     (case sl of
        NoSlot \<Rightarrow> Some w
      | Owned None \<Rightarrow>
          if by_reference then None else Some (w\<lparr>w_calls := w_calls w @ [UnregisterClient None]\<rparr>)
      | Owned (Some h) \<Rightarrow> Some (w\<lparr>w_calls := w_calls w @ [UnregisterClient (Some h)]\<rparr>))"

definition log_if :: "bool \<Rightarrow> rfa_call \<Rightarrow> world \<Rightarrow> world" where
  "log_if b k w = (if b then w\<lparr>w_calls := w_calls w @ [k]\<rparr> else w)"

definition consumer_destroy :: "cstate \<Rightarrow> cstate option" where
  "consumer_destroy = (\<lambda>(c, w).
     do {
       w \<leftarrow> release_slot False (c_item_handle c) w;
       w \<leftarrow> release_slot (c_market_data_subscriber c) (c_error_item_handle c) w;
       let w = log_if (c_omm_consumer c) DestroyConsumer w;
       let w = log_if (c_market_data_subscriber c) DestroySubscriber w;
       let w = log_if (c_session c) ReleaseSession w;
       Some (c\<lparr>c_item_handle := NoSlot, c_error_item_handle := NoSlot, c_omm_consumer := False,
               c_market_data_subscriber := False, c_session := False\<rparr>, w)
     })"

section \<open>Item streams\<close>

text \<open>The directory is an unordered_map keyed by item name: emplace keeps an existing entry.\<close>

definition CreateItemStream ::
  "rfa_api \<Rightarrow> string \<Rightarrow> nat \<Rightarrow> cstate \<Rightarrow> ((exn + bool) \<times> cstate) option" where
  "CreateItemStream api name a = (\<lambda>(c, w).
     case w_heap w a of
       None \<Rightarrow> None
     | Some st \<Rightarrow>
         (let w = set_stream a (st\<lparr>rfa_item_name := name,
                                   rfa_service_name := service_name (c_config c)\<rparr>) w;
              enter = (\<lambda>(c, w).
                if name \<in> set (map fst (c_directory c)) then Some (Inr False, c, w)
                else Some (Inr True, c\<lparr>c_directory := c_directory c @ [(name, a)],
                                       c_last_activity := w_now w\<rparr>, w)) in
          if \<not> c_is_muted c then
            (case SendItemRequest api a (c, w) of
               None \<Rightarrow> None
             | Some (Inl e, s) \<Rightarrow> Some (Inl e, s)
             | Some (Inr False, s) \<Rightarrow> Some (Inr False, s)
             | Some (Inr True, s) \<Rightarrow> enter s)
          else enter (c, w)))"

section \<open>Events\<close>

datatype resp_type = RefreshEnum | StatusEnum | UpdateEnum | OtherRespType int

datatype msg_model = MMT_LOGIN | MMT_MARKET_PRICE | OtherModel int

record resp_msg =
  rm_model :: msg_model
  rm_resp_type :: resp_type
  rm_stream_state :: stream_state
  rm_data_state :: data_state

datatype omm_msg = RespMsg resp_msg | OtherMsg int

datatype data_format =
  FormatUnknown | ANSI_Page | FormatMarketfeed | QForm | TibMsgSelfDescribed | OtherFormat int

record md_item_event =
  md_closure :: "nat option"
  md_stream_closed :: bool
  md_type :: md_msg_type
  md_format :: data_format
  md_service_name :: string
  md_item_name :: string
  md_new_item_name :: string
  md_buffer :: string

datatype event =
    OMMItemEvent omm_msg "nat option"
  | OMMCmdErrorEvent
  | MarketDataSvcEvent
  | ConnectionEvent
  | EntitlementsAuthenticationEvent
  | MarketDataItemEvent md_item_event
  | OtherEvent int

definition OnMarketPrice :: "resp_msg \<Rightarrow> nat option \<Rightarrow> cstate \<Rightarrow> cstate option" where
  "OnMarketPrice msg closure = (\<lambda>(c, w).
     let c = bump MMT_MARKET_PRICE_RECEIVED c; now = second_clock w in
     do {
       a \<leftarrow> closure;
       st \<leftarrow> w_heap w a;
       let st = st\<lparr>last_activity := now, msg_count := msg_count st + 1\<rparr>;
       let st = (case rm_resp_type msg of
                   RefreshEnum \<Rightarrow> st\<lparr>last_refresh := Some now, refresh_received := refresh_received st + 1\<rparr>
                 | StatusEnum \<Rightarrow> st\<lparr>last_status := Some now, status_received := status_received st + 1\<rparr>
                 | UpdateEnum \<Rightarrow> st\<lparr>last_update := Some now, update_received := update_received st + 1\<rparr>
                 | OtherRespType _ \<Rightarrow> st);
       Some (c, set_stream a st w)
     })"

text \<open>Every exception of Resubscribe is caught; the consumer is unmuted only without one.\<close>

definition OnLoginSuccess :: "rfa_api \<Rightarrow> cstate \<Rightarrow> cstate option" where
  "OnLoginSuccess api = (\<lambda>(c, w).
     case Resubscribe api (bump MMT_LOGIN_SUCCESS c, w) of
       None \<Rightarrow> None
     | Some (Inl e, s) \<Rightarrow> Some s
     | Some (Inr _, c, w) \<Rightarrow> Some (c\<lparr>c_is_muted := False\<rparr>, w))"

definition OnLoginSuspect :: "consumer_t \<Rightarrow> consumer_t" where
  "OnLoginSuspect c = (bump MMT_LOGIN_SUSPECT c)\<lparr>c_is_muted := True\<rparr>"

definition OnLoginClosed :: "consumer_t \<Rightarrow> consumer_t" where
  "OnLoginClosed c = (bump MMT_LOGIN_CLOSED c)\<lparr>c_is_muted := True\<rparr>"

definition OnLoginResponse :: "rfa_api \<Rightarrow> resp_msg \<Rightarrow> cstate \<Rightarrow> cstate option" where
  "OnLoginResponse api msg = (\<lambda>(c, w).
     let c = (bump MMT_LOGIN_RESPONSE_RECEIVED c)
               \<lparr>c_stream_state := Some (rm_stream_state msg), c_data_state := Some (rm_data_state msg)\<rparr> in
     case rm_stream_state msg of
       OpenEnum \<Rightarrow>
         (case rm_data_state msg of
            OkEnum \<Rightarrow> OnLoginSuccess api (c, w)
          | SuspectEnum \<Rightarrow> Some (OnLoginSuspect c, w)
          | OtherDataState _ \<Rightarrow> Some (bump MMT_LOGIN_RESPONSE_DISCARDED c, w))
     | ClosedEnum \<Rightarrow> Some (OnLoginClosed c, w)
     | OtherStreamState _ \<Rightarrow> Some (bump MMT_LOGIN_RESPONSE_DISCARDED c, w))"

definition OnRespMsg :: "rfa_api \<Rightarrow> resp_msg \<Rightarrow> nat option \<Rightarrow> cstate \<Rightarrow> cstate option" where
  "OnRespMsg api msg closure = (\<lambda>(c, w).
     let c = bump RESPONSE_MSGS_RECEIVED c in
     case rm_model msg of
       MMT_LOGIN \<Rightarrow> OnLoginResponse api msg (c, w)
     | MMT_MARKET_PRICE \<Rightarrow> OnMarketPrice msg closure (c, w)
     | OtherModel _ \<Rightarrow> Some (bump RESPONSE_MSGS_DISCARDED c, w))"

definition OnOMMItemEvent :: "rfa_api \<Rightarrow> omm_msg \<Rightarrow> nat option \<Rightarrow> cstate \<Rightarrow> cstate option" where
  "OnOMMItemEvent api msg closure = (\<lambda>(c, w).
     let c = bump OMM_ITEM_EVENTS_RECEIVED c in
     case msg of
       RespMsg m \<Rightarrow> OnRespMsg api m closure (c, w)
     | OtherMsg _ \<Rightarrow> Some (bump OMM_ITEM_EVENTS_DISCARDED c, w))"

section \<open>Market data item events\<close>

text \<open>Closing the stream, once.\<close>

definition close_stream :: "nat \<Rightarrow> item_stream_t \<Rightarrow> cstate \<Rightarrow> cstate" where
  "close_stream a st = (\<lambda>(c, w).
     if \<not> is_closed st
     then (c\<lparr>c_refresh_count := c_refresh_count c + 1\<rparr>, set_stream a (st\<lparr>is_closed := True\<rparr>) w)
     else (c, w))"

text \<open>market_data_subscriber_->unregisterClient (*item_stream->item_handle).\<close>

definition unregister_stream :: "item_stream_t \<Rightarrow> cstate \<Rightarrow> cstate option" where
  "unregister_stream st = (\<lambda>(c, w).
     if \<not> c_market_data_subscriber c then None
     else
       (case item_handle st of
          None \<Rightarrow> None
        | Some h \<Rightarrow> Some (c, w\<lparr>w_calls := w_calls w @ [UnregisterClient (Some h)]\<rparr>)))"

text \<open>The first image of a stream, or a later one.\<close>

definition on_image :: "nat \<Rightarrow> cstate \<Rightarrow> (bool \<times> cstate) option" where
  "on_image a = (\<lambda>(c, w).
     case w_heap w a of
       None \<Rightarrow> None
     | Some st \<Rightarrow>
         (let w = set_stream a (st\<lparr>refresh_received := refresh_received st + 1\<rparr>) w in
          if refresh_received st = 0 then
            (let c = c\<lparr>c_refresh_count := c_refresh_count c + 1\<rparr> in
             if c_disable_refresh c then Some (False, c, w)
             else
               (case c_interest_after_refresh c of
                  None \<Rightarrow> None
                | Some True \<Rightarrow> Some (True, c, w)
                | Some False \<Rightarrow>
                    do {
                      s \<leftarrow> unregister_stream st
                             (c, set_stream a (st\<lparr>refresh_received := refresh_received st + 1,
                                                 is_closed := True\<rparr>) w);
                      Some (True, s)
                    }))
          else Some (True, c, w)))"

text \<open>The switch on the message type: whether the event goes on to the archive.\<close>

definition md_switch :: "md_msg_type \<Rightarrow> nat \<Rightarrow> cstate \<Rightarrow> (bool \<times> cstate) option" where
  "md_switch ty a = (\<lambda>(c, w).
     case w_heap w a of
       None \<Rightarrow> None
     | Some st \<Rightarrow>
         (case ty of
            Image \<Rightarrow> on_image a (c, w)
          | Update \<Rightarrow>
              Some (\<not> c_disable_update c, c,
                    set_stream a (st\<lparr>update_received := update_received st + 1\<rparr>) w)
          | UnsolicitedImage \<Rightarrow> Some (False, c, w)
          | Status \<Rightarrow>
              Some (False, c, set_stream a (st\<lparr>status_received := status_received st + 1\<rparr>) w)
          | Correction \<Rightarrow> Some (True, c, w)
          | ClosingRun \<Rightarrow> Some (False, c, w)
          | Rename \<Rightarrow> Some (True, c, w)
          | PermissionData \<Rightarrow> Some (False, c, w)
          | GroupChange \<Rightarrow> Some (False, c, w)
          | OtherMsgType _ \<Rightarrow> Some (True, c, w)))"

text \<open>The record an event is archived as.\<close>

definition record_of_event :: "rfa_api \<Rightarrow> int \<Rightarrow> md_item_event \<Rightarrow> Marketfeed" where
  "record_of_event api now ev =
     (let m = Marketfeed_Clear
                \<lparr>tv_sec := Some (word_of_int (now div 1000000)),
                 tv_usec := Some (word_of_int (now mod 1000000)),
                 message_type := Some (of_nat (api_msg_type api (md_type ev))),
                 mf_service_name := Some (md_service_name ev),
                 item_name := Some (md_item_name ev)\<rparr>;
          m = (if md_new_item_name ev \<noteq> [] then m\<lparr>new_item_name := Some (md_new_item_name ev)\<rparr> else m)
      in if md_buffer ev \<noteq> [] then m\<lparr>packed_buffer := Some (md_buffer ev)\<rparr> else m)"

definition archive_event :: "rfa_api \<Rightarrow> md_item_event \<Rightarrow> cstate \<Rightarrow> cstate" where
  "archive_event api ev = (\<lambda>(c, w).
     let m = record_of_event api (w_now w) ev; c = c\<lparr>c_mfeed := m\<rparr> in
     if c_coded_stream c \<and> IsInitialized m then (c, w\<lparr>w_archive := w_archive w @ [m]\<rparr>)
     else (c, w))"

text \<open>
  The label check_sync. The size of the directory is a 32-bit size_t; the callback is
  counted in the world.
\<close>

definition check_sync :: "cstate \<Rightarrow> cstate" where
  "check_sync = (\<lambda>(c, w).
     if \<not> c_in_sync c \<and> c_refresh_count c = of_nat (length (c_directory c))
     then (c\<lparr>c_in_sync := True\<rparr>,
           if c_on_sync c then w\<lparr>w_sync_calls := w_sync_calls w + 1\<rparr> else w)
     else (c, w))"

definition OnMarketDataItemEvent :: "rfa_api \<Rightarrow> md_item_event \<Rightarrow> cstate \<Rightarrow> cstate option" where
  "OnMarketDataItemEvent api ev = (\<lambda>(c, w).
     do {
       let c = bump MARKET_DATA_ITEM_EVENTS_RECEIVED c;
       a \<leftarrow> md_closure ev;
       st \<leftarrow> w_heap w a;
       let s = (if md_stream_closed ev then close_stream a st (c, w) else (c, w));
       (more, s) \<leftarrow> md_switch (md_type ev) a s;
       if \<not> more then Some (check_sync s)
       else if md_format ev \<noteq> FormatMarketfeed then
         do {
           st \<leftarrow> w_heap (snd s) a;
           s \<leftarrow> unregister_stream st s;
           Some (check_sync s)
         }
       else Some (check_sync (archive_event api ev s))
     })"

definition processEvent :: "rfa_api \<Rightarrow> event \<Rightarrow> cstate \<Rightarrow> cstate option" where
  "processEvent api ev = (\<lambda>(c, w).
     let c = bump RFA_EVENTS_RECEIVED c in
     case ev of
       OMMItemEvent msg closure \<Rightarrow> OnOMMItemEvent api msg closure (c, w)
     | OMMCmdErrorEvent \<Rightarrow> Some (bump OMM_CMD_ERRORS c, w)
     | MarketDataSvcEvent \<Rightarrow> Some (bump MARKET_DATA_SVC_EVENTS_RECEIVED c, w)
     | ConnectionEvent \<Rightarrow> Some (bump CONNECTION_EVENTS_RECEIVED c, w)
     | EntitlementsAuthenticationEvent \<Rightarrow> Some (bump ENTITLEMENT_EVENTS_RECEIVED c, w)
     | MarketDataItemEvent e \<Rightarrow> OnMarketDataItemEvent api e (c, w)
     | OtherEvent _ \<Rightarrow> Some (bump RFA_EVENTS_DISCARDED c, w))"

end
