(* ===== verification/Consumer_Props.thy ===== *)
theory Consumer_Props
  imports Consumer
begin

text \<open>
  What the consumer does over a whole run: the step relation of a consumer after Init, the
  flow equations of its performance counters, the synchronisation callback, what is
  archived, and the requests it sends.
\<close>

section \<open>Frames\<close>

lemma stats_bump [simp]:
  "c_cumulative_stats (bump k c) j = (if j = k then c_cumulative_stats c j + 1 else c_cumulative_stats c j)"
  by (simp add: bump_def)

text \<open>The fields that requests leave alone.\<close>

definition core :: "cstate \<Rightarrow> _" where
  "core = (\<lambda>(c, w).
     ((c_config c, c_session c, c_omm_consumer c, c_market_data_subscriber c, c_coded_stream c,
       c_disable_update c, c_disable_refresh c, c_interest_after_refresh c),
      (c_refresh_count c, c_in_sync c, c_on_sync c, c_is_muted c),
      (w_archive w, w_sync_calls w, w_now w)))"

lemma bump_frame [simp]:
  "c_config (bump k c) = c_config c" "c_session (bump k c) = c_session c"
  "c_omm_consumer (bump k c) = c_omm_consumer c"
  "c_market_data_subscriber (bump k c) = c_market_data_subscriber c"
  "c_coded_stream (bump k c) = c_coded_stream c"
  "c_disable_update (bump k c) = c_disable_update c"
  "c_disable_refresh (bump k c) = c_disable_refresh c"
  "c_interest_after_refresh (bump k c) = c_interest_after_refresh c"
  "c_refresh_count (bump k c) = c_refresh_count c" "c_in_sync (bump k c) = c_in_sync c"
  "c_on_sync (bump k c) = c_on_sync c" "c_is_muted (bump k c) = c_is_muted c"
  "c_directory (bump k c) = c_directory c"
  by (simp_all add: bump_def)

lemma set_stream_frame [simp]:
  "w_archive (set_stream a st w) = w_archive w" "w_sync_calls (set_stream a st w) = w_sync_calls w"
  "w_now (set_stream a st w) = w_now w" "w_calls (set_stream a st w) = w_calls w"
  "w_heap (set_stream a st w) = (w_heap w)(a \<mapsto> st)"
  by (simp_all add: set_stream_def)

lemma do_call_frame:
  "do_call api k w = (r, w') \<Longrightarrow>
     w_archive w' = w_archive w \<and> w_sync_calls w' = w_sync_calls w \<and> w_now w' = w_now w \<and>
     w_heap w' = w_heap w \<and> w_calls w' = w_calls w @ [k]"
  by (auto simp: do_call_def)

text \<open>What a stream's fulfilment depends on.\<close>

definition marks :: "cstate \<Rightarrow> nat \<Rightarrow> (u32 \<times> bool) option" where
  "marks s a = map_option (\<lambda>st. (refresh_received st, is_closed st)) (w_heap (snd s) a)"

text \<open>The counters that the flow equations relate.\<close>

fun is_flow :: "pc \<Rightarrow> bool" where
  "is_flow MMT_LOGIN_VALIDATED = False"
| "is_flow MMT_LOGIN_MALFORMED = False"
| "is_flow MMT_LOGIN_EXCEPTION = False"
| "is_flow MMT_LOGIN_SENT = False"
| "is_flow MMT_MARKET_PRICE_REQUEST_VALIDATED = False"
| "is_flow MMT_MARKET_PRICE_REQUEST_MALFORMED = False"
| "is_flow MMT_MARKET_PRICE_REQUEST_EXCEPTION = False"
| "is_flow MMT_MARKET_PRICE_REQUEST_SENT = False"
| "is_flow _ = True"

definition flow :: "cstate \<Rightarrow> pc \<Rightarrow> u32" where
  "flow s k = (if is_flow k then c_cumulative_stats (fst s) k else 0)"

text \<open>A request touches none of them, and of a stream only its handle.\<close>

definition request_frame :: "cstate \<Rightarrow> cstate \<Rightarrow> bool" where
  "request_frame s t =
     (core t = core s \<and> c_directory (fst t) = c_directory (fst s) \<and> marks t = marks s \<and> flow t = flow s)"

lemma request_frame_refl [simp]: "request_frame s s"
  by (simp add: request_frame_def)

lemma request_frame_trans: "request_frame s t \<Longrightarrow> request_frame t u \<Longrightarrow> request_frame s u"
  by (simp add: request_frame_def)

lemma bump_request_frame: "\<not> is_flow k \<Longrightarrow> request_frame (c, w) (bump k c, w)"
  by (simp add: request_frame_def core_def marks_def flow_def fun_eq_iff)

lemma count_validation_frame:
  assumes "\<not> is_flow k1" "\<not> is_flow k2" "\<not> is_flow k3"
  shows "request_frame (c, w) (count_validation v k1 k2 k3 c, w)"
  using assms by (auto simp: count_validation_def bump_request_frame split: validation.split exn.split)

lemma call_request_frame:
  "request_frame (c, w) (c, snd (do_call api k w))"
  by (simp add: request_frame_def core_def marks_def flow_def do_call_def fun_eq_iff)

lemma handle_request_frame:
  "w_heap w a = Some st \<Longrightarrow> request_frame (c, w) (c, set_stream a (st\<lparr>item_handle := h\<rparr>) w)"
  by (auto simp: request_frame_def core_def marks_def flow_def fun_eq_iff)

lemma do_call_heap: "do_call api k w = (r, w') \<Longrightarrow> w_heap w' = w_heap w"
  by (auto simp: do_call_def)

lemma SendItemRequest_frame:
  assumes "SendItemRequest api a s = Some (r, t)"
  shows "request_frame s t"
proof -
  obtain c w where s: "s = (c, w)" by (cases s)
  from assms s obtain st where st: "w_heap w a = Some st"
    by (auto simp: SendItemRequest_def split: option.splits)
  define c1 where "c1 = (if api_dcheck_is_on api
      then count_validation (api_validate api (length (w_calls w)))
             MMT_MARKET_PRICE_REQUEST_VALIDATED MMT_MARKET_PRICE_REQUEST_MALFORMED
             MMT_MARKET_PRICE_REQUEST_EXCEPTION c else c)"
  obtain rp w' where call: "do_call api (RegisterItem (rfa_item_name st) (rfa_service_name st) a) w = (rp, w')"
    by (cases "do_call api (RegisterItem (rfa_item_name st) (rfa_service_name st) a) w")
  have 1: "request_frame (c, w) (c1, w)" by (simp add: c1_def count_validation_frame)
  have 2: "request_frame (c1, w) (c1, w')" using call_request_frame [of c1 w] call by (metis snd_conv)
  have 3: "request_frame (c1, w') (bump MMT_MARKET_PRICE_REQUEST_SENT c1, w')"
    by (simp add: bump_request_frame)
  have st': "w_heap w' a = Some st" using do_call_heap [OF call] st by simp
  have 4: "request_frame (c1, w') (bump MMT_MARKET_PRICE_REQUEST_SENT c1, set_stream a (st\<lparr>item_handle := h\<rparr>) w')" for h
    by (rule request_frame_trans [OF 3 handle_request_frame [where h = h, OF st']])
  have "t \<in> {(c1, w')} \<union> {(bump MMT_MARKET_PRICE_REQUEST_SENT c1, set_stream a (st\<lparr>item_handle := h\<rparr>) w') | h. True}"
    using assms st call
    by (auto simp: s SendItemRequest_def c1_def [symmetric] Let_def split: reply.splits if_splits)
  then have "request_frame (c1, w') t" using 4 by auto
  with 1 2 show ?thesis unfolding s by (blast intro: request_frame_trans)
qed

lemma AddSubscription_frame:
  assumes "AddSubscription api a s = Some (r, t)"
  shows "request_frame s t"
proof -
  obtain c w where s: "s = (c, w)" by (cases s)
  from assms s obtain st where st: "w_heap w a = Some st"
    by (auto simp: AddSubscription_def split: option.splits)
  obtain rp w' where call: "do_call api (Subscribe (rfa_service_name st) (rfa_item_name st) a) w = (rp, w')"
    by (cases "do_call api (Subscribe (rfa_service_name st) (rfa_item_name st) a) w")
  have 1: "request_frame (c, w) (c, w')" using call_request_frame [of c w] call by (metis snd_conv)
  have st': "w_heap w' a = Some st" using do_call_heap [OF call] st by simp
  have "t \<in> {(c, w')} \<union> {(c, set_stream a (st\<lparr>item_handle := h\<rparr>) w') | h. True}"
    using assms st call
    by (auto simp: s AddSubscription_def split: reply.splits if_splits)
  then have "request_frame (c, w') t" using handle_request_frame [OF st'] by auto
  with 1 show ?thesis unfolding s by (blast intro: request_frame_trans)
qed

lemma resubscribe_loop_frame:
  assumes frame: "\<And>a s r t. send a s = Some (r, t) \<Longrightarrow> request_frame s t"
  shows "resubscribe_loop send d s = Some (r, t) \<Longrightarrow> request_frame s t"
proof (induction d arbitrary: s)
  case (Cons ka rest)
  obtain key a where ka: "ka = (key, a)" by (cases ka)
  show ?case
  proof (cases "\<exists>st. w_heap (snd s) a = Some st \<and> item_handle st = None")
    case True
    then obtain r' s' where send: "send a s = Some (r', s')"
      using Cons.prems by (auto simp: ka split: option.splits)
    from frame [OF send] have fr: "request_frame s s'" .
    show ?thesis
    proof (cases r')
      case (Inl e)
      with send True Cons.prems fr show ?thesis by (auto simp: ka)
    next
      case (Inr b)
      with send True Cons.prems have "resubscribe_loop send rest s' = Some (r, t)" by (auto simp: ka)
      from request_frame_trans [OF fr Cons.IH [OF this]] show ?thesis .
    qed
  next
    case False
    with Cons.prems have "resubscribe_loop send rest s = Some (r, t)"
      by (auto simp: ka split: option.splits)
    then show ?thesis by (rule Cons.IH)
  qed
qed simp

lemma Resubscribe_frame:
  assumes "Resubscribe api s = Some (r, t)"
  shows "request_frame s t"
proof -
  obtain c w where s: "s = (c, w)" by (cases s)
  from assms consider "t = s"
    | send r' where "resubscribe_loop send (api_iter_order api (c_directory c)) s = Some (r', t)"
        "send = SendItemRequest api \<or> send = AddSubscription api"
    by (auto simp: s Resubscribe_def Let_def split: if_splits option.splits sum.splits)
  then show ?thesis
  proof cases
    case 2
    then show ?thesis
      using resubscribe_loop_frame [of send, OF _ 2(1)] SendItemRequest_frame AddSubscription_frame
      by blast
  qed simp
qed

lemma SendLoginRequest_frame:
  assumes "SendLoginRequest api s = Some (r, t)"
  shows "request_frame s t"
proof -
  obtain c w where s: "s = (c, w)" by (cases s)
  define c1 where "c1 = count_validation (api_validate api (length (w_calls w)))
      MMT_LOGIN_VALIDATED MMT_LOGIN_MALFORMED MMT_LOGIN_EXCEPTION c"
  have 1: "request_frame (c, w) (c1, w)" by (simp add: c1_def count_validation_frame)
  have "request_frame (c1, w) t"
    using assms
    by (auto simp: s SendLoginRequest_def c1_def [symmetric] Let_def do_call_def request_frame_def core_def
        marks_def flow_def fun_eq_iff split: reply.splits if_splits)
  with 1 show ?thesis unfolding s by (rule request_frame_trans)
qed

section \<open>The flow of events through the counters\<close>

text \<open>The counters that an event adds one to.\<close>

definition login_counters :: "resp_msg \<Rightarrow> pc list" where
  "login_counters m =
     MMT_LOGIN_RESPONSE_RECEIVED #
     (case rm_stream_state m of
        OpenEnum \<Rightarrow>
          (case rm_data_state m of
             OkEnum \<Rightarrow> [MMT_LOGIN_SUCCESS]
           | SuspectEnum \<Rightarrow> [MMT_LOGIN_SUSPECT]
           | OtherDataState _ \<Rightarrow> [MMT_LOGIN_RESPONSE_DISCARDED])
      | ClosedEnum \<Rightarrow> [MMT_LOGIN_CLOSED]
      | OtherStreamState _ \<Rightarrow> [MMT_LOGIN_RESPONSE_DISCARDED])"

definition resp_counters :: "resp_msg \<Rightarrow> pc list" where
  "resp_counters m =
     RESPONSE_MSGS_RECEIVED #
     (case rm_model m of
        MMT_LOGIN \<Rightarrow> login_counters m
      | MMT_MARKET_PRICE \<Rightarrow> [MMT_MARKET_PRICE_RECEIVED]
      | OtherModel _ \<Rightarrow> [RESPONSE_MSGS_DISCARDED])"

fun event_counters :: "event \<Rightarrow> pc list" where
  "event_counters (OMMItemEvent (RespMsg m) _) =
     RFA_EVENTS_RECEIVED # OMM_ITEM_EVENTS_RECEIVED # resp_counters m"
| "event_counters (OMMItemEvent (OtherMsg _) _) =
     [RFA_EVENTS_RECEIVED, OMM_ITEM_EVENTS_RECEIVED, OMM_ITEM_EVENTS_DISCARDED]"
| "event_counters OMMCmdErrorEvent = [RFA_EVENTS_RECEIVED, OMM_CMD_ERRORS]"
| "event_counters MarketDataSvcEvent = [RFA_EVENTS_RECEIVED, MARKET_DATA_SVC_EVENTS_RECEIVED]"
| "event_counters ConnectionEvent = [RFA_EVENTS_RECEIVED, CONNECTION_EVENTS_RECEIVED]"
| "event_counters EntitlementsAuthenticationEvent =
     [RFA_EVENTS_RECEIVED, ENTITLEMENT_EVENTS_RECEIVED]"
| "event_counters (MarketDataItemEvent _) =
     [RFA_EVENTS_RECEIVED, MARKET_DATA_ITEM_EVENTS_RECEIVED]"
| "event_counters (OtherEvent _) = [RFA_EVENTS_RECEIVED, RFA_EVENTS_DISCARDED]"

text \<open>Adding a list of counters.\<close>

definition add_counters :: "pc list \<Rightarrow> (pc \<Rightarrow> u32) \<Rightarrow> pc \<Rightarrow> u32" where
  "add_counters ks f k = f k + of_nat (count_list ks k)"

lemma add_counters_Nil [simp]: "add_counters [] f = f"
  by (simp add: add_counters_def fun_eq_iff)

lemma add_counters_append: "add_counters ks (add_counters js f) = add_counters (js @ ks) f"
  by (simp add: add_counters_def fun_eq_iff)

lemma flow_bump: "is_flow k \<Longrightarrow> flow (bump k c, w) = add_counters [k] (flow (c, w))"
  by (simp add: flow_def add_counters_def fun_eq_iff)

lemma flow_cong:
  "c_cumulative_stats c = c_cumulative_stats d \<Longrightarrow> flow (c, v) = flow (d, w)"
  by (simp add: flow_def fun_eq_iff)

lemma flow_upd [simp]:
  "flow (c\<lparr>c_session := a1\<rparr>, w) = flow (c, w)"
  "flow (c\<lparr>c_omm_consumer := a2\<rparr>, w) = flow (c, w)"
  "flow (c\<lparr>c_market_data_subscriber := a3\<rparr>, w) = flow (c, w)"
  "flow (c\<lparr>c_error_item_handle := a4\<rparr>, w) = flow (c, w)"
  "flow (c\<lparr>c_directory := a5\<rparr>, w) = flow (c, w)"
  "flow (c\<lparr>c_is_muted := a6\<rparr>, w) = flow (c, w)"
  "flow (c\<lparr>c_last_activity := a7\<rparr>, w) = flow (c, w)"
  "flow (c, w\<lparr>w_calls := b1\<rparr>) = flow (c, w)"
  "flow (c, w\<lparr>w_now := b2\<rparr>) = flow (c, w)"
  "flow (c, set_stream a st w) = flow (c, w)"
  by (simp_all add: flow_cong)

lemma marks_pair:
  "marks (c, w) = (\<lambda>a. map_option (\<lambda>st. (refresh_received st, is_closed st)) (w_heap w a))"
  by (simp add: marks_def fun_eq_iff)

lemma request_flow: "request_frame s t \<Longrightarrow> flow t = flow s"
  by (simp add: request_frame_def)

lemma OnMarketPrice_flow:
  "OnMarketPrice m cl (c, w) = Some t \<Longrightarrow> flow t = add_counters [MMT_MARKET_PRICE_RECEIVED] (flow (c, w))"
  by (auto simp: OnMarketPrice_def bind_Some_iff Let_def flow_bump [symmetric] intro!: flow_cong)

lemma OnLoginSuccess_flow:
  assumes "OnLoginSuccess api (c, w) = Some t"
  shows "flow t = add_counters [MMT_LOGIN_SUCCESS] (flow (c, w))"
proof -
  obtain r s where r: "Resubscribe api (bump MMT_LOGIN_SUCCESS c, w) = Some (r, s)"
    "t = s \<or> t = (fst s\<lparr>c_is_muted := False\<rparr>, snd s)"
    using assms by (auto simp: OnLoginSuccess_def split: option.splits sum.splits)
  have "flow t = flow s" using r(2) by (cases s) (auto intro!: flow_cong)
  also have "\<dots> = flow (bump MMT_LOGIN_SUCCESS c, w)"
    by (rule request_flow [OF Resubscribe_frame [OF r(1)]])
  finally show ?thesis by (simp add: flow_bump)
qed

lemma OnLoginResponse_flow:
  assumes "OnLoginResponse api m (c, w) = Some t"
  shows "flow t = add_counters (login_counters m) (flow (c, w))"
proof -
  let ?c = "(bump MMT_LOGIN_RESPONSE_RECEIVED c)
      \<lparr>c_stream_state := Some (rm_stream_state m), c_data_state := Some (rm_data_state m)\<rparr>"
  have 1: "flow (?c, w) = add_counters [MMT_LOGIN_RESPONSE_RECEIVED] (flow (c, w))"
    by (simp add: flow_bump [symmetric] flow_cong)
  have mute: "flow (d\<lparr>c_is_muted := True\<rparr>, w) = flow (d, w)" for d by (simp add: flow_cong)
  have "flow t = add_counters (tl (login_counters m)) (flow (?c, w))"
    using assms
    by (auto simp: OnLoginResponse_def login_counters_def Let_def OnLoginSuspect_def OnLoginClosed_def
        mute flow_bump dest: OnLoginSuccess_flow split: stream_state.splits data_state.splits)
  then show ?thesis
    by (simp add: 1 add_counters_append login_counters_def)
qed

text \<open>What the market data handler leaves alone after it has counted the event.\<close>

definition md_frame :: "cstate \<Rightarrow> cstate \<Rightarrow> bool" where
  "md_frame s t =
     (c_cumulative_stats (fst t) = c_cumulative_stats (fst s) \<and>
      c_config (fst t) = c_config (fst s) \<and> c_directory (fst t) = c_directory (fst s) \<and>
      c_coded_stream (fst t) = c_coded_stream (fst s) \<and> c_on_sync (fst t) = c_on_sync (fst s) \<and>
      c_is_muted (fst t) = c_is_muted (fst s) \<and>
      c_market_data_subscriber (fst t) = c_market_data_subscriber (fst s) \<and>
      c_disable_update (fst t) = c_disable_update (fst s) \<and>
      c_disable_refresh (fst t) = c_disable_refresh (fst s) \<and>
      c_interest_after_refresh (fst t) = c_interest_after_refresh (fst s) \<and>
      w_now (snd t) = w_now (snd s))"

lemma md_frame_refl [simp]: "md_frame s s"
  by (simp add: md_frame_def)

lemma md_frame_trans: "md_frame s t \<Longrightarrow> md_frame t u \<Longrightarrow> md_frame s u"
  by (simp add: md_frame_def)

lemma close_stream_frame [frame_simps]: "md_frame s (close_stream a st s)"
  by (cases s) (simp add: md_frame_def close_stream_def)

lemma unregister_stream_frame: "unregister_stream st s = Some t \<Longrightarrow> md_frame s t"
  by (cases s) (auto simp: md_frame_def unregister_stream_def split: if_splits option.splits)

lemma on_image_frame: "on_image a s = Some (b, t) \<Longrightarrow> md_frame s t"
  by (cases s)
    (auto simp: md_frame_def on_image_def unregister_stream_def Let_def
      split: if_splits option.splits bool.splits)

lemma md_switch_frame: "md_switch ty a s = Some (b, t) \<Longrightarrow> md_frame s t"
  by (cases s) (auto simp: md_switch_def md_frame_def split: option.splits md_msg_type.splits
      dest: on_image_frame)

lemma archive_event_frame [frame_simps]: "md_frame s (archive_event api ev s)"
  by (cases s) (simp add: md_frame_def archive_event_def Let_def)

lemma check_sync_frame [frame_simps]: "md_frame s (check_sync s)"
  by (cases s) (simp add: md_frame_def check_sync_def)

text \<open>
  The shape of a market data event: closing, the switch, then the archive or the
  unregistration of an unsupported format, and check_sync last.
\<close>

definition closed_first :: "md_item_event \<Rightarrow> nat \<Rightarrow> item_stream_t \<Rightarrow> cstate \<Rightarrow> cstate" where
  "closed_first ev a st s = (if md_stream_closed ev then close_stream a st s else s)"

lemma OnMarketDataItemEvent_cases:
  assumes "OnMarketDataItemEvent api ev (c, w) = Some t"
  obtains a st more s u where
    "md_closure ev = Some a" "w_heap w a = Some st"
    "md_switch (md_type ev) a (closed_first ev a st (bump MARKET_DATA_ITEM_EVENTS_RECEIVED c, w)) = Some (more, s)"
    "if \<not> more then u = s
     else if md_format ev \<noteq> FormatMarketfeed
       then \<exists>st. w_heap (snd s) a = Some st \<and> unregister_stream st s = Some u
     else u = archive_event api ev s"
    "t = check_sync u"
proof -
  let ?s = "(bump MARKET_DATA_ITEM_EVENTS_RECEIVED c, w)"
  let ?rest = "\<lambda>a more s. if \<not> more then Some (check_sync s)
      else if md_format ev \<noteq> FormatMarketfeed
        then Option.bind (w_heap (snd s) a) (\<lambda>st. Option.bind (unregister_stream st s) (\<lambda>s. Some (check_sync s)))
      else Some (check_sync (archive_event api ev s))"
  from assms obtain a st more s where
    x: "md_closure ev = Some a" "w_heap w a = Some st"
    "md_switch (md_type ev) a (closed_first ev a st ?s) = Some (more, s)" and
    r: "?rest a more s = Some t"
    unfolding OnMarketDataItemEvent_def closed_first_def Let_def prod.case bind_Some_iff
      split_paired_Ex by blast
  show ?thesis
  proof (cases "\<not> more")
    case True
    with r have "t = check_sync s" by simp
    with x True that show ?thesis by simp
  next
    case more: False
    show ?thesis
    proof (cases "md_format ev = FormatMarketfeed")
      case True
      with r more have "t = check_sync (archive_event api ev s)" by simp
      with x True more that show ?thesis by simp
    next
      case False
      with r more obtain st' u where "w_heap (snd s) a = Some st'" "unregister_stream st' s = Some u"
        "t = check_sync u" by (auto simp: bind_Some_iff)
      with x False more that show ?thesis by simp
    qed
  qed
qed

lemma OnMarketDataItemEvent_frame:
  assumes "OnMarketDataItemEvent api ev (c, w) = Some t"
  shows "md_frame (bump MARKET_DATA_ITEM_EVENTS_RECEIVED c, w) t"
proof -
  let ?s = "(bump MARKET_DATA_ITEM_EVENTS_RECEIVED c, w)"
  from assms obtain a st more s u where
    x: "md_switch (md_type ev) a (closed_first ev a st ?s) = Some (more, s)"
    "if \<not> more then u = s
     else if md_format ev \<noteq> FormatMarketfeed
       then \<exists>st. w_heap (snd s) a = Some st \<and> unregister_stream st s = Some u
     else u = archive_event api ev s" "t = check_sync u"
    by (rule OnMarketDataItemEvent_cases) blast
  have "md_frame ?s (closed_first ev a st ?s)" by (simp add: closed_first_def frame_simps)
  moreover have "md_frame (closed_first ev a st ?s) s" by (rule md_switch_frame [OF x(1)])
  moreover have "md_frame s u"
    using x(2) by (auto split: if_splits intro: unregister_stream_frame archive_event_frame)
  moreover have "md_frame u t" by (simp add: x(3) frame_simps)
  ultimately show ?thesis by (blast intro: md_frame_trans)
qed

lemma OnMarketDataItemEvent_flow:
  assumes "OnMarketDataItemEvent api ev (c, w) = Some t"
  shows "flow t = add_counters [MARKET_DATA_ITEM_EVENTS_RECEIVED] (flow (c, w))"
proof -
  have "flow t = flow (bump MARKET_DATA_ITEM_EVENTS_RECEIVED c, w)"
    using OnMarketDataItemEvent_frame [OF assms] by (cases t) (auto simp: md_frame_def intro: flow_cong)
  then show ?thesis by (simp add: flow_bump)
qed

lemma processEvent_flow:
  assumes "processEvent api ev s = Some t"
  shows "flow t = add_counters (event_counters ev) (flow s)"
proof -
  obtain c w where s: "s = (c, w)" by (cases s)
  let ?c = "bump RFA_EVENTS_RECEIVED c" and ?d = "bump OMM_ITEM_EVENTS_RECEIVED (bump RFA_EVENTS_RECEIVED c)"
  have rfa: "flow (?c, w) = add_counters [RFA_EVENTS_RECEIVED] (flow (c, w))" by (simp add: flow_bump)
  have omm: "flow (?d, w) = add_counters [RFA_EVENTS_RECEIVED, OMM_ITEM_EVENTS_RECEIVED] (flow (c, w))"
    by (simp add: flow_bump add_counters_append)
  have resp: "flow t = add_counters (resp_counters m) (flow (?d, w))"
    if "OnRespMsg api m cl (?d, w) = Some t" for m cl
    using that
    by (auto simp: OnRespMsg_def resp_counters_def flow_bump add_counters_append Let_def
        dest!: OnLoginResponse_flow OnMarketPrice_flow split: msg_model.splits)
  show ?thesis
  proof (cases ev)
    case (OMMItemEvent msg cl)
    show ?thesis
    proof (cases msg)
      case (RespMsg m)
      with OMMItemEvent assms s have "OnRespMsg api m cl (?d, w) = Some t"
        by (simp add: processEvent_def OnOMMItemEvent_def Let_def)
      from resp [OF this] RespMsg OMMItemEvent s show ?thesis
        by (simp add: omm add_counters_append)
    next
      case (OtherMsg n)
      with OMMItemEvent assms s have "t = (bump OMM_ITEM_EVENTS_DISCARDED ?d, w)"
        by (simp add: processEvent_def OnOMMItemEvent_def Let_def)
      with OtherMsg OMMItemEvent s show ?thesis
        by (simp add: flow_bump add_counters_append)
    qed
  next
    case (MarketDataItemEvent e)
    with assms s have "OnMarketDataItemEvent api e (?c, w) = Some t"
      by (simp add: processEvent_def Let_def)
    from OnMarketDataItemEvent_flow [OF this] MarketDataItemEvent s show ?thesis
      by (simp add: rfa add_counters_append)
  qed (use assms s in \<open>auto simp: processEvent_def Let_def flow_bump add_counters_append\<close>)
qed

section \<open>Runs\<close>

text \<open>What Init leaves alone, and the members it sets.\<close>

definition init_frame :: "bool \<Rightarrow> bool \<Rightarrow> bool \<Rightarrow> bool \<Rightarrow> cstate \<Rightarrow> cstate \<Rightarrow> bool" where
  "init_frame no_update no_refresh interest on_sync s t =
     (flow t = flow s \<and> marks t = marks s \<and> c_directory (fst t) = c_directory (fst s) \<and>
      c_refresh_count (fst t) = c_refresh_count (fst s) \<and> c_in_sync (fst t) = c_in_sync (fst s) \<and>
      c_is_muted (fst t) = c_is_muted (fst s) \<and> c_coded_stream (fst t) = c_coded_stream (fst s) \<and>
      c_config (fst t) = c_config (fst s) \<and>
      c_disable_update (fst t) = no_update \<and> c_disable_refresh (fst t) = no_refresh \<and>
      c_interest_after_refresh (fst t) = Some interest \<and> c_on_sync (fst t) = on_sync \<and>
      w_archive (snd t) = w_archive (snd s) \<and> w_sync_calls (snd t) = w_sync_calls (snd s))"

lemma init_frame_request: "init_frame u r i n s t \<Longrightarrow> request_frame t t' \<Longrightarrow> init_frame u r i n s t'"
  by (cases t; cases t') (auto simp: init_frame_def request_frame_def core_def)

lemma init_frame_upd:
  assumes "init_frame u r i n s (c, w)"
  shows "init_frame u r i n s (c\<lparr>c_session := a\<rparr>, w)"
    and "init_frame u r i n s (c\<lparr>c_omm_consumer := b\<rparr>, w)"
    and "init_frame u r i n s (c\<lparr>c_market_data_subscriber := d\<rparr>, w)"
    and "init_frame u r i n s (c\<lparr>c_error_item_handle := h\<rparr>, w)"
    and "init_frame u r i n s (c, w\<lparr>w_calls := k\<rparr>)"
  using assms by (simp_all add: init_frame_def marks_pair)

lemma Init_rssl_frame:
  assumes "Init_rssl api s' = Some (x, t)" and "init_frame u r i n s s'"
  shows "init_frame u r i n s t"
proof -
  obtain c w where s': "s' = (c, w)" by (cases s')
  have fr: "init_frame u r i n s (c, w)" using assms(2) s' by simp
  let ?w = "w\<lparr>w_calls := w_calls w @ [CreateOMMConsumer (consumer_name (c_config c))]\<rparr>"
  let ?c = "c\<lparr>c_omm_consumer := True\<rparr>"
  have 1: "init_frame u r i n s (?c, ?w)" by (intro init_frame_upd fr)
  show ?thesis
  proof (cases "api_reply api (length (w_calls w))")
    case (Handle h0)
    show ?thesis
    proof (cases "api_reply api (Suc (length (w_calls w)))")
      case (Handle h)
      let ?d = "?c\<lparr>c_error_item_handle := Owned (Some h)\<rparr>"
      let ?v = "?w\<lparr>w_calls := w_calls ?w @ [RegisterErrorInterest]\<rparr>"
      have "SendLoginRequest api (?d, ?v) = Some (x, t)"
        using assms(1) Handle \<open>api_reply api (length (w_calls w)) = _\<close>
        by (simp add: s' Init_rssl_def do_call_def Let_def)
      moreover have "init_frame u r i n s (?d, ?v)" by (intro init_frame_upd 1)
      ultimately show ?thesis using init_frame_request SendLoginRequest_frame by blast
    qed (use assms(1) Handle s' fr in
      \<open>auto simp: Init_rssl_def do_call_def Let_def intro!: init_frame_upd\<close>)
  qed (use assms(1) s' fr in \<open>auto simp: Init_rssl_def do_call_def Let_def intro!: init_frame_upd\<close>)
qed

lemma Init_ssled_frame:
  assumes "Init_ssled api s' = Some (x, t)" and "init_frame u r i n s s'"
  shows "init_frame u r i n s t"
proof -
  obtain c w where s': "s' = (c, w)" by (cases s')
  from assms show ?thesis
    unfolding s'
    by (auto simp: Init_ssled_def do_call_def Let_def intro!: init_frame_upd split: reply.splits)
qed

lemma Init_frame:
  assumes "consumer_Init api u r i n (c, w) = Some (x, t)"
  shows "init_frame u r i n (c, w) t"
proof -
  let ?c = "c\<lparr>c_last_activity := w_now w, c_disable_update := u, c_disable_refresh := r,
              c_interest_after_refresh := Some i, c_on_sync := n\<rparr>"
  have base: "init_frame u r i n (c, w) (?c, w)"
    by (simp add: init_frame_def flow_def marks_def fun_eq_iff)
  then show ?thesis
    using assms
    by (auto simp: consumer_Init_def do_call_def Let_def intro!: init_frame_upd
        dest!: Init_rssl_frame [OF _ init_frame_upd(1) [OF init_frame_upd(5) [OF base]]]
          Init_ssled_frame [OF _ init_frame_upd(1) [OF init_frame_upd(5) [OF base]]]
        split: reply.splits if_splits)
qed

inductive consumer_step :: "rfa_api \<Rightarrow> cstate \<Rightarrow> cstate \<Rightarrow> bool" for api where
  tick: "w_now w \<le> n \<Longrightarrow> consumer_step api (c, w) (c, w\<lparr>w_now := n\<rparr>)"
| alloc: "w_heap w a = None \<Longrightarrow>
    consumer_step api (c, w) (c, set_stream a (new_item_stream (second_clock w)) w)"
| create: "CreateItemStream api name a s = Some (r, t) \<Longrightarrow> consumer_step api s t"
| resubscribe: "Resubscribe api s = Some (r, t) \<Longrightarrow> consumer_step api s t"
| event: "processEvent api ev s = Some t \<Longrightarrow> consumer_step api s t"

text \<open>A consumer whose Init returned true, before anything else happened.\<close>

definition started :: "rfa_api \<Rightarrow> cstate \<Rightarrow> bool" where
  "started api s =
     (\<exists>cfg cs u r i n w. w_sync_calls w = 0 \<and>
        consumer_Init api u r i n (new_consumer cfg cs (w_now w), w) = Some (Inr True, s))"

definition flow_ok :: "(pc \<Rightarrow> u32) \<Rightarrow> bool" where
  "flow_ok f =
     (f RFA_EVENTS_RECEIVED =
        f OMM_ITEM_EVENTS_RECEIVED + f OMM_CMD_ERRORS + f MARKET_DATA_SVC_EVENTS_RECEIVED +
        f CONNECTION_EVENTS_RECEIVED + f ENTITLEMENT_EVENTS_RECEIVED +
        f MARKET_DATA_ITEM_EVENTS_RECEIVED + f RFA_EVENTS_DISCARDED \<and>
      f OMM_ITEM_EVENTS_RECEIVED = f RESPONSE_MSGS_RECEIVED + f OMM_ITEM_EVENTS_DISCARDED \<and>
      f RESPONSE_MSGS_RECEIVED =
        f MMT_LOGIN_RESPONSE_RECEIVED + f MMT_MARKET_PRICE_RECEIVED + f RESPONSE_MSGS_DISCARDED \<and>
      f MMT_LOGIN_RESPONSE_RECEIVED =
        f MMT_LOGIN_SUCCESS + f MMT_LOGIN_SUSPECT + f MMT_LOGIN_CLOSED + f MMT_LOGIN_RESPONSE_DISCARDED \<and>
      f LICENSE_EVENTS_RECEIVED = 0)"

lemma flow_ok_event: "flow_ok f \<Longrightarrow> flow_ok (add_counters (event_counters ev) f)"
  by (cases ev rule: event_counters.cases)
    (auto simp: flow_ok_def add_counters_def resp_counters_def login_counters_def algebra_simps
      split: msg_model.split stream_state.split data_state.split)

lemma CreateItemStream_cases:
  assumes "CreateItemStream api name a (c, w) = Some (r, t)"
  obtains st s where "w_heap w a = Some st"
    "s = (c, set_stream a (st\<lparr>rfa_item_name := name, rfa_service_name := service_name (c_config c)\<rparr>) w) \<or>
     \<not> c_is_muted c \<and> SendItemRequest api a
       (c, set_stream a (st\<lparr>rfa_item_name := name, rfa_service_name := service_name (c_config c)\<rparr>) w)
       = Some (Inr True, s)"
    "t = s \<and> name \<in> set (map fst (c_directory (fst s))) \<or>
     t = (fst s\<lparr>c_directory := c_directory (fst s) @ [(name, a)], c_last_activity := w_now (snd s)\<rparr>, snd s) \<and>
       name \<notin> set (map fst (c_directory (fst s)))"
  | st e where "w_heap w a = Some st" "\<not> c_is_muted c" "SendItemRequest api a
       (c, set_stream a (st\<lparr>rfa_item_name := name, rfa_service_name := service_name (c_config c)\<rparr>) w)
       = Some (e, t)"
proof -
  let ?w = "\<lambda>st. set_stream a (st\<lparr>rfa_item_name := name, rfa_service_name := service_name (c_config c)\<rparr>) w"
  let ?enter = "\<lambda>(c, w). if name \<in> set (map fst (c_directory c)) then Some (Inr False :: exn + bool, c, w)
      else Some (Inr True, c\<lparr>c_directory := c_directory c @ [(name, a)], c_last_activity := w_now w\<rparr>, w)"
  obtain st where st: "w_heap w a = Some st"
    using assms by (auto simp: CreateItemStream_def split: option.splits)
  have enter: "t = s \<and> name \<in> set (map fst (c_directory (fst s))) \<or>
     t = (fst s\<lparr>c_directory := c_directory (fst s) @ [(name, a)], c_last_activity := w_now (snd s)\<rparr>, snd s) \<and>
       name \<notin> set (map fst (c_directory (fst s)))" if "?enter s = Some (r, t)" for s
    using that by (cases s) (auto split: if_splits)
  show ?thesis
  proof (cases "c_is_muted c")
    case True
    with assms st have "?enter (c, ?w st) = Some (r, t)"
      by (simp add: CreateItemStream_def Let_def)
    from that(1) [OF st _ enter [OF this]] show ?thesis by simp
  next
    case False
    with assms st obtain e s where send: "SendItemRequest api a (c, ?w st) = Some (e, s)"
      by (auto simp: CreateItemStream_def Let_def split: option.splits)
    show ?thesis
    proof (cases "e = Inr True")
      case True
      with False assms st send have "?enter s = Some (r, t)"
        by (simp add: CreateItemStream_def Let_def)
      from that(1) [OF st _ enter [OF this]] False send True show ?thesis by simp
    next
      case no: False
      with False assms st send have "s = t"
        by (auto simp: CreateItemStream_def Let_def split: sum.splits bool.splits)
      with that(2) [OF st False] send show ?thesis by simp
    qed
  qed
qed

lemma CreateItemStream_flow:
  assumes "CreateItemStream api name a s = Some (r, t)"
  shows "flow t = flow s"
proof -
  obtain c w where s: "s = (c, w)" by (cases s)
  from assms [unfolded s] show ?thesis
  proof (cases rule: CreateItemStream_cases)
    case (1 st s')
    have "flow s' = flow (c, w)"
      using 1(2) request_flow [OF SendItemRequest_frame] by fastforce
    moreover have "flow t = flow s'"
      using 1(3) by (cases s') auto
    ultimately show ?thesis by (simp add: s)
  next
    case (2 st e)
    then show ?thesis using request_flow [OF SendItemRequest_frame [OF 2(3)]] by (simp add: s)
  qed
qed

lemma step_flow:
  "consumer_step api s t \<Longrightarrow>
     flow t = flow s \<or> (\<exists>ev. flow t = add_counters (event_counters ev) (flow s))"
proof (induction rule: consumer_step.induct)
  case (event ev s t)
  then show ?case using processEvent_flow by blast
qed (auto simp: CreateItemStream_flow request_flow [OF Resubscribe_frame])

interpretation flow_sys: invariant_system "started api" "consumer_step api" "\<lambda>s. flow_ok (flow s)"
proof
  fix s assume "started api s"
  then obtain cfg cs u r i n w where
    init: "consumer_Init api u r i n (new_consumer cfg cs (w_now w), w) = Some (Inr True, s)"
    by (auto simp: started_def)
  have "flow s = flow (new_consumer cfg cs (w_now w), w)"
    using Init_frame [OF init] by (simp add: init_frame_def)
  then show "flow_ok (flow s)" by (simp add: flow_ok_def flow_def new_consumer_def)
next
  fix s t assume "flow_ok (flow s)" "consumer_step api s t"
  then show "flow_ok (flow t)" using step_flow flow_ok_event by metis
qed

section \<open>Events other than market data items\<close>

definition quiet_frame :: "cstate \<Rightarrow> cstate \<Rightarrow> bool" where
  "quiet_frame s t =
     (c_in_sync (fst t) = c_in_sync (fst s) \<and> c_on_sync (fst t) = c_on_sync (fst s) \<and>
      c_refresh_count (fst t) = c_refresh_count (fst s) \<and> c_directory (fst t) = c_directory (fst s) \<and>
      c_disable_refresh (fst t) = c_disable_refresh (fst s) \<and>
      c_interest_after_refresh (fst t) = c_interest_after_refresh (fst s) \<and>
      w_sync_calls (snd t) = w_sync_calls (snd s) \<and> w_archive (snd t) = w_archive (snd s))"

lemma quiet_refl [simp]: "quiet_frame s s"
  by (simp add: quiet_frame_def)

lemma quiet_trans: "quiet_frame s t \<Longrightarrow> quiet_frame t u \<Longrightarrow> quiet_frame s u"
  by (simp add: quiet_frame_def)

lemma quiet_request: "request_frame s t \<Longrightarrow> quiet_frame s t"
  by (cases s; cases t) (simp add: request_frame_def quiet_frame_def core_def)

lemma quiet_upd [simp]:
  "quiet_frame s (bump k c, w) = quiet_frame s (c, w)"
  "quiet_frame (bump k c, w) t = quiet_frame (c, w) t"
  "quiet_frame s (c\<lparr>c_is_muted := m\<rparr>, w) = quiet_frame s (c, w)"
  "quiet_frame (c\<lparr>c_stream_state := x, c_data_state := y\<rparr>, w) t = quiet_frame (c, w) t"
  "quiet_frame s (c\<lparr>c_stream_state := x, c_data_state := y\<rparr>, w) = quiet_frame s (c, w)"
  "quiet_frame s (c, set_stream a st w) = quiet_frame s (c, w)"
  by (simp_all add: quiet_frame_def)

lemma OnMarketPrice_quiet: "OnMarketPrice m cl s = Some t \<Longrightarrow> quiet_frame s t"
  by (cases s) (auto simp: OnMarketPrice_def bind_Some_iff Let_def)

lemma OnLoginSuccess_quiet:
  assumes "OnLoginSuccess api (c, w) = Some t"
  shows "quiet_frame (c, w) t"
proof -
  obtain r s where r: "Resubscribe api (bump MMT_LOGIN_SUCCESS c, w) = Some (r, s)"
    "t = s \<or> t = (fst s\<lparr>c_is_muted := False\<rparr>, snd s)"
    using assms by (auto simp: OnLoginSuccess_def split: option.splits sum.splits)
  have "quiet_frame (c, w) s" using quiet_request [OF Resubscribe_frame [OF r(1)]] by simp
  then show ?thesis using r(2) by (cases s) auto
qed

lemma OnLoginResponse_quiet: "OnLoginResponse api m (c, w) = Some t \<Longrightarrow> quiet_frame (c, w) t"
  by (auto simp: OnLoginResponse_def Let_def OnLoginSuspect_def OnLoginClosed_def
      dest!: OnLoginSuccess_quiet split: stream_state.splits data_state.splits)

lemma processEvent_quiet:
  assumes "processEvent api ev s = Some t" and "\<And>e. ev \<noteq> MarketDataItemEvent e"
  shows "quiet_frame s t"
proof -
  obtain c w where s: "s = (c, w)" by (cases s)
  have resp: "quiet_frame (d, v) t" if "OnRespMsg api m cl (d, v) = Some t" for m cl d v
    using that by (auto simp: OnRespMsg_def Let_def dest!: OnLoginResponse_quiet OnMarketPrice_quiet
        split: msg_model.splits)
  show ?thesis
  proof (cases ev)
    case (OMMItemEvent msg cl)
    with assms(1) s show ?thesis
      by (cases msg) (auto simp: processEvent_def OnOMMItemEvent_def Let_def dest!: resp)
  qed (use assms s in \<open>auto simp: processEvent_def Let_def\<close>)
qed

lemma CreateItemStream_frame:
  assumes "CreateItemStream api name a s = Some (r, t)"
  shows "core t = core s \<and> marks t = marks s \<and>
         (c_directory (fst t) = c_directory (fst s) \<or>
          c_directory (fst t) = c_directory (fst s) @ [(name, a)] \<and>
            name \<notin> set (map fst (c_directory (fst s)))) \<and>
         w_heap (snd s) a \<noteq> None"
proof -
  obtain c w where s: "s = (c, w)" by (cases s)
  have named: "core (c, set_stream a (st\<lparr>rfa_item_name := x, rfa_service_name := y\<rparr>) w) = core (c, w) \<and>
      marks (c, set_stream a (st\<lparr>rfa_item_name := x, rfa_service_name := y\<rparr>) w) = marks (c, w)"
    if "w_heap w a = Some st" for st x y
    using that by (simp add: core_def marks_def fun_eq_iff)
  from assms [unfolded s] show ?thesis
  proof (cases rule: CreateItemStream_cases)
    case (1 st s')
    have "core s' = core (c, w) \<and> marks s' = marks (c, w) \<and> c_directory (fst s') = c_directory c"
      using 1(2)
    proof (elim disjE conjE)
      assume "SendItemRequest api a (c, set_stream a (st\<lparr>rfa_item_name := name,
          rfa_service_name := service_name (c_config c)\<rparr>) w) = Some (Inr True, s')"
      from SendItemRequest_frame [OF this] named [OF 1(1)] show ?thesis
        by (simp add: request_frame_def)
    qed (simp add: named [OF 1(1)])
    moreover have "core t = core s' \<and> marks t = marks s'"
      using 1(3) by (cases s') (auto simp: core_def marks_pair)
    ultimately show ?thesis using 1(1,3) by (elim disjE) (simp_all add: s)
  next
    case (2 st e)
    with named [OF 2(1)] SendItemRequest_frame [OF 2(3)] show ?thesis
      by (simp add: s request_frame_def)
  qed
qed

section \<open>The synchronisation callback\<close>

definition sync_view :: "cstate \<Rightarrow> bool \<times> bool \<times> nat" where
  "sync_view s = (c_in_sync (fst s), c_on_sync (fst s), w_sync_calls (snd s))"

lemma close_stream_view: "sync_view (close_stream a st s) = sync_view s"
  by (cases s) (simp add: sync_view_def close_stream_def)

lemma unregister_stream_view:
  "unregister_stream st s = Some t \<Longrightarrow>
     sync_view t = sync_view s \<and> c_refresh_count (fst t) = c_refresh_count (fst s) \<and>
     marks t = marks s \<and> w_archive (snd t) = w_archive (snd s)"
  by (cases s) (auto simp: sync_view_def unregister_stream_def marks_def split: if_splits option.splits)

lemma on_image_view: "on_image a s = Some (b, t) \<Longrightarrow> sync_view t = sync_view s"
  by (cases s) (auto simp: sync_view_def on_image_def unregister_stream_def Let_def
      split: if_splits option.splits bool.splits)

lemma md_switch_view: "md_switch ty a s = Some (b, t) \<Longrightarrow> sync_view t = sync_view s"
proof -
  assume sw: "md_switch ty a s = Some (b, t)"
  obtain c w where s: "s = (c, w)" by (cases s)
  from sw obtain st where st: "w_heap w a = Some st" by (auto simp: s md_switch_def split: option.splits)
  have upd: "sync_view (c, set_stream a st' w) = sync_view (c, w)" for st'
    by (simp add: sync_view_def)
  show ?thesis using sw st by (cases ty) (auto simp: s md_switch_def upd dest: on_image_view)
qed

lemma archive_event_view:
  "sync_view (archive_event api ev s) = sync_view s"
  "c_refresh_count (fst (archive_event api ev s)) = c_refresh_count (fst s)"
  "marks (archive_event api ev s) = marks s"
proof -
  obtain c w where s: "s = (c, w)" by (cases s)
  show "sync_view (archive_event api ev s) = sync_view s"
    "c_refresh_count (fst (archive_event api ev s)) = c_refresh_count (fst s)"
    "marks (archive_event api ev s) = marks s"
    by (simp_all add: s sync_view_def archive_event_def Let_def marks_pair)
qed

definition sync_inv :: "cstate \<Rightarrow> bool" where
  "sync_inv s = (w_sync_calls (snd s) = (if c_in_sync (fst s) \<and> c_on_sync (fst s) then 1 else 0))"

lemma sync_inv_view: "sync_view t = sync_view s \<Longrightarrow> sync_inv t = sync_inv s"
  by (simp add: sync_view_def sync_inv_def)

lemma check_sync_inv: "sync_inv s \<Longrightarrow> sync_inv (check_sync s)"
  by (cases s) (auto simp: sync_inv_def check_sync_def)

text \<open>An event leaves the view alone, or it ends with check_sync in an unchanged view.\<close>

lemma processEvent_sync_step:
  assumes "processEvent api ev s = Some t"
  obtains "sync_view t = sync_view s" | u where "sync_view u = sync_view s" "t = check_sync u"
proof (cases "\<exists>e. ev = MarketDataItemEvent e")
  case False
  then have "quiet_frame s t" using processEvent_quiet [OF assms(1)] by blast
  then show ?thesis by (intro that(1)) (simp add: quiet_frame_def sync_view_def)
next
  case True
  then obtain e where ev: "ev = MarketDataItemEvent e" by blast
  obtain c w where s: "s = (c, w)" by (cases s)
  let ?c = "bump RFA_EVENTS_RECEIVED c"
  let ?d = "bump MARKET_DATA_ITEM_EVENTS_RECEIVED ?c"
  from assms(1) have "OnMarketDataItemEvent api e (?c, w) = Some t"
    by (simp add: ev s processEvent_def Let_def)
  then obtain a st more s' u where
    x: "md_switch (md_type e) a (closed_first e a st (?d, w)) = Some (more, s')"
    "if \<not> more then u = s'
     else if md_format e \<noteq> FormatMarketfeed
       then \<exists>st. w_heap (snd s') a = Some st \<and> unregister_stream st s' = Some u
     else u = archive_event api e s'" "t = check_sync u"
    by (rule OnMarketDataItemEvent_cases) blast
  have "sync_view u = sync_view s'"
    using x(2) by (auto simp: archive_event_view dest: unregister_stream_view split: if_splits)
  also have "\<dots> = sync_view (closed_first e a st (?d, w))" by (rule md_switch_view [OF x(1)])
  also have "\<dots> = sync_view (?d, w)"
    by (simp add: closed_first_def close_stream_view)
  also have "\<dots> = sync_view s" by (simp add: s sync_view_def)
  finally show ?thesis using x(3) by (rule that(2))
qed

lemma processEvent_sync_inv:
  assumes "processEvent api ev s = Some t" and "sync_inv s"
  shows "sync_inv t"
  using assms(1)
  by (cases rule: processEvent_sync_step) (use assms(2) sync_inv_view check_sync_inv in blast)+

interpretation sync_sys: invariant_system "started api" "consumer_step api" sync_inv
proof
  fix s assume "started api s"
  then obtain cfg cs u r i n w where
    w: "w_sync_calls w = 0" and
    init: "consumer_Init api u r i n (new_consumer cfg cs (w_now w), w) = Some (Inr True, s)"
    by (auto simp: started_def)
  have "c_in_sync (fst s) = False" "w_sync_calls (snd s) = 0"
    using Init_frame [OF init] w by (simp_all add: init_frame_def new_consumer_def)
  then show "sync_inv s" by (simp add: sync_inv_def)
next
  fix s t assume "sync_inv s" "consumer_step api s t"
  from this(2,1) show "sync_inv t"
  proof cases
    case (create name a r)
    then have "core t = core s" using CreateItemStream_frame by blast
    with \<open>sync_inv s\<close> show ?thesis
      by (cases s; cases t) (simp add: sync_inv_def core_def)
  next
    case (resubscribe r)
    with \<open>sync_inv s\<close> quiet_request [OF Resubscribe_frame [OF resubscribe]] show ?thesis
      by (simp add: quiet_frame_def sync_inv_def)
  next
    case (event ev)
    then show ?thesis using processEvent_sync_inv \<open>sync_inv s\<close> by blast
  qed (auto simp: sync_inv_def)
qed

end
