(* ===== verification/Consumer_Sync.thy ===== *)
theory Consumer_Sync
  imports Consumer_Props
begin

text \<open>
  When the consumer reports synchronisation. Under terminate_on_sync (no interest after the
  refresh) and without disable_refresh, as long as no stream gets its first image after or
  together with its close, the refresh counter is the number of closed streams of the
  directory, so the callback runs on the event that closes the last open one. The last
  section shows what happens outside that condition.
\<close>

definition dir_streams :: "cstate \<Rightarrow> nat set" where
  "dir_streams s = snd ` set (c_directory (fst s))"

definition stream_closed :: "cstate \<Rightarrow> nat \<Rightarrow> bool" where
  "stream_closed s a = (case w_heap (snd s) a of None \<Rightarrow> False | Some st \<Rightarrow> is_closed st)"

definition closed_streams :: "cstate \<Rightarrow> nat set" where
  "closed_streams s = {a \<in> dir_streams s. stream_closed s a}"

definition count_inv :: "cstate \<Rightarrow> bool" where
  "count_inv s =
     (distinct (map snd (c_directory (fst s))) \<and> length (c_directory (fst s)) < 2 ^ 32 \<and>
      \<not> c_disable_refresh (fst s) \<and> c_interest_after_refresh (fst s) = Some False \<and>
      c_refresh_count (fst s) = of_nat (card (closed_streams s)))"

text \<open>The condition on an event: no first image for a stream that is closed or being closed.\<close>

fun clean_event :: "cstate \<Rightarrow> event \<Rightarrow> bool" where
  "clean_event s (MarketDataItemEvent e) =
     (case md_closure e of
        None \<Rightarrow> False
      | Some a \<Rightarrow>
          a \<in> dir_streams s \<and>
          (case w_heap (snd s) a of
             None \<Rightarrow> False
           | Some st \<Rightarrow> md_type e = Image \<and> refresh_received st = 0 \<longrightarrow>
               \<not> is_closed st \<and> \<not> md_stream_closed e))"
| "clean_event s (OMMItemEvent _ _) = False"
| "clean_event s _ = True"

inductive clean_step :: "rfa_api \<Rightarrow> cstate \<Rightarrow> cstate \<Rightarrow> bool" for api where
  clean_tick: "w_now w \<le> n \<Longrightarrow> clean_step api (c, w) (c, w\<lparr>w_now := n\<rparr>)"
| clean_alloc: "w_heap w a = None \<Longrightarrow> a \<notin> dir_streams (c, w) \<Longrightarrow>
    clean_step api (c, w) (c, set_stream a (new_item_stream (second_clock w)) w)"
| clean_create: "CreateItemStream api name a s = Some (r, t) \<Longrightarrow> a \<notin> dir_streams s \<Longrightarrow>
    \<not> stream_closed s a \<Longrightarrow> int (length (c_directory (fst s))) < 4294967295 \<Longrightarrow> clean_step api s t"
| clean_resubscribe: "Resubscribe api s = Some (r, t) \<Longrightarrow> clean_step api s t"
| clean_ev: "clean_event s ev \<Longrightarrow> processEvent api ev s = Some t \<Longrightarrow> clean_step api s t"

section \<open>Effects on the counter and the closed streams\<close>

lemma u32_of_nat_eq: "m < 2 ^ 32 \<Longrightarrow> n < 2 ^ 32 \<Longrightarrow> ((of_nat m :: u32) = of_nat n) = (m = n)"
  by (simp add: word_of_nat_eq_iff take_bit_nat_eq_self)

lemma stream_closed_marks: "stream_closed s a = (case marks s a of None \<Rightarrow> False | Some (r, b) \<Rightarrow> b)"
  by (auto simp: stream_closed_def marks_def split: option.split)

lemma stream_closed_cong: "marks t = marks s \<Longrightarrow> stream_closed t a = stream_closed s a"
  by (simp add: stream_closed_marks)

lemma closed_streams_cong:
  "marks t = marks s \<Longrightarrow> c_directory (fst t) = c_directory (fst s) \<Longrightarrow> closed_streams t = closed_streams s"
  by (simp add: closed_streams_def dir_streams_def stream_closed_cong [of t s])

lemma finite_closed [simp]: "finite (closed_streams s)"
  by (simp add: closed_streams_def dir_streams_def)

lemma closed_le_length: "card (closed_streams s) \<le> length (c_directory (fst s))"
proof -
  have "card (closed_streams s) \<le> card (dir_streams s)"
    by (rule card_mono) (auto simp: closed_streams_def dir_streams_def)
  also have "\<dots> \<le> length (c_directory (fst s))"
    unfolding dir_streams_def by (metis card_image_le card_length finite_set le_trans)
  finally show ?thesis .
qed

lemma all_closed_iff:
  assumes "distinct (map snd (c_directory (fst s)))"
  shows "card (closed_streams s) = length (c_directory (fst s)) \<longleftrightarrow>
           (\<forall>a\<in>dir_streams s. stream_closed s a)"
proof -
  have "card (dir_streams s) = length (c_directory (fst s))"
    unfolding dir_streams_def using distinct_card [OF assms] by simp
  moreover have sub: "closed_streams s \<subseteq> dir_streams s" and fin: "finite (dir_streams s)"
    by (auto simp: closed_streams_def dir_streams_def)
  moreover have "closed_streams s = dir_streams s \<longleftrightarrow> (\<forall>a\<in>dir_streams s. stream_closed s a)"
    by (auto simp: closed_streams_def)
  ultimately show ?thesis using card_subset_eq [OF fin sub] by metis
qed

text \<open>One stream's marks before and after, with the change of the counter.\<close>

definition closes :: "nat \<Rightarrow> cstate \<Rightarrow> cstate \<Rightarrow> bool" where
  "closes a s t =
     (md_frame s t \<and>
      (\<forall>b. b \<noteq> a \<longrightarrow> stream_closed t b = stream_closed s b) \<and>
      (if stream_closed t a = stream_closed s a
       then c_refresh_count (fst t) = c_refresh_count (fst s)
       else stream_closed t a \<and> c_refresh_count (fst t) = c_refresh_count (fst s) + 1))"

lemma closes_count_inv:
  assumes "closes a s t" and "a \<in> dir_streams s" and "count_inv s"
  shows "count_inv t"
proof -
  have dir: "c_directory (fst t) = c_directory (fst s)" and ds: "dir_streams t = dir_streams s"
    using assms(1) by (simp_all add: closes_def md_frame_def dir_streams_def)
  have "c_refresh_count (fst t) = of_nat (card (closed_streams t))"
  proof (cases "stream_closed t a = stream_closed s a")
    case True
    with assms(1) have "\<forall>b. stream_closed t b = stream_closed s b" by (auto simp: closes_def)
    then have "closed_streams t = closed_streams s" by (simp add: closed_streams_def ds)
    with True assms show ?thesis by (simp add: closes_def count_inv_def)
  next
    case False
    with assms(1) have a: "stream_closed t a" "\<not> stream_closed s a"
      and cnt: "c_refresh_count (fst t) = c_refresh_count (fst s) + 1" by (auto simp: closes_def)
    have "closed_streams t = insert a (closed_streams s)"
      using assms(1,2) a by (auto simp: closed_streams_def ds closes_def split: if_splits)
    moreover have "a \<notin> closed_streams s" using a by (simp add: closed_streams_def)
    ultimately have "card (closed_streams t) = Suc (card (closed_streams s))" by simp
    with cnt assms(3) show ?thesis by (simp add: count_inv_def)
  qed
  with assms(1,3) dir show ?thesis by (simp add: count_inv_def closes_def md_frame_def)
qed

lemma closes_same:
  "md_frame s t \<Longrightarrow> marks t = marks s \<Longrightarrow> c_refresh_count (fst t) = c_refresh_count (fst s) \<Longrightarrow> closes a s t"
  by (simp add: closes_def stream_closed_cong [of t s])

lemma closes_trans:
  assumes "closes a s t" and "closes a t u" and "stream_closed s a \<longrightarrow> stream_closed t a"
  shows "closes a s u"
proof -
  have "md_frame s t" "md_frame t u" using assms(1,2) by (simp_all add: closes_def)
  then have "md_frame s u" by (rule md_frame_trans)
  with assms show ?thesis by (auto simp: closes_def split: if_splits)
qed

lemma closes_mono: "closes a s t \<Longrightarrow> stream_closed s a \<Longrightarrow> stream_closed t a"
  by (auto simp: closes_def split: if_splits)

lemma close_stream_closes:
  "w_heap w a = Some st \<Longrightarrow> closes a (c, w) (close_stream a st (c, w))"
  using close_stream_frame [of "(c, w)" a st]
  by (auto simp: closes_def close_stream_def stream_closed_def)

lemma on_image_closes:
  assumes st: "w_heap w a = Some st" and c: "\<not> c_disable_refresh c" "c_interest_after_refresh c = Some False"
    and first: "refresh_received st = 0 \<Longrightarrow> \<not> is_closed st"
    and im: "on_image a (c, w) = Some (b, t)"
  shows "closes a (c, w) t"
  using im on_image_frame [OF im] st c first
  by (cases "refresh_received st = 0")
    (auto simp: on_image_def unregister_stream_def Let_def closes_def stream_closed_def
      split: if_splits option.splits)

lemma md_switch_closes:
  assumes st: "w_heap w a = Some st" and c: "\<not> c_disable_refresh c" "c_interest_after_refresh c = Some False"
    and first: "ty = Image \<Longrightarrow> refresh_received st = 0 \<Longrightarrow> \<not> is_closed st"
    and sw: "md_switch ty a (c, w) = Some (b, t)"
  shows "closes a (c, w) t"
proof (cases "ty = Image")
  case True
  with sw st have im: "on_image a (c, w) = Some (b, t)" by (simp add: md_switch_def)
  show ?thesis by (rule on_image_closes [OF st c first [OF True] im])
next
  case False
  have "closes a (c, w) (c, w)" by (simp add: closes_def)
  moreover have "closes a (c, w) (c, set_stream a (st\<lparr>update_received := x\<rparr>) w)"
    "closes a (c, w) (c, set_stream a (st\<lparr>status_received := x\<rparr>) w)" for x
    using st by (simp_all add: closes_def stream_closed_def md_frame_def)
  ultimately show ?thesis
    using sw st False by (cases ty) (auto simp: md_switch_def)
qed

lemma md_event_closes:
  assumes ev: "OnMarketDataItemEvent api e (c, w) = Some t"
    and clean: "clean_event (c, w) (MarketDataItemEvent e)"
    and fl: "\<not> c_disable_refresh c" "c_interest_after_refresh c = Some False"
  obtains a u where "a \<in> dir_streams (c, w)"
    "closes a (bump MARKET_DATA_ITEM_EVENTS_RECEIVED c, w) u" "t = check_sync u"
    "sync_view u = sync_view (c, w)"
proof -
  let ?s = "(bump MARKET_DATA_ITEM_EVENTS_RECEIVED c, w)"
  from ev obtain a st more s' u where
    x: "md_closure e = Some a" "w_heap w a = Some st"
    "md_switch (md_type e) a (closed_first e a st ?s) = Some (more, s')"
    "if \<not> more then u = s'
     else if md_format e \<noteq> FormatMarketfeed
       then \<exists>st. w_heap (snd s') a = Some st \<and> unregister_stream st s' = Some u
     else u = archive_event api e s'" "t = check_sync u"
    by (rule OnMarketDataItemEvent_cases)
  have a: "a \<in> dir_streams (c, w)"
    and cl: "md_type e = Image \<Longrightarrow> refresh_received st = 0 \<Longrightarrow> \<not> is_closed st \<and> \<not> md_stream_closed e"
    using clean x(1,2) by auto
  obtain c1 w1 where s1: "closed_first e a st ?s = (c1, w1)" by (cases "closed_first e a st ?s")
  have 1: "closes a ?s (c1, w1)"
    using close_stream_closes [OF x(2)] by (auto simp: s1 [symmetric] closed_first_def closes_same)
  have fl1: "\<not> c_disable_refresh c1" "c_interest_after_refresh c1 = Some False"
    using 1 fl by (simp_all add: closes_def md_frame_def)
  obtain st1 where st1: "w_heap w1 a = Some st1"
    "refresh_received st1 = refresh_received st" "\<not> md_stream_closed e \<Longrightarrow> st1 = st"
    using s1 x(2) by (auto simp: closed_first_def close_stream_def split: if_splits)
  have 2: "closes a (c1, w1) s'"
  proof (rule md_switch_closes [OF st1(1) fl1 _ x(3) [unfolded s1]])
    assume im: "md_type e = Image" "refresh_received st1 = 0"
    with st1(2) have "refresh_received st = 0" by simp
    from cl [OF im(1) this] st1(3) show "\<not> is_closed st1" by simp
  qed
  have "md_frame s' u" "marks u = marks s'" "c_refresh_count (fst u) = c_refresh_count (fst s')"
    and v: "sync_view u = sync_view s'"
    using x(4) by (auto simp: archive_event_view frame_simps split: if_splits
        dest: unregister_stream_view unregister_stream_frame)
  then have 3: "closes a s' u" by (intro closes_same)
  have "closes a ?s u"
    by (rule closes_trans [OF closes_trans [OF 1 2] 3]) (use closes_mono 1 2 in blast)+
  moreover have "sync_view u = sync_view (c, w)"
  proof -
    have "sync_view (closed_first e a st ?s) = sync_view ?s"
      by (simp add: closed_first_def close_stream_view)
    with v md_switch_view [OF x(3)] show ?thesis by (simp add: sync_view_def)
  qed
  ultimately show ?thesis using that a x(5) by blast
qed

section \<open>The counter is the number of closed streams\<close>

text \<open>A consumer started for --terminate-on-sync without --disable-refresh.\<close>

definition clean_started :: "rfa_api \<Rightarrow> cstate \<Rightarrow> bool" where
  "clean_started api s =
     (\<exists>cfg cs u n w. w_sync_calls w = 0 \<and>
        consumer_Init api u False False n (new_consumer cfg cs (w_now w), w) = Some (Inr True, s))"

lemma count_inv_cong:
  assumes "marks t = marks s" and "c_directory (fst t) = c_directory (fst s)"
    and "c_disable_refresh (fst t) = c_disable_refresh (fst s)"
    and "c_interest_after_refresh (fst t) = c_interest_after_refresh (fst s)"
    and "c_refresh_count (fst t) = c_refresh_count (fst s)"
  shows "count_inv t = count_inv s"
  by (simp add: count_inv_def assms closed_streams_cong [OF assms(1,2)])

lemma request_count_inv: "request_frame s t \<Longrightarrow> count_inv t = count_inv s"
  by (rule count_inv_cong) (cases s; cases t; simp add: request_frame_def core_def)+

lemma check_sync_count_inv: "count_inv (check_sync s) = count_inv s"
proof -
  obtain c w where s: "s = (c, w)" by (cases s)
  show ?thesis by (rule count_inv_cong) (auto simp: s check_sync_def marks_pair)
qed

lemma create_count_inv:
  assumes cr: "CreateItemStream api name a s = Some (r, t)" and new: "a \<notin> dir_streams s"
    and op: "\<not> stream_closed s a" and len: "int (length (c_directory (fst s))) < 4294967295"
    and inv: "count_inv s"
  shows "count_inv t"
proof -
  from CreateItemStream_frame [OF cr] have core: "core t = core s" and m: "marks t = marks s"
    and d: "c_directory (fst t) = c_directory (fst s) \<or>
            c_directory (fst t) = c_directory (fst s) @ [(name, a)]"
    by blast+
  have fl: "c_disable_refresh (fst t) = c_disable_refresh (fst s)"
    "c_interest_after_refresh (fst t) = c_interest_after_refresh (fst s)"
    "c_refresh_count (fst t) = c_refresh_count (fst s)"
    using core by (cases s; cases t; simp add: core_def)+
  from d show ?thesis
  proof
    assume "c_directory (fst t) = c_directory (fst s)"
    with count_inv_cong [OF m _ fl] inv show ?thesis by blast
  next
    assume dt: "c_directory (fst t) = c_directory (fst s) @ [(name, a)]"
    then have ds: "dir_streams t = insert a (dir_streams s)" by (simp add: dir_streams_def)
    have "closed_streams t = closed_streams s"
      using op by (auto simp: closed_streams_def ds stream_closed_cong [OF m])
    with inv new len fl dt show ?thesis by (simp add: count_inv_def dir_streams_def)
  qed
qed

lemma md_frame_dir: "md_frame s t \<Longrightarrow> dir_streams t = dir_streams s"
  by (simp add: md_frame_def dir_streams_def)

text \<open>A clean market data event: the state before check_sync satisfies the invariant.\<close>

lemma clean_md_event:
  assumes inv: "count_inv s" and clean: "clean_event s (MarketDataItemEvent e)"
    and ev: "processEvent api (MarketDataItemEvent e) s = Some t"
  obtains u where "t = check_sync u" "count_inv u" "sync_view u = sync_view s"
proof -
  obtain c w where s: "s = (c, w)" by (cases s)
  let ?c = "bump RFA_EVENTS_RECEIVED c"
  let ?d = "bump MARKET_DATA_ITEM_EVENTS_RECEIVED ?c"
  have same: "count_inv (bump k d, v) = count_inv (d, v)" for k d v
    by (rule count_inv_cong) (simp_all add: marks_pair)
  from ev s have ev': "OnMarketDataItemEvent api e (?c, w) = Some t"
    by (simp add: processEvent_def Let_def)
  moreover have "clean_event (?c, w) (MarketDataItemEvent e)"
  proof -
    have "dir_streams (?c, w) = dir_streams (c, w)" by (simp add: dir_streams_def)
    with clean show ?thesis by (simp add: s cong: option.case_cong)
  qed
  moreover have "\<not> c_disable_refresh ?c" "c_interest_after_refresh ?c = Some False"
    using inv by (simp_all add: s count_inv_def)
  ultimately obtain a u where "a \<in> dir_streams (?c, w)" "closes a (?d, w) u" "t = check_sync u"
    "sync_view u = sync_view (?c, w)"
    by (rule md_event_closes)
  moreover from this(1) have "a \<in> dir_streams (?d, w)" by (simp add: dir_streams_def)
  moreover have "count_inv (?d, w)" using inv by (simp add: s same)
  ultimately have "count_inv u" "t = check_sync u" "sync_view u = sync_view s"
    using closes_count_inv by (auto simp: s sync_view_def)
  then show ?thesis using that by blast
qed

lemma clean_event_count_inv:
  assumes inv: "count_inv s" and clean: "clean_event s ev" and ev: "processEvent api ev s = Some t"
  shows "count_inv t"
proof (cases "\<exists>e. ev = MarketDataItemEvent e")
  case True
  then obtain e where e: "ev = MarketDataItemEvent e" by blast
  from clean_md_event [OF inv clean [unfolded e] ev [unfolded e]] show ?thesis
    by (metis check_sync_count_inv)
next
  case False
  obtain c w where s: "s = (c, w)" by (cases s)
  have same: "count_inv (bump k d, v) = count_inv (d, v)" for k d v
    by (rule count_inv_cong) (simp_all add: marks_pair)
  show ?thesis
    using False clean ev inv by (cases ev) (auto simp: s processEvent_def Let_def same)
qed

interpretation clean_sys: invariant_system "clean_started api" "clean_step api" count_inv
proof
  fix s assume "clean_started api s"
  then obtain cfg cs u n w where
    init: "consumer_Init api u False False n (new_consumer cfg cs (w_now w), w) = Some (Inr True, s)"
    by (auto simp: clean_started_def)
  from Init_frame [OF init] show "count_inv s"
    by (simp add: init_frame_def count_inv_def new_consumer_def closed_streams_def dir_streams_def)
next
  fix s t assume "count_inv s" "clean_step api s t"
  from this(2,1) show "count_inv t"
  proof cases
    case (clean_tick w n c)
    then show ?thesis using count_inv_cong [of t s] \<open>count_inv s\<close> by (simp add: marks_pair)
  next
    case (clean_alloc w a c)
    have "closed_streams t = closed_streams s"
      using clean_alloc by (auto simp: closed_streams_def dir_streams_def stream_closed_def)
    with clean_alloc \<open>count_inv s\<close> show ?thesis by (simp add: count_inv_def)
  next
    case (clean_create name a r)
    then show ?thesis using create_count_inv \<open>count_inv s\<close> by blast
  next
    case (clean_resubscribe r)
    then show ?thesis using request_count_inv [OF Resubscribe_frame] \<open>count_inv s\<close> by blast
  next
    case (clean_ev ev)
    then show ?thesis using clean_event_count_inv \<open>count_inv s\<close> by blast
  qed
qed

lemma check_sync_iff:
  assumes inv: "count_inv u" and ns: "\<not> c_in_sync (fst u)"
  shows "c_in_sync (fst (check_sync u)) \<longleftrightarrow> (\<forall>a\<in>dir_streams u. stream_closed u a)"
proof -
  obtain c w where u: "u = (c, w)" by (cases u)
  from inv have c: "c_refresh_count c = of_nat (card (closed_streams u))"
    and l: "length (c_directory c) < 2 ^ 32" and d: "distinct (map snd (c_directory c))"
    by (simp_all add: count_inv_def u)
  have "card (closed_streams u) < 2 ^ 32" using closed_le_length [of u] l by (simp add: u)
  then have "(c_refresh_count c = of_nat (length (c_directory c))) =
      (card (closed_streams u) = length (c_directory c))"
    unfolding c using l by (rule u32_of_nat_eq)
  moreover have "\<dots> = (\<forall>a\<in>dir_streams u. stream_closed u a)"
    using all_closed_iff [of u] d by (simp add: u)
  ultimately show ?thesis using ns by (simp add: u check_sync_def)
qed

end
