(* ===== verification/Consumer_Run.thy ===== *)
theory Consumer_Run
  imports Consumer_Sync
begin

text \<open>
  Executable runs of a consumer and the properties of whole runs: the flow of events through
  the performance counters, the synchronisation callback, and what happens to the counter
  when a stream is closed and refreshed by the same event. The run function replays a list of
  actions; it covers exactly the step relation.
\<close>

section \<open>Runs as functions\<close>

datatype action = Tick int | Alloc nat | Create string nat | Resub | Event event

fun consumer_act :: "rfa_api \<Rightarrow> action \<Rightarrow> cstate \<Rightarrow> cstate option" where
  "consumer_act api (Tick n) (c, w) = (if w_now w \<le> n then Some (c, w\<lparr>w_now := n\<rparr>) else None)"
| "consumer_act api (Alloc a) (c, w) =
     (if w_heap w a = None then Some (c, set_stream a (new_item_stream (second_clock w)) w) else None)"
| "consumer_act api (Create name a) s = map_option snd (CreateItemStream api name a s)"
| "consumer_act api Resub s = map_option snd (Resubscribe api s)"
| "consumer_act api (Event ev) s = processEvent api ev s"

fun consumer_run :: "rfa_api \<Rightarrow> action list \<Rightarrow> cstate \<Rightarrow> cstate option" where
  "consumer_run api [] s = Some s"
| "consumer_run api (k # ks) s = Option.bind (consumer_act api k s) (consumer_run api ks)"

lemma consumer_act_iff: "(\<exists>k. consumer_act api k s = Some t) \<longleftrightarrow> consumer_step api s t"
proof
  assume "\<exists>k. consumer_act api k s = Some t"
  then obtain k where k: "consumer_act api k s = Some t" by blast
  obtain c w where s: "s = (c, w)" by (cases s)
  show "consumer_step api s t"
    using k by (cases k) (auto simp: s split: if_splits intro: consumer_step.intros)
next
  assume "consumer_step api s t"
  then show "\<exists>k. consumer_act api k s = Some t"
  proof cases
    case (tick w n c)
    then have "consumer_act api (Tick n) s = Some t" by simp
    then show ?thesis ..
  next
    case (alloc w a c)
    then have "consumer_act api (Alloc a) s = Some t" by simp
    then show ?thesis ..
  next
    case (create name a r)
    then have "consumer_act api (Create name a) s = Some t" by simp
    then show ?thesis ..
  next
    case (resubscribe r)
    then have "consumer_act api Resub s = Some t" by simp
    then show ?thesis ..
  next
    case (event ev)
    then have "consumer_act api (Event ev) s = Some t" by simp
    then show ?thesis ..
  qed
qed

lemma consumer_run_steps: "consumer_run api ks s = Some t \<Longrightarrow> (consumer_step api)\<^sup>*\<^sup>* s t"
proof (induction ks arbitrary: s)
  case (Cons k ks)
  then obtain u where u: "consumer_act api k s = Some u" "consumer_run api ks u = Some t"
    by (auto simp: bind_Some_iff)
  from u(1) have "consumer_step api s u" using consumer_act_iff by blast
  from this Cons.IH [OF u(2)] show ?case by (rule converse_rtranclp_into_rtranclp)
qed simp

text \<open>The actions of a clean run.\<close>

fun clean_action :: "cstate \<Rightarrow> action \<Rightarrow> bool" where
  "clean_action s (Alloc a) = (a \<notin> dir_streams s)"
| "clean_action s (Create name a) =
     (a \<notin> dir_streams s \<and> \<not> stream_closed s a \<and> int (length (c_directory (fst s))) < 4294967295)"
| "clean_action s (Event ev) = clean_event s ev"
| "clean_action s _ = True"

fun clean_run :: "rfa_api \<Rightarrow> action list \<Rightarrow> cstate \<Rightarrow> cstate option" where
  "clean_run api [] s = Some s"
| "clean_run api (k # ks) s =
     (if clean_action s k then Option.bind (consumer_act api k s) (clean_run api ks) else None)"

lemma clean_act_step: "clean_action s k \<Longrightarrow> consumer_act api k s = Some t \<Longrightarrow> clean_step api s t"
  by (cases s; cases k) (auto split: if_splits intro: clean_step.intros)

lemma clean_run_steps: "clean_run api ks s = Some t \<Longrightarrow> (clean_step api)\<^sup>*\<^sup>* s t"
proof (induction ks arbitrary: s)
  case (Cons k ks)
  then obtain u where u: "clean_action s k" "consumer_act api k s = Some u" "clean_run api ks u = Some t"
    by (auto simp: bind_Some_iff split: if_splits)
  from clean_act_step [OF u(1,2)] Cons.IH [OF u(3)] show ?case
    by (rule converse_rtranclp_into_rtranclp)
qed simp

section \<open>A concrete session\<close>

text \<open>A library that grants every request, and the market data session of the README.\<close>

definition granting_api :: rfa_api where
  "granting_api =
     \<lparr>api_reply = Handle, api_validate = (\<lambda>_. ValidationOk), api_rwf_version = (14, 0),
      api_msg_type = (\<lambda>ty. case ty of Image \<Rightarrow> 1 | Update \<Rightarrow> 2 | OtherMsgType n \<Rightarrow> n | _ \<Rightarrow> 3),
      api_iter_order = (\<lambda>d. d), api_dcheck_is_on = True\<rparr>"

definition example_session :: "string \<Rightarrow> session_config_t" where
  "example_session proto =
     new_session_config\<lparr>session_name := ''SessionIDN_RDF'', consumer_name := ''ConsumerIDN_RDF'',
       protocol := proto, service_name := ''IDN_RDF'', user_name := ''user1''\<rparr>"

definition empty_world :: world where
  "empty_world = \<lparr>w_heap = (\<lambda>_. None), w_calls = [], w_archive = [], w_sync_calls = 0, w_now = 1000000\<rparr>"

definition example_start :: "string \<Rightarrow> bool \<Rightarrow> ((exn + bool) \<times> cstate) option" where
  "example_start proto no_refresh =
     consumer_Init granting_api False no_refresh False True
       (new_consumer (example_session proto) True (w_now empty_world), empty_world)"

definition example_event :: "nat \<Rightarrow> md_msg_type \<Rightarrow> bool \<Rightarrow> md_item_event" where
  "example_event a ty cl =
     \<lparr>md_closure = Some a, md_stream_closed = cl, md_type = ty, md_format = FormatMarketfeed,
      md_service_name = ''IDN_RDF'', md_item_name = ''IBM.N'', md_new_item_name = [],
      md_buffer = ''payload''\<rparr>"

text \<open>Two instruments subscribed on a market data session.\<close>

definition two_streams :: "action list" where
  "two_streams = [Alloc 0, Create ''IBM.N'' 0, Alloc 1, Create ''MSFT.O'' 1, Resub]"

lemma example_started:
  assumes "example_start proto False = Some (Inr True, s)"
  shows "started granting_api s" and "clean_started granting_api s"
proof -
  have "w_sync_calls empty_world = 0" by (simp add: empty_world_def)
  with assms show "started granting_api s" "clean_started granting_api s"
    unfolding started_def clean_started_def example_start_def by blast+
qed

definition holds_after :: "(cstate \<Rightarrow> bool) \<Rightarrow> ((exn + bool) \<times> cstate) option \<Rightarrow> (cstate \<Rightarrow> cstate option) \<Rightarrow> bool" where
  "holds_after P start run =
     (case start of
        Some (Inr True, s) \<Rightarrow> (case run s of Some t \<Rightarrow> P t | None \<Rightarrow> False)
      | _ \<Rightarrow> False)"

lemma holds_afterE:
  assumes "holds_after P start run"
  obtains s t where "start = Some (Inr True, s)" "run s = Some t" "P t"
proof -
  from assms obtain r s where start: "start = Some (r, s)"
    by (cases start) (auto simp: holds_after_def)
  with assms have r: "r = Inr True"
    by (cases r) (auto simp: holds_after_def split: bool.splits)
  with assms start obtain t where "run s = Some t" "P t"
    by (cases "run s") (auto simp: holds_after_def)
  with start r that show ?thesis by blast
qed

section \<open>Event counters\<close>

text \<open>Every event that reaches the consumer adds exactly one to each counter on its path
  (received, then the handler or the discarded counter of each level), and to no other of
  these counters; the request counters are the only ones an event may change besides.\<close>

theorem processEvent_counts:
  assumes "processEvent api ev s = Some t" and "is_flow k"
  shows "c_cumulative_stats (fst t) k = c_cumulative_stats (fst s) k + of_nat (count_list (event_counters ev) k)"
  using processEvent_flow [OF assms(1)] assms(2) by (metis add_counters_def flow_def)

lemma holds_run_omm:
  "holds_after (\<lambda>t. c_cumulative_stats (fst t) RESPONSE_MSGS_DISCARDED = 1) (example_start ''rssl'' False)
     (processEvent granting_api (OMMItemEvent (RespMsg
        \<lparr>rm_model = OtherModel 5, rm_resp_type = RefreshEnum, rm_stream_state = OpenEnum,
         rm_data_state = OkEnum\<rparr>) None))"
  by code_simp

theorem processEvent_counts_witness:
  "\<exists>s t. processEvent granting_api OMMCmdErrorEvent s = Some t \<and>
     c_cumulative_stats (fst t) OMM_CMD_ERRORS = c_cumulative_stats (fst s) OMM_CMD_ERRORS + 1"
proof -
  let ?s = "(new_consumer (example_session ''rssl'') True 0, empty_world)"
  obtain t where t: "processEvent granting_api OMMCmdErrorEvent ?s = Some t"
    by (simp add: processEvent_def Let_def)
  have "c_cumulative_stats (fst t) OMM_CMD_ERRORS = c_cumulative_stats (fst ?s) OMM_CMD_ERRORS + 1"
    using processEvent_counts [OF t, of OMM_CMD_ERRORS] by simp
  with t show ?thesis by blast
qed

text \<open>C10: At any point of any run after Init, the counters balance (modulo 2^32): the events
  received are the events handled by each handler plus those discarded, at the level of
  events, of OMM items, of response messages and of login responses; no license event is ever
  counted.\<close>

theorem consumer_counters_balance:
  assumes "started api s" and "(consumer_step api)\<^sup>*\<^sup>* s t"
  shows "let f = c_cumulative_stats (fst t) in
     f RFA_EVENTS_RECEIVED =
        f OMM_ITEM_EVENTS_RECEIVED + f OMM_CMD_ERRORS + f MARKET_DATA_SVC_EVENTS_RECEIVED +
        f CONNECTION_EVENTS_RECEIVED + f ENTITLEMENT_EVENTS_RECEIVED +
        f MARKET_DATA_ITEM_EVENTS_RECEIVED + f RFA_EVENTS_DISCARDED \<and>
     f OMM_ITEM_EVENTS_RECEIVED = f RESPONSE_MSGS_RECEIVED + f OMM_ITEM_EVENTS_DISCARDED \<and>
     f RESPONSE_MSGS_RECEIVED =
        f MMT_LOGIN_RESPONSE_RECEIVED + f MMT_MARKET_PRICE_RECEIVED + f RESPONSE_MSGS_DISCARDED \<and>
     f MMT_LOGIN_RESPONSE_RECEIVED =
        f MMT_LOGIN_SUCCESS + f MMT_LOGIN_SUSPECT + f MMT_LOGIN_CLOSED + f MMT_LOGIN_RESPONSE_DISCARDED \<and>
     f LICENSE_EVENTS_RECEIVED = 0"
  using flow_sys.reach_inv [OF assms] by (simp add: flow_ok_def flow_def Let_def)

theorem consumer_counters_balance_witness:
  "\<exists>s t. started granting_api s \<and> (consumer_step granting_api)\<^sup>*\<^sup>* s t \<and>
     c_cumulative_stats (fst t) RFA_EVENTS_RECEIVED = 3 \<and>
     c_cumulative_stats (fst t) RFA_EVENTS_DISCARDED + c_cumulative_stats (fst t) OMM_CMD_ERRORS +
     c_cumulative_stats (fst t) OMM_ITEM_EVENTS_RECEIVED = 3"
proof -
  let ?evs = "[Event (OMMItemEvent (OtherMsg 1) None), Event OMMCmdErrorEvent, Event (OtherEvent 9)]"
  have "holds_after (\<lambda>t. c_cumulative_stats (fst t) RFA_EVENTS_RECEIVED = 3 \<and>
      c_cumulative_stats (fst t) MARKET_DATA_SVC_EVENTS_RECEIVED = 0 \<and>
      c_cumulative_stats (fst t) CONNECTION_EVENTS_RECEIVED = 0 \<and>
      c_cumulative_stats (fst t) ENTITLEMENT_EVENTS_RECEIVED = 0 \<and>
      c_cumulative_stats (fst t) MARKET_DATA_ITEM_EVENTS_RECEIVED = 0)
      (example_start ''rssl'' False) (consumer_run granting_api ?evs)" by code_simp
  then obtain s t where st: "example_start ''rssl'' False = Some (Inr True, s)"
    "consumer_run granting_api ?evs s = Some t" and
    f: "c_cumulative_stats (fst t) RFA_EVENTS_RECEIVED = 3"
      "c_cumulative_stats (fst t) MARKET_DATA_SVC_EVENTS_RECEIVED = 0"
      "c_cumulative_stats (fst t) CONNECTION_EVENTS_RECEIVED = 0"
      "c_cumulative_stats (fst t) ENTITLEMENT_EVENTS_RECEIVED = 0"
      "c_cumulative_stats (fst t) MARKET_DATA_ITEM_EVENTS_RECEIVED = 0"
    by (elim holds_afterE) simp
  note run = example_started(1) [OF st(1)] consumer_run_steps [OF st(2)]
  have "3 = c_cumulative_stats (fst t) OMM_ITEM_EVENTS_RECEIVED + c_cumulative_stats (fst t) OMM_CMD_ERRORS
      + c_cumulative_stats (fst t) RFA_EVENTS_DISCARDED"
    using consumer_counters_balance [OF run] unfolding Let_def f add_0_right by (elim conjE)
  then have "c_cumulative_stats (fst t) RFA_EVENTS_DISCARDED + c_cumulative_stats (fst t) OMM_CMD_ERRORS +
     c_cumulative_stats (fst t) OMM_ITEM_EVENTS_RECEIVED = 3"
    by (simp only: add.commute add.left_commute add.assoc)
  with run f(1) show ?thesis by blast
qed

section \<open>Synchronisation\<close>

text \<open>C6: The on_sync callback of a consumer runs at most once in any run, and it has run
  exactly when the consumer is in sync and a callback was given.\<close>

theorem on_sync_at_most_once:
  assumes "started api s" and "(consumer_step api)\<^sup>*\<^sup>* s t"
  shows "w_sync_calls (snd t) = (if c_in_sync (fst t) \<and> c_on_sync (fst t) then 1 else 0)"
  using sync_sys.reach_inv [OF assms] by (simp add: sync_inv_def)

definition images :: "nat list \<Rightarrow> action list" where
  "images as = map (\<lambda>a. Event (MarketDataItemEvent (example_event a Image False))) as"

theorem on_sync_at_most_once_witness:
  "\<exists>s t. started granting_api s \<and> (consumer_step granting_api)\<^sup>*\<^sup>* s t \<and> w_sync_calls (snd t) = 1"
proof -
  have "holds_after (\<lambda>t. c_in_sync (fst t) \<and> c_on_sync (fst t)) (example_start ''ssled'' False)
      (consumer_run granting_api (two_streams @ images [0, 1, 0, 1]))" by code_simp
  then obtain s t where st: "example_start ''ssled'' False = Some (Inr True, s)"
    "consumer_run granting_api (two_streams @ images [0, 1, 0, 1]) s = Some t"
    "c_in_sync (fst t)" "c_on_sync (fst t)"
    by (elim holds_afterE) simp
  note run = example_started(1) [OF st(1)] consumer_run_steps [OF st(2)]
  from on_sync_at_most_once [OF run] st(3,4) have "w_sync_calls (snd t) = 1" by simp
  with run show ?thesis by blast
qed

text \<open>C4: In a session started for terminate-on-sync without disable-refresh, as long as no
  stream gets its first image after or together with its close, a market data event puts the
  consumer in sync exactly when after it every stream of the directory is closed: never
  early, never late.\<close>

theorem in_sync_iff_all_closed:
  assumes "clean_started api s0" and "(clean_step api)\<^sup>*\<^sup>* s0 s"
    and "clean_event s (MarketDataItemEvent e)"
    and "processEvent api (MarketDataItemEvent e) s = Some t" and "\<not> c_in_sync (fst s)"
  shows "c_in_sync (fst t) \<longleftrightarrow> (\<forall>a\<in>snd ` set (c_directory (fst t)). stream_closed t a)"
proof -
  from clean_md_event [OF clean_sys.reach_inv [OF assms(1,2)] assms(3,4)] obtain u where
    u: "t = check_sync u" "count_inv u" "sync_view u = sync_view s" .
  have ns: "\<not> c_in_sync (fst u)" using u(3) assms(5) by (simp add: sync_view_def)
  obtain c w where cw: "u = (c, w)" by (cases u)
  have "marks t = marks u" "c_directory (fst t) = c_directory (fst u)"
    by (auto simp: u(1) cw check_sync_def marks_pair)
  then have "(\<forall>a\<in>snd ` set (c_directory (fst t)). stream_closed t a) =
      (\<forall>a\<in>dir_streams u. stream_closed u a)"
    by (simp add: dir_streams_def stream_closed_marks)
  with check_sync_iff [OF u(2) ns] u(1) show ?thesis by simp
qed

theorem in_sync_iff_all_closed_witness:
  "\<exists>s0 s t e. clean_started granting_api s0 \<and> (clean_step granting_api)\<^sup>*\<^sup>* s0 s \<and>
     processEvent granting_api (MarketDataItemEvent e) s = Some t \<and>
     length (c_directory (fst t)) = 2 \<and> c_in_sync (fst t) \<and>
     (\<forall>a\<in>snd ` set (c_directory (fst t)). stream_closed t a)"
proof -
  let ?e = "example_event 1 Status True"
  have "holds_after (\<lambda>s. \<not> c_in_sync (fst s) \<and> clean_event s (MarketDataItemEvent ?e) \<and>
      (case processEvent granting_api (MarketDataItemEvent ?e) s of None \<Rightarrow> False
       | Some t \<Rightarrow> c_in_sync (fst t) \<and> length (c_directory (fst t)) = 2)) (example_start ''ssled'' False)
      (clean_run granting_api (two_streams @ images [0]))" by code_simp
  then obtain s0 s where st: "example_start ''ssled'' False = Some (Inr True, s0)"
    "clean_run granting_api (two_streams @ images [0]) s0 = Some s" and
    x: "\<not> c_in_sync (fst s)" "clean_event s (MarketDataItemEvent ?e)"
      "case processEvent granting_api (MarketDataItemEvent ?e) s of None \<Rightarrow> False
       | Some t \<Rightarrow> c_in_sync (fst t) \<and> length (c_directory (fst t)) = 2"
    by (elim holds_afterE) simp
  from x(3) obtain t where t: "processEvent granting_api (MarketDataItemEvent ?e) s = Some t"
    "c_in_sync (fst t)" "length (c_directory (fst t)) = 2" by (auto split: option.splits)
  note run = example_started(2) [OF st(1)] clean_run_steps [OF st(2)]
  from in_sync_iff_all_closed [OF run x(2) t(1) x(1)] run t show ?thesis by blast
qed

section \<open>Outside the clean condition\<close>

text \<open>A first image delivered together with the close of its stream counts the stream twice
  (the counter grows by two), so the counter no longer is the number of finished streams.\<close>

theorem closing_image_counts_twice:
  assumes "processEvent api (MarketDataItemEvent e) (c, w) = Some t"
    and "md_type e = Image" and "md_stream_closed e"
    and "md_closure e = Some a" and "w_heap w a = Some st"
    and "\<not> is_closed st" and "refresh_received st = 0"
  shows "c_refresh_count (fst t) = c_refresh_count c + 2"
proof -
  let ?d = "bump MARKET_DATA_ITEM_EVENTS_RECEIVED (bump RFA_EVENTS_RECEIVED c)"
  from assms(1) have "OnMarketDataItemEvent api e (bump RFA_EVENTS_RECEIVED c, w) = Some t"
    by (simp add: processEvent_def Let_def)
  then obtain b st' more s u where
    b: "md_closure e = Some b" "w_heap w b = Some st'" and
    sw': "md_switch (md_type e) b (closed_first e b st' (?d, w)) = Some (more, s)" and
    u: "if \<not> more then u = s
     else if md_format e \<noteq> FormatMarketfeed
       then \<exists>st. w_heap (snd s) b = Some st \<and> unregister_stream st s = Some u
     else u = archive_event api e s" and t: "t = check_sync u"
    by (rule OnMarketDataItemEvent_cases)
  have "b = a" "st' = st" using b assms(4,5) by simp_all
  with sw' assms(2,3) have sw: "md_switch Image a (close_stream a st (?d, w)) = Some (more, s)"
    by (simp add: closed_first_def)
  have "c_refresh_count (fst s) = c_refresh_count c + 1 + 1"
    using sw assms(6,7)
    by (auto simp: close_stream_def md_switch_def on_image_def unregister_stream_def Let_def
        split: if_splits option.splits bool.splits)
  moreover have "c_refresh_count (fst u) = c_refresh_count (fst s)"
    using u by (auto simp: archive_event_view split: if_splits dest: unregister_stream_view)
  moreover have "c_refresh_count (fst t) = c_refresh_count (fst u)"
    by (cases u) (simp add: t check_sync_def)
  ultimately show ?thesis by (simp add: algebra_simps)
qed

text \<open>One instrument whose only image closes the stream: the session never synchronises.\<close>

theorem closing_image_counts_twice_witness:
  "\<exists>s c w t. started granting_api s \<and> (consumer_step granting_api)\<^sup>*\<^sup>* s (c, w) \<and>
     length (c_directory c) = 1 \<and> c_refresh_count c = 0 \<and>
     processEvent granting_api (MarketDataItemEvent (example_event 0 Image True)) (c, w) = Some t \<and>
     c_refresh_count (fst t) = 2 \<and> (\<forall>a\<in>snd ` set (c_directory (fst t)). stream_closed t a) \<and>
     \<not> c_in_sync (fst t)"
proof -
  let ?e = "example_event 0 Image True" and ?one = "[Alloc 0, Create ''IBM.N'' 0, Resub]"
  have "holds_after (\<lambda>s. length (c_directory (fst s)) = 1 \<and> c_refresh_count (fst s) = 0 \<and>
      (case w_heap (snd s) 0 of None \<Rightarrow> False | Some st \<Rightarrow> \<not> is_closed st \<and> refresh_received st = 0) \<and>
      (case processEvent granting_api (MarketDataItemEvent ?e) s of None \<Rightarrow> False
       | Some t \<Rightarrow> \<not> c_in_sync (fst t) \<and> (\<forall>a\<in>snd ` set (c_directory (fst t)). stream_closed t a)))
      (example_start ''ssled'' False) (consumer_run granting_api ?one)" by code_simp
  then obtain s u where st: "example_start ''ssled'' False = Some (Inr True, s)"
    "consumer_run granting_api ?one s = Some u" and
    x: "length (c_directory (fst u)) = 1" "c_refresh_count (fst u) = 0"
      "case w_heap (snd u) 0 of None \<Rightarrow> False | Some st \<Rightarrow> \<not> is_closed st \<and> refresh_received st = 0"
      "case processEvent granting_api (MarketDataItemEvent ?e) u of None \<Rightarrow> False
       | Some t \<Rightarrow> \<not> c_in_sync (fst t) \<and> (\<forall>a\<in>snd ` set (c_directory (fst t)). stream_closed t a)"
    by (elim holds_afterE) simp
  obtain c w where u: "u = (c, w)" by (cases u)
  from x(3) obtain st' where s': "w_heap w 0 = Some st'" "\<not> is_closed st'" "refresh_received st' = 0"
    by (auto simp: u split: option.splits)
  from x(4) obtain t where t: "processEvent granting_api (MarketDataItemEvent ?e) (c, w) = Some t"
    "\<not> c_in_sync (fst t)" "\<forall>a\<in>snd ` set (c_directory (fst t)). stream_closed t a"
    by (auto simp: u split: option.splits)
  have "c_refresh_count (fst t) = c_refresh_count c + 2"
    by (rule closing_image_counts_twice [OF t(1) _ _ _ s']) (simp_all add: example_event_def)
  with x(1,2) have "length (c_directory c) = 1" "c_refresh_count c = 0" "c_refresh_count (fst t) = 2"
    by (simp_all add: u)
  moreover have "(consumer_step granting_api)\<^sup>*\<^sup>* s (c, w)"
    using consumer_run_steps [OF st(2)] by (simp add: u)
  ultimately show ?thesis using example_started(1) [OF st(1)] t by blast
qed

text \<open>A run without market data item events (an RSSL session receives only OMM events) never
  reports synchronisation: the refresh counter stays zero and the callback never runs, however
  many refreshes arrive.\<close>

theorem omm_never_synchronises:
  assumes "started api s" and "consumer_run api ks s = Some t"
    and "list_all (\<lambda>k. \<forall>e. k \<noteq> Event (MarketDataItemEvent e)) ks"
  shows "c_refresh_count (fst t) = 0 \<and> \<not> c_in_sync (fst t) \<and> w_sync_calls (snd t) = 0"
proof -
  let ?P = "\<lambda>s. c_refresh_count (fst s) = 0 \<and> \<not> c_in_sync (fst s) \<and> w_sync_calls (snd s) = 0"
  obtain cfg cs u r i n w where w: "w_sync_calls w = 0" and
    init: "consumer_Init api u r i n (new_consumer cfg cs (w_now w), w) = Some (Inr True, s)"
    using assms(1) by (auto simp: started_def)
  have start: "?P s" using Init_frame [OF init] w by (simp add: init_frame_def new_consumer_def)
  have act: "?P v" if act: "consumer_act api k u = Some v" and P: "?P u"
    and k: "\<forall>e. k \<noteq> Event (MarketDataItemEvent e)" for k u v
  proof (cases k)
    case (Tick n)
    with act P show ?thesis by (cases u) (auto split: if_splits)
  next
    case (Alloc a)
    with act P show ?thesis by (cases u) (auto split: if_splits)
  next
    case (Create name a)
    with act obtain r where "CreateItemStream api name a u = Some (r, v)" by auto
    then have "core v = core u" using CreateItemStream_frame by blast
    with P show ?thesis by (cases u; cases v) (simp add: core_def)
  next
    case Resub
    with act obtain r where "Resubscribe api u = Some (r, v)" by auto
    from quiet_request [OF Resubscribe_frame [OF this]] P show ?thesis by (simp add: quiet_frame_def)
  next
    case (Event ev)
    with act k have "processEvent api ev u = Some v" "\<And>e. ev \<noteq> MarketDataItemEvent e" by auto
    from processEvent_quiet [OF this] P show ?thesis by (simp add: quiet_frame_def)
  qed
  have "consumer_run api ks s = Some t \<Longrightarrow> ?P s \<Longrightarrow> ?P t" for s
    using assms(3)
  proof (induction ks arbitrary: s)
    case (Cons k ks)
    from Cons.prems(1) obtain v where v: "consumer_act api k s = Some v" "consumer_run api ks v = Some t"
      by (auto simp: bind_Some_iff)
    from act [OF v(1) Cons.prems(2)] Cons.prems(3) Cons.IH [OF v(2)] show ?case by simp
  qed simp
  with assms(2) start show ?thesis by blast
qed

theorem omm_never_synchronises_witness:
  "\<exists>s t. started granting_api s \<and> (consumer_step granting_api)\<^sup>*\<^sup>* s t \<and>
     (case w_heap (snd t) 0 of Some st \<Rightarrow> refresh_received st = 1 | None \<Rightarrow> False) \<and>
     length (c_directory (fst t)) = 1 \<and> w_sync_calls (snd t) = 0"
proof -
  let ?m = "\<lparr>rm_model = MMT_MARKET_PRICE, rm_resp_type = RefreshEnum, rm_stream_state = OpenEnum,
      rm_data_state = OkEnum\<rparr>"
  let ?ks = "[Alloc 0, Create ''IBM.N'' 0, Resub, Event (OMMItemEvent (RespMsg ?m) (Some 0))]"
  have "holds_after (\<lambda>t. (case w_heap (snd t) 0 of Some st \<Rightarrow> refresh_received st = 1 | None \<Rightarrow> False) \<and>
      length (c_directory (fst t)) = 1) (example_start ''rssl'' False) (consumer_run granting_api ?ks)"
    by code_simp
  then obtain s t where st: "example_start ''rssl'' False = Some (Inr True, s)"
    "consumer_run granting_api ?ks s = Some t"
    "case w_heap (snd t) 0 of Some st \<Rightarrow> refresh_received st = 1 | None \<Rightarrow> False"
    "length (c_directory (fst t)) = 1"
    by (elim holds_afterE) simp
  have "w_sync_calls (snd t) = 0"
    using omm_never_synchronises [OF example_started(1) [OF st(1)] st(2)] by simp
  with example_started(1) [OF st(1)] consumer_run_steps [OF st(2)] st(3,4) show ?thesis by blast
qed

end
