(* ===== verification/Consumer_Requests.thy ===== *)
theory Consumer_Requests
  imports Consumer_Run "HOL-Library.Multiset"
begin

text \<open>
  What the consumer sends and stores: which market data events are archived and as what, the
  requests of Resubscribe (proved once for an interface that both SendItemRequest and
  AddSubscription implement), CreateItemStream with and without the login, the effect of the
  login events on the muted flag, and the failure paths of Init.
\<close>

section \<open>The archive\<close>

text \<open>Which market data item events are archived, given the state the event finds.\<close>

definition first_image :: "world \<Rightarrow> md_item_event \<Rightarrow> bool" where
  "first_image w e =
     (case Option.bind (md_closure e) (w_heap w) of
        None \<Rightarrow> False
      | Some st \<Rightarrow> refresh_received st = 0)"

definition archivable :: "consumer_t \<Rightarrow> world \<Rightarrow> md_item_event \<Rightarrow> bool" where
  "archivable c w e =
     (c_coded_stream c \<and> md_format e = FormatMarketfeed \<and>
      (case md_type e of
         Image \<Rightarrow> \<not> (c_disable_refresh c \<and> first_image w e)
       | Update \<Rightarrow> \<not> c_disable_update c
       | Correction \<Rightarrow> True
       | Rename \<Rightarrow> True
       | OtherMsgType _ \<Rightarrow> True
       | _ \<Rightarrow> False))"

lemma record_initialised [simp]: "IsInitialized (record_of_event api now e)"
  by (simp add: record_of_event_def IsInitialized_def Let_def)

lemma on_image_more:
  assumes "on_image a (c, w) = Some (goes, s)" and "w_heap w a = Some st"
  shows "goes = (\<not> (c_disable_refresh c \<and> refresh_received st = 0)) \<and> w_archive (snd s) = w_archive w"
  using assms by (auto simp: on_image_def unregister_stream_def Let_def
      split: if_splits option.splits bool.splits)

lemma md_switch_more:
  assumes sw: "md_switch ty a (c, w) = Some (goes, s)" and st: "w_heap w a = Some st"
  shows "goes = (case ty of
            Image \<Rightarrow> \<not> (c_disable_refresh c \<and> refresh_received st = 0)
          | Update \<Rightarrow> \<not> c_disable_update c
          | Correction \<Rightarrow> True
          | Rename \<Rightarrow> True
          | OtherMsgType _ \<Rightarrow> True
          | _ \<Rightarrow> False) \<and> w_archive (snd s) = w_archive w"
  using sw st by (cases ty) (auto simp: md_switch_def dest: on_image_more)

lemma md_event_archive:
  assumes "processEvent api (MarketDataItemEvent e) (c, w) = Some t"
  shows "w_archive (snd t) =
           w_archive w @ (if archivable c w e then [record_of_event api (w_now w) e] else [])"
proof -
  let ?d = "bump MARKET_DATA_ITEM_EVENTS_RECEIVED (bump RFA_EVENTS_RECEIVED c)"
  from assms have "OnMarketDataItemEvent api e (bump RFA_EVENTS_RECEIVED c, w) = Some t"
    by (simp add: processEvent_def Let_def)
  then obtain a st goes s u where
    a: "md_closure e = Some a" "w_heap w a = Some st" and
    sw: "md_switch (md_type e) a (closed_first e a st (?d, w)) = Some (goes, s)" and
    u: "if \<not> goes then u = s
     else if md_format e \<noteq> FormatMarketfeed
       then \<exists>st. w_heap (snd s) a = Some st \<and> unregister_stream st s = Some u
     else u = archive_event api e s" and t: "t = check_sync u"
    by (rule OnMarketDataItemEvent_cases)
  obtain c1 w1 where s1: "closed_first e a st (?d, w) = (c1, w1)" by (cases "closed_first e a st (?d, w)")
  then obtain st1 where st1: "w_heap w1 a = Some st1" "refresh_received st1 = refresh_received st"
    "w_archive w1 = w_archive w"
    using a(2) by (auto simp: closed_first_def close_stream_def split: if_splits)
  have fr: "md_frame (?d, w) (c1, w1)"
    using close_stream_frame [of "(?d, w)"] by (simp add: s1 [symmetric] closed_first_def)
  from md_switch_more [OF sw [unfolded s1] st1(1), unfolded st1(2,3)] have
    goes: "goes = (case md_type e of
            Image \<Rightarrow> \<not> (c_disable_refresh c1 \<and> refresh_received st = 0)
          | Update \<Rightarrow> \<not> c_disable_update c1
          | Correction \<Rightarrow> True
          | Rename \<Rightarrow> True
          | OtherMsgType _ \<Rightarrow> True
          | _ \<Rightarrow> False)" and ar: "w_archive (snd s) = w_archive w" by blast+
  have fl: "c_disable_refresh c1 = c_disable_refresh c" "c_disable_update c1 = c_disable_update c"
    using fr by (simp_all add: md_frame_def)
  have fr2: "md_frame (?d, w) s" using fr md_switch_frame [OF sw [unfolded s1]] by (rule md_frame_trans)
  have cs: "c_coded_stream (fst s) = c_coded_stream c" "w_now (snd s) = w_now w"
    using fr2 by (simp_all add: md_frame_def)
  have fi: "first_image w e = (refresh_received st = 0)" by (simp add: first_image_def a)
  have ca: "archivable c w e = (c_coded_stream c \<and> md_format e = FormatMarketfeed \<and> goes)"
    unfolding archivable_def goes fi fl ..
  have "w_archive (snd u) = w_archive w @ (if archivable c w e then [record_of_event api (w_now w) e] else [])"
  proof (cases "goes \<and> md_format e = FormatMarketfeed")
    case True
    with u have "u = archive_event api e s" by simp
    with True ar cs show ?thesis by (cases s) (simp add: ca archive_event_def Let_def)
  next
    case False
    with u ar have "w_archive (snd u) = w_archive w"
      by (auto split: if_splits dest: unregister_stream_view)
    with False show ?thesis by (auto simp: ca)
  qed
  moreover have "w_archive (snd t) = w_archive (snd u)" by (cases u) (simp add: t check_sync_def)
  ultimately show ?thesis by simp
qed

text \<open>The record of an event: the time of the clock and what the event says, member by member.\<close>

definition complete_record :: "rfa_api \<Rightarrow> int \<Rightarrow> md_item_event \<Rightarrow> Marketfeed \<Rightarrow> bool" where
  "complete_record api now e m =
     (tv_sec m = Some (word_of_int (now div 1000000)) \<and> tv_usec m = Some (word_of_int (now mod 1000000)) \<and>
      message_type m = Some (of_nat (api_msg_type api (md_type e))) \<and>
      mf_service_name m = Some (md_service_name e) \<and> item_name m = Some (md_item_name e) \<and>
      new_item_name m = (if md_new_item_name e = [] then None else Some (md_new_item_name e)) \<and>
      packed_buffer m = (if md_buffer e = [] then None else Some (md_buffer e)))"

lemma record_complete: "complete_record api now e (record_of_event api now e)"
  by (simp add: complete_record_def record_of_event_def Let_def Marketfeed_Clear_def)

text \<open>C2: What a market data item event adds to the archive: nothing, or one record with the time,
  the service, the item, the message type and the payload of the event. Without --disable-update
  and --disable-refresh it is added exactly when there is an archive, the format is Marketfeed and
  the event is an image, an update, a correction, a rename or of an unknown type. With
  --disable-update no update is added, and with --disable-refresh no first image of a stream.\<close>

theorem market_data_archive:
  assumes "processEvent api (MarketDataItemEvent e) (c, w) = Some t"
  shows "\<exists>ms. w_archive (snd t) = w_archive w @ ms \<and> length ms \<le> 1 \<and>
     (\<forall>m\<in>set ms. complete_record api (w_now w) e m) \<and>
     (\<not> c_disable_update c \<and> \<not> c_disable_refresh c \<longrightarrow>
        (ms \<noteq> [] \<longleftrightarrow> c_coded_stream c \<and> md_format e = FormatMarketfeed \<and>
           md_type e \<notin> {UnsolicitedImage, Status, ClosingRun, PermissionData, GroupChange})) \<and>
     (c_disable_update c \<and> md_type e = Update \<longrightarrow> ms = []) \<and>
     (c_disable_refresh c \<and> md_type e = Image \<and> first_image w e \<longrightarrow> ms = [])"
proof -
  let ?ms = "if archivable c w e then [record_of_event api (w_now w) e] else []"
  have "(?ms \<noteq> []) = archivable c w e" by simp
  moreover have "\<not> c_disable_update c \<and> \<not> c_disable_refresh c \<longrightarrow>
      (archivable c w e \<longleftrightarrow> c_coded_stream c \<and> md_format e = FormatMarketfeed \<and>
         md_type e \<notin> {UnsolicitedImage, Status, ClosingRun, PermissionData, GroupChange})"
    by (cases "md_type e") (simp_all add: archivable_def)
  moreover have "c_disable_update c \<and> md_type e = Update \<longrightarrow> \<not> archivable c w e"
    "c_disable_refresh c \<and> md_type e = Image \<and> first_image w e \<longrightarrow> \<not> archivable c w e"
    by (auto simp: archivable_def)
  ultimately show ?thesis
    using md_event_archive [OF assms] record_complete by (intro exI [of _ ?ms]) (simp only:, simp)
qed

theorem market_data_archive_witness:
  "\<exists>s1 s2 m. processEvent granting_api (MarketDataItemEvent (example_event 0 Image False)) s1 = Some s2 \<and>
     w_archive (snd s1) = [] \<and> w_archive (snd s2) = [m] \<and> item_name m = Some ''IBM.N''"
proof -
  let ?e = "example_event 0 Image False" and ?one = "[Alloc 0, Create ''IBM.N'' 0, Resub]"
  have "holds_after (\<lambda>s1. \<not> c_disable_refresh (fst s1) \<and> \<not> c_disable_update (fst s1) \<and> c_coded_stream (fst s1) \<and>
      w_archive (snd s1) = [] \<and> \<not> Option.is_none (processEvent granting_api (MarketDataItemEvent ?e) s1))
      (example_start ''ssled'' False) (consumer_run granting_api ?one)" by code_simp
  then obtain s s1 where
    x: "\<not> c_disable_refresh (fst s1)" "\<not> c_disable_update (fst s1)" "c_coded_stream (fst s1)" "w_archive (snd s1) = []"
      "\<not> Option.is_none (processEvent granting_api (MarketDataItemEvent ?e) s1)"
    by (elim holds_afterE conjE) (rule that, assumption+)
  from x(5) obtain s2 where p: "processEvent granting_api (MarketDataItemEvent ?e) s1 = Some s2"
    by (auto simp: Option.is_none_def)
  obtain c1 w1 where s: "s1 = (c1, w1)" by (cases s1)
  from market_data_archive [OF p [unfolded s]] x obtain ms where
    ms: "w_archive (snd s2) = ms" "length ms \<le> 1" "ms \<noteq> []" "\<forall>m\<in>set ms. complete_record granting_api (w_now w1) ?e m"
    by (auto simp: s example_event_def)
  then obtain m where m: "ms = [m]" by (cases ms) auto
  have "complete_record granting_api (w_now w1) ?e m" using ms(4) m by simp
  then have "item_name m = Some ''IBM.N''" by (simp add: complete_record_def example_event_def)
  with ms(1) m p x(4) show ?thesis
    by (intro exI [of _ s1] exI [of _ s2] exI [of _ m]) simp
qed

text \<open>The switches leave the rest of the events in the archive: later images, which
  --disable-refresh is documented to drop, corrections and renames, which both switches are
  documented to drop.\<close>

theorem switches_keep_other_events:
  assumes "processEvent api (MarketDataItemEvent e) (c, w) = Some t"
    and "c_coded_stream c" and "md_format e = FormatMarketfeed"
    and "md_type e = Image \<and> \<not> first_image w e \<or> md_type e = Correction \<or> md_type e = Rename"
  shows "w_archive (snd t) = w_archive w @ [record_of_event api (w_now w) e]"
proof -
  have "archivable c w e" using assms(2-4) by (auto simp: archivable_def)
  with md_event_archive [OF assms(1)] show ?thesis by simp
qed

theorem switches_keep_other_events_witness:
  "\<exists>s1 s2. c_disable_refresh (fst s1) \<and>
     processEvent granting_api (MarketDataItemEvent (example_event 0 Image False)) s1 = Some s2 \<and>
     length (w_archive (snd s2)) = Suc (length (w_archive (snd s1)))"
proof -
  let ?e = "example_event 0 Image False"
  let ?two = "[Alloc 0, Create ''IBM.N'' 0, Resub, Event (MarketDataItemEvent ?e)]"
  have "holds_after (\<lambda>s1. c_disable_refresh (fst s1) \<and> c_coded_stream (fst s1) \<and> \<not> first_image (snd s1) ?e \<and>
      \<not> Option.is_none (processEvent granting_api (MarketDataItemEvent ?e) s1))
      (example_start ''ssled'' True) (consumer_run granting_api ?two)" by code_simp
  then obtain s s1 where
    x: "c_disable_refresh (fst s1)" "c_coded_stream (fst s1)" "\<not> first_image (snd s1) ?e"
      "\<not> Option.is_none (processEvent granting_api (MarketDataItemEvent ?e) s1)"
    by (elim holds_afterE conjE) (rule that, assumption+)
  from x(4) obtain s2 where p: "processEvent granting_api (MarketDataItemEvent ?e) s1 = Some s2"
    by (auto simp: Option.is_none_def)
  obtain c1 w1 where s: "s1 = (c1, w1)" by (cases s1)
  from switches_keep_other_events [OF p [unfolded s]] x have
    "w_archive (snd s2) = w_archive w1 @ [record_of_event granting_api (w_now w1) ?e]"
    by (simp add: s example_event_def)
  with p x(1) show ?thesis by (intro exI [of _ s1] exI [of _ s2]) (simp add: s)
qed

section \<open>Requests for the streams without a handle\<close>

text \<open>
  The interface behind the loop of Resubscribe: sending the request of one stream makes one
  call and stores the handle it returns, and leaves the sender ready.
\<close>

definition sent :: "reply \<Rightarrow> rfa_call \<Rightarrow> nat \<Rightarrow> item_stream_t \<Rightarrow> world \<Rightarrow> world" where
  "sent rp k a st w =
     (let w = w\<lparr>w_calls := w_calls w @ [k]\<rparr> in
      case rp of
        Raises e \<Rightarrow> w
      | NullHandle \<Rightarrow> set_stream a (st\<lparr>item_handle := None\<rparr>) w
      | Handle h \<Rightarrow> set_stream a (st\<lparr>item_handle := Some h\<rparr>) w)"

definition outcome :: "reply \<Rightarrow> exn + bool" where
  "outcome rp = (case rp of Raises e \<Rightarrow> Inl e | NullHandle \<Rightarrow> Inr False | Handle h \<Rightarrow> Inr True)"

locale item_requester =
  fixes api :: rfa_api
    and send :: "nat \<Rightarrow> cstate \<Rightarrow> ((exn + bool) \<times> cstate) option"
    and request :: "nat \<Rightarrow> item_stream_t \<Rightarrow> rfa_call"
    and ready :: "consumer_t \<Rightarrow> bool"
  assumes send_one: "ready c \<Longrightarrow> w_heap w a = Some st \<Longrightarrow>
    \<exists>c'. ready c' \<and> send a (c, w) =
      Some (outcome (api_reply api (length (w_calls w))),
            c', sent (api_reply api (length (w_calls w))) (request a st) a st w)"
    and request_name: "request a (st\<lparr>item_handle := h\<rparr>) = request a st"
begin

definition pending :: "world \<Rightarrow> string \<times> nat \<Rightarrow> bool" where
  "pending w ka = (case w_heap w (snd ka) of None \<Rightarrow> False | Some st \<Rightarrow> item_handle st = None)"

definition request_of :: "world \<Rightarrow> string \<times> nat \<Rightarrow> rfa_call list" where
  "request_of w ka =
     (case w_heap w (snd ka) of
        None \<Rightarrow> []
      | Some st \<Rightarrow> if item_handle st = None then [request (snd ka) st] else [])"

lemma loop_requests:
  assumes quiet: "\<And>n e. api_reply api n \<noteq> Raises e"
    and ready: "ready c" and dist: "distinct (map snd d)"
  shows "\<exists>c' w'. resubscribe_loop send d (c, w) = Some (Inr (), c', w') \<and> ready c' \<and>
           w_calls w' = w_calls w @ concat (map (request_of w) d) \<and>
           (\<forall>a. a \<notin> snd ` set d \<longrightarrow> w_heap w' a = w_heap w a) \<and>
           ((\<forall>n. api_reply api n \<noteq> NullHandle) \<longrightarrow> (\<forall>ka\<in>set d. \<not> pending w' ka))"
  using ready dist
proof (induction d arbitrary: c w)
  case Nil
  then show ?case by auto
next
  case (Cons ka d)
  obtain key a where ka: "ka = (key, a)" by (cases ka)
  have dist: "a \<notin> snd ` set d" "distinct (map snd d)" using Cons.prems(2) by (auto simp: ka)
  show ?case
  proof (cases "\<exists>st. w_heap w a = Some st \<and> item_handle st = None")
    case False
    then have skip: "resubscribe_loop send (ka # d) (c, w) = resubscribe_loop send d (c, w)"
      by (auto simp: ka split: option.split)
    have none: "request_of w ka = []" "\<not> pending w ka"
      using False by (auto simp: request_of_def pending_def ka split: option.split)
    from Cons.IH [OF Cons.prems(1) dist(2), of w] obtain c' w' where
      ih: "resubscribe_loop send d (c, w) = Some (Inr (), c', w')" "ready c'"
      "w_calls w' = w_calls w @ concat (map (request_of w) d)"
      "\<forall>a. a \<notin> snd ` set d \<longrightarrow> w_heap w' a = w_heap w a"
      "(\<forall>n. api_reply api n \<noteq> NullHandle) \<longrightarrow> (\<forall>ka\<in>set d. \<not> pending w' ka)" by blast
    have "\<not> pending w' ka" using ih(4) dist(1) none(2) by (simp add: pending_def ka)
    with ih skip none(1) show ?thesis by auto
  next
    case True
    then obtain st where st: "w_heap w a = Some st" "item_handle st = None" by blast
    let ?rp = "api_reply api (length (w_calls w))"
    let ?w1 = "sent ?rp (request a st) a st w"
    from send_one [OF Cons.prems(1) st(1)] obtain c1 where
      c1: "ready c1" "send a (c, w) = Some (outcome ?rp, c1, ?w1)" by blast
    obtain b where b: "outcome ?rp = Inr b"
      using quiet by (cases ?rp) (auto simp: outcome_def)
    have step: "resubscribe_loop send (ka # d) (c, w) = resubscribe_loop send d (c1, ?w1)"
      using st c1(2) b by (simp add: ka)
    have heap1: "w_heap ?w1 x = w_heap w x" if "x \<noteq> a" for x
      using that by (auto simp: sent_def Let_def split: reply.split)
    have calls1: "w_calls ?w1 = w_calls w @ [request a st]"
      by (auto simp: sent_def Let_def split: reply.split)
    have "concat (map (request_of ?w1) d) = concat (map (request_of w) d)"
    proof (intro arg_cong [where f = concat] map_cong refl)
      fix x assume "x \<in> set d"
      then have "snd x \<noteq> a" using dist(1) by auto
      then show "request_of ?w1 x = request_of w x" by (simp add: request_of_def heap1)
    qed
    moreover have "request_of w ka = [request a st]" using st by (simp add: request_of_def ka)
    moreover from Cons.IH [OF c1(1) dist(2), of ?w1] obtain c' w' where
      ih: "resubscribe_loop send d (c1, ?w1) = Some (Inr (), c', w')" "ready c'"
      "w_calls w' = w_calls ?w1 @ concat (map (request_of ?w1) d)"
      "\<forall>a. a \<notin> snd ` set d \<longrightarrow> w_heap w' a = w_heap ?w1 a"
      "(\<forall>n. api_reply api n \<noteq> NullHandle) \<longrightarrow> (\<forall>ka\<in>set d. \<not> pending w' ka)" by blast
    moreover have "\<not> pending w' ka" if granted: "\<forall>n. api_reply api n \<noteq> NullHandle"
    proof -
      obtain h where "?rp = Handle h" using granted quiet by (cases ?rp) auto
      then have "w_heap ?w1 a = Some (st\<lparr>item_handle := Some h\<rparr>)"
        by (simp add: sent_def Let_def)
      then show ?thesis using ih(4) dist(1) by (simp add: pending_def ka)
    qed
    ultimately show ?thesis using step calls1 heap1 dist(1) by (auto simp: ka)
  qed
qed

lemma loop_idle:
  assumes "\<forall>ka\<in>set d. \<not> pending w ka"
  shows "resubscribe_loop send d (c, w) = Some (Inr (), c, w)"
  using assms
proof (induction d)
  case (Cons ka d)
  then show ?case by (cases ka) (auto simp: pending_def split: option.splits)
qed simp

end

lemma SendItemRequest_one:
  assumes "c_omm_consumer c" and st: "w_heap w a = Some st"
  shows "\<exists>c'. c_omm_consumer c' \<and> SendItemRequest api a (c, w) =
      Some (outcome (api_reply api (length (w_calls w))), c',
        sent (api_reply api (length (w_calls w)))
          (RegisterItem (rfa_item_name st) (rfa_service_name st) a) a st w)"
proof -
  define c1 where "c1 = (if api_dcheck_is_on api
      then count_validation (api_validate api (length (w_calls w)))
             MMT_MARKET_PRICE_REQUEST_VALIDATED MMT_MARKET_PRICE_REQUEST_MALFORMED
             MMT_MARKET_PRICE_REQUEST_EXCEPTION c else c)"
  have c1: "c_omm_consumer c1"
    using assms(1) by (auto simp: c1_def count_validation_def split: validation.split exn.split)
  then have "SendItemRequest api a (c, w) = Some (outcome (api_reply api (length (w_calls w))),
      case api_reply api (length (w_calls w)) of Raises e \<Rightarrow> c1 | _ \<Rightarrow> bump MMT_MARKET_PRICE_REQUEST_SENT c1,
      sent (api_reply api (length (w_calls w)))
          (RegisterItem (rfa_item_name st) (rfa_service_name st) a) a st w)"
    by (simp add: SendItemRequest_def st c1_def [symmetric] Let_def do_call_def sent_def outcome_def
        split: reply.split)
  moreover have "c_omm_consumer (case api_reply api (length (w_calls w)) of
      Raises e \<Rightarrow> c1 | _ \<Rightarrow> bump MMT_MARKET_PRICE_REQUEST_SENT c1)"
    using c1 by (simp split: reply.split)
  ultimately show ?thesis by blast
qed

interpretation omm_requests: item_requester api "SendItemRequest api"
  "\<lambda>a st. RegisterItem (rfa_item_name st) (rfa_service_name st) a" c_omm_consumer for api
  by unfold_locales (auto intro: SendItemRequest_one)

interpretation md_requests: item_requester api "AddSubscription api"
  "\<lambda>a st. Subscribe (rfa_service_name st) (rfa_item_name st) a" c_market_data_subscriber for api
  by unfold_locales
    (auto simp: AddSubscription_def do_call_def sent_def outcome_def Let_def split: reply.split)

text \<open>The market data subscriptions Resubscribe owes.\<close>

definition owed_subscriptions :: "rfa_api \<Rightarrow> cstate \<Rightarrow> rfa_call list" where
  "owed_subscriptions api s =
     concat (map (\<lambda>ka.
       case w_heap (snd s) (snd ka) of
         None \<Rightarrow> []
       | Some st \<Rightarrow>
           if item_handle st = None
           then [Subscribe (rfa_service_name st) (rfa_item_name st) (snd ka)] else [])
       (api_iter_order api (c_directory (fst s))))"

lemma owed_subscriptions_eq:
  "owed_subscriptions api (c, w) =
     concat (map (md_requests.request_of w) (api_iter_order api (c_directory c)))"
  by (simp add: owed_subscriptions_def md_requests.request_of_def [abs_def])

text \<open>C12: On a market data session, when the library raises nothing, Resubscribe subscribes exactly
  the streams of the directory that have no handle, each once, in the order of the map, and
  nothing else; when every subscription is granted, doing it again makes no call and changes
  nothing.\<close>

theorem Resubscribe_subscribes_once:
  assumes ss: "LowerCaseEqualsASCII (protocol (c_config c)) ''ssled''"
    and sub: "c_market_data_subscriber c"
    and quiet: "\<And>n e. api_reply api n \<noteq> Raises e"
    and order: "\<And>d. mset (api_iter_order api d) = mset d"
    and dist: "distinct (map snd (c_directory c))"
  shows "\<exists>c' w'. Resubscribe api (c, w) = Some (Inr True, c', w') \<and>
           w_calls w' = w_calls w @ owed_subscriptions api (c, w) \<and>
           ((\<forall>n. api_reply api n \<noteq> NullHandle) \<longrightarrow>
             Resubscribe api (c', w') = Some (Inr True, c', w'))"
proof -
  let ?d = "api_iter_order api (c_directory c)"
  have d: "distinct (map snd ?d)"
    using order [of "c_directory c"] dist by (metis mset_map mset_eq_imp_distinct_iff)
  have ns: "\<not> LowerCaseEqualsASCII (protocol (c_config c)) ''rssl''"
    using ss by (simp add: LowerCaseEqualsASCII_iff)
  from md_requests.loop_requests [OF quiet sub d, of w] obtain c' w' where
    loop: "resubscribe_loop (AddSubscription api) ?d (c, w) = Some (Inr (), c', w')"
    and sub': "c_market_data_subscriber c'"
    and calls: "w_calls w' = w_calls w @ concat (map (md_requests.request_of w) ?d)"
    and idle: "(\<forall>n. api_reply api n \<noteq> NullHandle) \<longrightarrow> (\<forall>ka\<in>set ?d. \<not> md_requests.pending w' ka)"
    by blast
  have "request_frame (c, w) (c', w')"
    using resubscribe_loop_frame [of "AddSubscription api", OF AddSubscription_frame loop] .
  then have cfg: "c_config c' = c_config c" "c_directory c' = c_directory c"
    by (simp_all add: request_frame_def core_def)
  have "Resubscribe api (c, w) = Some (Inr True, c', w')"
    using ss ns sub loop by (simp add: Resubscribe_def Let_def)
  moreover have "Resubscribe api (c', w') = Some (Inr True, c', w')"
    if "\<forall>n. api_reply api n \<noteq> NullHandle"
    using md_requests.loop_idle [of ?d w' api c'] idle that ss ns sub' cfg
    by (simp add: Resubscribe_def Let_def)
  ultimately show ?thesis using calls by (auto simp: owed_subscriptions_eq)
qed

theorem Resubscribe_subscribes_once_witness:
  "\<exists>c w c' w'. length (c_directory c) = 2 \<and> Resubscribe granting_api (c, w) = Some (Inr True, c', w') \<and>
     w_calls w' = w_calls w @ [Subscribe ''IDN_RDF'' ''IBM.N'' 0, Subscribe ''IDN_RDF'' ''MSFT.O'' 1] \<and>
     Resubscribe granting_api (c', w') = Some (Inr True, c', w')"
proof -
  let ?ks = "[Alloc 0, Create ''IBM.N'' 0, Alloc 1, Create ''MSFT.O'' 1]"
  have "holds_after (\<lambda>s. LowerCaseEqualsASCII (protocol (c_config (fst s))) ''ssled'' \<and>
      c_market_data_subscriber (fst s) \<and> map snd (c_directory (fst s)) = [0, 1] \<and>
      owed_subscriptions granting_api s =
        [Subscribe ''IDN_RDF'' ''IBM.N'' 0, Subscribe ''IDN_RDF'' ''MSFT.O'' 1])
      (example_start ''ssled'' False) (consumer_run granting_api ?ks)" by code_simp
  then obtain s where x: "LowerCaseEqualsASCII (protocol (c_config (fst s))) ''ssled''"
    "c_market_data_subscriber (fst s)" "map snd (c_directory (fst s)) = [0, 1]"
    "owed_subscriptions granting_api s =
        [Subscribe ''IDN_RDF'' ''IBM.N'' 0, Subscribe ''IDN_RDF'' ''MSFT.O'' 1]"
    by (elim holds_afterE conjE) (rule that, assumption+)
  obtain c w where s: "s = (c, w)" by (cases s)
  have api: "\<And>n e. api_reply granting_api n \<noteq> Raises e"
    "\<And>d. mset (api_iter_order granting_api d) = mset d"
    "\<forall>n. api_reply granting_api n \<noteq> NullHandle" by (simp_all add: granting_api_def)
  have c: "LowerCaseEqualsASCII (protocol (c_config c)) ''ssled''" "c_market_data_subscriber c"
    using x(1,2) unfolding s by simp_all
  have "map snd (c_directory c) = [0, 1]" using x(3) unfolding s by simp
  then have d: "distinct (map snd (c_directory c))" "length (c_directory c) = 2"
    by (metis distinct_length_2_or_more distinct_singleton zero_neq_one,
        metis length_map length_Cons list.size(3) numeral_2_eq_2)
  from Resubscribe_subscribes_once [OF c api(1,2) d(1), of w] obtain c' w' where
    r: "Resubscribe granting_api (c, w) = Some (Inr True, c', w')" and
    calls: "w_calls w' = w_calls w @ owed_subscriptions granting_api (c, w)" and
    again: "(\<forall>n. api_reply granting_api n \<noteq> NullHandle) \<longrightarrow>
        Resubscribe granting_api (c', w') = Some (Inr True, c', w')" by blast
  have "w_calls w' = w_calls w @ [Subscribe ''IDN_RDF'' ''IBM.N'' 0, Subscribe ''IDN_RDF'' ''MSFT.O'' 1]"
    unfolding calls x(4) [unfolded s] ..
  with d(2) r mp [OF again api(3)] show ?thesis by blast
qed

section \<open>Creating item streams\<close>

text \<open>Before the login is granted CreateItemStream sends nothing: it only names the stream
  and enters it in the directory, returning whether the name was new.\<close>

theorem CreateItemStream_muted:
  assumes "c_is_muted c" and "w_heap w a = Some st"
  shows "\<exists>c' w'. CreateItemStream api name a (c, w) =
           Some (Inr (name \<notin> fst ` set (c_directory c)), c', w') \<and>
           w_calls w' = w_calls w \<and>
           w_heap w' = (w_heap w)(a \<mapsto> st\<lparr>rfa_item_name := name, rfa_service_name := service_name (c_config c)\<rparr>) \<and>
           c_directory c' = c_directory c @ (if name \<in> fst ` set (c_directory c) then [] else [(name, a)])"
  using assms by (auto simp: CreateItemStream_def Let_def)

theorem CreateItemStream_muted_witness:
  "\<exists>c w c' w'. CreateItemStream granting_api ''IBM.N'' 0 (c, w) = Some (Inr True, c', w') \<and>
     w_calls w' = w_calls w \<and> c_directory c' = [(''IBM.N'', 0)]"
proof -
  let ?c = "new_consumer (example_session ''ssled'') True 0"
  let ?w = "empty_world\<lparr>w_heap := [0 \<mapsto> new_item_stream 0]\<rparr>"
  have "c_is_muted ?c" "w_heap ?w 0 = Some (new_item_stream 0)" "c_directory ?c = []"
    by (simp_all add: new_consumer_def)
  with CreateItemStream_muted [OF this(1,2), of granting_api "''IBM.N''"] show ?thesis by fastforce
qed

text \<open>Once the consumer is unmuted the request goes out before the directory is asked, so a
  duplicate name leaves the new stream subscribed although CreateItemStream returns false and
  the directory does not know it.\<close>

theorem CreateItemStream_duplicate_subscribes:
  assumes "\<not> c_is_muted c" and "c_omm_consumer c" and "w_heap w a = Some st"
    and "api_reply api (length (w_calls w)) = Handle h"
    and "name \<in> fst ` set (c_directory c)"
  shows "\<exists>c' w'. CreateItemStream api name a (c, w) = Some (Inr False, c', w') \<and>
           c_directory c' = c_directory c \<and>
           w_calls w' = w_calls w @ [RegisterItem name (service_name (c_config c)) a] \<and>
           map_option item_handle (w_heap w' a) = Some (Some h)"
proof -
  let ?st = "st\<lparr>rfa_item_name := name, rfa_service_name := service_name (c_config c)\<rparr>"
  have heap: "w_heap (set_stream a ?st w) a = Some ?st" by simp
  from SendItemRequest_one [OF assms(2) heap, of api] obtain c' where
    c': "SendItemRequest api a (c, set_stream a ?st w) = Some (outcome (Handle h), c',
      sent (Handle h) (RegisterItem name (service_name (c_config c)) a) a ?st (set_stream a ?st w))"
    using assms(4) by auto
  have "c_directory c' = c_directory c"
    using SendItemRequest_frame [OF c'] by (simp add: request_frame_def)
  with c' assms show ?thesis
    by (simp add: CreateItemStream_def Let_def outcome_def sent_def)
qed

theorem CreateItemStream_duplicate_subscribes_witness:
  "\<exists>c w c' w'. CreateItemStream granting_api ''IBM.N'' 1 (c, w) = Some (Inr False, c', w') \<and>
     w_calls w' = [RegisterItem ''IBM.N'' ''IDN_RDF'' 1]"
proof -
  let ?c = "(new_consumer (example_session ''rssl'') True 0)
      \<lparr>c_is_muted := False, c_omm_consumer := True, c_directory := [(''IBM.N'', 0)]\<rparr>"
  let ?w = "empty_world\<lparr>w_heap := [0 \<mapsto> new_item_stream 0, 1 \<mapsto> new_item_stream 0]\<rparr>"
  have "\<exists>c' w'. CreateItemStream granting_api ''IBM.N'' 1 (?c, ?w) = Some (Inr False, c', w') \<and>
      c_directory c' = c_directory ?c \<and>
      w_calls w' = w_calls ?w @ [RegisterItem ''IBM.N'' (service_name (c_config ?c)) 1] \<and>
      map_option item_handle (w_heap w' 1) = Some (Some 0)"
    by (rule CreateItemStream_duplicate_subscribes)
      (simp_all add: granting_api_def empty_world_def)
  moreover have "w_calls ?w = []" "service_name (c_config ?c) = ''IDN_RDF''"
    by (simp_all add: empty_world_def new_consumer_def example_session_def)
  ultimately show ?thesis unfolding append_Nil by (metis append_Nil)
qed

section \<open>The muted flag\<close>

fun login_of :: "event \<Rightarrow> (stream_state \<times> data_state) option" where
  "login_of (OMMItemEvent (RespMsg m) _) =
     (if rm_model m = MMT_LOGIN then Some (rm_stream_state m, rm_data_state m) else None)"
| "login_of _ = None"

lemma OnLoginResponse_muted:
  assumes "OnLoginResponse api m (c, w) = Some t"
  shows "c_is_muted (fst t) =
     (case (rm_stream_state m, rm_data_state m) of
        (ClosedEnum, _) \<Rightarrow> True
      | (OpenEnum, SuspectEnum) \<Rightarrow> True
      | (OpenEnum, OkEnum) \<Rightarrow> c_is_muted (fst t)
      | _ \<Rightarrow> c_is_muted c)"
  using assms
  by (auto simp: OnLoginResponse_def Let_def OnLoginSuspect_def OnLoginClosed_def
      split: stream_state.splits data_state.splits)

text \<open>Only a login response that is open and ok can unmute the consumer, a suspect or closed
  login always mutes it, and every other event leaves the flag as it is.\<close>

theorem only_login_changes_muted:
  assumes "processEvent api ev s = Some t"
  shows "case login_of ev of
           Some (OpenEnum, OkEnum) \<Rightarrow> c_is_muted (fst t) \<longrightarrow> c_is_muted (fst s)
         | Some (OpenEnum, SuspectEnum) \<Rightarrow> c_is_muted (fst t)
         | Some (ClosedEnum, _) \<Rightarrow> c_is_muted (fst t)
         | _ \<Rightarrow> c_is_muted (fst t) = c_is_muted (fst s)"
proof -
  obtain c w where s: "s = (c, w)" by (cases s)
  have login: "case (rm_stream_state m, rm_data_state m) of
           (OpenEnum, OkEnum) \<Rightarrow> c_is_muted (fst t) \<longrightarrow> c_is_muted d
         | (OpenEnum, SuspectEnum) \<Rightarrow> c_is_muted (fst t)
         | (ClosedEnum, _) \<Rightarrow> c_is_muted (fst t)
         | _ \<Rightarrow> c_is_muted (fst t) = c_is_muted d"
    if r: "OnLoginResponse api m (d, w) = Some t" for m d
  proof (cases "rm_stream_state m = OpenEnum \<and> rm_data_state m = OkEnum")
    case True
    let ?d = "(bump MMT_LOGIN_RESPONSE_RECEIVED d)
        \<lparr>c_stream_state := Some OpenEnum, c_data_state := Some OkEnum\<rparr>"
    from True r have "OnLoginSuccess api (?d, w) = Some t"
      by (simp add: OnLoginResponse_def Let_def)
    then obtain x u where u: "Resubscribe api (bump MMT_LOGIN_SUCCESS ?d, w) = Some (x, u)"
      "t = u \<or> \<not> c_is_muted (fst t)"
      by (auto simp: OnLoginSuccess_def split: option.splits sum.splits)
    from Resubscribe_frame [OF u(1)] have "c_is_muted (fst u) = c_is_muted d"
      by (cases u) (simp add: request_frame_def core_def)
    with u(2) True show ?thesis by auto
  next
    case False
    with OnLoginResponse_muted [OF r] show ?thesis
      by (cases "rm_stream_state m"; cases "rm_data_state m") simp_all
  qed
  show ?thesis
  proof (cases ev)
    case (OMMItemEvent msg cl)
    show ?thesis
    proof (cases msg)
      case (RespMsg m)
      let ?d = "bump RESPONSE_MSGS_RECEIVED (bump OMM_ITEM_EVENTS_RECEIVED (bump RFA_EVENTS_RECEIVED c))"
      have resp: "OnRespMsg api m cl (bump OMM_ITEM_EVENTS_RECEIVED (bump RFA_EVENTS_RECEIVED c), w) = Some t"
        using assms by (simp add: s OMMItemEvent RespMsg processEvent_def OnOMMItemEvent_def Let_def)
      show ?thesis
      proof (cases "rm_model m")
        case MMT_LOGIN
        with resp have "OnLoginResponse api m (?d, w) = Some t" by (simp add: OnRespMsg_def Let_def)
        from login [OF this] MMT_LOGIN show ?thesis
          by (simp add: s OMMItemEvent RespMsg cong: stream_state.case_cong data_state.case_cong)
      next
        case MMT_MARKET_PRICE
        with resp have "OnMarketPrice m cl (?d, w) = Some t" by (simp add: OnRespMsg_def Let_def)
        then have "c_is_muted (fst t) = c_is_muted c"
          by (auto simp: OnMarketPrice_def Let_def bind_Some_iff)
        with MMT_MARKET_PRICE show ?thesis by (simp add: s OMMItemEvent RespMsg)
      next
        case (OtherModel n)
        with resp show ?thesis by (auto simp: s OMMItemEvent RespMsg OnRespMsg_def Let_def)
      qed
    next
      case (OtherMsg n)
      with assms show ?thesis
        by (auto simp: s OMMItemEvent processEvent_def OnOMMItemEvent_def Let_def)
    qed
  next
    case (MarketDataItemEvent e)
    with assms have "OnMarketDataItemEvent api e (bump RFA_EVENTS_RECEIVED c, w) = Some t"
      by (simp add: s processEvent_def Let_def)
    from OnMarketDataItemEvent_frame [OF this] MarketDataItemEvent show ?thesis
      by (simp add: s md_frame_def)
  qed (use assms in \<open>auto simp: s processEvent_def Let_def\<close>)
qed

theorem only_login_changes_muted_witness:
  "\<exists>s t. processEvent granting_api (OMMItemEvent (RespMsg \<lparr>rm_model = MMT_LOGIN,
       rm_resp_type = StatusEnum, rm_stream_state = ClosedEnum, rm_data_state = OkEnum\<rparr>) None) s = Some t \<and>
     \<not> c_is_muted (fst s) \<and> c_is_muted (fst t)"
proof -
  let ?ev = "OMMItemEvent (RespMsg \<lparr>rm_model = MMT_LOGIN,
       rm_resp_type = StatusEnum, rm_stream_state = ClosedEnum, rm_data_state = OkEnum\<rparr>) None"
  let ?s = "((new_consumer (example_session ''rssl'') True 0)\<lparr>c_is_muted := False\<rparr>, empty_world)"
  obtain t where t: "processEvent granting_api ?ev ?s = Some t"
    by (simp add: processEvent_def OnOMMItemEvent_def OnRespMsg_def OnLoginResponse_def Let_def)
  from only_login_changes_muted [OF t] have "c_is_muted (fst t)" by simp
  with t show ?thesis by (intro exI [of _ ?s] exI [of _ t]) simp
qed

section \<open>Init\<close>

text \<open>Init of a session whose protocol is neither rssl nor ssled acquires the session and
  returns false without creating or registering anything.\<close>

theorem Init_unsupported_protocol:
  assumes "\<not> LowerCaseEqualsASCII (protocol (c_config c)) ''rssl''"
    and "\<not> LowerCaseEqualsASCII (protocol (c_config c)) ''ssled''"
    and "api_reply api (length (w_calls w)) = Handle h"
  shows "\<exists>c' w'. consumer_Init api u r i n (c, w) = Some (Inr False, c', w') \<and> c_session c' \<and>
           w_calls w' = w_calls w @ [AcquireSession (session_name (c_config c))] \<and>
           c_omm_consumer c' = c_omm_consumer c \<and>
           c_market_data_subscriber c' = c_market_data_subscriber c"
  using assms by (auto simp: consumer_Init_def do_call_def Let_def)

theorem Init_unsupported_protocol_witness:
  "\<exists>c' w'. consumer_Init granting_api False False True True
     (new_consumer (example_session ''ssl'') True 0, empty_world) = Some (Inr False, c', w') \<and>
     w_calls w' = [AcquireSession ''SessionIDN_RDF'']"
proof -
  have p: "\<not> LowerCaseEqualsASCII (protocol (c_config (new_consumer (example_session ''ssl'') True 0))) ''rssl''"
    "\<not> LowerCaseEqualsASCII (protocol (c_config (new_consumer (example_session ''ssl'') True 0))) ''ssled''"
    "api_reply granting_api (length (w_calls empty_world)) = Handle 0"
    by code_simp+
  have n: "session_name (c_config (new_consumer (example_session ''ssl'') True 0)) = ''SessionIDN_RDF''"
    "w_calls empty_world = []"
    by (simp_all add: new_consumer_def example_session_def empty_world_def)
  from Init_unsupported_protocol [OF p, unfolded n append_Nil] show ?thesis by blast
qed

text \<open>When the library returns a null handle for the status interest of a market data
  subscriber, Init returns false, and destroying the consumer then runs the deleter on the
  null handle and dereferences it.\<close>

theorem null_status_handle_crashes_destructor:
  assumes "LowerCaseEqualsASCII (protocol (c_config c)) ''ssled''"
    and "api_reply api (length (w_calls w)) = Handle h0"
    and "api_reply api (Suc (length (w_calls w))) = Handle h1"
    and "api_reply api (Suc (Suc (length (w_calls w)))) = NullHandle"
    and "c_item_handle c = NoSlot"
  shows "\<exists>s. consumer_Init api u r i n (c, w) = Some (Inr False, s) \<and> consumer_destroy s = None"
proof -
  have "\<not> LowerCaseEqualsASCII (protocol (c_config c)) ''rssl''"
    using assms(1) by (simp add: LowerCaseEqualsASCII_iff)
  with assms show ?thesis
    by (auto simp: consumer_Init_def Init_ssled_def do_call_def Let_def consumer_destroy_def
        release_slot_def)
qed

theorem null_status_handle_crashes_destructor_witness:
  "\<exists>api s. consumer_Init api False False True True
     (new_consumer (example_session ''ssled'') True 0, empty_world) = Some (Inr False, s) \<and>
     consumer_destroy s = None"
proof -
  let ?api = "granting_api\<lparr>api_reply := \<lambda>n. if n = 2 then NullHandle else Handle n\<rparr>"
  have p: "LowerCaseEqualsASCII (protocol (c_config (new_consumer (example_session ''ssled'') True 0))) ''ssled''"
    by code_simp
  have "\<exists>s. consumer_Init ?api False False True True
     (new_consumer (example_session ''ssled'') True 0, empty_world) = Some (Inr False, s) \<and>
     consumer_destroy s = None"
    by (rule null_status_handle_crashes_destructor [OF p, where ?h0.0 = 0 and ?h1.0 = 1])
      (simp_all add: empty_world_def new_consumer_def)
  then show ?thesis by blast
qed

end
