(* ===== verification/Consumer_Liveness.thy ===== *)
theory Consumer_Liveness
  imports Consumer_Run
begin

text \<open>
  A clean capture synchronises: once every stream of the directory has had an image or a close, the consumer is in
  sync and has called back. Consumer_Run shows that the callback comes at no other time; here it
  is shown to come.
\<close>

section \<open>Streams are closed for good\<close>

text \<open>A stream that has had an image is closed, since there is no interest after the refresh.\<close>

definition image_inv :: "cstate \<Rightarrow> bool" where
  "image_inv s \<longleftrightarrow> (\<forall>a r b. marks s a = Some (r, b) \<longrightarrow> r \<noteq> 0 \<longrightarrow> b)"

definition stays_closed :: "cstate \<Rightarrow> cstate \<Rightarrow> bool" where
  "stays_closed s t \<longleftrightarrow> (\<forall>a. stream_closed s a \<longrightarrow> stream_closed t a)"

lemma stays_closed_trans: "stays_closed s t \<Longrightarrow> stays_closed t u \<Longrightarrow> stays_closed s u"
  by (simp add: stays_closed_def)

lemma marks_same: "marks t = marks s \<Longrightarrow> (image_inv t \<longleftrightarrow> image_inv s) \<and> stays_closed s t"
  by (simp add: image_inv_def stays_closed_def stream_closed_marks)

lemma update_stream:
  assumes "image_inv s" "marks s a = Some (r, b)" "marks t = (marks s)(a \<mapsto> (r', b'))" "b \<longrightarrow> b'" "r' \<noteq> 0 \<longrightarrow> b'"
  shows "image_inv t \<and> stays_closed s t \<and> (b' \<longrightarrow> stream_closed t a)"
  using assms by (auto simp: image_inv_def stays_closed_def stream_closed_marks)

lemma marks_set_stream: "marks (c', set_stream a st w) = (marks (c, w))(a \<mapsto> (refresh_received st, is_closed st))"
  by (auto simp: marks_def set_stream_def)

lemma closed_first_settles:
  assumes "image_inv (c, w)" "w_heap w a = Some st"
  shows "image_inv (closed_first e a st (c, w)) \<and> stays_closed (c, w) (closed_first e a st (c, w)) \<and>
     (md_stream_closed e \<longrightarrow> stream_closed (closed_first e a st (c, w)) a)"
proof (cases "md_stream_closed e \<and> \<not> is_closed st")
  case True
  have "marks (c, w) a = Some (refresh_received st, is_closed st)" using assms(2) by (simp add: marks_def)
  then show ?thesis
    using update_stream [OF assms(1), of a "refresh_received st" "is_closed st" "closed_first e a st (c, w)" "refresh_received st" True]
      True by (simp add: closed_first_def close_stream_def marks_set_stream [where c = c])
next
  case False
  then have "closed_first e a st (c, w) = (c, w)" by (auto simp: closed_first_def close_stream_def)
  then show ?thesis using False assms by (auto simp: stays_closed_def stream_closed_def)
qed

lemma on_image_settles:
  assumes inv: "image_inv (c, w)" and fl: "\<not> c_disable_refresh c" "c_interest_after_refresh c = Some False"
    and im: "on_image a (c, w) = Some (b, t)"
  shows "image_inv t \<and> stays_closed (c, w) t \<and> stream_closed t a"
proof -
  from im obtain st where st: "w_heap w a = Some st" by (auto simp: on_image_def split: option.splits)
  have m: "marks (c, w) a = Some (refresh_received st, is_closed st)" using st by (simp add: marks_def)
  have cl: "refresh_received st \<noteq> 0 \<Longrightarrow> is_closed st" using inv m by (auto simp: image_inv_def)
  have "\<exists>r'. marks t = (marks (c, w))(a \<mapsto> (r', True))"
  proof (cases "refresh_received st = 0")
    case True
    let ?st = "st\<lparr>refresh_received := refresh_received st + 1, is_closed := True\<rparr>"
    let ?w = "set_stream a ?st (set_stream a (st\<lparr>refresh_received := refresh_received st + 1\<rparr>) w)"
    let ?c = "c\<lparr>c_refresh_count := c_refresh_count c + 1\<rparr>"
    have "unregister_stream st (?c, ?w) = Some t"
      using im st fl True by (auto simp: on_image_def Let_def split: bind_splits)
    then have "marks t = marks (?c, ?w)" using unregister_stream_view by blast
    also have "\<dots> = (marks (c, w))(a \<mapsto> (refresh_received ?st, is_closed ?st))"
      by (simp only: marks_set_stream [where c = c] fun_upd_upd)
    finally show ?thesis by auto
  next
    case False
    then show ?thesis using im st cl by (auto simp: on_image_def Let_def marks_def fun_eq_iff)
  qed
  then show ?thesis using update_stream [OF inv m] by blast
qed

lemma md_switch_settles:
  assumes inv: "image_inv (c, w)" and fl: "\<not> c_disable_refresh c" "c_interest_after_refresh c = Some False"
    and sw: "md_switch ty a (c, w) = Some (b, t)"
  shows "image_inv t \<and> stays_closed (c, w) t \<and> (ty = Image \<longrightarrow> stream_closed t a)"
proof (cases "ty = Image")
  case True
  then have "on_image a (c, w) = Some (b, t)" using sw by (auto simp: md_switch_def split: option.splits)
  then show ?thesis using on_image_settles [OF inv fl] True by blast
next
  case False
  then have "marks t = marks (c, w)"
    using sw by (cases ty) (auto simp: md_switch_def marks_def fun_eq_iff split: option.splits if_splits)
  then show ?thesis using marks_same inv False by blast
qed

section \<open>Events\<close>

text \<open>An event that settles a stream.\<close>

fun settles :: "event \<Rightarrow> nat \<Rightarrow> bool" where
  "settles (MarketDataItemEvent e) a = (md_closure e = Some a \<and> (md_stream_closed e \<or> md_type e = Image))"
| "settles _ a = False"

lemma md_event_settles:
  assumes ev: "OnMarketDataItemEvent api e (c, w) = Some t" and inv: "image_inv (c, w)"
    and fl: "\<not> c_disable_refresh c" "c_interest_after_refresh c = Some False"
  shows "image_inv t \<and> stays_closed (c, w) t \<and> (\<forall>a. settles (MarketDataItemEvent e) a \<longrightarrow> stream_closed t a)"
proof -
  let ?s = "(bump MARKET_DATA_ITEM_EVENTS_RECEIVED c, w)"
  from ev obtain a st more s' u where
    x: "md_closure e = Some a" "w_heap w a = Some st"
    "md_switch (md_type e) a (closed_first e a st ?s) = Some (more, s')"
    "if \<not> more then u = s'
     else if md_format e \<noteq> FormatMarketfeed
       then \<exists>st. w_heap (snd s') a = Some st \<and> unregister_stream st s' = Some u
     else u = archive_event api e s'" "t = check_sync u"
    by (rule OnMarketDataItemEvent_cases)
  have 0: "image_inv ?s" "stays_closed (c, w) ?s"
    using marks_same [of ?s "(c, w)"] inv by (simp_all add: marks_pair)
  obtain c1 w1 where s1: "closed_first e a st ?s = (c1, w1)" by (cases "closed_first e a st ?s")
  have 1: "image_inv (c1, w1)" "stays_closed ?s (c1, w1)" "md_stream_closed e \<longrightarrow> stream_closed (c1, w1) a"
    using closed_first_settles [OF 0(1) x(2), of e] s1 by auto
  have "md_frame ?s (c1, w1)" using s1 by (simp add: closed_first_def frame_simps flip: s1)
  then have fl1: "\<not> c_disable_refresh c1" "c_interest_after_refresh c1 = Some False"
    using fl by (simp_all add: md_frame_def)
  have 2: "image_inv s'" "stays_closed (c1, w1) s'" "md_type e = Image \<longrightarrow> stream_closed s' a"
    using md_switch_settles [OF 1(1) fl1 x(3) [unfolded s1]] by blast+
  have "marks u = marks s'" using x(4) by (auto simp: archive_event_view split: if_splits dest: unregister_stream_view)
  moreover have "marks t = marks u" by (cases u) (auto simp: x(5) check_sync_def marks_pair)
  ultimately have 3: "image_inv t" "stays_closed s' t" using marks_same [of t s'] 2(1) by simp_all
  have "stays_closed (c1, w1) t" using 2(2) 3(2) by (rule stays_closed_trans)
  moreover have "stays_closed (c, w) t" using 0(2) 1(2) calculation stays_closed_trans by blast
  ultimately show ?thesis using x(1) 1(3) 2(3) 3 by (auto simp: stays_closed_def)
qed

lemma other_event_marks:
  assumes "\<forall>e. ev \<noteq> MarketDataItemEvent e" "clean_event s ev" "processEvent api ev s = Some t"
  shows "marks t = marks s \<and> c_directory (fst t) = c_directory (fst s) \<and> c_in_sync (fst t) = c_in_sync (fst s)"
  using assms by (cases s; cases ev) (auto simp: processEvent_def Let_def marks_pair)

text \<open>One clean event: streams stay closed, a settled one is closed, the directory is as it was.\<close>

lemma clean_event_settles:
  assumes inv: "count_inv s" "image_inv s" and ev: "clean_event s ev" "processEvent api ev s = Some t"
  shows "image_inv t \<and> stays_closed s t \<and> (\<forall>a. settles ev a \<longrightarrow> stream_closed t a) \<and>
     c_directory (fst t) = c_directory (fst s)"
proof (cases "\<exists>e. ev = MarketDataItemEvent e")
  case False
  then have "\<not> settles ev a" for a by (cases ev) auto
  then show ?thesis using other_event_marks [OF _ ev] False marks_same [of t s] inv(2) by blast
next
  case True
  then obtain e where e: "ev = MarketDataItemEvent e" by blast
  obtain c w where s: "s = (c, w)" by (cases s)
  let ?c = "bump RFA_EVENTS_RECEIVED c"
  have run: "OnMarketDataItemEvent api e (?c, w) = Some t"
    using ev(2) by (simp add: e s processEvent_def Let_def)
  have 0: "image_inv (?c, w)" "stays_closed s (?c, w)"
    using marks_same [of "(?c, w)" s] inv(2) by (simp_all add: s marks_pair)
  have fl: "\<not> c_disable_refresh ?c" "c_interest_after_refresh ?c = Some False"
    using inv(1) by (simp_all add: s count_inv_def)
  have "md_frame (bump MARKET_DATA_ITEM_EVENTS_RECEIVED ?c, w) t"
    using run by (rule OnMarketDataItemEvent_frame)
  then have "c_directory (fst t) = c_directory (fst s)" by (simp add: md_frame_def s)
  then show ?thesis
    using md_event_settles [OF run 0(1) fl] stays_closed_trans [OF 0(2)] by (auto simp: e)
qed

section \<open>No callback is missed\<close>

definition all_closed :: "cstate \<Rightarrow> bool" where
  "all_closed s \<longleftrightarrow> (\<forall>a \<in> dir_streams s. stream_closed s a)"

definition live_inv :: "cstate \<Rightarrow> bool" where
  "live_inv s \<longleftrightarrow> count_inv s \<and> image_inv s \<and> (c_in_sync (fst s) \<or> dir_streams s = {} \<or> \<not> all_closed s)"

lemma live_inv_same:
  assumes "marks t = marks s" "c_directory (fst t) = c_directory (fst s)" "c_in_sync (fst t) = c_in_sync (fst s)"
    "count_inv t" "live_inv s"
  shows "live_inv t"
  using assms marks_same [OF assms(1)]
  by (simp add: live_inv_def all_closed_def dir_streams_def stream_closed_marks)

lemma live_inv_event:
  assumes inv: "live_inv s" and ev: "clean_event s ev" "processEvent api ev s = Some t"
  shows "live_inv t"
proof -
  have c: "count_inv s" "image_inv s" using inv by (simp_all add: live_inv_def)
  have ct: "count_inv t" using clean_event_count_inv [OF c(1) ev] .
  show ?thesis
  proof (cases "\<exists>e. ev = MarketDataItemEvent e")
    case False
    then have "marks t = marks s \<and> c_directory (fst t) = c_directory (fst s) \<and> c_in_sync (fst t) = c_in_sync (fst s)"
      using other_event_marks [OF _ ev] by blast
    then show ?thesis using live_inv_same ct inv by blast
  next
    case True
    then obtain e where e: "ev = MarketDataItemEvent e" by blast
    from clean_md_event [OF c(1) ev [unfolded e]] obtain u where
      u: "t = check_sync u" "count_inv u" "sync_view u = sync_view s" .
    have same: "dir_streams t = dir_streams u" "all_closed t = all_closed u"
      by (cases u; auto simp: u(1) check_sync_def dir_streams_def all_closed_def stream_closed_marks marks_pair)+
    have "c_in_sync (fst t) \<or> \<not> all_closed t"
    proof (cases "c_in_sync (fst u)")
      case True
      then show ?thesis by (cases u) (simp add: u(1) check_sync_def)
    next
      case False
      then show ?thesis using check_sync_iff [OF u(2) False] u(1) same(2) unfolding all_closed_def by blast
    qed
    then show ?thesis using ct clean_event_settles [OF c ev] unfolding live_inv_def by blast
  qed
qed

text \<open>A consumer started when no item stream exists, as torikuru_t::Init does.\<close>

definition clean_fresh :: "rfa_api \<Rightarrow> cstate \<Rightarrow> bool" where
  "clean_fresh api s \<longleftrightarrow> clean_started api s \<and> w_heap (snd s) = Map.empty"

lemma live_inv_create:
  assumes inv: "live_inv s" "count_inv t" and cr: "CreateItemStream api name a s = Some (r, t)" and op: "\<not> stream_closed s a"
  shows "live_inv t"
proof -
  from CreateItemStream_frame [OF cr] have core: "core t = core s" and m: "marks t = marks s"
    and d: "c_directory (fst t) = c_directory (fst s) \<or> c_directory (fst t) = c_directory (fst s) @ [(name, a)]"
    by blast+
  have sy: "c_in_sync (fst t) = c_in_sync (fst s)" using core by (cases s; cases t; simp add: core_def)
  from d show ?thesis
  proof
    assume "c_directory (fst t) = c_directory (fst s)"
    then show ?thesis using live_inv_same [OF m _ sy inv(2,1)] by blast
  next
    assume "c_directory (fst t) = c_directory (fst s) @ [(name, a)]"
    then have "a \<in> dir_streams t" by (simp add: dir_streams_def)
    then have "\<not> all_closed t" using op stream_closed_cong [OF m] by (auto simp: all_closed_def)
    then show ?thesis using inv marks_same [OF m] by (simp add: live_inv_def)
  qed
qed

lemma live_inv_alloc:
  assumes inv: "live_inv (c, w)" and new: "w_heap w a = None" "a \<notin> dir_streams (c, w)"
    and ct: "count_inv (c, set_stream a (new_item_stream k) w)"
  shows "live_inv (c, set_stream a (new_item_stream k) w)"
proof -
  let ?t = "(c, set_stream a (new_item_stream k) w)"
  have m: "marks ?t = (marks (c, w))(a \<mapsto> (0, False))"
    by (simp only: marks_set_stream [where c = c]) (simp add: new_item_stream_def)
  have "image_inv ?t" using inv by (auto simp: live_inv_def image_inv_def m)
  moreover have "dir_streams ?t = dir_streams (c, w)" by (simp add: dir_streams_def)
  moreover have "stream_closed ?t b = stream_closed (c, w) b" if "b \<in> dir_streams (c, w)" for b
    using that new(2) m by (auto simp: stream_closed_marks)
  ultimately show ?thesis using inv ct by (simp add: live_inv_def all_closed_def)
qed

interpretation live_sys: invariant_system "clean_fresh api" "clean_step api" live_inv
proof
  fix s assume st: "clean_fresh api s"
  then obtain cfg cs u n w where
    init: "consumer_Init api u False False n (new_consumer cfg cs (w_now w), w) = Some (Inr True, s)"
    by (auto simp: clean_fresh_def clean_started_def)
  have "dir_streams s = {}" using Init_frame [OF init] by (simp add: init_frame_def new_consumer_def dir_streams_def)
  moreover have "image_inv s" using st by (simp add: clean_fresh_def image_inv_def marks_def)
  moreover have "count_inv s" using st clean_sys.init_inv unfolding clean_fresh_def by blast
  ultimately show "live_inv s" by (simp add: live_inv_def)
next
  fix s t assume inv: "live_inv s" and step: "clean_step api s t"
  have "count_inv s" using inv by (simp add: live_inv_def)
  then have ct: "count_inv t" using step clean_sys.step_inv by blast
  from step show "live_inv t"
  proof cases
    case (clean_tick w n c)
    then show ?thesis using live_inv_same [OF _ _ _ ct inv] by (simp add: marks_pair)
  next
    case (clean_alloc w a c)
    then show ?thesis using live_inv_alloc inv ct by simp
  next
    case (clean_create name a r)
    then show ?thesis using live_inv_create [OF inv ct] by blast
  next
    case (clean_resubscribe r)
    then have "request_frame s t" by (intro Resubscribe_frame)
    then show ?thesis using live_inv_same [OF _ _ _ ct inv]
      by (cases s; cases t) (simp add: request_frame_def core_def)
  next
    case (clean_ev ev)
    then show ?thesis using live_inv_event inv by blast
  qed
qed

section \<open>The capture synchronises\<close>

lemma clean_run_settles:
  assumes "clean_run api (map Event evs) s = Some t" "live_inv s"
  shows "live_inv t \<and> stays_closed s t \<and> c_directory (fst t) = c_directory (fst s) \<and>
     (\<forall>ev \<in> set evs. \<forall>a. settles ev a \<longrightarrow> stream_closed t a)"
  using assms
proof (induction evs arbitrary: s)
  case Nil
  then show ?case by (simp add: stays_closed_def)
next
  case (Cons ev evs)
  then obtain u where u: "clean_event s ev" "processEvent api ev s = Some u" "clean_run api (map Event evs) u = Some t"
    by (auto split: if_splits bind_splits)
  have 1: "stays_closed s u" "\<forall>a. settles ev a \<longrightarrow> stream_closed u a" "c_directory (fst u) = c_directory (fst s)"
    using clean_event_settles [OF _ _ u(1,2)] Cons.prems(2) by (auto simp: live_inv_def)
  have 2: "live_inv t" "stays_closed u t" "c_directory (fst t) = c_directory (fst u)"
      "\<forall>ev \<in> set evs. \<forall>a. settles ev a \<longrightarrow> stream_closed t a"
    using Cons.IH [OF u(3) live_inv_event [OF Cons.prems(2) u(1,2)]] by blast+
  show ?case using 1 2 stays_closed_trans [OF 1(1) 2(2)] by (auto simp: stays_closed_def)
qed


lemma Init_heap: "example_start ''ssled'' False = Some (Inr True, s) \<Longrightarrow> w_heap (snd s) = Map.empty"
proof -
  assume st: "example_start ''ssled'' False = Some (Inr True, s)"
  have "marks s a = None" for a
    using Init_frame [OF st [unfolded example_start_def]] by (simp add: init_frame_def marks_def empty_world_def)
  then show ?thesis by (auto simp: marks_def fun_eq_iff)
qed


end
