(* ===== verification/Convert.thy ===== *)
theory Convert
  imports Consumer_Requests "HOL-Library.AList"
begin

text \<open>
  torikuru_t::Convert of src/torikuru.cc: the archive is read twice, once to find the fields
  (FIDs) that occur and once to write one CSV row per record into the file of its service.
  The protobuf, gzip and TIB libraries, the file system and the time zone are third-party: the
  archive is the list of its records with the verdict of the protobuf parser (the two passes
  read the same file from its start; it is not one of the files that the outputs truncate),
  unpacking a buffer is a parameter that yields the fields or None, and so are the iteration
  order of the unordered set of FIDs, localtime, and the file that opening a path for writing
  reaches, if the open succeeds. A write to an open file succeeds. A result None means that the
  code indexes a vector out of range or dereferences a null stream.
\<close>

section \<open>Padded numbers\<close>

text \<open>std::setw with std::setfill ('0').\<close>

definition pad :: "nat \<Rightarrow> int \<Rightarrow> string" where
  "pad n i = replicate (n - length (show_int i)) (CHR ''0'') @ show_int i"

section \<open>Parameters\<close>

record tib_field =
  fld_name :: string
  fld_text :: "string option"

record tm =
  tm_year :: int
  tm_mon :: int
  tm_mday :: int
  tm_hour :: int
  tm_min :: int
  tm_sec :: int

record etl =
  unpack :: "string \<Rightarrow> tib_field list option"
  fid_order :: "string list \<Rightarrow> string list"
  localtime :: "int \<Rightarrow> tm"
  open_file :: "string \<Rightarrow> string option"

type_synonym archive_input = "(bool \<times> Marketfeed) list"

section \<open>First pass\<close>

text \<open>The filter on the symbol name.\<close>

definition filtered :: "string list \<Rightarrow> Marketfeed \<Rightarrow> bool" where
  "filtered symbols m =
     (case item_name m of
        None \<Rightarrow> False
      | Some n \<Rightarrow> symbols \<noteq> [] \<and> n \<notin> set symbols)"

definition buffer_of :: "Marketfeed \<Rightarrow> string" where
  "buffer_of m = the_default [] (packed_buffer m)"

text \<open>The set of FIDs, as the list of its elements in the order they were met.\<close>

fun add_fids :: "tib_field list \<Rightarrow> string list \<Rightarrow> string list" where
  "add_fids [] fids = fids"
| "add_fids (f # fs) fids =
     add_fids fs (if fld_name f \<in> set fids then fids else fids @ [fld_name f])"

fun find_fids :: "etl \<Rightarrow> string list \<Rightarrow> archive_input \<Rightarrow> string list \<Rightarrow> string list" where
  "find_fids x symbols [] fids = fids"
| "find_fids x symbols ((valid, m) # rs) fids =
     (if filtered symbols m then find_fids x symbols rs fids
      else if valid then
        (case unpack x (buffer_of m) of
           None \<Rightarrow> find_fids x symbols rs fids
         | Some flds \<Rightarrow> find_fids x symbols rs (add_fids flds fids))
      else find_fids x symbols rs fids)"

text \<open>unordered_map::emplace keeps an existing entry; the counter advances all the same.\<close>

definition emplace :: "'a \<Rightarrow> 'b \<Rightarrow> ('a \<times> 'b) list \<Rightarrow> ('a \<times> 'b) list" where
  "emplace k v m = (if k \<in> set (map fst m) then m else m @ [(k, v)])"

definition fixed_columns :: "(string \<times> nat) list" where
  "fixed_columns = [(''service'', 0), (''symbol'', 0), (''time'', 0), (''type'', 0)]"

fun number_columns :: "string list \<Rightarrow> nat \<Rightarrow> (string \<times> nat) list \<Rightarrow> (string \<times> nat) list" where
  "number_columns [] i fid_map = fid_map"
| "number_columns (column # cs) i fid_map = number_columns cs (Suc i) (emplace column i fid_map)"

definition make_fid_map :: "string list \<Rightarrow> (string \<times> nat) list" where
  "make_fid_map columns = number_columns columns (length fixed_columns) fixed_columns"

definition newline :: string where
  "newline = [CHR 0x0A]"

definition header_line :: "string list \<Rightarrow> string" where
  "header_line columns = ''service,symbol,time,type,'' @ JoinString columns (CHR '','') @ newline"

section \<open>Second pass\<close>

definition csv_cell :: "string \<Rightarrow> string" where
  "csv_cell buf = (if CHR '','' \<in> set buf then CHR 0x22 # buf @ [CHR 0x22] else buf)"

definition time_text :: "etl \<Rightarrow> Marketfeed \<Rightarrow> string" where
  "time_text x m =
     (let sec = (case tv_sec m of None \<Rightarrow> 0 | Some s \<Rightarrow> sint s);
          usec = (case tv_usec m of None \<Rightarrow> 0 | Some s \<Rightarrow> sint s);
          t = localtime x sec in
      pad 4 (1900 + tm_year t) @ ''-'' @ pad 2 (1 + tm_mon t) @ ''-'' @ pad 2 (tm_mday t) @ ''T'' @
      pad 2 (tm_hour t) @ '':'' @ pad 2 (tm_min t) @ '':'' @ pad 2 (tm_sec t) @ ''.'' @ pad 6 usec)"

text \<open>columns[i] = s, undefined out of range.\<close>

definition put :: "nat \<Rightarrow> string \<Rightarrow> string list \<Rightarrow> string list option" where
  "put i s columns = (if i < length columns then Some (columns[i := s]) else None)"

fun put_fields :: "(string \<times> nat) list \<Rightarrow> tib_field list \<Rightarrow> string list \<Rightarrow> string list option" where
  "put_fields fid_map [] columns = Some columns"
| "put_fields fid_map (f # fs) columns =
     (case fld_text f of
        None \<Rightarrow> put_fields fid_map fs columns
      | Some buf \<Rightarrow>
          (case map_of fid_map (fld_name f) of
             None \<Rightarrow> put_fields fid_map fs columns
           | Some i \<Rightarrow> Option.bind (put i (csv_cell buf) columns) (put_fields fid_map fs)))"

definition make_row ::
  "etl \<Rightarrow> (string \<times> nat) list \<Rightarrow> string \<Rightarrow> string \<Rightarrow> u32 \<Rightarrow> Marketfeed \<Rightarrow> tib_field list \<Rightarrow>
     string list option" where
  "make_row x fid_map service item ty m flds =
     do {
       columns \<leftarrow> put 0 service (replicate (length fid_map) []);
       columns \<leftarrow> put 1 item columns;
       columns \<leftarrow> put 2 (time_text x m) columns;
       columns \<leftarrow> put 3 (show_nat (unat ty)) columns;
       put_fields fid_map flds columns
     }"

subsection \<open>The output streams\<close>

text \<open>An fstream: the file it has open, None after a failed open, and its position in the file;
  service_map with the streams of the services; and the contents of the files opened for
  writing. Every line ends in endl, so it is in its file before another stream writes.\<close>

record out_stream =
  os_file :: "string option"
  os_pos :: nat

record outputs =
  service_map :: "(string \<times> out_stream) list"
  out_files :: "string \<Rightarrow> string option"

definition no_outputs :: outputs where
  "no_outputs = \<lparr>service_map = [], out_files = (\<lambda>_. None)\<rparr>"

text \<open>Writing at a position overwrites what is there; a gap reads as zeros.\<close>

definition write_at :: "nat \<Rightarrow> string \<Rightarrow> string \<Rightarrow> string" where
  "write_at p s content =
     take p content @ replicate (p - length content) (CHR 0x00) @ s @ drop (p + length s) content"

text \<open>The operator << of an fstream; a stream whose open failed ignores it.\<close>

definition stream_out :: "string \<Rightarrow> out_stream \<Rightarrow> (string \<Rightarrow> string option) \<Rightarrow> out_stream \<times> (string \<Rightarrow> string option)" where
  "stream_out s st files =
     (case os_file st of
        None \<Rightarrow> (st, files)
      | Some f \<Rightarrow> (st\<lparr>os_pos := os_pos st + length s\<rparr>, files(f \<mapsto> write_at (os_pos st) s (the_default [] (files f)))))"

definition append_out :: "string \<Rightarrow> string \<Rightarrow> outputs \<Rightarrow> outputs option" where
  "append_out service s outs =
     (case map_of (service_map outs) service of
        None \<Rightarrow> None
      | Some st \<Rightarrow>
          (let (st, files) = stream_out s st (out_files outs)
           in Some \<lparr>service_map = AList.update service st (service_map outs), out_files = files\<rparr>))"

text \<open>A line to each of a list of services.\<close>

fun write_lines :: "(string \<times> string) list \<Rightarrow> outputs \<Rightarrow> outputs option" where
  "write_lines [] outs = Some outs"
| "write_lines ((service, s) # ls) outs = Option.bind (append_out service s outs) (write_lines ls)"

subsection \<open>The rows\<close>

fun write_rows ::
  "etl \<Rightarrow> string list \<Rightarrow> (string \<times> nat) list \<Rightarrow> archive_input \<Rightarrow> outputs \<Rightarrow> nat \<Rightarrow>
     (outputs \<times> nat) option" where
  "write_rows x symbols fid_map [] outs i = Some (outs, i)"
| "write_rows x symbols fid_map ((valid, m) # rs) outs i =
     (if filtered symbols m then write_rows x symbols fid_map rs outs i
      else if valid then
        (case unpack x (buffer_of m) of
           None \<Rightarrow> write_rows x symbols fid_map rs outs i
         | Some flds \<Rightarrow>
             (case (mf_service_name m, item_name m, message_type m) of
                (Some service, Some item, Some ty) \<Rightarrow>
                  do {
                    columns \<leftarrow> make_row x fid_map service item ty m flds;
                    outs \<leftarrow> append_out service (JoinString columns (CHR '','') @ newline) outs;
                    write_rows x symbols fid_map rs outs (Suc i)
                  }
              | _ \<Rightarrow> write_rows x symbols fid_map rs outs i))
      else write_rows x symbols fid_map rs outs i)"

section \<open>Convert\<close>

text \<open>The file each service is exported to. Every session opens it and truncates it; of two
  sessions with the same service emplace keeps the stream of the first.\<close>

definition output_file :: "config_t \<Rightarrow> session_config_t \<Rightarrow> string" where
  "output_file cfg s = fst (ReplaceStringPlaceholders (output_path cfg) [service_name s] None)"

definition open_output :: "etl \<Rightarrow> string \<Rightarrow> (string \<Rightarrow> string option) \<Rightarrow> out_stream \<times> (string \<Rightarrow> string option)" where
  "open_output x filename files =
     (case open_file x filename of
        None \<Rightarrow> (\<lparr>os_file = None, os_pos = 0\<rparr>, files)
      | Some f \<Rightarrow> (\<lparr>os_file = Some f, os_pos = 0\<rparr>, files(f \<mapsto> [])))"

fun open_outputs :: "etl \<Rightarrow> config_t \<Rightarrow> session_config_t list \<Rightarrow> outputs \<Rightarrow> outputs" where
  "open_outputs x cfg [] outs = outs"
| "open_outputs x cfg (s # ss) outs =
     (let (st, files) = open_output x (output_file cfg s) (out_files outs)
      in open_outputs x cfg ss
           \<lparr>service_map = emplace (service_name s) st (service_map outs), out_files = files\<rparr>)"

text \<open>Convert: None for the input is an open that fails; the result is the state of the streams
  and the files, and the number of rows. The order in which the headers are written is that of
  an unordered map, but they are all the same text at the start of a file.\<close>

definition Convert :: "etl \<Rightarrow> config_t \<Rightarrow> archive_input option \<Rightarrow> (outputs \<times> nat) option" where
  "Convert x cfg input =
     (case input of
        None \<Rightarrow> Some (no_outputs, 0)
      | Some rs \<Rightarrow>
          do {
            let outs = open_outputs x cfg (sessions cfg) no_outputs;
            let symbols = instruments cfg;
            let columns = fid_order x (find_fids x symbols rs []);
            let fid_map = make_fid_map columns;
            outs \<leftarrow> write_lines (map (\<lambda>(service, st). (service, header_line columns)) (service_map outs)) outs;
            write_rows x symbols fid_map rs outs 0
          })"

end
