(* ===== verification/Convert_Props.thy ===== *)
theory Convert_Props
  imports Convert
begin

text \<open>
  What Convert writes: the reference row of a record, the lines of an archive, and the file of
  each service that no other service shares its file with, as a function of the archive.
\<close>

section \<open>The fields that occur\<close>

definition readable :: "etl \<Rightarrow> string list \<Rightarrow> bool \<times> Marketfeed \<Rightarrow> tib_field list option" where
  "readable x symbols r =
     (if fst r \<and> \<not> filtered symbols (snd r) then unpack x (buffer_of (snd r)) else None)"

lemma set_add_fids: "set (add_fids fs fids) = set fids \<union> fld_name ` set fs"
  by (induction fs fids rule: add_fids.induct) auto

lemma distinct_add_fids: "distinct fids \<Longrightarrow> distinct (add_fids fs fids)"
  by (induction fs fids rule: add_fids.induct) auto

lemma find_fids_Cons:
  "find_fids x symbols (r # rs) fids =
     find_fids x symbols rs (case readable x symbols r of None \<Rightarrow> fids | Some fs \<Rightarrow> add_fids fs fids)"
  by (cases r) (auto simp: readable_def split: option.split)

lemma distinct_find_fids: "distinct fids \<Longrightarrow> distinct (find_fids x symbols rs fids)"
proof (induction rs arbitrary: fids)
  case (Cons r rs)
  then show ?case
    by (auto simp del: find_fids.simps simp: find_fids_Cons distinct_add_fids split: option.split)
qed simp

definition record_fids :: "etl \<Rightarrow> string list \<Rightarrow> bool \<times> Marketfeed \<Rightarrow> string set" where
  "record_fids x symbols r =
     (case readable x symbols r of None \<Rightarrow> {} | Some fs \<Rightarrow> fld_name ` set fs)"

lemma set_find_fids:
  "set (find_fids x symbols rs fids) = set fids \<union> (\<Union>r\<in>set rs. record_fids x symbols r)"
proof (induction rs arbitrary: fids)
  case (Cons r rs)
  show ?case
    unfolding find_fids_Cons Cons.IH
    by (auto simp: set_add_fids record_fids_def split: option.splits)
qed simp

section \<open>Column numbers\<close>

abbreviation fixed_names :: "string list" where
  "fixed_names \<equiv> map fst fixed_columns"

lemma number_columns_distinct:
  assumes "distinct cs" and "set cs \<inter> set (map fst m) = {}"
  shows "number_columns cs i m = m @ zip cs [i ..< i + length cs]"
  using assms
proof (induction cs arbitrary: i m)
  case (Cons c cs)
  then have "emplace c i m = m @ [(c, i)]" by (simp add: emplace_def)
  moreover have "number_columns cs (Suc i) (m @ [(c, i)]) = (m @ [(c, i)]) @ zip cs [Suc i ..< Suc i + length cs]"
    by (rule Cons.IH) (use Cons.prems in auto)
  moreover have "[i ..< i + length (c # cs)] = i # [Suc i ..< Suc i + length cs]"
    by (simp add: upt_conv_Cons del: upt_Suc)
  ultimately show ?case by (simp del: upt_Suc)
qed simp

lemma make_fid_map_distinct:
  assumes "distinct cs" and "set cs \<inter> set fixed_names = {}"
  shows "make_fid_map cs = fixed_columns @ zip cs [4 ..< 4 + length cs]"
proof -
  have "length fixed_columns = 4" by (simp add: fixed_columns_def)
  then show ?thesis
    using number_columns_distinct [OF assms, of 4] by (simp only: make_fid_map_def)
qed

lemma length_number_columns:
  "distinct cs \<Longrightarrow> length (number_columns cs i m) = length m + length (filter (\<lambda>c. c \<notin> set (map fst m)) cs)"
proof (induction cs arbitrary: i m)
  case (Cons c cs)
  have "filter (\<lambda>d. d \<notin> set (map fst (emplace c i m))) cs = filter (\<lambda>d. d \<notin> set (map fst m)) cs"
    using Cons.prems by (intro filter_cong) (auto simp: emplace_def)
  with Cons show ?case by (auto simp: emplace_def)
qed simp

lemma map_of_zip_upt:
  assumes "distinct cs" and "j < length cs"
  shows "map_of (zip cs [n ..< n + length cs]) (cs ! j) = Some (n + j)"
  using map_of_zip_nth [of cs "[n ..< n + length cs]" j] assms by simp

lemma map_of_fid_map:
  assumes "distinct cs" and "set cs \<inter> set fixed_names = {}" and "j < length cs"
  shows "map_of (make_fid_map cs) (cs ! j) = Some (4 + j)"
proof -
  have "cs ! j \<notin> set fixed_names" using assms(2,3) by (meson disjoint_iff nth_mem)
  then have "map_of fixed_columns (cs ! j) = None" by (simp add: map_of_eq_None_iff)
  then show ?thesis
    using map_of_zip_upt [OF assms(1,3), of 4]
    by (simp add: make_fid_map_distinct [OF assms(1,2)] map_add_def)
qed

section \<open>The reference row\<close>

text \<open>The text of a column: the last converted field of that name, else empty.\<close>

fun last_text :: "string \<Rightarrow> tib_field list \<Rightarrow> string \<Rightarrow> string" where
  "last_text n [] s = s"
| "last_text n (f # fs) s =
     last_text n fs (case fld_text f of Some b \<Rightarrow> if fld_name f = n then b else s | None \<Rightarrow> s)"

lemma csv_cell_Nil [simp]: "csv_cell [] = []"
  by (simp add: csv_cell_def)

lemma put_fields_eq:
  assumes cs: "distinct cs" "set cs \<inter> set fixed_names = {}"
    and "\<forall>f\<in>set fs. fld_name f \<in> set cs" and "length fixed = 4" and "length vals = length cs"
  shows "put_fields (make_fid_map cs) fs (fixed @ map csv_cell vals) =
     Some (fixed @ map csv_cell (map2 (\<lambda>c v. last_text c fs v) cs vals))"
  using assms(3-)
proof (induction fs arbitrary: vals)
  case Nil
  have "map2 (\<lambda>c v. v) cs vals = vals"
    using Nil.prems(3) by (simp add: map2_map_map [symmetric] list_eq_iff_nth_eq)
  then show ?case by simp
next
  case (Cons f fs)
  show ?case
  proof (cases "fld_text f")
    case None
    with Cons show ?thesis by simp
  next
    case (Some b)
    from Cons.prems(1) obtain j where j: "j < length cs" "cs ! j = fld_name f"
      by (auto simp: in_set_conv_nth)
    have "map_of (make_fid_map cs) (fld_name f) = Some (4 + j)"
      using map_of_fid_map [OF cs j(1)] j(2) by simp
    moreover have "put (4 + j) (csv_cell b) (fixed @ map csv_cell vals) =
        Some (fixed @ map csv_cell (vals[j := b]))"
      using j(1) Cons.prems(2,3) by (simp add: put_def list_update_append map_update)
    moreover have "put_fields (make_fid_map cs) fs (fixed @ map csv_cell (vals[j := b])) =
        Some (fixed @ map csv_cell (map2 (\<lambda>c v. last_text c fs v) cs (vals[j := b])))"
      by (rule Cons.IH) (use Cons.prems in auto)
    moreover have "map2 (\<lambda>c v. last_text c fs v) cs (vals[j := b]) =
        map2 (\<lambda>c v. last_text c (f # fs) v) cs vals"
      using Cons.prems(3) j Some cs(1)
      by (intro nth_equalityI) (auto simp: nth_list_update distinct_conv_nth)
    ultimately show ?thesis using Some by simp
  qed
qed

definition row_spec :: "etl \<Rightarrow> string list \<Rightarrow> string \<Rightarrow> string \<Rightarrow> u32 \<Rightarrow> Marketfeed \<Rightarrow> tib_field list \<Rightarrow> string list" where
  "row_spec x cs service item ty m fs =
     [service, item, time_text x m, show_nat (unat ty)] @ map (\<lambda>c. csv_cell (last_text c fs [])) cs"

lemma make_row_eq:
  assumes cs: "distinct cs" "set cs \<inter> set fixed_names = {}" and fs: "\<forall>f\<in>set fs. fld_name f \<in> set cs"
  shows "make_row x (make_fid_map cs) service item ty m fs = Some (row_spec x cs service item ty m fs)"
proof -
  let ?fixed = "[service, item, time_text x m, show_nat (unat ty)]"
  have len: "length (make_fid_map cs) = 4 + length cs"
    by (simp add: make_fid_map_distinct [OF cs] fixed_columns_def)
  have "put_fields (make_fid_map cs) fs (?fixed @ map csv_cell (replicate (length cs) [])) =
      Some (?fixed @ map csv_cell (map2 (\<lambda>c v. last_text c fs v) cs (replicate (length cs) [])))"
    by (rule put_fields_eq [OF cs fs]) simp_all
  moreover have "map2 (\<lambda>c v. last_text c fs v) cs (replicate (length cs) []) = map (\<lambda>c. last_text c fs []) cs"
    by (simp add: list_eq_iff_nth_eq)
  moreover have "replicate (4 + length cs) [] = [[], [], [], []] @ replicate (length cs) ([] :: string)"
    by (simp add: eval_nat_numeral)
  ultimately show ?thesis
    by (simp add: make_row_def len put_def row_spec_def eval_nat_numeral comp_def)
qed

section \<open>The rows of an archive\<close>

definition record_row :: "etl \<Rightarrow> string list \<Rightarrow> string list \<Rightarrow> bool \<times> Marketfeed \<Rightarrow> (string \<times> string) option" where
  "record_row x symbols cs r =
     (case readable x symbols r of
        None \<Rightarrow> None
      | Some fs \<Rightarrow>
          (case (mf_service_name (snd r), item_name (snd r), message_type (snd r)) of
             (Some service, Some item, Some ty) \<Rightarrow>
               Some (service, JoinString (row_spec x cs service item ty (snd r) fs) (CHR '','') @ newline)
           | _ \<Rightarrow> None))"

definition rows_of :: "etl \<Rightarrow> string list \<Rightarrow> string list \<Rightarrow> archive_input \<Rightarrow> (string \<times> string) list" where
  "rows_of x symbols cs rs = List.map_filter (record_row x symbols cs) rs"

definition service_text :: "string \<Rightarrow> (string \<times> string) list \<Rightarrow> string" where
  "service_text k rows = concat (map snd (filter (\<lambda>r. fst r = k) rows))"

lemma rows_of_simps [simp]:
  "rows_of x symbols cs [] = []"
  "rows_of x symbols cs (r # rs) =
     (case record_row x symbols cs r of None \<Rightarrow> rows_of x symbols cs rs
      | Some row \<Rightarrow> row # rows_of x symbols cs rs)"
  by (auto simp: rows_of_def List.map_filter_def split: option.split)

lemma service_text_simps [simp]:
  "service_text k [] = []"
  "service_text k (r # rs) = (if fst r = k then snd r @ service_text k rs else service_text k rs)"
  by (auto simp: service_text_def)

lemma write_rows_step:
  assumes cs: "distinct cs" "set cs \<inter> set fixed_names = {}" and r: "record_fids x symbols r \<subseteq> set cs"
  shows "write_rows x symbols (make_fid_map cs) (r # rs) outs i =
     (case record_row x symbols cs r of
        None \<Rightarrow> write_rows x symbols (make_fid_map cs) rs outs i
      | Some (k, s) \<Rightarrow>
          Option.bind (append_out k s outs)
            (\<lambda>outs. write_rows x symbols (make_fid_map cs) rs outs (Suc i)))"
proof (cases "readable x symbols r")
  case None
  then show ?thesis
    by (cases r) (auto simp: record_row_def readable_def split: if_splits option.splits)
next
  case (Some fs)
  then have "\<forall>f\<in>set fs. fld_name f \<in> set cs" using r by (auto simp: record_fids_def)
  note row = make_row_eq [OF cs this]
  obtain v m where rm: "r = (v, m)" by (cases r)
  have "v" "\<not> filtered symbols m" "unpack x (buffer_of m) = Some fs"
    using Some rm by (auto simp: readable_def split: if_splits)
  then show ?thesis using Some
    by (simp add: rm record_row_def row cong: option.case_cong split: option.split)
qed

text \<open>The second pass writes these rows, as one list of lines, and counts them.\<close>

lemma write_rows_eq:
  assumes cs: "distinct cs" "set cs \<inter> set fixed_names = {}"
    and "\<forall>r\<in>set rs. record_fids x symbols r \<subseteq> set cs"
  shows "write_rows x symbols (make_fid_map cs) rs outs i =
     map_option (\<lambda>u. (u, i + length (rows_of x symbols cs rs))) (write_lines (rows_of x symbols cs rs) outs)"
  using assms(3)
proof (induction rs arbitrary: outs i)
  case (Cons r rs)
  have r: "record_fids x symbols r \<subseteq> set cs" using Cons.prems by simp
  show ?case
  proof (cases "record_row x symbols cs r")
    case None
    with Cons show ?thesis by (simp add: write_rows_step [OF cs r])
  next
    case (Some row)
    obtain k s where row: "row = (k, s)" by (cases row)
    show ?thesis
      using Cons Some row by (cases "append_out k s outs") (simp_all add: write_rows_step [OF cs r])
  qed
qed simp

section \<open>The streams and the files\<close>

abbreviation services :: "outputs \<Rightarrow> string set" where
  "services outs \<equiv> dom (map_of (service_map outs))"

text \<open>What one line changes, with a single stream at work.\<close>

lemma append_outE:
  assumes "append_out k s outs = Some outs'"
  obtains st where "map_of (service_map outs) k = Some st"
    and "map_of (service_map outs') = (map_of (service_map outs))(k \<mapsto> fst (stream_out s st (out_files outs)))"
    and "out_files outs' = snd (stream_out s st (out_files outs))"
  using assms by (auto simp: append_out_def update_conv' split: option.splits prod.splits)

lemma append_out_eq_None: "append_out k s outs = None \<longleftrightarrow> k \<notin> services outs"
  by (auto simp: append_out_def split: option.split prod.split)

lemma append_out_services: "append_out k s outs = Some outs' \<Longrightarrow> services outs' = services outs"
  by (erule append_outE) auto

lemma write_lines_eq_None: "write_lines ls outs = None \<longleftrightarrow> \<not> fst ` set ls \<subseteq> services outs"
proof (induction ls arbitrary: outs)
  case (Cons l ls)
  obtain k s where l: "l = (k, s)" by (cases l)
  show ?case
  proof (cases "append_out k s outs")
    case None
    then show ?thesis using append_out_eq_None [of k s outs] by (simp add: l)
  next
    case (Some u)
    then have "k \<in> services outs" using append_out_eq_None [of k s outs] by auto
    with Some Cons.IH [of u] append_out_services [OF Some] show ?thesis by (simp add: l)
  qed
qed simp

lemma write_lines_services: "write_lines ls outs = Some outs' \<Longrightarrow> services outs' = services outs"
proof (induction ls arbitrary: outs)
  case (Cons l ls)
  obtain k s where l: "l = (k, s)" by (cases l)
  from Cons.prems obtain u where u: "append_out k s outs = Some u" "write_lines ls u = Some outs'"
    by (auto simp: l bind_eq_Some_conv)
  from Cons.IH [OF u(2)] append_out_services [OF u(1)] show ?case by (simp only:)
qed simp

text \<open>A service that no other service shares its file with.\<close>

definition owns :: "outputs \<Rightarrow> string \<Rightarrow> string \<Rightarrow> string \<Rightarrow> bool" where
  "owns outs k f content =
     (map_of (service_map outs) k = Some \<lparr>os_file = Some f, os_pos = length content\<rparr> \<and>
      out_files outs f = Some content \<and>
      (\<forall>k' st. map_of (service_map outs) k' = Some st \<and> os_file st = Some f \<longrightarrow> k' = k))"

lemma write_at_end [simp]: "write_at (length content) s content = content @ s"
  by (simp add: write_at_def)

lemma stream_out_file [simp]: "os_file (fst (stream_out s st files)) = os_file st"
  by (simp add: stream_out_def split: option.split)

lemma stream_out_other: "os_file st \<noteq> Some f \<Longrightarrow> snd (stream_out s st files) f = files f"
  by (auto simp: stream_out_def split: option.split)

lemma append_out_file:
  assumes "append_out k s outs = Some outs'" and "map_of (service_map outs') k' = Some st'"
  obtains st where "map_of (service_map outs) k' = Some st" and "os_file st = os_file st'"
  using assms(1)
proof (rule append_outE)
  fix st
  assume st: "map_of (service_map outs) k = Some st"
    and m: "map_of (service_map outs') = (map_of (service_map outs))(k \<mapsto> fst (stream_out s st (out_files outs)))"
  show thesis
  proof (cases "k' = k")
    case True
    with assms(2) have "st' = fst (stream_out s st (out_files outs))" by (simp add: m)
    with True st show thesis by (intro that [of st]) simp_all
  qed (use assms(2) that [of st'] in \<open>simp add: m\<close>)
qed

lemma owns_append:
  assumes app: "append_out k' s outs = Some outs'" and owns: "owns outs k f content"
  shows "owns outs' k f (if k' = k then content @ s else content)"
  using app
proof (rule append_outE)
  fix st
  assume st: "map_of (service_map outs) k' = Some st"
    and m: "map_of (service_map outs') = (map_of (service_map outs))(k' \<mapsto> fst (stream_out s st (out_files outs)))"
    and files: "out_files outs' = snd (stream_out s st (out_files outs))"
  have only: "k'' = k" if "map_of (service_map outs') k'' = Some st' \<and> os_file st' = Some f" for k'' st'
  proof -
    from that have "map_of (service_map outs') k'' = Some st'" "os_file st' = Some f" by blast+
    with append_out_file [OF app this(1)] obtain st0
      where "map_of (service_map outs) k'' = Some st0" "os_file st0 = Some f" by metis
    with owns show ?thesis unfolding owns_def by blast
  qed
  have own: "map_of (service_map outs) k = Some \<lparr>os_file = Some f, os_pos = length content\<rparr>"
    "out_files outs f = Some content" using owns unfolding owns_def by blast+
  have "map_of (service_map outs') k = Some \<lparr>os_file = Some f, os_pos = length (if k' = k then content @ s else content)\<rparr>"
  proof (cases "k' = k")
    case True
    with own(1) st have "st = \<lparr>os_file = Some f, os_pos = length content\<rparr>" by simp
    with True show ?thesis by (simp add: m stream_out_def)
  qed (simp add: m own(1))
  moreover have "out_files outs' f = Some (if k' = k then content @ s else content)"
  proof (cases "k' = k")
    case True
    with own(1) st have "st = \<lparr>os_file = Some f, os_pos = length content\<rparr>" by simp
    with True own(2) show ?thesis by (simp add: files stream_out_def)
  next
    case False
    have "os_file st \<noteq> Some f" using owns st False unfolding owns_def by blast
    with own(2) False show ?thesis by (simp add: files stream_out_other)
  qed
  ultimately show ?thesis unfolding owns_def using only by blast
qed

lemma owns_lines:
  "write_lines ls outs = Some outs' \<Longrightarrow> owns outs k f content \<Longrightarrow> owns outs' k f (content @ service_text k ls)"
proof (induction ls arbitrary: outs content)
  case (Cons l ls)
  obtain k' s where l: "l = (k', s)" by (cases l)
  from Cons.prems(1) obtain u where u: "append_out k' s outs = Some u" "write_lines ls u = Some outs'"
    by (auto simp: l bind_eq_Some_conv)
  from Cons.IH [OF u(2) owns_append [OF u(1) Cons.prems(2)]] show ?case by (simp add: l split: if_splits)
qed simp

text \<open>A file that no stream has open.\<close>

definition untouched :: "outputs \<Rightarrow> string \<Rightarrow> bool" where
  "untouched outs f =
     (out_files outs f = None \<and> (\<forall>k st. map_of (service_map outs) k = Some st \<longrightarrow> os_file st \<noteq> Some f))"

lemma untouched_append: "append_out k s outs = Some outs' \<Longrightarrow> untouched outs f \<Longrightarrow> untouched outs' f"
  by (erule append_outE) (auto simp: untouched_def stream_out_def split: option.splits if_splits)

lemma untouched_lines: "write_lines ls outs = Some outs' \<Longrightarrow> untouched outs f \<Longrightarrow> untouched outs' f"
proof (induction ls arbitrary: outs)
  case (Cons l ls)
  then show ?case by (cases l) (auto simp: bind_eq_Some_conv dest: untouched_append)
qed simp

subsection \<open>Opening the files\<close>

lemma map_of_emplace: "map_of (emplace k v m) k' = (if k' = k \<and> map_of m k = None then Some v else map_of m k')"
  using map_of_eq_None_iff [of m k] by (auto simp: emplace_def map_add_def split: option.split)

abbreviation service_file :: "config_t \<Rightarrow> string \<Rightarrow> string" where
  "service_file cfg k \<equiv> fst (ReplaceStringPlaceholders (output_path cfg) [k] None)"

lemma open_outputs_map:
  "map_of (service_map (open_outputs x cfg ss outs)) k =
     (case map_of (service_map outs) k of
        Some st \<Rightarrow> Some st
      | None \<Rightarrow>
          (if k \<in> service_name ` set ss then Some \<lparr>os_file = open_file x (service_file cfg k), os_pos = 0\<rparr> else None))"
proof (induction ss arbitrary: outs)
  case (Cons s ss)
  then show ?case
    by (auto simp: open_output_def output_file_def map_of_emplace Let_def split: option.split prod.split)
qed (simp split: option.split)

lemma open_outputs_files:
  "out_files (open_outputs x cfg ss outs) f =
     (if \<exists>s\<in>set ss. open_file x (output_file cfg s) = Some f then Some [] else out_files outs f)"
proof (induction ss arbitrary: outs)
  case (Cons s ss)
  show ?case
    by (cases "open_file x (output_file cfg s)") (auto simp: Cons.IH open_output_def Let_def)
qed simp

lemma open_outputs_stream:
  "map_of (service_map (open_outputs x cfg ss no_outputs)) k =
     (if k \<in> service_name ` set ss then Some \<lparr>os_file = open_file x (service_file cfg k), os_pos = 0\<rparr> else None)"
  by (simp add: open_outputs_map no_outputs_def)

lemma open_outputs_services: "services (open_outputs x cfg ss no_outputs) = service_name ` set ss"
  by (auto simp: open_outputs_stream split: if_splits)

text \<open>A session whose file opens and is the file of no other service.\<close>

definition exclusive_file :: "etl \<Rightarrow> config_t \<Rightarrow> session_config_t \<Rightarrow> string \<Rightarrow> bool" where
  "exclusive_file x cfg s f =
     (open_file x (output_file cfg s) = Some f \<and>
      (\<forall>s'\<in>set (sessions cfg). open_file x (output_file cfg s') = Some f \<longrightarrow> service_name s' = service_name s))"

lemma open_outputs_owns:
  assumes "s \<in> set (sessions cfg)" and "exclusive_file x cfg s f"
  shows "owns (open_outputs x cfg (sessions cfg) no_outputs) (service_name s) f []"
  unfolding owns_def
proof (intro conjI allI impI)
  have f: "open_file x (service_file cfg (service_name s)) = Some f"
    and excl: "\<And>s'. s' \<in> set (sessions cfg) \<Longrightarrow> open_file x (service_file cfg (service_name s')) = Some f \<Longrightarrow>
      service_name s' = service_name s"
    using assms(2) by (simp_all add: exclusive_file_def output_file_def)
  show "map_of (service_map (open_outputs x cfg (sessions cfg) no_outputs)) (service_name s) =
      Some \<lparr>os_file = Some f, os_pos = length []\<rparr>"
    using assms(1) f by (simp add: open_outputs_stream)
  show "out_files (open_outputs x cfg (sessions cfg) no_outputs) f = Some []"
    using assms(1) f by (auto simp: open_outputs_files output_file_def)
  fix k st
  assume "map_of (service_map (open_outputs x cfg (sessions cfg) no_outputs)) k = Some st \<and> os_file st = Some f"
  then show "k = service_name s"
    using excl by (auto simp: open_outputs_stream split: if_splits)
qed

lemma open_outputs_untouched:
  assumes "\<forall>s\<in>set (sessions cfg). open_file x (output_file cfg s) \<noteq> Some f"
  shows "untouched (open_outputs x cfg (sessions cfg) no_outputs) f"
  using assms
  by (auto simp: untouched_def open_outputs_stream open_outputs_files no_outputs_def [THEN arg_cong [of _ _ out_files]]
      output_file_def split: if_splits)

section \<open>The whole output\<close>

lemma service_text_keys:
  "distinct ks \<Longrightarrow> service_text k (map (\<lambda>k. (k, h)) ks) = (if k \<in> set ks then h else [])"
  by (induction ks) auto

lemma service_text_headers:
  assumes "distinct (map fst m)"
  shows "service_text k (map (\<lambda>(service, st). (service, h)) m) = (if k \<in> set (map fst m) then h else [])"
proof -
  have "map (\<lambda>(service, st). (service, h)) m = map (\<lambda>k. (k, h)) (map fst m)" by auto
  then show ?thesis by (simp only: service_text_keys [OF assms])
qed

lemma open_outputs_distinct:
  "distinct (map fst (service_map outs)) \<Longrightarrow> distinct (map fst (service_map (open_outputs x cfg ss outs)))"
proof (induction ss arbitrary: outs)
  case (Cons s ss)
  then show ?case by (auto simp: emplace_def split: prod.split)
qed simp

lemma headers_written:
  fixes x cfg defines "outs \<equiv> open_outputs x cfg (sessions cfg) no_outputs"
  obtains u where "write_lines (map (\<lambda>(service, st). (service, h)) (service_map outs)) outs = Some u"
    and "services u = service_name ` set (sessions cfg)"
    and "\<And>s f. s \<in> set (sessions cfg) \<Longrightarrow> exclusive_file x cfg s f \<Longrightarrow> owns u (service_name s) f h"
    and "\<And>f. \<forall>s\<in>set (sessions cfg). open_file x (output_file cfg s) \<noteq> Some f \<Longrightarrow> untouched u f"
proof -
  let ?ls = "map (\<lambda>(service, st). (service, h)) (service_map outs)"
  have keys: "set (map fst (service_map outs)) = service_name ` set (sessions cfg)"
    using open_outputs_services [of x cfg "sessions cfg"] by (simp add: outs_def dom_map_of_conv_image_fst)
  have "fst ` set ?ls = set (map fst (service_map outs))" by (force simp: image_iff)
  then have "write_lines ?ls outs \<noteq> None"
    by (simp add: write_lines_eq_None dom_map_of_conv_image_fst)
  then obtain u where u: "write_lines ?ls outs = Some u" by blast
  have "distinct (map fst (service_map outs))"
    unfolding outs_def by (rule open_outputs_distinct) (simp add: no_outputs_def)
  note header = service_text_headers [OF this, of _ h, unfolded keys]
  show ?thesis
  proof (rule that [OF u])
    show "services u = service_name ` set (sessions cfg)"
      using write_lines_services [OF u] open_outputs_services by (simp add: outs_def)
    show "owns u (service_name s) f h" if "s \<in> set (sessions cfg)" "exclusive_file x cfg s f" for s f
      using owns_lines [OF u open_outputs_owns [OF that, folded outs_def]] header [of "service_name s"] that(1)
      by simp
    show "untouched u f" if "\<forall>s\<in>set (sessions cfg). open_file x (output_file cfg s) \<noteq> Some f" for f
      by (rule untouched_lines [OF u open_outputs_untouched [OF that, folded outs_def]])
  qed
qed

text \<open>What Convert does, as far as the order of the names only permutes them and no field has
  the name of a fixed column: nothing, when a row has no service in the configuration.\<close>

definition fields_ok :: "etl \<Rightarrow> config_t \<Rightarrow> archive_input \<Rightarrow> string list \<Rightarrow> bool" where
  "fields_ok x cfg rs cs =
     (cs = fid_order x (find_fids x (instruments cfg) rs []) \<and>
      mset cs = mset (find_fids x (instruments cfg) rs []) \<and>
      (\<Union>r\<in>set rs. record_fids x (instruments cfg) r) \<inter> set fixed_names = {})"

lemma fields_okD:
  assumes "fields_ok x cfg rs cs"
  shows "distinct cs" and "set cs = (\<Union>r\<in>set rs. record_fids x (instruments cfg) r)" and "set cs \<inter> set fixed_names = {}"
proof -
  from assms have m: "mset cs = mset (find_fids x (instruments cfg) rs [])" unfolding fields_ok_def by blast
  show "distinct cs"
    using mset_eq_imp_distinct_iff [OF m] distinct_find_fids [of "[]" x "instruments cfg" rs] by simp
  show "set cs = (\<Union>r\<in>set rs. record_fids x (instruments cfg) r)"
    using mset_eq_setD [OF m] by (simp add: set_find_fids)
  with assms show "set cs \<inter> set fixed_names = {}" unfolding fields_ok_def by argo
qed

lemma Convert_cases:
  assumes ok: "fields_ok x cfg rs cs"
  obtains (unknown) "\<not> fst ` set (rows_of x (instruments cfg) cs rs) \<subseteq> service_name ` set (sessions cfg)"
      "Convert x cfg (Some rs) = None"
  | (written) outs where "fst ` set (rows_of x (instruments cfg) cs rs) \<subseteq> service_name ` set (sessions cfg)"
      "Convert x cfg (Some rs) = Some (outs, length (rows_of x (instruments cfg) cs rs))"
      "\<And>s f. s \<in> set (sessions cfg) \<Longrightarrow> exclusive_file x cfg s f \<Longrightarrow>
         out_files outs f = Some (header_line cs @ service_text (service_name s) (rows_of x (instruments cfg) cs rs))"
      "\<And>f. \<forall>s\<in>set (sessions cfg). open_file x (output_file cfg s) \<noteq> Some f \<Longrightarrow> out_files outs f = None"
proof -
  let ?rows = "rows_of x (instruments cfg) cs rs"
  obtain u where u: "write_lines (map (\<lambda>(service, st). (service, header_line cs))
        (service_map (open_outputs x cfg (sessions cfg) no_outputs))) (open_outputs x cfg (sessions cfg) no_outputs) = Some u"
    and services: "services u = service_name ` set (sessions cfg)"
    and owned: "\<And>s f. s \<in> set (sessions cfg) \<Longrightarrow> exclusive_file x cfg s f \<Longrightarrow> owns u (service_name s) f (header_line cs)"
    and others: "\<And>f. \<forall>s\<in>set (sessions cfg). open_file x (output_file cfg s) \<noteq> Some f \<Longrightarrow> untouched u f"
    using headers_written [where x = x and cfg = cfg and h = "header_line cs"] by blast
  have "fid_order x (find_fids x (instruments cfg) rs []) = cs" using ok by (simp add: fields_ok_def)
  then have "Convert x cfg (Some rs) = write_rows x (instruments cfg) (make_fid_map cs) rs u 0"
    by (simp add: Convert_def Let_def u)
  also have "\<dots> = map_option (\<lambda>v. (v, length ?rows)) (write_lines ?rows u)"
    by (subst write_rows_eq [OF fields_okD(1) [OF ok] fields_okD(3) [OF ok]])
      (auto simp: fields_okD(2) [OF ok] simp del: set_map)
  finally have conv: "Convert x cfg (Some rs) = map_option (\<lambda>v. (v, length ?rows)) (write_lines ?rows u)" .
  show ?thesis
  proof (cases "write_lines ?rows u")
    case None
    then show ?thesis
      using unknown conv write_lines_eq_None [of ?rows u] services by simp
  next
    case (Some outs)
    have owns: "owns outs (service_name s) f (header_line cs @ service_text (service_name s) ?rows)"
      if "s \<in> set (sessions cfg)" "exclusive_file x cfg s f" for s f
      by (rule owns_lines [OF Some owned [OF that]])
    show ?thesis
    proof (rule written [of outs])
      show "fst ` set ?rows \<subseteq> service_name ` set (sessions cfg)"
        using write_lines_eq_None [of ?rows u] Some services by simp
    qed (use conv Some owns untouched_lines [OF Some others] in \<open>auto simp: owns_def untouched_def\<close>)
  qed
qed

definition demo_fields :: "string \<Rightarrow> tib_field list option" where
  "demo_fields b =
     (if b = [] then None
      else Some [\<lparr>fld_name = ''BID'', fld_text = Some b\<rparr>, \<lparr>fld_name = ''SEQ'', fld_text = None\<rparr>,
                 \<lparr>fld_name = ''ASK'', fld_text = Some ''1,5''\<rparr>])"

definition demo_etl :: etl where
  "demo_etl =
     \<lparr>unpack = demo_fields, fid_order = rev,
      localtime = (\<lambda>t. \<lparr>tm_year = 113, tm_mon = 8, tm_mday = 7, tm_hour = 1, tm_min = 30, tm_sec = 5\<rparr>),
      open_file = (\<lambda>name. if name = [] then None else Some name)\<rparr>"

definition demo_record :: "string \<Rightarrow> string \<Rightarrow> string \<Rightarrow> bool \<times> Marketfeed" where
  "demo_record service item b =
     (True, Marketfeed_Clear
        \<lparr>tv_sec := Some 1378517405, tv_usec := Some 42, message_type := Some 340,
         mf_service_name := Some service, item_name := Some item, packed_buffer := Some b\<rparr>)"

definition demo_config :: config_t where
  "demo_config = new_config_t
     \<lparr>output_path := ''$1.csv'',
      sessions := [new_session_config\<lparr>service_name := ''A''\<rparr>, new_session_config\<lparr>service_name := ''B''\<rparr>]\<rparr>"

definition demo_archive :: archive_input where
  "demo_archive = [demo_record ''A'' ''X'' ''7'', demo_record ''A'' ''Y'' [], demo_record ''B'' ''Z'' ''9'']"

lemma demo_fids:
  "instruments demo_config = []"
  "find_fids demo_etl [] demo_archive [] = [''BID'', ''SEQ'', ''ASK'']"
  "fid_order demo_etl [''BID'', ''SEQ'', ''ASK''] = [''ASK'', ''SEQ'', ''BID'']"
  "map service_name (sessions demo_config) = [''A'', ''B'']"
  by code_simp+

lemma demo_rows:
  "rows_of demo_etl [] [''ASK'', ''SEQ'', ''BID''] demo_archive =
     [(''A'', ''A,X,2013-09-07T01:30:05.000042,340,\"1,5\",,7'' @ newline),
      (''B'', ''B,Z,2013-09-07T01:30:05.000042,340,\"1,5\",,9'' @ newline)]"
  by code_simp

lemma demo_files:
  "map (\<lambda>s. open_file demo_etl (output_file demo_config s)) (sessions demo_config) = [Some ''A.csv'', Some ''B.csv'']"
  by code_simp

lemma demo_sessions: "sessions demo_config =
    [new_session_config\<lparr>service_name := ''A''\<rparr>, new_session_config\<lparr>service_name := ''B''\<rparr>]"
  by (simp add: demo_config_def)

lemma demo_names: "(\<Union>r\<in>set demo_archive. record_fids demo_etl [] r) \<inter> set fixed_names = {}"
proof -
  have "set (find_fids demo_etl [] demo_archive []) = {''BID'', ''SEQ'', ''ASK''}"
    by (simp add: demo_fids)
  then show ?thesis by (simp add: set_find_fids fixed_columns_def)
qed


end
