(* ===== verification/Capture.thy ===== *)
theory Capture
  imports Convert_Props
begin

text \<open>
  Capture and conversion together: Convert exports what a run of the consumer archives, a CSV
  reader gets the values of a row back, and the failures of Convert: a field named like a fixed
  column, a record of a service that is not configured, outputs that share a file or do not open.
\<close>

section \<open>What a run archives\<close>

lemma processEvent_archive:
  assumes "processEvent api ev (c, w) = Some t"
  shows "w_archive (snd t) = w_archive w \<or>
     (\<exists>e. w_archive (snd t) = w_archive w @ [record_of_event api (w_now w) e])"
proof (cases "\<exists>e. ev = MarketDataItemEvent e")
  case True
  then obtain e where "ev = MarketDataItemEvent e" by blast
  then show ?thesis using md_event_archive [of api e c w t] assms by (auto split: if_splits)
next
  case False
  then have "quiet_frame (c, w) t" using processEvent_quiet [OF assms] by blast
  then show ?thesis by (simp add: quiet_frame_def)
qed

lemma request_archive: "request_frame s t \<Longrightarrow> w_archive (snd t) = w_archive (snd s)"
  by (cases s; cases t) (simp add: request_frame_def core_def)

lemma CreateItemStream_archive:
  assumes "CreateItemStream api name a s = Some (r, t)"
  shows "w_archive (snd t) = w_archive (snd s)"
proof -
  obtain c w where s: "s = (c, w)" by (cases s)
  from assms [unfolded s] show ?thesis
  proof (cases rule: CreateItemStream_cases)
    case (1 st s')
    have "w_archive (snd s') = w_archive w"
      using 1(2) request_archive [OF SendItemRequest_frame] by fastforce
    then show ?thesis using 1(3) by (cases s') (auto simp: s)
  next
    case (2 st e)
    then show ?thesis using request_archive [OF SendItemRequest_frame [OF 2(3)]] by (simp add: s)
  qed
qed

lemma step_archive:
  "consumer_step api s t \<Longrightarrow> w_archive (snd t) = w_archive (snd s) \<or>
     (\<exists>now e. w_archive (snd t) = w_archive (snd s) @ [record_of_event api now e])"
proof (induction rule: consumer_step.induct)
  case (event ev s t)
  then show ?case using processEvent_archive by (cases s) fastforce
qed (auto simp: CreateItemStream_archive request_archive [OF Resubscribe_frame])

definition exportable :: "Marketfeed \<Rightarrow> bool" where
  "exportable m = (mf_service_name m \<noteq> None \<and> item_name m \<noteq> None \<and> message_type m \<noteq> None)"

lemma record_exportable [simp]: "exportable (record_of_event api now e)"
  by (simp add: exportable_def record_of_event_def Let_def)

interpretation archive_sys: invariant_system
  "\<lambda>s. started api s \<and> w_archive (snd s) = []" "consumer_step api" "\<lambda>s. \<forall>m\<in>set (w_archive (snd s)). exportable m"
proof
  fix s t assume "\<forall>m\<in>set (w_archive (snd s)). exportable m" "consumer_step api s t"
  then show "\<forall>m\<in>set (w_archive (snd t)). exportable m" using step_archive [of api s t] by auto
qed simp

section \<open>Everything captured is exported\<close>

definition captured :: "Marketfeed list \<Rightarrow> archive_input" where
  "captured ms = map (Pair True) ms"

lemma readable_no_filter: "readable x [] (True, m) = unpack x (buffer_of m)"
  by (simp add: readable_def filtered_def split: option.split)

text \<open>The line of a captured record, and the records that have one.\<close>

definition unpacks :: "etl \<Rightarrow> Marketfeed \<Rightarrow> bool" where
  "unpacks x m = (unpack x (buffer_of m) \<noteq> None)"

definition record_line :: "etl \<Rightarrow> string list \<Rightarrow> Marketfeed \<Rightarrow> string" where
  "record_line x cs m =
     JoinString (row_spec x cs (the (mf_service_name m)) (the (item_name m)) (the (message_type m)) m
       (the (unpack x (buffer_of m)))) (CHR '','') @ newline"

lemma rows_of_captured:
  assumes "\<forall>m\<in>set ms. exportable m"
  shows "rows_of x [] cs (captured ms) =
     map (\<lambda>m. (the (mf_service_name m), record_line x cs m)) (filter (unpacks x) ms)"
  using assms
proof (induction ms)
  case (Cons m ms)
  then obtain sv it ty where "mf_service_name m = Some sv" "item_name m = Some it" "message_type m = Some ty"
    by (auto simp: exportable_def)
  then show ?case using Cons
    by (auto simp: captured_def record_row_def readable_no_filter record_line_def unpacks_def split: option.split)
qed (simp add: captured_def)

lemma service_text_captured:
  "service_text k (map (\<lambda>m. (f m, g m)) ms) = concat (map g (filter (\<lambda>m. f m = k) ms))"
  by (induction ms) auto

text \<open>C3: The capture writes what the conversion exports: for every run of a consumer that starts
  with an empty archive, Convert without a symbol filter reads its archive and writes, to the
  file of each session, the header and the line of every archived record of its service whose
  payload can be unpacked, in the order of capture; no record is skipped for a missing member.
  Required is what Convert requires: the file opens and no other service has it, the order of the
  names only permutes them, no field has the name of a fixed column, and the services of the
  records are those of the sessions.\<close>

theorem captured_records_are_exported:
  assumes run: "started api s" "w_archive (snd s) = []" "(consumer_step api)\<^sup>*\<^sup>* s t"
    and all: "instruments cfg = []"
    and cs: "cs = fid_order x (find_fids x [] (captured (w_archive (snd t))) [])"
    and order: "mset cs = mset (find_fids x [] (captured (w_archive (snd t))) [])"
    and names: "set cs \<inter> set fixed_names = {}"
    and known: "\<forall>m\<in>set (w_archive (snd t)). unpacks x m \<longrightarrow> the (mf_service_name m) \<in> service_name ` set (sessions cfg)"
  shows "\<exists>outs. Convert x cfg (Some (captured (w_archive (snd t)))) =
        Some (outs, length (filter (unpacks x) (w_archive (snd t)))) \<and>
      (\<forall>se\<in>set (sessions cfg). \<forall>f. exclusive_file x cfg se f \<longrightarrow>
         out_files outs f = Some (header_line cs @
           concat (map (record_line x cs)
             (filter (\<lambda>m. unpacks x m \<and> mf_service_name m = Some (service_name se)) (w_archive (snd t))))))"
proof -
  let ?ms = "w_archive (snd t)"
  have exportable: "\<forall>m\<in>set ?ms. exportable m"
    by (rule archive_sys.reach_inv) (use run in auto)
  note rows = rows_of_captured [OF this, of x cs]
  have ok: "fields_ok x cfg (captured ?ms) cs"
    using cs order names mset_eq_setD [OF order] by (simp add: fields_ok_def all set_find_fids)
  have texts: "service_text k (rows_of x [] cs (captured ?ms)) =
      concat (map (record_line x cs) (filter (\<lambda>m. unpacks x m \<and> mf_service_name m = Some k) ?ms))" for k
  proof -
    have "filter (\<lambda>m. the (mf_service_name m) = k) (filter (unpacks x) ?ms) =
        filter (\<lambda>m. unpacks x m \<and> mf_service_name m = Some k) ?ms"
      unfolding filter_filter
      by (rule filter_cong) (use exportable in \<open>auto simp: exportable_def\<close>)
    then show ?thesis by (simp add: rows service_text_captured)
  qed
  from ok show ?thesis
  proof (cases rule: Convert_cases)
    case unknown
    with known show ?thesis by (auto simp: all rows)
  next
    case (written outs)
    have "length (rows_of x [] cs (captured ?ms)) = length (filter (unpacks x) ?ms)" by (simp add: rows)
    with written show ?thesis by (auto simp: all texts)
  qed
qed

definition export_config :: config_t where
  "export_config = new_config_t\<lparr>output_path := ''$1.csv'', sessions := [new_session_config\<lparr>service_name := ''IDN_RDF''\<rparr>]\<rparr>"

theorem captured_records_are_exported_witness:
  "\<exists>s t outs. started granting_api s \<and> (consumer_step granting_api)\<^sup>*\<^sup>* s t \<and>
     Convert demo_etl export_config (Some (captured (w_archive (snd t)))) = Some (outs, 3) \<and>
     (\<exists>ls. out_files outs ''IDN_RDF.csv'' = Some (''service,symbol,time,type,ASK,SEQ,BID'' @ newline @ ls))"
proof -
  let ?cs = "[''ASK'', ''SEQ'', ''BID'']"
  let ?good = "\<lambda>t. list_all (\<lambda>m. mf_service_name m = Some ''IDN_RDF'') (w_archive (snd t)) \<and>
      length (filter (\<lambda>m. unpack demo_etl (buffer_of m) \<noteq> None) (w_archive (snd t))) = 3 \<and>
      find_fids demo_etl [] (captured (w_archive (snd t))) [] = [''BID'', ''SEQ'', ''ASK'']"
  have "holds_after ?good (example_start ''ssled'' False)
      (consumer_run granting_api (two_streams @ images [0, 1, 0]))" by code_simp
  then obtain s t where st: "example_start ''ssled'' False = Some (Inr True, s)"
    "consumer_run granting_api (two_streams @ images [0, 1, 0]) s = Some t" "?good t"
    by (elim holds_afterE) (rule that, assumption+)
  note run = example_started(1) [OF st(1)] consumer_run_steps [OF st(2)]
  have "holds_after (\<lambda>s. w_archive (snd s) = []) (example_start ''ssled'' False) Some" by code_simp
  then have empty: "w_archive (snd s) = []" by (elim holds_afterE) (simp add: st(1))
  have cfg: "instruments export_config = []" "sessions export_config = [new_session_config\<lparr>service_name := ''IDN_RDF''\<rparr>]"
    by (simp_all add: export_config_def new_config_t_def)
  have opened: "map (\<lambda>s. open_file demo_etl (output_file export_config s)) (sessions export_config) = [Some ''IDN_RDF.csv'']"
    by code_simp
  then have excl: "exclusive_file demo_etl export_config (new_session_config\<lparr>service_name := ''IDN_RDF''\<rparr>) ''IDN_RDF.csv''"
    by (simp add: exclusive_file_def cfg)
  have header: "header_line ?cs @ ls = ''service,symbol,time,type,ASK,SEQ,BID'' @ newline @ ls" for ls
    by (simp add: header_line_def)
  have fids: "find_fids demo_etl [] (captured (w_archive (snd t))) [] = [''BID'', ''SEQ'', ''ASK'']" using st(3) by blast
  have known: "\<forall>m\<in>set (w_archive (snd t)). unpacks demo_etl m \<longrightarrow>
      the (mf_service_name m) \<in> service_name ` set (sessions export_config)"
    using st(3) by (auto simp: list_all_iff cfg)
  have "?cs = fid_order demo_etl [''BID'', ''SEQ'', ''ASK'']" by (simp add: demo_fids)
  moreover have "mset ?cs = mset [''BID'', ''SEQ'', ''ASK'']" by simp
  moreover have "set ?cs \<inter> set fixed_names = {}" by (simp add: fixed_columns_def)
  ultimately obtain outs where conv: "Convert demo_etl export_config (Some (captured (w_archive (snd t)))) =
        Some (outs, length (filter (unpacks demo_etl) (w_archive (snd t))))"
      and "\<forall>se\<in>set (sessions export_config). \<forall>f. exclusive_file demo_etl export_config se f \<longrightarrow>
         (\<exists>ls. out_files outs f = Some (header_line ?cs @ ls))"
    using captured_records_are_exported [OF run(1) empty run(2) cfg(1), of ?cs demo_etl, unfolded fids] known by blast
  moreover from this(2) excl have ls: "\<exists>ls. out_files outs ''IDN_RDF.csv'' = Some (header_line ?cs @ ls)"
    by (simp add: cfg)
  moreover have "length (filter (unpacks demo_etl) (w_archive (snd t))) = 3"
    using st(3) by (simp add: unpacks_def [abs_def])
  ultimately have "Convert demo_etl export_config (Some (captured (w_archive (snd t)))) = Some (outs, 3)" by simp
  with run ls show ?thesis unfolding header by blast
qed

section \<open>The failures of a conversion\<close>

text \<open>A record that would be exported under a service that is not one of the configured
  sessions makes the conversion write through the null stream that the lookup in the map of
  the services creates.\<close>

theorem convert_unknown_service:
  assumes "mset (fid_order x (find_fids x (instruments cfg) rs [])) = mset (find_fids x (instruments cfg) rs [])"
    and "(\<Union>r\<in>set rs. record_fids x (instruments cfg) r) \<inter> set fixed_names = {}"
    and "\<not> fst ` set (rows_of x (instruments cfg) (fid_order x (find_fids x (instruments cfg) rs [])) rs)
           \<subseteq> service_name ` set (sessions cfg)"
  shows "Convert x cfg (Some rs) = None"
proof -
  let ?cs = "fid_order x (find_fids x (instruments cfg) rs [])"
  have "fields_ok x cfg rs ?cs" using assms(1,2) by (simp add: fields_ok_def)
  then show ?thesis by (cases rule: Convert_cases) (use assms(3) in blast)+
qed

theorem convert_unknown_service_witness:
  "Convert demo_etl new_config_t (Some demo_archive) = None"
proof -
  have cfg: "instruments new_config_t = []" "sessions new_config_t = []" by code_simp+
  have perm: "mset [''ASK'', ''SEQ'', ''BID''] = mset [''BID'', ''SEQ'', ''ASK'']" by simp
  have "set (find_fids demo_etl [] demo_archive []) = {''BID'', ''SEQ'', ''ASK''}"
    by (simp add: demo_fids)
  then have names: "(\<Union>r\<in>set demo_archive. record_fids demo_etl [] r) \<inter> set fixed_names = {}"
    by (simp add: set_find_fids fixed_columns_def)
  show ?thesis
    by (rule convert_unknown_service [of demo_etl new_config_t demo_archive, unfolded cfg demo_fids])
      (use perm names in \<open>simp_all add: demo_rows\<close>)
qed

subsection \<open>Names of the fixed columns\<close>

lemma number_columns_keeps: "map_of m c = Some j \<Longrightarrow> map_of (number_columns cs i m) c = Some j"
  by (induction cs arbitrary: i m) (auto simp: emplace_def map_add_Some_iff)

lemma map_of_number_columns:
  assumes "distinct cs" and "k < length cs" and "cs ! k \<notin> set (map fst m)"
  shows "map_of (number_columns cs i m) (cs ! k) = Some (i + k)"
  using assms
proof (induction cs arbitrary: i m k)
  case (Cons d cs)
  show ?case
  proof (cases k)
    case 0
    have "map_of (emplace d i m) d = Some i"
      using Cons.prems(3) 0 by (simp add: emplace_def map_add_Some_iff map_of_eq_None_iff)
    with 0 show ?thesis by (simp add: number_columns_keeps)
  next
    case (Suc j)
    have "cs ! j \<notin> set (map fst (emplace d i m))"
      using Cons.prems Suc by (auto simp: emplace_def)
    with Cons Suc show ?thesis by simp
  qed
qed simp

lemma length_put: "put i s xs = Some ys \<Longrightarrow> length ys = length xs"
  by (auto simp: put_def split: if_splits)

lemma put_fields_out_of_range:
  assumes "f \<in> set fs" and "fld_text f \<noteq> None" and "map_of fid_map (fld_name f) = Some j" and "length columns \<le> j"
  shows "put_fields fid_map fs columns = None"
  using assms(1,4)
proof (induction fs arbitrary: columns)
  case (Cons g fs)
  have rest: "put_fields fid_map fs ys = None" if "put i b columns = Some ys" "f \<in> set fs" for i b ys
    using Cons that by (simp add: length_put [OF that(1)])
  show ?case
  proof (cases "f = g")
    case True
    with assms(2,3) Cons.prems show ?thesis by (auto simp: put_def split: option.splits)
  next
    case False
    with Cons.prems have f: "f \<in> set fs" by simp
    have "Option.bind (put i b columns) (put_fields fid_map fs) = None" for i b
      using rest [OF _ f] by (cases "put i b columns") auto
    with Cons.IH [OF f Cons.prems(2)] show ?thesis by (simp split: option.split)
  qed
qed simp

text \<open>When a field has the name of a fixed column (service, symbol, time or type), the columns
  after it are numbered one too high for each such name, so a record with a value in the
  last column is written past the end of its row.\<close>

theorem convert_colliding_name:
  assumes "distinct cs" and "c \<in> set cs" and "c \<in> set fixed_names" and "cs \<noteq> []" and "last cs \<notin> set fixed_names"
    and "f \<in> set fs" and "fld_name f = last cs" and "fld_text f \<noteq> None"
  shows "make_row x (make_fid_map cs) service item ty m fs = None"
proof -
  have four: "length fixed_columns = 4" by (simp add: fixed_columns_def)
  let ?n = "length (make_fid_map cs)"
  have "length (filter (\<lambda>d. d \<notin> set fixed_names) cs) < length cs"
    using assms(2,3) by (intro length_filter_less) auto
  then have n: "?n < 4 + length cs" "4 \<le> ?n"
    by (simp_all add: make_fid_map_def length_number_columns [OF assms(1)] four)
  have last: "last cs = cs ! (length cs - 1)" using assms(4) by (simp add: last_conv_nth)
  have "map_of (make_fid_map cs) (last cs) = Some (4 + (length cs - 1))"
    unfolding make_fid_map_def last four
    by (rule map_of_number_columns) (use assms(1,4,5) last in \<open>auto simp del: set_map\<close>)
  then have out: "put_fields (make_fid_map cs) fs columns = None" if "length columns = ?n" for columns
    using that n assms(4,6,7,8) by (intro put_fields_out_of_range [of f]) (auto simp: Suc_le_eq)
  show ?thesis
    using n by (simp add: make_row_def put_def out)
qed

theorem convert_colliding_name_witness:
  "Convert (demo_etl\<lparr>unpack := (\<lambda>b. Some [\<lparr>fld_name = ''time'', fld_text = Some b\<rparr>,
        \<lparr>fld_name = ''BID'', fld_text = Some b\<rparr>]), fid_order := id\<rparr>) demo_config
      (Some [demo_record ''A'' ''X'' ''7'']) = None"
proof -
  let ?fs = "[\<lparr>fld_name = ''time'', fld_text = Some ''7''\<rparr>, \<lparr>fld_name = ''BID'', fld_text = Some ''7''\<rparr>]"
  let ?x = "demo_etl\<lparr>unpack := (\<lambda>b. Some [\<lparr>fld_name = ''time'', fld_text = Some b\<rparr>,
        \<lparr>fld_name = ''BID'', fld_text = Some b\<rparr>]), fid_order := id\<rparr>"
  let ?m = "snd (demo_record ''A'' ''X'' ''7'')"
  have row: "make_row ?x (make_fid_map [''time'', ''BID'']) ''A'' ''X'' 340 ?m ?fs = None"
    by (rule convert_colliding_name [of _ "''time''" "?fs ! 1"]) (simp_all add: fixed_columns_def)
  have insts: "instruments demo_config = []" by code_simp
  have fids: "find_fids ?x [] [demo_record ''A'' ''X'' ''7''] [] = [''time'', ''BID'']" by code_simp
  show ?thesis
    using row by (simp add: Convert_def insts fids Let_def demo_record_def filtered_def buffer_of_def)
qed

section \<open>Reading the table back\<close>

text \<open>A reader of comma-separated values: quotation marks toggle, a comma outside them separates.\<close>

fun csv_read :: "bool \<Rightarrow> string \<Rightarrow> string \<Rightarrow> string list" where
  "csv_read q cell [] = [cell]"
| "csv_read q cell (c # s) =
     (if c = CHR 0x22 then csv_read (\<not> q) cell s
      else if c = CHR '','' \<and> \<not> q then cell # csv_read False [] s
      else csv_read q (cell @ [c]) s)"

lemma csv_read_append:
  "CHR 0x22 \<notin> set v \<Longrightarrow> q \<or> CHR '','' \<notin> set v \<Longrightarrow>
     csv_read q cell (v @ s) = csv_read q (cell @ v) s"
  by (induction v arbitrary: cell) auto

lemma csv_read_cell: "CHR 0x22 \<notin> set v \<Longrightarrow> csv_read False [] (csv_cell v @ s) = csv_read False v s"
  by (auto simp: csv_cell_def csv_read_append)

lemma csv_read_cells:
  "vs \<noteq> [] \<Longrightarrow> \<forall>v\<in>set vs. CHR 0x22 \<notin> set v \<Longrightarrow> csv_read False [] (JoinString (map csv_cell vs) (CHR '','')) = vs"
proof (induction vs)
  case (Cons v vs)
  then show ?case
    using csv_read_cell [of v "[]"] by (cases "vs = []") (simp_all add: csv_read_cell)
qed simp

definition plain :: "char \<Rightarrow> bool" where
  "plain c = (c \<noteq> CHR '','' \<and> c \<noteq> CHR 0x22 \<and> c \<noteq> CHR 0x0A)"

lemma plain_digit: "d < 10 \<Longrightarrow> plain (char_of (48 + d :: nat))"
  by (simp add: plain_def char_of_eq_iff take_bit_nat_eq_self)

lemma digits_rev_plain: "list_all plain (digits_rev n)"
proof (induction n rule: digits_rev.induct)
  case (1 n)
  then show ?case by (subst digits_rev.simps) (simp add: plain_digit)
qed

lemma show_nat_plain: "list_all plain (show_nat n)"
  by (simp add: show_nat_def digits_rev_plain)

lemma pad_plain: "list_all plain (pad n i)"
  by (simp add: pad_def show_int_def show_nat_plain plain_def [of "CHR ''-''"] plain_def [of "CHR ''0''"]
      list_all_iff [of plain "replicate _ _"])

lemma time_text_plain: "list_all plain (time_text x m)"
  by (simp add: time_text_def Let_def pad_plain plain_def [of "CHR ''-''"] plain_def [of "CHR ''T''"]
      plain_def [of "CHR '':''"] plain_def [of "CHR ''.''"])

lemma list_all_plain: "list_all plain v \<longleftrightarrow> CHR '','' \<notin> set v \<and> CHR 0x22 \<notin> set v \<and> CHR 0x0A \<notin> set v"
  by (induction v) (auto simp: plain_def)

lemma plain_cell: "CHR '','' \<notin> set v \<Longrightarrow> csv_cell v = v"
  by (simp add: csv_cell_def)

lemma JoinString_one_line:
  "CHR 0x0A \<notin> set (JoinString vs (CHR '','')) \<longleftrightarrow> (\<forall>v\<in>set vs. CHR 0x0A \<notin> set v)"
proof (induction vs)
  case (Cons v vs)
  then show ?case by (cases "vs = []") auto
qed simp

lemma csv_cell_one_line: "CHR 0x0A \<notin> set (csv_cell v) \<longleftrightarrow> CHR 0x0A \<notin> set v"
  by (simp add: csv_cell_def)

text \<open>C13: The row that Convert builds for a record is one line, from which a reader that lets
  quotation marks protect commas gets back the service, the item, the time, the type and, for
  every column, the text of the last field of that name that could be converted (none: the empty
  text). Required are: the names of the columns are distinct, none is the name of a fixed column,
  and the names of the fields are among them; no text holds a quotation mark (the code does not
  escape it) or a line feed (the code writes it as it is); and the names of the service and the
  item hold no comma either (the code does not quote them).\<close>

theorem csv_line_roundtrip:
  assumes columns: "distinct cs" "set cs \<inter> set fixed_names = {}" "\<forall>f\<in>set fs. fld_name f \<in> set cs"
    and service: "CHR '','' \<notin> set service" "CHR 0x22 \<notin> set service" "CHR 0x0A \<notin> set service"
    and item: "CHR '','' \<notin> set item" "CHR 0x22 \<notin> set item" "CHR 0x0A \<notin> set item"
    and texts: "\<forall>c\<in>set cs. CHR 0x22 \<notin> set (last_text c fs []) \<and> CHR 0x0A \<notin> set (last_text c fs [])"
  shows "\<exists>row. make_row x (make_fid_map cs) service item ty m fs = Some row \<and>
     CHR 0x0A \<notin> set (JoinString row (CHR '','')) \<and>
     csv_read False [] (JoinString row (CHR '','')) =
       [service, item, time_text x m, show_nat (unat ty)] @ map (\<lambda>c. last_text c fs []) cs"
proof -
  let ?vals = "[service, item, time_text x m, show_nat (unat ty)] @ map (\<lambda>c. last_text c fs []) cs"
  note plain = time_text_plain [of x m, unfolded list_all_plain] show_nat_plain [of "unat ty", unfolded list_all_plain]
  have row: "make_row x (make_fid_map cs) service item ty m fs = Some (map csv_cell ?vals)"
    unfolding make_row_eq [OF columns] by (simp add: row_spec_def plain_cell service(1) item(1) plain comp_def)
  have "\<forall>v\<in>set ?vals. CHR 0x22 \<notin> set v" "\<forall>v\<in>set ?vals. CHR 0x0A \<notin> set v"
    using service item texts plain by simp_all
  then have "csv_read False [] (JoinString (map csv_cell ?vals) (CHR '','')) = ?vals"
    and "CHR 0x0A \<notin> set (JoinString (map csv_cell ?vals) (CHR '',''))"
    using csv_read_cells [of ?vals]
    by (simp_all only: append_is_Nil_conv list.distinct simp_thms JoinString_one_line list.set_map ball_simps csv_cell_one_line)
  with row show ?thesis by blast
qed

theorem csv_line_roundtrip_witness:
  "\<exists>row. make_row demo_etl (make_fid_map [''ASK'', ''SEQ'', ''BID'']) ''A'' ''X'' 340
        (snd (demo_record ''A'' ''X'' ''7'')) (the (demo_fields ''7'')) = Some row \<and>
     csv_read False [] (JoinString row (CHR '','')) =
       [''A'', ''X'', ''2013-09-07T01:30:05.000042'', ''340'', ''1,5'', [], ''7'']"
proof -
  let ?m = "snd (demo_record ''A'' ''X'' ''7'')" and ?fs = "the (demo_fields ''7'')"
  have vals: "time_text demo_etl ?m = ''2013-09-07T01:30:05.000042''" "show_nat (unat (340 :: u32)) = ''340''" "show_nat 340 = ''340''"
    "last_text ''ASK'' ?fs [] = ''1,5''" "last_text ''SEQ'' ?fs [] = []" "last_text ''BID'' ?fs [] = ''7''"
    "map fld_name ?fs = [''BID'', ''SEQ'', ''ASK'']" by code_simp+
  have "\<forall>f\<in>set ?fs. fld_name f \<in> set (map fld_name ?fs)" by simp
  then have fields: "\<forall>f\<in>set ?fs. fld_name f \<in> set [''ASK'', ''SEQ'', ''BID'']"
    unfolding vals(7) by auto
  have "\<exists>row. make_row demo_etl (make_fid_map [''ASK'', ''SEQ'', ''BID'']) ''A'' ''X'' 340 ?m ?fs = Some row \<and>
     CHR 0x0A \<notin> set (JoinString row (CHR '','')) \<and>
     csv_read False [] (JoinString row (CHR '','')) =
       [''A'', ''X'', time_text demo_etl ?m, show_nat (unat (340 :: u32))] @
         map (\<lambda>c. last_text c ?fs []) [''ASK'', ''SEQ'', ''BID'']"
    by (rule csv_line_roundtrip [OF _ _ fields]) (simp_all add: vals fixed_columns_def)
  then show ?thesis by (auto simp: vals)
qed

section \<open>The file of a service\<close>

lemma replace_loop_plain: "CHR ''$'' \<notin> set s \<Longrightarrow> replace_loop subst s f r = (f @ s, r)"
  using replace_loop_literal [of s subst "[]" f r] by simp

text \<open>The placeholder $1 in the output path stands for the name of the service, and an output
  path without a placeholder names one and the same file for every service.\<close>

theorem output_file_names:
  assumes "CHR ''$'' \<notin> set a" and "CHR ''$'' \<notin> set b" and "b = [] \<or> \<not> is_digit (hd b)"
  shows "output_file (cfg\<lparr>output_path := a @ ''$1'' @ b\<rparr>) s = a @ service_name s @ b \<and>
     output_file (cfg\<lparr>output_path := a\<rparr>) s = a"
proof -
  have one: "placeholder_index ''1'' = 0" by code_simp
  have "replace_loop [service_name s] (CHR ''$'' # ''1'' @ b) a [] =
      replace_loop [service_name s] b (a @ service_name s)
        (insert_offset \<lparr>parameter = placeholder_index ''1'', offset = length a\<rparr> [])"
    using replace_loop_placeholder [of "''1''" b "[service_name s]" a "[]"] assms(3)
    by (simp add: one is_digit_def)
  then have "fst (replace_loop [service_name s] (a @ CHR ''$'' # ''1'' @ b) [] []) = a @ service_name s @ b"
    using replace_loop_literal [OF assms(1), of "[service_name s]" "CHR ''$'' # ''1'' @ b" "[]" "[]"]
    by (simp add: replace_loop_plain [OF assms(2)])
  then show ?thesis
    by (cases "replace_loop [service_name s] (a @ CHR ''$'' # ''1'' @ b) [] []")
      (simp add: output_file_def ReplaceStringPlaceholders_def replace_loop_plain [OF assms(1)])
qed

theorem output_file_names_witness:
  "output_file (demo_config\<lparr>output_path := ''/data/$1.csv''\<rparr>) (new_session_config\<lparr>service_name := ''IDN_RDF''\<rparr>) =
     ''/data/IDN_RDF.csv''"
  using output_file_names [of "''/data/''" "''.csv''" demo_config "new_session_config\<lparr>service_name := ''IDN_RDF''\<rparr>"]
  by (simp add: is_digit_def)

subsection \<open>Outputs that collide or do not open\<close>

text \<open>With an output path without $1 the streams of two services write to the same file, each from
  its own position: here the row of the second overwrites the row of the first, and both are
  reported as recorded.\<close>

theorem shared_output_loses_rows:
  "\<exists>outs. Convert demo_etl (demo_config\<lparr>output_path := ''out.csv''\<rparr>) (Some demo_archive) = Some (outs, 2) \<and>
     out_files outs ''out.csv'' =
       Some (''service,symbol,time,type,ASK,SEQ,BID'' @ newline @
             ''B,Z,2013-09-07T01:30:05.000042,340,\"1,5\",,9'' @ newline)"
proof -
  have "case Convert demo_etl (demo_config\<lparr>output_path := ''out.csv''\<rparr>) (Some demo_archive) of
      None \<Rightarrow> False
    | Some (outs, n) \<Rightarrow> n = 2 \<and> out_files outs ''out.csv'' =
        Some (''service,symbol,time,type,ASK,SEQ,BID'' @ newline @
             ''B,Z,2013-09-07T01:30:05.000042,340,\"1,5\",,9'' @ newline)" by code_simp
  then show ?thesis by (auto split: option.splits prod.splits)
qed

text \<open>Nothing tests whether an output opened: if none does, the rows are counted all the same.\<close>

theorem unopened_outputs_are_counted:
  assumes "fields_ok x cfg rs cs"
    and "fst ` set (rows_of x (instruments cfg) cs rs) \<subseteq> service_name ` set (sessions cfg)"
    and "\<forall>s\<in>set (sessions cfg). open_file x (output_file cfg s) = None"
  shows "\<exists>outs. Convert x cfg (Some rs) = Some (outs, length (rows_of x (instruments cfg) cs rs)) \<and>
           (\<forall>f. out_files outs f = None)"
  using assms(1)
proof (cases rule: Convert_cases)
  case unknown
  with assms(2) show ?thesis by blast
next
  case (written outs)
  have "out_files outs f = None" for f by (rule written(4)) (use assms(3) in simp)
  with written(2) show ?thesis by blast
qed

theorem unopened_outputs_are_counted_witness:
  "\<exists>outs. Convert (demo_etl\<lparr>open_file := (\<lambda>_. None)\<rparr>) demo_config (Some demo_archive) = Some (outs, 2) \<and>
     out_files outs ''A.csv'' = None"
proof -
  let ?x = "demo_etl\<lparr>open_file := (\<lambda>_. None)\<rparr>" and ?cs = "[''ASK'', ''SEQ'', ''BID'']"
  have cfg: "instruments demo_config = []" "sessions demo_config =
      [new_session_config\<lparr>service_name := ''A''\<rparr>, new_session_config\<lparr>service_name := ''B''\<rparr>]"
    by (simp_all add: demo_fids demo_sessions)
  have fids: "find_fids ?x [] demo_archive [] = [''BID'', ''SEQ'', ''ASK'']"
    "fid_order ?x [''BID'', ''SEQ'', ''ASK''] = ?cs" by code_simp+
  have rows: "map fst (rows_of ?x [] ?cs demo_archive) = [''A'', ''B'']" by code_simp
  then have "fst ` set (rows_of ?x [] ?cs demo_archive) = {''A'', ''B''}"
    and len: "length (rows_of ?x [] ?cs demo_archive) = 2"
    by (metis list.set(1,2) list.set_map, metis length_map length_Cons list.size(3) numeral_2_eq_2)
  moreover have "fields_ok ?x demo_config demo_archive ?cs"
  proof -
    have "(\<Union>r\<in>set demo_archive. record_fids ?x [] r) = {''BID'', ''SEQ'', ''ASK''}"
      using set_find_fids [of ?x "[]" demo_archive "[]"] by (simp add: fids)
    then show ?thesis unfolding fields_ok_def cfg fids by (simp add: fixed_columns_def)
  qed
  ultimately show ?thesis
    using unopened_outputs_are_counted [of ?x demo_config demo_archive ?cs] by (auto simp: cfg)
qed

end
