(* ===== verification/Command_Line.thy ===== *)
theory Command_Line
  imports Strings
begin

text \<open>
  src/chromium/command_line.cc: the command line as the vector argv_ (program, switches,
  arguments), the map of the switches and the index where the arguments begin. The singleton
  of the process is an optional value.
\<close>

section \<open>Switches\<close>

definition kSwitchTerminator :: string where
  "kSwitchTerminator = ''--''"

definition kSwitchValueSeparator :: string where
  "kSwitchValueSeparator = ''=''"

definition kSwitchPrefixes :: "string list" where
  "kSwitchPrefixes = [''--'', ''-'']"

text \<open>The loop over the prefixes; compare (0, n, prefix) looks at no more than n characters.\<close>

fun prefix_loop :: "string list \<Rightarrow> string \<Rightarrow> nat" where
  "prefix_loop [] s = 0"
| "prefix_loop (prefix # ps) s =
     (if take (length prefix) s = prefix then length prefix else prefix_loop ps s)"

definition GetSwitchPrefixLength :: "string \<Rightarrow> nat" where
  "GetSwitchPrefixLength s = prefix_loop kSwitchPrefixes s"

text \<open>The result with *switch_string and *switch_value; None is the return value false.\<close>

definition IsSwitch :: "string \<Rightarrow> (string \<times> string) option" where
  "IsSwitch s =
     (if GetSwitchPrefixLength s = 0 then None
      else Some
        (case find_first (\<lambda>c. c = CHR ''='') s of
           None \<Rightarrow> (s, [])
         | Some equals_position \<Rightarrow> (take equals_position s, drop (equals_position + 1) s)))"

section \<open>The command line\<close>

record command_line =
  cl_argv :: "string list"
  cl_switches :: "string \<Rightarrow> string option"
  cl_begin_args :: nat

text \<open>CommandLine (NO_PROGRAM).\<close>

definition new_command_line :: command_line where
  "new_command_line = \<lparr>cl_argv = [[]], cl_switches = (\<lambda>_. None), cl_begin_args = 1\<rparr>"

definition HasSwitch :: "string \<Rightarrow> command_line \<Rightarrow> bool" where
  "HasSwitch switch_string cl = (cl_switches cl switch_string \<noteq> None)"

definition GetSwitchValueASCII :: "string \<Rightarrow> command_line \<Rightarrow> string" where
  "GetSwitchValueASCII switch_string cl =
     (case cl_switches cl switch_string of None \<Rightarrow> [] | Some v \<Rightarrow> v)"

definition AppendSwitchNative :: "string \<Rightarrow> string \<Rightarrow> command_line \<Rightarrow> command_line" where
  "AppendSwitchNative switch_string value cl =
     (let prefix_length = GetSwitchPrefixLength switch_string;
          combined = (if prefix_length = 0 then hd kSwitchPrefixes @ switch_string else switch_string);
          combined = (if value \<noteq> [] then combined @ kSwitchValueSeparator @ value else combined)
      in cl\<lparr>cl_switches := (cl_switches cl)(drop prefix_length switch_string \<mapsto> value),
            cl_argv := take (cl_begin_args cl) (cl_argv cl) @ combined # drop (cl_begin_args cl) (cl_argv cl),
            cl_begin_args := cl_begin_args cl + 1\<rparr>)"

definition AppendSwitch :: "string \<Rightarrow> command_line \<Rightarrow> command_line" where
  "AppendSwitch switch_string cl = AppendSwitchNative switch_string [] cl"

definition AppendSwitchASCII :: "string \<Rightarrow> string \<Rightarrow> command_line \<Rightarrow> command_line" where
  "AppendSwitchASCII switch_string value cl = AppendSwitchNative switch_string value cl"

definition AppendArgNative :: "string \<Rightarrow> command_line \<Rightarrow> command_line" where
  "AppendArgNative value cl = cl\<lparr>cl_argv := cl_argv cl @ [value]\<rparr>"

definition AppendArg :: "string \<Rightarrow> command_line \<Rightarrow> command_line" where
  "AppendArg value cl = AppendArgNative value cl"

text \<open>The loop over the elements of argv after the first.\<close>

fun append_loop :: "bool \<Rightarrow> string list \<Rightarrow> command_line \<Rightarrow> command_line" where
  "append_loop parse_switches [] cl = cl"
| "append_loop parse_switches (a # as) cl =
     (let arg = snd (TrimWhitespace a TRIM_ALL);
          parse_switches = (parse_switches \<and> arg \<noteq> kSwitchTerminator)
      in append_loop parse_switches as
           (if parse_switches then
              (case IsSwitch arg of
                 Some (switch_string, switch_value) \<Rightarrow> AppendSwitchNative switch_string switch_value cl
               | None \<Rightarrow> AppendArgNative arg cl)
            else AppendArgNative arg cl))"

definition AppendSwitchesAndArguments :: "string list \<Rightarrow> command_line \<Rightarrow> command_line" where
  "AppendSwitchesAndArguments argv cl = append_loop True (drop 1 argv) cl"

text \<open>The switches of an earlier initialisation stay.\<close>

definition InitFromArgv :: "string list \<Rightarrow> command_line \<Rightarrow> command_line" where
  "InitFromArgv argv cl = AppendSwitchesAndArguments argv (cl\<lparr>cl_argv := [[]], cl_begin_args := 1\<rparr>)"

definition ParseFromString :: "string \<Rightarrow> command_line \<Rightarrow> command_line" where
  "ParseFromString s cl =
     (if snd (TrimWhitespace s TRIM_ALL) = [] then cl
      else InitFromArgv (SplitString s (CHR '' '') []) cl)"

definition FromString :: "string \<Rightarrow> command_line" where
  "FromString s = ParseFromString s new_command_line"

fun copy_switches_loop :: "command_line \<Rightarrow> string list \<Rightarrow> command_line \<Rightarrow> command_line" where
  "copy_switches_loop source [] cl = cl"
| "copy_switches_loop source (s # ss) cl =
     copy_switches_loop source ss
       (if HasSwitch s source then AppendSwitchNative s (GetSwitchValueASCII s source) cl else cl)"

definition CopySwitchesFrom :: "command_line \<Rightarrow> string list \<Rightarrow> command_line \<Rightarrow> command_line" where
  "CopySwitchesFrom source switches cl = copy_switches_loop source switches cl"

definition GetArgs :: "command_line \<Rightarrow> string list" where
  "GetArgs cl = remove1 kSwitchTerminator (drop (cl_begin_args cl) (cl_argv cl))"

definition AppendArguments :: "command_line \<Rightarrow> bool \<Rightarrow> command_line \<Rightarrow> command_line" where
  "AppendArguments other include_program cl = AppendSwitchesAndArguments (cl_argv other) cl"

definition PrependWrapper :: "string \<Rightarrow> command_line \<Rightarrow> command_line" where
  "PrependWrapper wrapper cl =
     (if wrapper = [] then cl
      else (let wrapper_argv = SplitString wrapper (CHR '' '') []
            in cl\<lparr>cl_argv := wrapper_argv @ cl_argv cl,
                  cl_begin_args := cl_begin_args cl + length wrapper_argv\<rparr>))"

text \<open>GetCommandLineString, the loop over the elements after the first.\<close>

fun cl_string_loop :: "bool \<Rightarrow> string list \<Rightarrow> string \<Rightarrow> string" where
  "cl_string_loop parse_switches [] str = str"
| "cl_string_loop parse_switches (arg # as) str =
     (let parse_switches = (parse_switches \<and> arg \<noteq> kSwitchTerminator);
          str = str @ '' ''
      in cl_string_loop parse_switches as
           (if parse_switches then
              (case IsSwitch arg of
                 Some (switch_string, switch_value) \<Rightarrow>
                   (if switch_value \<noteq> [] then (str @ switch_string) @ kSwitchValueSeparator @ switch_value
                    else str @ switch_string)
               | None \<Rightarrow> str @ arg)
            else str @ arg))"

definition GetCommandLineString :: "command_line \<Rightarrow> string" where
  "GetCommandLineString cl = cl_string_loop True (drop 1 (cl_argv cl)) (cl_argv cl ! 0)"

section \<open>The command line of the process\<close>

definition CommandLine_Init :: "string list \<Rightarrow> command_line option \<Rightarrow> command_line option" where
  "CommandLine_Init argv current =
     (case current of Some cl \<Rightarrow> Some cl | None \<Rightarrow> Some (InitFromArgv argv new_command_line))"

definition CommandLine_Reset :: "command_line option \<Rightarrow> command_line option" where
  "CommandLine_Reset current = None"

section \<open>Switches in argv_\<close>

text \<open>The entry of the map that an element of argv_ stands for, and the text of a switch.\<close>

definition switch_entry :: "string \<Rightarrow> string \<times> string" where
  "switch_entry e =
     (case IsSwitch e of
        None \<Rightarrow> (e, [])
      | Some (s, v) \<Rightarrow> (drop (GetSwitchPrefixLength s) s, v))"

definition switch_text :: "string \<Rightarrow> string \<Rightarrow> string" where
  "switch_text s v = (if v = [] then s else s @ CHR ''='' # v)"

text \<open>An element that AppendSwitchNative writes: a switch whose value, if any, is not empty.\<close>

definition canonical :: "string \<Rightarrow> bool" where
  "canonical e = (case IsSwitch e of None \<Rightarrow> False | Some (s, v) \<Rightarrow> e = switch_text s v)"

lemma prefix_length: "GetSwitchPrefixLength s =
    (if take 2 s = ''--'' then 2 else if take 1 s = ''-'' then 1 else 0)"
  by (simp add: GetSwitchPrefixLength_def kSwitchPrefixes_def numeral_2_eq_2)

lemma prefix_length_append:
  "GetSwitchPrefixLength s \<noteq> 0 \<Longrightarrow> CHR ''='' \<notin> set s \<Longrightarrow>
     GetSwitchPrefixLength (s @ CHR ''='' # v) = GetSwitchPrefixLength s"
  by (cases s; cases "tl s") (auto simp: prefix_length split: if_splits)

lemma IsSwitch_parts:
  assumes "IsSwitch e = Some (s, v)"
  shows "GetSwitchPrefixLength s \<noteq> 0 \<and> CHR ''='' \<notin> set s"
proof -
  have e: "GetSwitchPrefixLength e \<noteq> 0" using assms by (auto simp: IsSwitch_def split: if_splits)
  show ?thesis
  proof (cases "\<exists>c\<in>set e. c = CHR ''=''")
    case False
    with assms have "s = e" by (auto simp: IsSwitch_def find_first_eq split: if_splits)
    with False e show ?thesis by auto
  next
    case True
    let ?t = "takeWhile (\<lambda>c. c \<noteq> CHR ''='') e"
    have s: "s = ?t" using assms True
      by (auto simp: IsSwitch_def find_first_eq takeWhile_eq_take [symmetric] split: if_splits)
    have "CHR ''='' \<notin> set ?t" using set_takeWhileD by fastforce
    moreover have "GetSwitchPrefixLength ?t \<noteq> 0"
      using e by (cases e; cases "tl e") (auto simp: prefix_length split: if_splits)
    ultimately show ?thesis by (simp add: s)
  qed
qed

lemma IsSwitch_text:
  assumes "GetSwitchPrefixLength s \<noteq> 0" and "CHR ''='' \<notin> set s"
  shows "IsSwitch (switch_text s v) = Some (s, v)"
proof (cases "v = []")
  case True
  then show ?thesis using assms by (auto simp: IsSwitch_def switch_text_def find_first_eq)
next
  case False
  have "takeWhile (\<lambda>c. c \<noteq> CHR ''='') (s @ CHR ''='' # v) = s"
    using assms(2) by (simp add: takeWhile_append)
  with False show ?thesis
    using prefix_length_append [OF assms] assms(1)
    by (simp add: IsSwitch_def switch_text_def find_first_eq)
qed

lemma AppendSwitchNative_eq:
  assumes "CHR ''='' \<notin> set s"
  defines "s' \<equiv> if GetSwitchPrefixLength s = 0 then ''--'' @ s else s"
  shows "AppendSwitchNative s v cl = cl\<lparr>cl_switches := (cl_switches cl)(drop (GetSwitchPrefixLength s) s \<mapsto> v),
      cl_argv := take (cl_begin_args cl) (cl_argv cl) @ switch_text s' v # drop (cl_begin_args cl) (cl_argv cl),
      cl_begin_args := cl_begin_args cl + 1\<rparr>"
    and "canonical (switch_text s' v)"
    and "switch_entry (switch_text s' v) = (drop (GetSwitchPrefixLength s) s, v)"
proof -
  show "AppendSwitchNative s v cl = cl\<lparr>cl_switches := (cl_switches cl)(drop (GetSwitchPrefixLength s) s \<mapsto> v),
      cl_argv := take (cl_begin_args cl) (cl_argv cl) @ switch_text s' v # drop (cl_begin_args cl) (cl_argv cl),
      cl_begin_args := cl_begin_args cl + 1\<rparr>"
    by (simp add: AppendSwitchNative_def s'_def switch_text_def kSwitchPrefixes_def kSwitchValueSeparator_def Let_def)
  have s': "GetSwitchPrefixLength s' \<noteq> 0" "CHR ''='' \<notin> set s'"
    "drop (GetSwitchPrefixLength s') s' = drop (GetSwitchPrefixLength s) s"
    using assms by (auto simp: s'_def prefix_length numeral_2_eq_2)
  then show "canonical (switch_text s' v)" "switch_entry (switch_text s' v) = (drop (GetSwitchPrefixLength s) s, v)"
    by (simp_all add: canonical_def switch_entry_def IsSwitch_text)
qed

section \<open>The invariant of argv_ and the map\<close>

definition cl_inv :: "command_line \<Rightarrow> bool" where
  "cl_inv cl =
     (\<exists>p sws as. cl_argv cl = p # sws @ as \<and> cl_begin_args cl = 1 + length sws \<and>
        list_all canonical sws \<and> cl_switches cl = map_of (rev (map switch_entry sws)))"

lemma cl_inv_new: "cl_inv new_command_line"
  by (auto simp: cl_inv_def new_command_line_def)

lemma cl_inv_switch:
  assumes "cl_inv cl" and "CHR ''='' \<notin> set s"
  shows "cl_inv (AppendSwitchNative s v cl)"
proof -
  from assms(1) obtain p sws as where
    cl: "cl_argv cl = p # sws @ as" "cl_begin_args cl = 1 + length sws" "list_all canonical sws"
      "cl_switches cl = map_of (rev (map switch_entry sws))" by (auto simp: cl_inv_def)
  let ?e = "switch_text (if GetSwitchPrefixLength s = 0 then ''--'' @ s else s) v"
  show ?thesis
    unfolding cl_inv_def AppendSwitchNative_eq(1) [OF assms(2)]
    by (rule exI [of _ p], rule exI [of _ "sws @ [?e]"], rule exI [of _ as])
      (simp add: cl AppendSwitchNative_eq(2,3) [OF assms(2)])
qed

lemma cl_inv_arg: "cl_inv cl \<Longrightarrow> cl_inv (AppendArgNative a cl)"
  unfolding cl_inv_def AppendArgNative_def by force

lemma cl_inv_append_loop: "cl_inv cl \<Longrightarrow> cl_inv (append_loop ps as cl)"
proof (induction as arbitrary: ps cl)
  case (Cons a as)
  let ?arg = "snd (TrimWhitespace a TRIM_ALL)"
  have "cl_inv (if ps \<and> ?arg \<noteq> kSwitchTerminator then
              (case IsSwitch ?arg of
                 Some (switch_string, switch_value) \<Rightarrow> AppendSwitchNative switch_string switch_value cl
               | None \<Rightarrow> AppendArgNative ?arg cl)
            else AppendArgNative ?arg cl)"
    using Cons.prems by (auto simp: cl_inv_arg dest!: IsSwitch_parts intro: cl_inv_switch split: option.split)
  then show ?case unfolding append_loop.simps Let_def by (rule Cons.IH)
qed simp

lemma cl_inv_copy_loop:
  "cl_inv cl \<Longrightarrow> \<forall>s\<in>set ss. CHR ''='' \<notin> set s \<Longrightarrow> cl_inv (copy_switches_loop source ss cl)"
  by (induction ss arbitrary: cl) (auto intro: cl_inv_switch)

text \<open>The operations of a command line whose switches were read once; the names of switches that
  a client appends hold no equals sign.\<close>

inductive cl_step :: "command_line \<Rightarrow> command_line \<Rightarrow> bool" where
  step_switch: "CHR ''='' \<notin> set s \<Longrightarrow> cl_step cl (AppendSwitchASCII s v cl)"
| step_flag: "CHR ''='' \<notin> set s \<Longrightarrow> cl_step cl (AppendSwitch s cl)"
| step_arg: "cl_step cl (AppendArg a cl)"
| step_copy: "\<forall>s\<in>set ss. CHR ''='' \<notin> set s \<Longrightarrow> cl_step cl (CopySwitchesFrom source ss cl)"
| step_arguments: "cl_step cl (AppendArguments other program cl)"

interpretation cl_sys: invariant_system
  "\<lambda>cl. \<exists>argv. cl = InitFromArgv argv new_command_line" cl_step cl_inv
proof
  fix s assume "\<exists>argv. s = InitFromArgv argv new_command_line"
  moreover have "new_command_line\<lparr>cl_argv := [[]], cl_begin_args := 1\<rparr> = new_command_line"
    by (simp add: new_command_line_def)
  ultimately show "cl_inv s"
    by (auto simp: InitFromArgv_def AppendSwitchesAndArguments_def cl_inv_append_loop cl_inv_new)
next
  fix s t assume "cl_inv s" "cl_step s t"
  from this(2,1) show "cl_inv t"
    by (induction rule: cl_step.induct)
      (auto simp: AppendSwitchASCII_def AppendSwitch_def AppendArg_def CopySwitchesFrom_def AppendArguments_def
        AppendSwitchesAndArguments_def cl_inv_switch cl_inv_arg cl_inv_copy_loop cl_inv_append_loop)
qed

text \<open>C29: After the command line is read from argv and for every sequence of operations that append
  to it (AppendSwitch, AppendSwitchASCII, AppendArg, CopySwitchesFrom, AppendArguments), where the
  names of the switches appended or copied by name hold no equals sign, argv_ is the program, then
  the switches, then the arguments, with begin_args_ between the two. Each of these switches is - or
  -- and a (perhaps empty) name, with = and a value if the value is not empty; and the map of the switches is exactly
  what they say: a switch of exactly this name (on POSIX case matters) is present if it occurs among
  them, with the value of its last occurrence.\<close>

theorem command_line_invariant:
  assumes "cl_step\<^sup>*\<^sup>* (InitFromArgv argv new_command_line) cl"
  shows "\<exists>p sws as. cl_argv cl = p # sws @ as \<and> cl_begin_args cl = 1 + length sws \<and>
     list_all canonical sws \<and>
     (\<forall>k. (if HasSwitch k cl then Some (GetSwitchValueASCII k cl) else None) =
        map_of (rev (map switch_entry sws)) k)"
proof -
  have "cl_inv cl" by (rule cl_sys.reach_inv [OF _ assms]) blast
  then obtain p sws as where cl: "cl_argv cl = p # sws @ as" "cl_begin_args cl = 1 + length sws"
    "list_all canonical sws" "cl_switches cl = map_of (rev (map switch_entry sws))"
    by (auto simp: cl_inv_def)
  then have "(if HasSwitch k cl then Some (GetSwitchValueASCII k cl) else None) =
      map_of (rev (map switch_entry sws)) k" for k
    by (auto simp: HasSwitch_def GetSwitchValueASCII_def split: option.split)
  with cl show ?thesis by blast
qed

theorem command_line_invariant_witness:
  "\<exists>p sws as. cl_argv (AppendSwitchASCII ''v'' ''2'' (InitFromArgv [''torikuru'', ''--session=x'', ''a''] new_command_line)) =
      p # sws @ as \<and> list_all canonical sws"
proof -
  let ?cl = "InitFromArgv [''torikuru'', ''--session=x'', ''a''] new_command_line"
  have "CHR ''='' \<notin> set ''v''" by simp
  then have "cl_step\<^sup>*\<^sup>* ?cl (AppendSwitchASCII ''v'' ''2'' ?cl)"
    by (intro r_into_rtranclp step_switch)
  from command_line_invariant [OF this] show ?thesis by blast
qed

text \<open>Switches are looked up by their exact name.\<close>

theorem switch_names_are_case_sensitive:
  "HasSwitch ''session'' (InitFromArgv [''torikuru'', ''--session=x''] new_command_line) \<and>
   \<not> HasSwitch ''Session'' (InitFromArgv [''torikuru'', ''--session=x''] new_command_line)"
  by code_simp

section \<open>Reading argv\<close>

lemma append_loop_switches:
  assumes "list_all canonical sws" and "\<forall>e\<in>set sws. strip ws e = e \<and> e \<noteq> kSwitchTerminator"
    and "cl_begin_args cl = length (cl_argv cl)"
  shows "append_loop True (sws @ as) cl =
     append_loop True as (cl\<lparr>cl_argv := cl_argv cl @ sws,
       cl_switches := cl_switches cl ++ map_of (rev (map switch_entry sws)),
       cl_begin_args := cl_begin_args cl + length sws\<rparr>)"
  using assms
proof (induction sws arbitrary: cl)
  case Nil
  then show ?case by (cases cl) simp
next
  case (Cons e sws)
  obtain s v where e: "IsSwitch e = Some (s, v)" "e = switch_text s v"
    using Cons.prems(1) by (auto simp: canonical_def split: option.splits)
  note s = IsSwitch_parts [OF e(1)]
  have "append_loop True ((e # sws) @ as) cl = append_loop True (sws @ as) (AppendSwitchNative s v cl)"
    using Cons.prems(2) e(1) by (simp add: Let_def)
  also have "AppendSwitchNative s v cl = cl\<lparr>cl_switches := (cl_switches cl)(fst (switch_entry e) \<mapsto> snd (switch_entry e)),
      cl_argv := cl_argv cl @ [e], cl_begin_args := cl_begin_args cl + 1\<rparr>" (is "_ = ?cl")
    using s Cons.prems(3) e by (simp add: AppendSwitchNative_eq(1) switch_entry_def)
  also have "append_loop True (sws @ as) ?cl = append_loop True as (?cl\<lparr>cl_argv := cl_argv ?cl @ sws,
       cl_switches := cl_switches ?cl ++ map_of (rev (map switch_entry sws)),
       cl_begin_args := cl_begin_args ?cl + length sws\<rparr>)"
    by (rule Cons.IH) (use Cons.prems in auto)
  also have "cl_switches ?cl ++ map_of (rev (map switch_entry sws)) =
      cl_switches cl ++ map_of (rev (map switch_entry (e # sws)))"
    by (auto simp: fun_eq_iff map_add_def split: option.split)
  finally show ?case by simp
qed

definition plain_args :: "string list \<Rightarrow> bool" where
  "plain_args as = list_all (\<lambda>a. IsSwitch a = None) (takeWhile (\<lambda>a. a \<noteq> kSwitchTerminator) as)"

lemma append_loop_args:
  assumes "\<forall>a\<in>set as. strip ws a = a" and "ps \<Longrightarrow> plain_args as"
  shows "append_loop ps as cl = cl\<lparr>cl_argv := cl_argv cl @ as\<rparr>"
  using assms
proof (induction as arbitrary: ps cl)
  case (Cons a as)
  have "append_loop ps (a # as) cl = append_loop (ps \<and> a \<noteq> kSwitchTerminator) as (AppendArgNative a cl)"
    using Cons.prems by (auto simp: Let_def plain_args_def split: option.split)
  also have "\<dots> = (AppendArgNative a cl)\<lparr>cl_argv := cl_argv (AppendArgNative a cl) @ as\<rparr>"
    by (rule Cons.IH) (use Cons.prems in \<open>auto simp: plain_args_def\<close>)
  finally show ?case by (simp add: AppendArgNative_def)
qed simp

lemma InitFromArgv_eq:
  assumes "list_all canonical sws" and "\<forall>e\<in>set sws. strip ws e = e \<and> e \<noteq> kSwitchTerminator"
    and "\<forall>a\<in>set as. strip ws a = a" and "plain_args as"
  shows "InitFromArgv (p # sws @ as) new_command_line =
     \<lparr>cl_argv = [] # sws @ as, cl_switches = map_of (rev (map switch_entry sws)), cl_begin_args = 1 + length sws\<rparr>"
  by (simp add: InitFromArgv_def AppendSwitchesAndArguments_def new_command_line_def
      append_loop_switches [OF assms(1,2)] append_loop_args [OF assms(3,4)])

text \<open>Reading argv. When the words after the program are switches --name or --name=value
  followed by arguments (none of which looks like a switch before the first --), the switches
  are present with the value of their last occurrence, and GetArgs returns the arguments without
  the first --. The program name is not kept.\<close>

theorem InitFromArgv_reads:
  assumes "list_all canonical sws" and "\<forall>e\<in>set sws. strip ws e = e \<and> e \<noteq> kSwitchTerminator"
    and "\<forall>a\<in>set as. strip ws a = a" and "plain_args as"
  shows "let cl = InitFromArgv (p # sws @ as) new_command_line in
     (\<forall>k. HasSwitch k cl = (k \<in> fst ` switch_entry ` set sws) \<and>
        GetSwitchValueASCII k cl = the_default [] (map_of (rev (map switch_entry sws)) k)) \<and>
     GetArgs cl = remove1 kSwitchTerminator as \<and> cl_argv cl ! 0 = []"
proof -
  let ?cl = "InitFromArgv (p # sws @ as) new_command_line"
  have dom: "map_of (rev (map switch_entry sws)) k = None \<longleftrightarrow> k \<notin> fst ` switch_entry ` set sws" for k
    by (simp add: map_of_eq_None_iff)
  have "HasSwitch k ?cl = (k \<in> fst ` switch_entry ` set sws)" for k
    unfolding InitFromArgv_eq [OF assms] HasSwitch_def using dom by simp
  moreover have "GetSwitchValueASCII k ?cl = the_default [] (map_of (rev (map switch_entry sws)) k)" for k
    unfolding InitFromArgv_eq [OF assms] GetSwitchValueASCII_def by (simp split: option.split)
  moreover have "GetArgs ?cl = remove1 kSwitchTerminator as" "cl_argv ?cl ! 0 = []"
    unfolding InitFromArgv_eq [OF assms] GetArgs_def by simp_all
  ultimately show ?thesis by (simp add: Let_def)
qed

theorem InitFromArgv_reads_witness:
  "let cl = InitFromArgv [''torikuru'', ''--session=ssled://h/S'', ''--disable-update'', ''-session=x'', ''in'', ''--'', ''--out''] new_command_line in
     GetSwitchValueASCII ''session'' cl = ''x'' \<and> HasSwitch ''disable-update'' cl \<and> GetArgs cl = [''in'', ''--out'']"
proof -
  let ?sws = "[''--session=ssled://h/S'', ''--disable-update'', ''-session=x'']" and ?as = "[''in'', ''--'', ''--out'']"
  have entries: "switch_entry ''--session=ssled://h/S'' = (''session'', ''ssled://h/S'')"
    "switch_entry ''--disable-update'' = (''disable-update'', [])" "switch_entry ''-session=x'' = (''session'', ''x'')"
    by code_simp+
  have hyps: "list_all canonical ?sws" "list_all (\<lambda>e. strip ws e = e \<and> e \<noteq> kSwitchTerminator) ?sws"
    "list_all (\<lambda>a. strip ws a = a) ?as" "plain_args ?as"
    by code_simp+
  show ?thesis
    using InitFromArgv_reads [OF hyps(1) hyps(2) [unfolded list_all_iff] hyps(3) [unfolded list_all_iff] hyps(4), of "''torikuru''"]
    by (simp add: Let_def entries kSwitchTerminator_def)
qed

section \<open>Text of the command line\<close>

lemma cl_string_loop_args:
  "(ps \<Longrightarrow> plain_args as) \<Longrightarrow> cl_string_loop ps as str = str @ concat (map (\<lambda>a. CHR '' '' # a) as)"
proof (induction as arbitrary: ps str)
  case (Cons a as)
  have "cl_string_loop ps (a # as) str = cl_string_loop (ps \<and> a \<noteq> kSwitchTerminator) as (str @ CHR '' '' # a)"
    using Cons.prems by (auto simp: Let_def plain_args_def split: option.split)
  also have "\<dots> = (str @ CHR '' '' # a) @ concat (map (\<lambda>a. CHR '' '' # a) as)"
    by (rule Cons.IH) (use Cons.prems in \<open>auto simp: plain_args_def\<close>)
  finally show ?case by simp
qed simp

lemma cl_string_loop_switches:
  assumes "list_all canonical sws" and "\<forall>e\<in>set sws. e \<noteq> kSwitchTerminator"
  shows "cl_string_loop True (sws @ as) str =
     cl_string_loop True as (str @ concat (map (\<lambda>a. CHR '' '' # a) sws))"
  using assms
proof (induction sws arbitrary: str)
  case (Cons e sws)
  obtain s v where e: "IsSwitch e = Some (s, v)" "e = switch_text s v"
    using Cons.prems(1) by (auto simp: canonical_def split: option.splits)
  have "cl_string_loop True ((e # sws) @ as) str = cl_string_loop True (sws @ as) (str @ CHR '' '' # e)"
    using Cons.prems(2) e by (auto simp: Let_def switch_text_def kSwitchValueSeparator_def)
  with Cons show ?case by simp
qed simp

lemma concat_spaces: "concat (map (\<lambda>a. CHR '' '' # a) es) = (if es = [] then [] else CHR '' '' # JoinString es (CHR '' ''))"
  by (induction es) (auto simp: JoinString_def JoinStringT_def join_loop_eq)

text \<open>C30: A command line survives being written out by GetCommandLineString and read again by
  FromString (the same argv_, the same switches, the same arguments), provided that: the program
  name is empty; begin_args_ and the map are those of its switches, which have the form of
  AppendSwitchNative (- or -- and a name, and = with a value that is not empty); no switch is the
  terminator --; every switch and argument is a non-empty word without white space; and no argument
  before the first -- among the arguments, or none at all when there is no --, looks like a
  switch.\<close>

theorem command_line_text_roundtrip:
  assumes "list_all canonical sws" and "\<forall>e\<in>set (sws @ as). e \<noteq> [] \<and> (\<forall>c\<in>set e. \<not> ws c)"
    and "kSwitchTerminator \<notin> set sws" and "plain_args as"
    and cl: "cl = \<lparr>cl_argv = [] # sws @ as, cl_switches = map_of (rev (map switch_entry sws)),
      cl_begin_args = 1 + length sws\<rparr>"
  shows "FromString (GetCommandLineString cl) = cl"
proof -
  let ?es = "sws @ as"
  have string: "GetCommandLineString cl = concat (map (\<lambda>a. CHR '' '' # a) ?es)"
  proof -
    have "\<forall>e\<in>set sws. e \<noteq> kSwitchTerminator" using assms(3) by blast
    from cl_string_loop_switches [OF assms(1) this, of as "[]"] show ?thesis
      using cl_string_loop_args [of True as] assms(4) by (simp add: GetCommandLineString_def cl)
  qed
  show ?thesis
  proof (cases "?es = []")
    case True
    then have "GetCommandLineString cl = []" unfolding string by simp
    with True show ?thesis
      by (simp add: FromString_def ParseFromString_def cl new_command_line_def)
  next
    case False
    then obtain e es where es: "?es = e # es" by (cases ?es) auto
    have id: "strip ws w = w" if "w \<in> set ?es" for w
      using assms(2) that by (intro strip_id) (auto dest: hd_in_set last_in_set)
    have space: "ws (CHR '' '')" by (simp add: kWhitespaceASCII_def)
    have pieces: "split_on (CHR '' '') (JoinString ?es (CHR '' '')) = ?es"
      using assms(2) space False by (intro split_on_join) auto
    have t: "GetCommandLineString cl = CHR '' '' # JoinString ?es (CHR '' '')"
      unfolding string concat_spaces using False by simp
    have "strip ws (GetCommandLineString cl) \<noteq> []"
    proof -
      have "set e \<subseteq> set (GetCommandLineString cl)" unfolding string es by auto
      moreover have "e \<noteq> []" "\<forall>c\<in>set e. \<not> ws c" using assms(2) es by auto
      ultimately show ?thesis by (cases e) (auto simp: strip_eq_Nil_iff)
    qed
    then have "FromString (GetCommandLineString cl) =
        InitFromArgv (SplitString (GetCommandLineString cl) (CHR '' '') []) new_command_line"
      by (simp add: FromString_def ParseFromString_def)
    also have "SplitString (GetCommandLineString cl) (CHR '' '') [] = [] # map (strip ws) ?es"
      unfolding t SplitString_eq using pieces by simp
    also have "map (strip ws) ?es = ?es" using id by (intro map_idI) blast
    also have "InitFromArgv ([] # ?es) new_command_line = cl"
      unfolding cl by (rule InitFromArgv_eq [OF assms(1) _ _ assms(4)]) (use id assms(3) in auto)
    finally show ?thesis .
  qed
qed

theorem command_line_text_roundtrip_witness:
  "FromString (GetCommandLineString (InitFromArgv [''prog'', ''--time-limit=60'', ''in''] new_command_line)) =
     InitFromArgv [''prog'', ''--time-limit=60'', ''in''] new_command_line"
proof -
  let ?sws = "[''--time-limit=60'']" and ?as = "[''in'']"
  have hyps: "list_all canonical ?sws" "list_all (\<lambda>e. e \<noteq> [] \<and> list_all (\<lambda>c. \<not> ws c) e) (?sws @ ?as)"
    "list_all (\<lambda>e. e \<noteq> kSwitchTerminator) ?sws" "plain_args ?as" "list_all (\<lambda>e. strip ws e = e) (?sws @ ?as)"
    by code_simp+
  have init: "InitFromArgv (''prog'' # ?sws @ ?as) new_command_line =
     \<lparr>cl_argv = [] # ?sws @ ?as, cl_switches = map_of (rev (map switch_entry ?sws)), cl_begin_args = 1 + length ?sws\<rparr>"
    by (rule InitFromArgv_eq) (use hyps in \<open>auto simp: list_all_iff\<close>)
  have "FromString (GetCommandLineString (InitFromArgv (''prog'' # ?sws @ ?as) new_command_line)) =
     InitFromArgv (''prog'' # ?sws @ ?as) new_command_line"
    unfolding init
    by (rule command_line_text_roundtrip [OF hyps(1) _ _ hyps(4) refl]) (use hyps in \<open>auto simp: list_all_iff\<close>)
  then show ?thesis by simp
qed

end
