(* ===== verification/String_Piece.thy ===== *)
theory String_Piece
  imports Prelude "HOL-Library.Char_ord" "HOL-Library.List_Lexorder" "HOL-Library.Sublist"
begin

text \<open>
  src/chromium/string_piece.hh and string_piece.cc: a StringPiece is modelled by the characters
  it covers (a null pointer and an empty range are the same piece, as they are to every
  function here). Positions are size_t values of the 32-bit build, npos among them; a result
  None is a read or write outside the piece.
\<close>

section \<open>Comparison\<close>

text \<open>char_traits::compare on the first n characters, which compares unsigned bytes.\<close>

fun wordmemcmp :: "string \<Rightarrow> string \<Rightarrow> nat \<Rightarrow> int" where
  "wordmemcmp (p # ps) (q # qs) (Suc n) =
     (if (of_char p :: nat) < of_char q then - 1
      else if (of_char q :: nat) < of_char p then 1
      else wordmemcmp ps qs n)"
| "wordmemcmp _ _ _ = 0"

definition sp_compare :: "string \<Rightarrow> string \<Rightarrow> int" where
  "sp_compare self x =
     (let r = wordmemcmp self x (if length self < length x then length self else length x) in
      if r = 0 then (if length self < length x then - 1 else if length self > length x then 1 else r)
      else r)"

definition sp_eq :: "string \<Rightarrow> string \<Rightarrow> bool" where
  "sp_eq x y = (if length x \<noteq> length y then False else wordmemcmp x y (length x) = 0)"

definition sp_less :: "string \<Rightarrow> string \<Rightarrow> bool" where
  "sp_less x y =
     (let r = wordmemcmp x y (if length x < length y then length x else length y)
      in r < 0 \<or> (r = 0 \<and> length x < length y))"

definition sp_greater :: "string \<Rightarrow> string \<Rightarrow> bool" where
  "sp_greater x y = sp_less y x"

definition sp_less_eq :: "string \<Rightarrow> string \<Rightarrow> bool" where
  "sp_less_eq x y = (\<not> sp_greater x y)"

definition sp_greater_eq :: "string \<Rightarrow> string \<Rightarrow> bool" where
  "sp_greater_eq x y = (\<not> sp_less x y)"

definition starts_with :: "string \<Rightarrow> string \<Rightarrow> bool" where
  "starts_with self x = (length self \<ge> length x \<and> wordmemcmp self x (length x) = 0)"

definition ends_with :: "string \<Rightarrow> string \<Rightarrow> bool" where
  "ends_with self x =
     (length self \<ge> length x \<and> wordmemcmp (drop (length self - length x) self) x (length x) = 0)"

text \<open>The hash: result * 131 + *i on a size_t, with a signed char.\<close>

definition hash_value :: "string \<Rightarrow> u32" where
  "hash_value s = foldl (\<lambda>result c. result * 131 + word_of_int (schar c)) 0 s"

section \<open>Parts\<close>

definition remove_prefix :: "nat \<Rightarrow> string \<Rightarrow> string option" where
  "remove_prefix n s = (if n \<le> length s then Some (drop n s) else None)"

definition remove_suffix :: "nat \<Rightarrow> string \<Rightarrow> string option" where
  "remove_suffix n s = (if n \<le> length s then Some (take (length s - n) s) else None)"

definition sp_substr :: "string \<Rightarrow> nat \<Rightarrow> nat \<Rightarrow> string" where
  "sp_substr self pos n =
     (let pos = (if pos > length self then length self else pos);
          n = (if n > length self - pos then length self - pos else n)
      in take n (drop pos self))"

text \<open>size () - pos wraps when pos is past the end.\<close>

definition sp_copy :: "string \<Rightarrow> nat \<Rightarrow> nat \<Rightarrow> string option" where
  "sp_copy self n pos =
     (let ret = min (if pos \<le> length self then length self - pos else npos + 1 + length self - pos) n
      in if ret = 0 \<or> pos + ret \<le> length self then Some (take ret (drop pos self)) else None)"

definition CopyToString :: "string \<Rightarrow> string" where
  "CopyToString self = self"

definition AppendToString :: "string \<Rightarrow> string \<Rightarrow> string" where
  "AppendToString self target = (if self \<noteq> [] then target @ self else target)"

section \<open>Searching\<close>

definition sp_find :: "string \<Rightarrow> string \<Rightarrow> nat \<Rightarrow> nat" where
  "sp_find self s pos =
     (if pos > length self then npos
      else
        (let xpos = (case find_sub self s pos of None \<Rightarrow> length self | Some i \<Rightarrow> i)
         in if xpos + length s \<le> length self then xpos else npos))"

text \<open>std::find from pos; a search that goes up, and one that goes down to 0.\<close>

fun search_up :: "(char \<Rightarrow> bool) \<Rightarrow> nat \<Rightarrow> string \<Rightarrow> nat" where
  "search_up P i [] = npos"
| "search_up P i (c # cs) = (if P c then i else search_up P (Suc i) cs)"

fun search_down :: "(nat \<Rightarrow> bool) \<Rightarrow> nat \<Rightarrow> nat" where
  "search_down P 0 = (if P 0 then 0 else npos)"
| "search_down P (Suc i) = (if P (Suc i) then Suc i else search_down P i)"

definition sp_find_char :: "string \<Rightarrow> char \<Rightarrow> nat \<Rightarrow> nat" where
  "sp_find_char self c pos =
     (if pos \<ge> length self then npos else search_up (\<lambda>d. d = c) pos (drop pos self))"

text \<open>std::find_end looks for the last occurrence that ends by \<open>last\<close>.\<close>

definition sp_rfind :: "string \<Rightarrow> string \<Rightarrow> nat \<Rightarrow> nat" where
  "sp_rfind self s pos =
     (if length self < length s then npos
      else if s = [] then min (length self) pos
      else search_down (\<lambda>i. take (length s) (drop i self) = s) (min (length self - length s) pos))"

definition sp_rfind_char :: "string \<Rightarrow> char \<Rightarrow> nat \<Rightarrow> nat" where
  "sp_rfind_char self c pos =
     (if length self = 0 then npos
      else search_down (\<lambda>i. self ! i = c) (min pos (length self - 1)))"

text \<open>The table of the UCHAR_MAX + 1 byte values.\<close>

definition BuildLookupTable :: "string \<Rightarrow> bool list \<Rightarrow> bool list" where
  "BuildLookupTable characters_wanted table =
     foldl (\<lambda>t c. t[of_char c := True]) table characters_wanted"

definition lookup_table :: "string \<Rightarrow> bool list" where
  "lookup_table s = BuildLookupTable s (replicate 256 False)"

definition sp_find_first_of :: "string \<Rightarrow> string \<Rightarrow> nat \<Rightarrow> nat" where
  "sp_find_first_of self s pos =
     (if length self = 0 \<or> length s = 0 then npos
      else if length s = 1 then sp_find_char self (s ! 0) pos
      else (let lookup = lookup_table s
            in search_up (\<lambda>c. lookup ! of_char c) pos (drop pos self)))"

definition sp_find_first_not_of_char :: "string \<Rightarrow> char \<Rightarrow> nat \<Rightarrow> nat" where
  "sp_find_first_not_of_char self c pos =
     (if length self = 0 then npos else search_up (\<lambda>d. d \<noteq> c) pos (drop pos self))"

definition sp_find_first_not_of :: "string \<Rightarrow> string \<Rightarrow> nat \<Rightarrow> nat" where
  "sp_find_first_not_of self s pos =
     (if length self = 0 then npos
      else if length s = 0 then 0
      else if length s = 1 then sp_find_first_not_of_char self (s ! 0) pos
      else (let lookup = lookup_table s
            in search_up (\<lambda>c. \<not> lookup ! of_char c) pos (drop pos self)))"

definition sp_find_last_of :: "string \<Rightarrow> string \<Rightarrow> nat \<Rightarrow> nat" where
  "sp_find_last_of self s pos =
     (if length self = 0 \<or> length s = 0 then npos
      else if length s = 1 then sp_rfind_char self (s ! 0) pos
      else (let lookup = lookup_table s
            in search_down (\<lambda>i. lookup ! of_char (self ! i)) (min pos (length self - 1))))"

definition sp_find_last_not_of_char :: "string \<Rightarrow> char \<Rightarrow> nat \<Rightarrow> nat" where
  "sp_find_last_not_of_char self c pos =
     (if length self = 0 then npos
      else search_down (\<lambda>i. self ! i \<noteq> c) (min pos (length self - 1)))"

definition sp_find_last_not_of :: "string \<Rightarrow> string \<Rightarrow> nat \<Rightarrow> nat" where
  "sp_find_last_not_of self s pos =
     (if length self = 0 then npos
      else
        (let i = min pos (length self - 1) in
         if length s = 0 then i
         else if length s = 1 then sp_find_last_not_of_char self (s ! 0) pos
         else (let lookup = lookup_table s
               in search_down (\<lambda>i. \<not> lookup ! of_char (self ! i)) i)))"

section \<open>Reference: the order of byte strings\<close>

lemma wordmemcmp_0 [simp]: "wordmemcmp x y 0 = 0"
  by (cases x; cases y) simp_all

lemma wordmemcmp_Cons:
  "wordmemcmp (p # ps) (q # qs) (Suc n) =
     (if p < q then - 1 else if q < p then 1 else wordmemcmp ps qs n)"
  unfolding less_char_def by (rule wordmemcmp.simps)

lemma wordmemcmp_prefixes:
  "n \<le> length x \<Longrightarrow> n \<le> length y \<Longrightarrow>
     wordmemcmp x y n = (if take n x = take n y then 0 else if take n x < take n y then - 1 else 1)"
proof (induction n arbitrary: x y)
  case (Suc n)
  from Suc.prems(1,2) obtain p ps q qs where xy: "x = p # ps" "y = q # qs" by (cases x; cases y) auto
  have IH: "wordmemcmp ps qs n = (if take n ps = take n qs then 0 else if take n ps < take n qs then - 1 else 1)"
    by (rule Suc.IH) (use Suc.prems xy in simp_all)
  consider "p < q" | "q < p" | "p = q" by (rule linorder_cases)
  then show ?case
    by cases (auto simp: xy wordmemcmp_Cons IH simp del: wordmemcmp.simps)
qed simp

lemma take_less_append:
  fixes x y :: string
  assumes "n \<le> length x" and "n \<le> length y" and "take n x \<noteq> take n y"
  shows "x < y \<longleftrightarrow> take n x < take n y"
  using assms
proof (induction n arbitrary: x y)
  case (Suc n)
  from Suc.prems(1,2) obtain p ps q qs where xy: "x = p # ps" "y = q # qs" by (cases x; cases y) auto
  show ?case
  proof (cases "p = q")
    case True
    have "ps < qs \<longleftrightarrow> take n ps < take n qs" by (rule Suc.IH) (use Suc.prems True xy in simp_all)
    with True show ?thesis by (simp add: xy Cons_less_Cons)
  next
    case False
    then show ?thesis by (simp add: xy Cons_less_Cons)
  qed
qed simp

lemma less_append: "(x :: string) < x @ y \<longleftrightarrow> y \<noteq> []"
proof (induction x)
  case Nil
  show ?case by (cases y) simp_all
qed (simp add: Cons_less_Cons)

lemma sp_less_eq_less: "sp_less x y \<longleftrightarrow> x < y"
proof -
  define n where "n = (if length x < length y then length x else length y)"
  have n: "n \<le> length x" "n \<le> length y" by (auto simp: n_def)
  have less: "sp_less x y \<longleftrightarrow> take n x < take n y \<or> (take n x = take n y \<and> length x < length y)"
    unfolding sp_less_def Let_def n_def [symmetric] wordmemcmp_prefixes [OF n] by auto
  show ?thesis
  proof (cases "take n x = take n y")
    case False
    then show ?thesis using take_less_append [OF n False] less by simp
  next
    case eq: True
    show ?thesis
    proof (cases "length x < length y")
      case True
      then have "take n x = x" by (simp add: n_def)
      then have "y = x @ drop n y" using eq by (metis append_take_drop_id)
      moreover have "drop n y \<noteq> []" using True by (simp add: n_def)
      ultimately have "x < y" using less_append [of x "drop n y"] by simp
      with less eq True show ?thesis by simp
    next
      case False
      then have "take n y = y" by (simp add: n_def)
      then have "x = y @ drop n x" using eq by (metis append_take_drop_id)
      then have "\<not> x < y"
        using less_append [of y "drop n x"] by (cases "drop n x = []") auto
      with less eq False show ?thesis by simp
    qed
  qed
qed

lemma sp_eq_iff [simp]: "sp_eq x y \<longleftrightarrow> x = y"
  by (auto simp: sp_eq_def wordmemcmp_prefixes split: if_splits)

lemma starts_with_iff: "starts_with self x \<longleftrightarrow> prefix x self"
proof -
  have "prefix x self \<longleftrightarrow> length x \<le> length self \<and> take (length x) self = x"
    by (metis append_eq_conv_conj prefixE prefixI prefix_length_le append_take_drop_id)
  then show ?thesis by (auto simp: starts_with_def wordmemcmp_prefixes split: if_splits)
qed

lemma ends_with_iff: "ends_with self x \<longleftrightarrow> suffix x self"
proof -
  have "suffix x self \<longleftrightarrow> length x \<le> length self \<and> drop (length self - length x) self = x"
    by (metis append_eq_conv_conj append_take_drop_id length_append diff_add_inverse2 suffixE suffixI suffix_length_le)
  then show ?thesis by (auto simp: ends_with_def wordmemcmp_prefixes split: if_splits)
qed

lemma sp_compare_sign:
  "sp_compare x y = (if x = y then 0 else if x < y then - 1 else 1)"
proof -
  have "sp_compare x y = (if sp_less x y then - 1 else if sp_less y x then 1 else 0)"
    by (auto simp: sp_compare_def sp_less_def Let_def wordmemcmp_prefixes)
  then show ?thesis unfolding sp_less_eq_less by auto
qed

text \<open>The comparisons of string pieces are one linear order, the lexicographic order of their
  unsigned bytes: equality is equality of the texts, compare has the sign of the order, the
  other operators follow, and starts_with and ends_with are prefix and suffix.\<close>

theorem piece_comparisons:
  "sp_eq x y = (x = y) \<and> sp_less x y = (x < y) \<and> sp_greater x y = (y < x) \<and>
   sp_less_eq x y = (x \<le> y) \<and> sp_greater_eq x y = (y \<le> x) \<and>
   sp_compare x y = (if x = y then 0 else if x < y then - 1 else 1) \<and>
   starts_with x y = prefix y x \<and> ends_with x y = suffix y x"
  by (simp add: sp_less_eq_less sp_greater_def sp_less_eq_def sp_greater_eq_def sp_compare_sign
      starts_with_iff ends_with_iff not_less)

section \<open>Reference: first and last positions\<close>

text \<open>r is the first position at or after pos where P holds, npos if there is none; and the last
  position at or before pos.\<close>

definition first_at :: "(nat \<Rightarrow> bool) \<Rightarrow> nat \<Rightarrow> nat \<Rightarrow> nat \<Rightarrow> bool" where
  "first_at P len pos r =
     (if r = npos then \<forall>j. pos \<le> j \<and> j < len \<longrightarrow> \<not> P j
      else pos \<le> r \<and> r < len \<and> P r \<and> (\<forall>j. pos \<le> j \<and> j < r \<longrightarrow> \<not> P j))"

definition last_at :: "(nat \<Rightarrow> bool) \<Rightarrow> nat \<Rightarrow> nat \<Rightarrow> nat \<Rightarrow> bool" where
  "last_at P len pos r =
     (if r = npos then \<forall>j. j \<le> pos \<and> j < len \<longrightarrow> \<not> P j
      else r \<le> pos \<and> r < len \<and> P r \<and> (\<forall>j. r < j \<and> j \<le> pos \<and> j < len \<longrightarrow> \<not> P j))"

lemma first_at_Suc: "first_at Q len (Suc i) r \<Longrightarrow> \<not> Q i \<Longrightarrow> first_at Q len i r"
proof -
  assume f: "first_at Q len (Suc i) r" and i: "\<not> Q i"
  have "\<not> Q j" if "i \<le> j" "Suc i \<le> j \<Longrightarrow> \<not> Q j" for j
    using that i by (cases "j = i") auto
  with f show ?thesis by (cases "r = npos") (auto simp: first_at_def)
qed

lemma first_at_cong:
  "(\<And>j. pos \<le> j \<Longrightarrow> j < len \<Longrightarrow> P j = Q j) \<Longrightarrow> first_at P len pos r \<Longrightarrow> first_at Q len pos r"
  by (cases "r = npos") (auto simp: first_at_def)

lemma search_up_first:
  "i + length cs \<le> npos \<Longrightarrow> first_at (\<lambda>j. P (cs ! (j - i))) (i + length cs) i (search_up P i cs)"
proof (induction P i cs rule: search_up.induct)
  case (2 P i c cs)
  show ?case
  proof (cases "P c")
    case True
    with 2(2) show ?thesis by (simp add: first_at_def)
  next
    case False
    have "first_at (\<lambda>j. P (cs ! (j - Suc i))) (Suc i + length cs) (Suc i) (search_up P (Suc i) cs)"
      by (rule 2(1)) (use 2(2) False in auto)
    moreover have "P (cs ! (j - Suc i)) = P ((c # cs) ! (j - i))" if "Suc i \<le> j" for j
    proof -
      have "j - i = Suc (j - Suc i)" using that by simp
      then show ?thesis by simp
    qed
    ultimately have "first_at (\<lambda>j. P ((c # cs) ! (j - i))) (Suc i + length cs) (Suc i) (search_up P (Suc i) cs)"
      by (rule first_at_cong [rotated])
    then show ?thesis using False by (simp add: first_at_Suc)
  qed
qed (auto simp: first_at_def)

lemma search_up_drop:
  assumes "length s \<le> npos"
  shows "first_at (\<lambda>j. P (s ! j)) (length s) pos (search_up P pos (drop pos s))"
proof (cases "pos < length s")
  case True
  have "first_at (\<lambda>j. P (drop pos s ! (j - pos))) (pos + length (drop pos s)) pos (search_up P pos (drop pos s))"
    using assms True by (intro search_up_first) simp
  then have "first_at (\<lambda>j. P (drop pos s ! (j - pos))) (length s) pos (search_up P pos (drop pos s))"
    using True by simp
  then show ?thesis by (rule first_at_cong [rotated]) simp
next
  case False
  then show ?thesis by (auto simp: first_at_def)
qed

lemma search_down_last: "i < npos \<Longrightarrow> last_at P (Suc i) i (search_down P i)"
proof (induction P i rule: search_down.induct)
  case (2 P i)
  show ?case
  proof (cases "P (Suc i)")
    case True
    with 2(2) show ?thesis by (auto simp: last_at_def)
  next
    case False
    with 2 have "last_at P (Suc i) i (search_down P i)" by simp
    with False show ?thesis
      by (auto simp: last_at_def le_Suc_eq less_Suc_eq_le split: if_splits)
  qed
qed (auto simp: last_at_def npos_def)

lemma search_down_min:
  assumes "0 < n" and "n \<le> npos"
  shows "last_at P n pos (search_down P (min pos (n - 1)))"
proof -
  define m where "m = min pos (n - 1)"
  have "m < npos" using assms by (simp add: m_def)
  from search_down_last [OF this] have "last_at P (Suc m) m (search_down P m)" .
  moreover have "j \<le> pos \<and> j < n \<longleftrightarrow> j \<le> m \<and> j < Suc m" for j
    using assms(1) by (auto simp: m_def)
  ultimately show ?thesis unfolding m_def [symmetric] last_at_def by metis
qed

section \<open>The lookup table\<close>

lemma length_table [simp]: "length (BuildLookupTable s t) = length t"
  by (induction s arbitrary: t) (simp_all add: BuildLookupTable_def)

lemma BuildLookupTable_nth:
  "length t = 256 \<Longrightarrow> BuildLookupTable s t ! of_char c = (c \<in> set s \<or> t ! of_char c)"
proof (induction s arbitrary: t)
  case (Cons d s)
  have "BuildLookupTable (d # s) t = BuildLookupTable s (t[of_char d := True])"
    by (simp add: BuildLookupTable_def)
  moreover have "(of_char d :: nat) < 256" by (rule nat_of_char_less_256)
  ultimately show ?case using Cons by (auto simp: nth_list_update)
qed (simp add: BuildLookupTable_def)

lemma lookup_table_iff [simp]: "lookup_table s ! of_char c = (c \<in> set s)"
proof -
  have "(of_char c :: nat) < 256" by (rule nat_of_char_less_256)
  then show ?thesis by (simp add: lookup_table_def BuildLookupTable_nth)
qed

section \<open>The searches\<close>

lemma first_at_none: "length s = 0 \<Longrightarrow> first_at P (length s) pos npos"
  by (simp add: first_at_def)

lemma singleton_set: "length s = 1 \<Longrightarrow> set s = {s ! 0}"
  by (cases s) auto

lemma set_searches_at:
  assumes "length self \<le> npos"
  shows "first_at (\<lambda>j. self ! j \<in> set s) (length self) pos (sp_find_first_of self s pos) \<and>
    last_at (\<lambda>j. self ! j \<in> set s) (length self) pos (sp_find_last_of self s pos) \<and>
    (s \<noteq> [] \<longrightarrow> first_at (\<lambda>j. self ! j \<notin> set s) (length self) pos (sp_find_first_not_of self s pos)) \<and>
    last_at (\<lambda>j. self ! j \<notin> set s) (length self) pos (sp_find_last_not_of self s pos)"
proof -
  note up = search_up_drop [OF assms, where pos = pos]
  note down = search_down_min [OF _ assms, where pos = pos]
  consider "self = []" | "self \<noteq> []" "s = []" | "self \<noteq> []" "length s = 1" | "self \<noteq> []" "1 < length s"
    by (cases s) force+
  then show ?thesis
  proof cases
    case 1
    then show ?thesis
      by (simp add: first_at_def last_at_def sp_find_first_of_def sp_find_last_of_def
          sp_find_first_not_of_def sp_find_last_not_of_def)
  next
    case 2
    then have "min pos (length self - 1) < length self" "min pos (length self - 1) \<noteq> npos"
      using assms by (cases self; auto)+
    with 2 show ?thesis
      by (auto simp: first_at_def last_at_def sp_find_first_of_def sp_find_last_of_def sp_find_last_not_of_def)
  next
    case 3
    have "sp_find_char self (s ! 0) pos = search_up (\<lambda>d. d = s ! 0) pos (drop pos self)"
      by (simp add: sp_find_char_def)
    with 3 show ?thesis
      using up [of "\<lambda>d. d = s ! 0"] up [of "\<lambda>d. d \<noteq> s ! 0"]
        down [of "\<lambda>i. self ! i = s ! 0"] down [of "\<lambda>i. self ! i \<noteq> s ! 0"]
      by (auto simp: singleton_set sp_find_first_of_def sp_find_last_of_def sp_find_first_not_of_def
          sp_find_last_not_of_def sp_rfind_char_def sp_find_first_not_of_char_def sp_find_last_not_of_char_def)
  next
    case 4
    have "s \<noteq> []" using 4(2) by (cases s) simp_all
    moreover from this have "length s \<noteq> 0" by simp
    moreover have "length s \<noteq> 1" using 4(2) by simp
    ultimately show ?thesis using 4(1)
        up [of "\<lambda>c. c \<in> set s"] up [of "\<lambda>c. c \<notin> set s"]
        down [of "\<lambda>i. self ! i \<in> set s"] down [of "\<lambda>i. self ! i \<notin> set s"]
      by (simp add: sp_find_first_of_def sp_find_last_of_def sp_find_first_not_of_def sp_find_last_not_of_def Let_def)
  qed
qed

text \<open>C31: The searches with a set of characters, with their special case for a single character
  and their table of bytes, find the first position at or after pos, and the last at or
  before it, whose character is in the set (is not in the set); for find_first_not_of only
  when the set is not empty.\<close>

theorem set_searches:
  assumes "length self \<le> npos"
  shows "first_at (\<lambda>j. self ! j \<in> set s) (length self) pos (sp_find_first_of self s pos) \<and>
    last_at (\<lambda>j. self ! j \<in> set s) (length self) pos (sp_find_last_of self s pos) \<and>
    (s \<noteq> [] \<longrightarrow> first_at (\<lambda>j. self ! j \<notin> set s) (length self) pos (sp_find_first_not_of self s pos)) \<and>
    last_at (\<lambda>j. self ! j \<notin> set s) (length self) pos (sp_find_last_not_of self s pos)"
  using assms by (rule set_searches_at)

theorem set_searches_witness:
  "sp_find_first_of ''a/b:c'' '':/'' 2 = 3 \<and> sp_find_last_of ''a/b:c'' '':/'' 2 = 1"
proof -
  let ?s = "''a/b:c''" and ?t = "'':/''"
  have len: "length ?s \<le> npos" by (simp add: npos_def)
  have "sp_find_first_of ?s ?t 2 = 3" "sp_find_last_of ?s ?t 2 = 1" by code_simp+
  with set_searches [OF len, of ?t 2] show ?thesis by simp
qed

text \<open>With an empty set of characters find_first_not_of returns 0 for every position, also
  when the search starts after it: not the first position at or after pos.\<close>

theorem find_first_not_of_nothing:
  "sp_find_first_not_of (c # cs) [] pos = 0 \<and> \<not> first_at (\<lambda>j. True) (length (c # cs)) (Suc pos) 0"
  by (simp add: sp_find_first_not_of_def first_at_def npos_def)

section \<open>Occurrences of a piece\<close>

definition occurs_at :: "string \<Rightarrow> string \<Rightarrow> nat \<Rightarrow> bool" where
  "occurs_at s self i = (i + length s \<le> length self \<and> take (length s) (drop i self) = s)"

lemma find_sub_from_before:
  "(case find_sub_from s n t of None \<Rightarrow> k \<le> length t | Some m \<Rightarrow> n + k < m) \<Longrightarrow> take (length s) (drop k t) \<noteq> s"
proof (induction s n t arbitrary: k rule: find_sub_from.induct)
  case (1 s n)
  then show ?case by (cases "s = []") auto
next
  case (2 s n c cs)
  show ?case
  proof (cases "take (length s) (c # cs) = s")
    case True
    with 2(2) show ?thesis by simp
  next
    case False
    show ?thesis
    proof (cases k)
      case 0
      with False show ?thesis by simp
    next
      case (Suc k')
      with 2(2) False have "case find_sub_from s (Suc n) cs of None \<Rightarrow> k' \<le> length cs | Some m \<Rightarrow> Suc n + k' < m"
        by (simp split: option.splits)
      from 2(1) [OF False this] Suc show ?thesis by simp
    qed
  qed
qed

lemma find_sub_before:
  assumes "pos \<le> length str" and "pos \<le> k"
    and "case find_sub str s pos of None \<Rightarrow> k \<le> length str | Some m \<Rightarrow> k < m"
  shows "take (length s) (drop k str) \<noteq> s"
proof -
  have "case find_sub_from s pos (drop pos str) of None \<Rightarrow> k - pos \<le> length (drop pos str) | Some m \<Rightarrow> pos + (k - pos) < m"
    using assms by (simp add: find_sub_def split: option.splits)
  from find_sub_from_before [OF this] assms(2) show ?thesis by simp
qed

text \<open>Find and rfind return the first occurrence at or after pos and the last one that starts
  at or before pos; the empty piece occurs everywhere, at the end too.\<close>

theorem piece_searches:
  assumes "length self < npos"
  shows "first_at (occurs_at s self) (length self + 1) pos (sp_find self s pos) \<and>
     last_at (occurs_at s self) (length self + 1) pos (sp_rfind self s pos)"
proof
  show "first_at (occurs_at s self) (length self + 1) pos (sp_find self s pos)"
  proof (cases "pos \<le> length self")
    case True
    note before = find_sub_before [OF True, of _ s]
    show ?thesis
    proof (cases "find_sub self s pos")
      case None
      have "s \<noteq> []" using before [OF True] None True by auto
      moreover have "\<forall>j. pos \<le> j \<and> j < length self + 1 \<longrightarrow> \<not> occurs_at s self j"
        using before None by (simp add: occurs_at_def)
      ultimately show ?thesis using None True by (simp add: sp_find_def first_at_def)
    next
      case (Some m)
      from find_sub_Some [OF this] have m: "pos \<le> m" "m + length s \<le> length self" "occurs_at s self m"
        by (simp_all add: occurs_at_def)
      moreover have "\<forall>j. pos \<le> j \<and> j < m \<longrightarrow> \<not> occurs_at s self j"
        using before Some by (simp add: occurs_at_def)
      ultimately show ?thesis using Some True assms by (simp add: sp_find_def first_at_def)
    qed
  qed (auto simp: sp_find_def first_at_def)
  show "last_at (occurs_at s self) (length self + 1) pos (sp_rfind self s pos)"
  proof (cases "length self < length s")
    case True
    then show ?thesis by (auto simp: sp_rfind_def last_at_def occurs_at_def)
  next
    case False
    define n where "n = length self - length s + 1"
    have n: "0 < n" "n \<le> npos" "n \<le> length self + 1" using assms by (auto simp: n_def)
    have occ: "occurs_at s self j \<longleftrightarrow> j < n \<and> take (length s) (drop j self) = s" for j
      using False by (auto simp: occurs_at_def n_def)
    show ?thesis
    proof (cases "s = []")
      case True
      have "min (length self) pos \<noteq> npos" using assms by (auto simp: min_def)
      with True False assms show ?thesis by (auto simp: sp_rfind_def last_at_def occurs_at_def)
    next
      case ne: False
      let ?P = "\<lambda>i. take (length s) (drop i self) = s"
      have r: "sp_rfind self s pos = search_down ?P (min pos (n - 1))"
        using False ne by (simp add: sp_rfind_def n_def min.commute)
      from search_down_min [OF n(1,2), of ?P pos] have "last_at ?P n pos (sp_rfind self s pos)"
        unfolding r .
      then show ?thesis using n(3) unfolding last_at_def occ by (auto split: if_splits)
    qed
  qed
qed

theorem piece_searches_witness:
  "sp_find ''abcabc'' ''ca'' 1 = 2 \<and> sp_rfind ''abcabc'' ''abc'' 5 = 3 \<and>
   first_at (occurs_at ''ca'' ''abcabc'') 7 1 2"
proof -
  have "length ''abcabc'' < npos" by (simp add: npos_def)
  moreover have "sp_find ''abcabc'' ''ca'' 1 = 2" "sp_rfind ''abcabc'' ''abc'' 5 = 3" by code_simp+
  ultimately show ?thesis using piece_searches [of "''abcabc''" "''ca''" 1] by (simp add: eval_nat_numeral)
qed

end
