(* ===== verification/Vlog.thy ===== *)
theory Vlog
  imports Strings String_Piece
begin

text \<open>
  src/chromium/vlog.cc: the levels of --v and --vmodule and the matching of a source file
  against the patterns. The pointer to the minimal log level is an int that the operations
  take and return.
\<close>

section \<open>Patterns\<close>

datatype MatchTarget = MATCH_MODULE | MATCH_FILE

record VmodulePattern =
  vp_pattern :: string
  vp_vlog_level :: int
  vp_match_target :: MatchTarget

definition kDefaultVlogLevel :: int where
  "kDefaultVlogLevel = 0"

definition is_slash :: "char \<Rightarrow> bool" where
  "is_slash c = (c = CHR 0x5C \<or> c = CHR ''/'')"

definition new_VmodulePattern :: "string \<Rightarrow> VmodulePattern" where
  "new_VmodulePattern pattern =
     \<lparr>vp_pattern = pattern, vp_vlog_level = kDefaultVlogLevel,
      vp_match_target = (case find_first is_slash pattern of None \<Rightarrow> MATCH_MODULE | Some _ \<Rightarrow> MATCH_FILE)\<rparr>"

section \<open>MatchVlogPattern\<close>

text \<open>The first loop: consume up to the next star. None is the return value false.\<close>

fun vlog_consume :: "string \<Rightarrow> string \<Rightarrow> (string \<times> string) option" where
  "vlog_consume (c # p) (d # s) =
     (if c = CHR ''*'' then Some (c # p, d # s)
      else if is_slash c then (if \<not> is_slash d then None else vlog_consume p s)
      else if c = CHR ''?'' then vlog_consume p s
      else if c \<noteq> d then None
      else vlog_consume p s)"
| "vlog_consume p s = Some (p, s)"

lemma vlog_consume_length:
  "vlog_consume p s = Some (p', s') \<Longrightarrow>
     length p' \<le> length p \<and> length s' \<le> length s \<and> (p' = [] \<or> s' = [] \<or> hd p' = CHR ''*'')"
  by (induction p s rule: vlog_consume.induct) (auto split: if_splits)

text \<open>MatchVlogPattern and its last loop, which tries the rest of the pattern at every suffix.\<close>

function MatchVlogPattern :: "string \<Rightarrow> string \<Rightarrow> bool"
  and vlog_suffixes :: "string \<Rightarrow> string \<Rightarrow> bool" where
  "MatchVlogPattern str vlog_pattern =
     (case vlog_consume vlog_pattern str of
        None \<Rightarrow> False
      | Some (p, s) \<Rightarrow>
          if p = [] then s = []
          else (let p = dropWhile (\<lambda>c. c = CHR ''*'') p
                in if p = [] then True else if s = [] then False else vlog_suffixes s p))"
| "vlog_suffixes [] p = False"
| "vlog_suffixes (c # s) p = (if MatchVlogPattern (c # s) p then True else vlog_suffixes s p)"
  by pat_completeness auto
termination
proof (relation "measures [\<lambda>x. case x of Inl (s, p) \<Rightarrow> 2 * length p | Inr (s, p) \<Rightarrow> 2 * length p + 1,
    \<lambda>x. case x of Inl (s, p) \<Rightarrow> length s | Inr (s, p) \<Rightarrow> length s]", goal_cases)
  case (2 str pat x p s p')
  then have c: "vlog_consume pat str = Some (p, s)" by simp
  have "hd p = CHR ''*''" using vlog_consume_length [OF c] 2 by simp
  then have "length p' < length p" using 2 length_dropWhile_less [of p "\<lambda>c. c = CHR ''*''"] by simp
  then show ?case using vlog_consume_length [OF c] by simp
qed auto

declare MatchVlogPattern.simps [simp del]

section \<open>VlogInfo\<close>

record VlogInfo =
  vmodule_levels :: "VmodulePattern list"

definition SetMaxVlogLevel :: "int \<Rightarrow> int \<Rightarrow> int" where
  "SetMaxVlogLevel level min_log_level = - level"

definition GetMaxVlogLevel :: "int \<Rightarrow> int" where
  "GetMaxVlogLevel min_log_level = - min_log_level"

fun vmodule_loop :: "(string \<times> string) list \<Rightarrow> VmodulePattern list" where
  "vmodule_loop [] = []"
| "vmodule_loop ((k, v) # kvs) =
     (new_VmodulePattern k)\<lparr>vp_vlog_level := atoi v\<rparr> # vmodule_loop kvs"

text \<open>The constructor: the object and the new minimal log level.\<close>

definition new_VlogInfo :: "string \<Rightarrow> string \<Rightarrow> int \<Rightarrow> VlogInfo \<times> int" where
  "new_VlogInfo v_switch vmodule_switch min_log_level =
     (\<lparr>vmodule_levels = vmodule_loop (snd (SplitStringIntoKeyValuePairs vmodule_switch (CHR ''='') (CHR '','')))\<rparr>,
      if v_switch \<noteq> [] then SetMaxVlogLevel (atoi v_switch) min_log_level else min_log_level)"

definition kInlSuffix :: string where
  "kInlSuffix = ''-inl''"

text \<open>GetModule; a piece is never cut past its end, so the cuts are total here.\<close>

definition GetModule :: "string \<Rightarrow> string option" where
  "GetModule file =
     (let last_slash_pos = sp_find_last_of file [CHR 0x5C, CHR ''/''] npos in
      Option.bind (if last_slash_pos \<noteq> npos then remove_prefix (last_slash_pos + 1) file else Some file)
        (\<lambda>module.
           let extension_start = sp_rfind_char module (CHR ''.'') npos;
               module = sp_substr module 0 extension_start
           in if ends_with module kInlSuffix then remove_suffix (length kInlSuffix) module else Some module))"

fun vlog_level_loop :: "VmodulePattern list \<Rightarrow> string \<Rightarrow> string \<Rightarrow> int option" where
  "vlog_level_loop [] file module = None"
| "vlog_level_loop (it # its) file module =
     (let target = (if vp_match_target it = MATCH_FILE then file else module)
      in if MatchVlogPattern target (vp_pattern it) then Some (vp_vlog_level it)
         else vlog_level_loop its file module)"

definition GetVlogLevel :: "VlogInfo \<Rightarrow> int \<Rightarrow> string \<Rightarrow> int option" where
  "GetVlogLevel info min_log_level file =
     (if vmodule_levels info \<noteq> [] then
        Option.bind (GetModule file)
          (\<lambda>module. Some (case vlog_level_loop (vmodule_levels info) file module of
             Some level \<Rightarrow> level
           | None \<Rightarrow> GetMaxVlogLevel min_log_level))
      else Some (GetMaxVlogLevel min_log_level))"

section \<open>What a pattern matches\<close>

definition char_matches :: "char \<Rightarrow> char \<Rightarrow> bool" where
  "char_matches c d = (if is_slash c then is_slash d else c = CHR ''?'' \<or> c = d)"

inductive vlog_matches :: "string \<Rightarrow> string \<Rightarrow> bool" where
  match_end: "vlog_matches [] []"
| match_star: "vlog_matches p s \<Longrightarrow> vlog_matches (CHR ''*'' # p) (t @ s)"
| match_char: "c \<noteq> CHR ''*'' \<Longrightarrow> char_matches c d \<Longrightarrow> vlog_matches p s \<Longrightarrow> vlog_matches (c # p) (d # s)"

inductive_cases vlog_matches_Cons: "vlog_matches (c # p) s"

inductive_simps vlog_matches_Nil [simp]: "vlog_matches [] s"

lemma vlog_matches_char [simp]:
  "c \<noteq> CHR ''*'' \<Longrightarrow> vlog_matches (c # p) (d # s) \<longleftrightarrow> char_matches c d \<and> vlog_matches p s"
  by (auto intro: match_char elim: vlog_matches_Cons)

lemma vlog_matches_empty [simp]: "c \<noteq> CHR ''*'' \<Longrightarrow> \<not> vlog_matches (c # p) []"
  by (auto elim: vlog_matches_Cons)

lemma vlog_matches_star:
  "vlog_matches (CHR ''*'' # p) s \<longleftrightarrow> (\<exists>i\<le>length s. vlog_matches p (drop i s))"
proof
  assume "vlog_matches (CHR ''*'' # p) s"
  then obtain t s' where "s = t @ s'" "vlog_matches p s'" by (auto elim: vlog_matches_Cons)
  then show "\<exists>i\<le>length s. vlog_matches p (drop i s)" by (intro exI [of _ "length t"]) simp
next
  assume "\<exists>i\<le>length s. vlog_matches p (drop i s)"
  then obtain i where "vlog_matches p (drop i s)" by blast
  from match_star [OF this, of "take i s"] show "vlog_matches (CHR ''*'' # p) s" by simp
qed

lemma ex_split_sum: "(\<exists>j\<le>n. \<exists>i\<le>n - j. P (i + j)) \<longleftrightarrow> (\<exists>i\<le>n. P (i :: nat))"
proof
  assume "\<exists>j\<le>n. \<exists>i\<le>n - j. P (i + j)"
  then obtain j i where "j \<le> n" "i \<le> n - j" "P (i + j)" by blast
  then show "\<exists>i\<le>n. P i" by (intro exI [of _ "i + j"]) simp
next
  assume "\<exists>i\<le>n. P i"
  then show "\<exists>j\<le>n. \<exists>i\<le>n - j. P (i + j)" by (intro exI [of _ 0]) simp
qed

lemma vlog_matches_stars:
  assumes "p \<noteq> []" and "hd p = CHR ''*''"
  shows "vlog_matches p s \<longleftrightarrow> (\<exists>i\<le>length s. vlog_matches (dropWhile (\<lambda>c. c = CHR ''*'') p) (drop i s))"
  using assms
proof (induction p arbitrary: s)
  case (Cons c p)
  show ?case
  proof (cases "p \<noteq> [] \<and> hd p = CHR ''*''")
    case True
    let ?q = "dropWhile (\<lambda>c. c = CHR ''*'') p"
    have "vlog_matches (c # p) s \<longleftrightarrow> (\<exists>j\<le>length s. \<exists>i\<le>length s - j. vlog_matches ?q (drop (i + j) s))"
      using Cons True by (simp add: vlog_matches_star)
    also have "\<dots> \<longleftrightarrow> (\<exists>i\<le>length s. vlog_matches ?q (drop i s))"
      by (rule ex_split_sum)
    finally show ?thesis using Cons.prems by simp
  next
    case False
    then have "dropWhile (\<lambda>c. c = CHR ''*'') p = p" by (cases p) auto
    with Cons.prems show ?thesis by (simp add: vlog_matches_star)
  qed
qed simp

lemma vlog_consume_matches:
  "vlog_matches p s = (case vlog_consume p s of None \<Rightarrow> False | Some (p', s') \<Rightarrow> vlog_matches p' s')"
  by (induction p s rule: vlog_consume.induct) (auto simp: char_matches_def)

lemma match_step:
  assumes "vlog_consume pat str = Some (p, s)"
    and "\<And>q. s \<noteq> [] \<Longrightarrow> q \<noteq> [] \<Longrightarrow> q = dropWhile (\<lambda>c. c = CHR ''*'') p \<Longrightarrow>
           vlog_suffixes s q = (\<exists>i<length s. vlog_matches q (drop i s))"
  shows "MatchVlogPattern str pat = vlog_matches p s"
proof -
  let ?q = "dropWhile (\<lambda>c. c = CHR ''*'') p"
  have code: "MatchVlogPattern str pat =
      (if p = [] then s = [] else if ?q = [] then True else if s = [] then False else vlog_suffixes s ?q)"
    by (simp add: MatchVlogPattern.simps [of str pat] assms(1) Let_def)
  show ?thesis
  proof (cases "p = [] \<or> hd p \<noteq> CHR ''*''")
    case True
    then have "p = [] \<or> s = [] \<and> ?q = p"
      using vlog_consume_length [OF assms(1)] by (cases p) auto
    then show ?thesis using True by (cases p) (auto simp: code)
  next
    case False
    note stars = vlog_matches_stars [of p s]
    show ?thesis
    proof (cases "?q = []")
      case True
      with False stars show ?thesis by (auto simp: code)
    next
      case ne: False
      have "\<not> vlog_matches ?q []"
        using ne hd_dropWhile [OF ne] by (cases ?q) auto
      then have "(\<exists>i\<le>length s. vlog_matches ?q (drop i s)) \<longleftrightarrow> (\<exists>i<length s. vlog_matches ?q (drop i s))"
        by (metis drop_all le_eq_less_or_eq order_refl)
      with False ne stars assms(2) [of ?q] show ?thesis by (auto simp: code)
    qed
  qed
qed

lemma MatchVlogPattern_matches:
  "MatchVlogPattern str pat = vlog_matches pat str"
  "vlog_suffixes s q = (\<exists>i<length s. vlog_matches q (drop i s))"
proof (induction str pat and s q rule: MatchVlogPattern_vlog_suffixes.induct)
  case (1 str pat)
  show ?case
  proof (cases "vlog_consume pat str")
    case None
    then show ?thesis by (simp add: MatchVlogPattern.simps [of str pat] vlog_consume_matches [of pat])
  next
    case (Some r)
    obtain p s where r: "r = (p, s)" by (cases r)
    have "MatchVlogPattern str pat = vlog_matches p s"
      using match_step Some r 1 by (cases "p = []") force+
    then show ?thesis using Some r by (simp add: vlog_consume_matches [of pat])
  qed
next
  case (3 c s p)
  have "(\<exists>i<length (c # s). vlog_matches p (drop i (c # s))) \<longleftrightarrow>
      vlog_matches p (c # s) \<or> (\<exists>i<length s. vlog_matches p (drop i s))"
    by (auto simp: less_Suc_eq_0_disj)
  with 3 show ?case by auto
qed simp

text \<open>C23: A pattern matches exactly what the documentation of the switch says: a star stands for
  any text, a question mark for any character, a slash of either kind for a slash of either
  kind, every other character for itself; and the matching always ends.\<close>

theorem vlog_pattern_matching:
  "MatchVlogPattern str pat = vlog_matches pat str"
  by (rule MatchVlogPattern_matches(1))

section \<open>The module of a file\<close>

lemma last_at_unique: "last_at P len pos r \<Longrightarrow> last_at P len pos r' \<Longrightarrow> r = r'"
  by (cases r r' rule: linorder_cases) (auto simp: last_at_def split: if_splits)

lemma rfind_char_last:
  assumes "s \<noteq> []" and "length s \<le> npos"
  shows "last_at (\<lambda>i. s ! i = c) (length s) pos (sp_rfind_char s c pos)"
  using assms search_down_min [of "length s" "\<lambda>i. s ! i = c" pos] by (simp add: sp_rfind_char_def)

definition no_slash :: "string \<Rightarrow> bool" where
  "no_slash s = (\<forall>c\<in>set s. \<not> is_slash c)"

lemma last_slash:
  assumes "d = [] \<or> is_slash (last d)" and "no_slash s" and "length (d @ s) < npos"
  shows "sp_find_last_of (d @ s) [CHR 0x5C, CHR ''/''] npos = (if d = [] then npos else length d - 1)"
proof (rule last_at_unique)
  have set: "c \<in> set [CHR 0x5C, CHR ''/''] \<longleftrightarrow> is_slash c" for c by (simp add: is_slash_def)
  show "last_at (\<lambda>j. (d @ s) ! j \<in> set [CHR 0x5C, CHR ''/'']) (length (d @ s)) npos
      (sp_find_last_of (d @ s) [CHR 0x5C, CHR ''/''] npos)"
    using set_searches_at [of "d @ s" "[CHR 0x5C, CHR ''/'']" npos] assms(3) by simp
  have "\<not> is_slash ((d @ s) ! j)" if "length d \<le> j" "j < length (d @ s)" for j
    using that assms(2) by (auto simp: no_slash_def nth_append)
  moreover have "is_slash ((d @ s) ! (length d - 1))" if "d \<noteq> []"
    using that assms(1) by (simp add: nth_append last_conv_nth)
  moreover have "length d - Suc 0 < length d + length s" if "d \<noteq> []" using that by (cases d) auto
  ultimately show "last_at (\<lambda>j. (d @ s) ! j \<in> set [CHR 0x5C, CHR ''/'']) (length (d @ s)) npos
      (if d = [] then npos else length d - 1)"
    unfolding set last_at_def using assms(3) by (cases "d = []") auto
qed

lemma last_dot:
  assumes "e = [] \<and> CHR ''.'' \<notin> set m \<or> (\<exists>x. e = CHR ''.'' # x \<and> CHR ''.'' \<notin> set x)"
    and "length (m @ e) < npos"
  shows "sp_substr (m @ e) 0 (sp_rfind_char (m @ e) (CHR ''.'') npos) = m"
proof (cases "m @ e = []")
  case True
  then show ?thesis by (simp add: sp_substr_def)
next
  case False
  have "sp_rfind_char (m @ e) (CHR ''.'') npos = (if e = [] then npos else length m)"
  proof (rule last_at_unique)
    show "last_at (\<lambda>i. (m @ e) ! i = CHR ''.'') (length (m @ e)) npos (sp_rfind_char (m @ e) (CHR ''.'') npos)"
      using assms(2) False by (intro rfind_char_last) auto
    show "last_at (\<lambda>i. (m @ e) ! i = CHR ''.'') (length (m @ e)) npos (if e = [] then npos else length m)"
      using assms by (auto simp: last_at_def nth_append in_set_conv_nth nth_Cons' split: if_splits)
  qed
  then show ?thesis using assms(2) by (auto simp: sp_substr_def)
qed

definition chop_inl :: "string \<Rightarrow> string" where
  "chop_inl m = (if suffix kInlSuffix m then take (length m - length kInlSuffix) m else m)"

lemma GetModule_eq:
  assumes "d = [] \<or> is_slash (last d)" and "no_slash (m @ e)"
    and "e = [] \<and> CHR ''.'' \<notin> set m \<or> (\<exists>x. e = CHR ''.'' # x \<and> CHR ''.'' \<notin> set x)"
    and "length (d @ m @ e) < npos"
  shows "GetModule (d @ m @ e) = Some (chop_inl m)"
proof -
  have "length d - 1 \<noteq> npos" using assms(4) by simp
  then have "GetModule (d @ m @ e) =
      (let m' = sp_substr (m @ e) 0 (sp_rfind_char (m @ e) (CHR ''.'') npos)
       in if ends_with m' kInlSuffix then remove_suffix (length kInlSuffix) m' else Some m')"
    unfolding GetModule_def last_slash [OF assms(1,2,4)] by (cases "d = []") (simp_all add: remove_prefix_def)
  also have "sp_substr (m @ e) 0 (sp_rfind_char (m @ e) (CHR ''.'') npos) = m"
    by (rule last_dot [OF assms(3)]) (use assms(4) in simp)
  finally show ?thesis
    by (auto simp: ends_with_iff remove_suffix_def chop_inl_def suffix_length_le)
qed

lemma path_parts:
  obtains d m e where "file = d @ m @ e" and "d = [] \<or> is_slash (last d)" and "no_slash (m @ e)"
    and "e = [] \<and> CHR ''.'' \<notin> set m \<or> (\<exists>x. e = CHR ''.'' # x \<and> CHR ''.'' \<notin> set x)"
proof -
  let ?b = "rev (takeWhile (\<lambda>c. \<not> is_slash c) (rev file))"
  let ?d = "rev (dropWhile (\<lambda>c. \<not> is_slash c) (rev file))"
  have f: "file = ?d @ ?b" by (metis rev_append rev_rev_ident takeWhile_dropWhile_id)
  have d: "?d = [] \<or> is_slash (last ?d)"
    by (metis (mono_tags, lifting) hd_dropWhile last_rev rev.simps(1) rev_rev_ident)
  have b: "no_slash ?b" using set_takeWhileD by (fastforce simp: no_slash_def)
  show ?thesis
  proof (cases "CHR ''.'' \<in> set ?b")
    case True
    from split_list_last [OF this] obtain m x where "?b = m @ CHR ''.'' # x" "CHR ''.'' \<notin> set x" by blast
    with f d b show ?thesis by (intro that [of ?d m "CHR ''.'' # x"]) auto
  next
    case False
    with f d b show ?thesis by (intro that [of ?d ?b "[]"]) auto
  qed
qed

lemma GetModule_total:
  assumes "length file < npos"
  shows "\<exists>m. GetModule file = Some m"
proof -
  obtain d m e where "file = d @ m @ e" "d = [] \<or> is_slash (last d)" "no_slash (m @ e)"
    "e = [] \<and> CHR ''.'' \<notin> set m \<or> (\<exists>x. e = CHR ''.'' # x \<and> CHR ''.'' \<notin> set x)"
    by (rule path_parts)
  with GetModule_eq [of d m e] assms show ?thesis by blast
qed

text \<open>The module of a path is its last component without its last extension and without the
  suffix -inl, and no cut goes past the end of the piece.\<close>

theorem GetModule_of_path:
  assumes "d = [] \<or> is_slash (last d)" and "no_slash (m @ e)"
    and "e = [] \<and> CHR ''.'' \<notin> set m \<or> (\<exists>x. e = CHR ''.'' # x \<and> CHR ''.'' \<notin> set x)"
    and "length (d @ m @ e) < npos"
  shows "GetModule (d @ m @ e) = Some (chop_inl m)"
  using assms by (rule GetModule_eq)

theorem GetModule_of_path_witness:
  "GetModule (''src/'' @ ''consumer-inl'' @ ''.hh'') = Some ''consumer''"
proof -
  have "chop_inl ''consumer-inl'' = ''consumer''" by code_simp
  with GetModule_of_path [of "''src/''" "''consumer-inl''" "''.hh''"] show ?thesis
    by (simp add: is_slash_def no_slash_def npos_def)
qed

section \<open>The level of a file\<close>

definition target_of :: "string \<Rightarrow> string \<Rightarrow> string \<Rightarrow> string" where
  "target_of pattern file module = (if no_slash pattern then module else file)"

lemma new_pattern_target:
  "vp_match_target (new_VmodulePattern k) = (if no_slash k then MATCH_MODULE else MATCH_FILE)"
  by (auto simp: new_VmodulePattern_def find_first_eq no_slash_def)

lemma vlog_level_loop_find:
  "vlog_level_loop (vmodule_loop kvs) file module =
     map_option (\<lambda>kv. atoi (snd kv)) (find (\<lambda>kv. vlog_matches (fst kv) (target_of (fst kv) file module)) kvs)"
proof (induction kvs)
  case (Cons kv kvs)
  obtain k v where kv: "kv = (k, v)" by (cases kv)
  have "vp_pattern (new_VmodulePattern k) = k" by (simp add: new_VmodulePattern_def)
  with Cons kv show ?case
    by (simp add: new_pattern_target target_of_def MatchVlogPattern_matches(1))
qed simp

text \<open>The text of a --vmodule switch.\<close>

definition vmodule_text :: "(string \<times> string) list \<Rightarrow> string" where
  "vmodule_text kvs = JoinString (map (\<lambda>(k, v). k @ CHR ''='' # v) kvs) (CHR '','')"

lemma vmodule_text_pairs:
  assumes ok: "\<forall>(k, v)\<in>set kvs. k \<noteq> [] \<and> v \<noteq> [] \<and> CHR ''='' \<notin> set k \<and> hd v \<noteq> CHR ''='' \<and>
      CHR '','' \<notin> set k \<and> CHR '','' \<notin> set v \<and> \<not> ws (hd k) \<and> \<not> ws (last v)"
    and ne: "kvs \<noteq> []"
  shows "SplitStringIntoKeyValuePairs (vmodule_text kvs) (CHR ''='') (CHR '','') = (True, kvs)"
proof -
  let ?ps = "map (\<lambda>(k, v). k @ CHR ''='' # v) kvs"
  have "split_on (CHR '','') (vmodule_text kvs) = ?ps"
    unfolding vmodule_text_def using ok ne by (intro split_on_join) auto
  moreover have "strip ws p = p" if "p \<in> set ?ps" for p
    using that ok by (intro strip_id) (auto split: prod.splits)
  then have "map (strip ws) ?ps = ?ps" by (intro map_idI)
  moreover have "kv_pairs_loop (CHR ''='') ?ps True [] = (True, [] @ kvs)"
    by (rule kv_pairs_loop_print) (use ok in auto)
  ultimately show ?thesis
    by (simp only: SplitStringIntoKeyValuePairs_def SplitString_eq append_Nil)
qed

text \<open>The level of a file is the one of the first pattern of --vmodule that matches it (the
  whole path if the pattern holds a slash, the module otherwise), and the level of --v for
  a file that none matches.\<close>

theorem GetVlogLevel_first_match:
  assumes "\<forall>(k, v)\<in>set kvs. k \<noteq> [] \<and> v \<noteq> [] \<and> CHR ''='' \<notin> set k \<and> hd v \<noteq> CHR ''='' \<and>
      CHR '','' \<notin> set k \<and> CHR '','' \<notin> set v \<and> \<not> ws (hd k) \<and> \<not> ws (last v)"
    and "kvs \<noteq> []" and "v_switch \<noteq> []" and "length file < npos"
    and new: "new_VlogInfo v_switch (vmodule_text kvs) m = (info, m')"
  shows "\<exists>module. GetModule file = Some module \<and>
     GetVlogLevel info m' file = Some
       (case find (\<lambda>kv. vlog_matches (fst kv) (target_of (fst kv) file module)) kvs of
          Some kv \<Rightarrow> atoi (snd kv)
        | None \<Rightarrow> atoi v_switch)"
proof -
  from GetModule_total [OF assms(4)] obtain module where m: "GetModule file = Some module" by blast
  have "vmodule_levels info = vmodule_loop kvs" "m' = - atoi v_switch"
    using new assms(3) by (auto simp: new_VlogInfo_def vmodule_text_pairs [OF assms(1,2)] SetMaxVlogLevel_def)
  moreover have "vmodule_loop kvs \<noteq> []" using assms(2) by (cases kvs) auto
  ultimately show ?thesis
    by (simp add: m GetVlogLevel_def vlog_level_loop_find GetMaxVlogLevel_def split: option.split)
qed

theorem GetVlogLevel_first_match_witness:
  "\<exists>info m'. new_VlogInfo ''1'' (vmodule_text [(''con*'', ''4''), (''*/googleurl/*'', ''2'')]) 0 = (info, m') \<and>
     GetVlogLevel info m' ''src/googleurl/url_parse.cc'' = Some 2"
proof -
  let ?kvs = "[(''con*'', ''4''), (''*/googleurl/*'', ''2'')]" and ?f = "''src/googleurl/url_parse.cc''"
  obtain info m' where new: "new_VlogInfo ''1'' (vmodule_text ?kvs) 0 = (info, m')" by fastforce
  have chop: "chop_inl ''url_parse'' = ''url_parse''" by code_simp
  have module: "GetModule ?f = Some ''url_parse''"
    using GetModule_eq [of "''src/googleurl/''" "''url_parse''" "''.cc''"]
    by (simp add: chop is_slash_def no_slash_def npos_def)
  have no: "MatchVlogPattern ''url_parse'' ''con*'' = False" by code_simp
  have yes: "MatchVlogPattern ?f ''*/googleurl/*'' = True" by code_simp
  have two: "atoi ''2'' = 2" by code_simp
  have targets: "target_of ''con*'' ?f ''url_parse'' = ''url_parse''" "target_of ''*/googleurl/*'' ?f ''url_parse'' = ?f"
    by code_simp+
  have ok: "\<forall>(k, v)\<in>set ?kvs. k \<noteq> [] \<and> v \<noteq> [] \<and> CHR ''='' \<notin> set k \<and> hd v \<noteq> CHR ''='' \<and>
      CHR '','' \<notin> set k \<and> CHR '','' \<notin> set v \<and> \<not> ws (hd k) \<and> \<not> ws (last v)"
    by (simp add: kWhitespaceASCII_def)
  have first: "find (\<lambda>kv. vlog_matches (fst kv) (target_of (fst kv) ?f ''url_parse'')) ?kvs = Some (''*/googleurl/*'', ''2'')"
    by (simp only: find.simps fst_conv targets MatchVlogPattern_matches(1) [symmetric] no yes if_True if_False)
  have "length ?f < npos" by (simp add: npos_def)
  from GetVlogLevel_first_match [OF ok _ _ this new] obtain module where "GetModule ?f = Some module"
    "GetVlogLevel info m' ?f = Some (case find (\<lambda>kv. vlog_matches (fst kv) (target_of (fst kv) ?f module)) ?kvs of
       Some kv \<Rightarrow> atoi (snd kv) | None \<Rightarrow> atoi ''1'')" by blast
  with module first two have "GetVlogLevel info m' ?f = Some 2" by simp
  with new show ?thesis by blast
qed

end
