(* ===== verification/Rfa_Config.thy ===== *)
theory Rfa_Config
  imports Config
begin

text \<open>
  src/rfa.cc: the paths of the RFA configuration database and the settings that rfa_t::Init
  stages for every session, src/error.cc: the names of the severities, and src/rfa_logging.cc: the life
  of the log event provider. What the RFA and TIB libraries answer is a parameter; the exceptions their
  configuration calls can raise are not modelled.
\<close>

section \<open>Paths\<close>

text \<open>std::string::replace (2, 2, s): two characters go, however long the prefix was.\<close>

definition replace22 :: "string \<Rightarrow> string \<Rightarrow> string" where
  "replace22 str s = take 2 str @ s @ drop 4 str"

definition expand_hive :: "string \<Rightarrow> string" where
  "expand_hive str =
     (if take 2 str = ''HK'' then
        (if take 2 (drop 2 str) = ''LM'' then replace22 str ''EY_LOCAL_MACHINE''
         else if take 4 str = ''HKCC'' then replace22 str ''EY_CURRENT_CONFIG''
         else if take 4 str = ''HKCR'' then replace22 str ''EY_CLASSES_ROOT''
         else if take 4 str = ''HKCU'' then replace22 str ''EY_CURRENT_USER''
         else if take 3 str = ''HKU'' then replace22 str ''EY_USERS''
         else str)
      else str)"

text \<open>The loop that turns each slash it finds into a backslash and goes on behind it.\<close>

function slash_loop :: "string \<Rightarrow> nat \<Rightarrow> string" where
  "slash_loop s pos =
     (case find_sub s ''/'' pos of
        None \<Rightarrow> s
      | Some p \<Rightarrow> slash_loop (s[p := CHR 0x5C]) (p + 1))"
  by pat_completeness auto
termination
  by (relation "measure (\<lambda>(s, pos). length s - pos)") (auto dest: find_sub_Some)

declare slash_loop.simps [simp del]

definition fix_rfa_string_path :: "string \<Rightarrow> string" where
  "fix_rfa_string_path rfa_str = slash_loop (expand_hive rfa_str) 0"

section \<open>The staging database\<close>

datatype setting = SetBool bool | SetLong int | SetString string

type_synonym staging = "(string \<times> setting) list"

definition stage :: "string \<Rightarrow> setting \<Rightarrow> staging \<Rightarrow> staging" where
  "stage name v db = db @ [(fix_rfa_string_path name, v)]"

definition kRSSL :: string where
  "kRSSL = ''rssl''"

definition kSSLED :: string where
  "kSSLED = ''ssled''"

definition ssl_user :: "session_config_t \<Rightarrow> string" where
  "ssl_user s =
     (let value = user_name s in
      if application_id s \<noteq> [] then
        (let value = value @ ''+'' @ application_id s
         in if position s \<noteq> [] then value @ ''+'' @ position s else value)
      else value)"

text \<open>The loop over the sessions; its state is the database and the two flags, None is the return
  value false.\<close>

fun session_loop :: "session_config_t list \<Rightarrow> staging \<Rightarrow> bool \<Rightarrow> bool \<Rightarrow> (staging \<times> bool \<times> bool) option" where
  "session_loop [] db disable_entitlements load_mfeed_dictionary =
     Some (db, disable_entitlements, load_mfeed_dictionary)"
| "session_loop (s # ss) db disable_entitlements load_mfeed_dictionary =
     (let db = stage (''/Sessions/'' @ session_name s @ ''/connectionList'') (SetString (connection_name s)) db;
          db = stage (''/Connections/'' @ connection_name s @ ''/serverList'')
                 (SetString (JoinString (servers s) (CHR '',''))) db
      in if LowerCaseEqualsASCII (protocol s) kRSSL then
           (let db = stage (''/Connections/'' @ connection_name s @ ''/connectionType'') (SetString ''RSSL'') db;
                db = (if default_port s \<noteq> [] then
                        stage (''/Connections/'' @ connection_name s @ ''/rsslPort'') (SetString (default_port s)) db
                      else db)
            in session_loop ss db disable_entitlements load_mfeed_dictionary)
         else if LowerCaseEqualsASCII (protocol s) kSSLED then
           (let db = stage (''/Connections/'' @ connection_name s @ ''/connectionType'') (SetString ''SSLED'') db;
                db = (if default_port s \<noteq> [] then
                        stage (''/Connections/'' @ connection_name s @ ''/portNumber'')
                          (SetLong (atoi (default_port s))) db
                      else db);
                db = stage (''/Connections/'' @ connection_name s @ ''/userName'') (SetString (ssl_user s)) db
            in session_loop ss db True True)
         else None)"

section \<open>rfa_t\<close>

text \<open>What the libraries answer: the staging database can be created, the dictionary files can be
  read, the live database can be acquired, the merge is accepted.\<close>

record rfa_env =
  env_staging :: bool
  env_dictionary :: bool
  env_acquire :: bool
  env_merge :: "staging \<Rightarrow> bool"

text \<open>The settings merged into the live database, and whether it is held.\<close>

record rfa_t =
  rfa_config_held :: bool
  rfa_merged :: "staging option"

definition new_rfa :: rfa_t where
  "new_rfa = \<lparr>rfa_config_held = False, rfa_merged = None\<rparr>"

definition rfa_Init :: "rfa_env \<Rightarrow> config_t \<Rightarrow> rfa_t \<Rightarrow> bool \<times> rfa_t" where
  "rfa_Init env cfg r =
     (if \<not> env_staging env then (False, r)
      else
        (let db = stage ''/Logger/AppLogger/windowsLoggerEnabled'' (SetBool False) [];
             db = stage ''/Logger/AppLogger/fileLoggerEnabled'' (SetBool False) db;
             db = stage ''/Logger/AppLogger/useInternalLogStrings'' (SetBool True) db
         in case session_loop (sessions cfg) db False False of
              None \<Rightarrow> (False, r)
            | Some (db, disable_entitlements, load_mfeed_dictionary) \<Rightarrow>
                (let db = (if disable_entitlements then
                             stage ''/Control/Entitlements/dacs_SbeEnabled'' (SetBool False)
                               (stage ''/Control/Entitlements/dacs_CbeEnabled'' (SetBool False) db)
                           else db)
                 in if load_mfeed_dictionary \<and> \<not> env_dictionary env then (False, r)
                    else if \<not> env_acquire env then (False, r\<lparr>rfa_config_held := False\<rparr>)
                    else (let r = r\<lparr>rfa_config_held := True\<rparr>
                          in if \<not> env_merge env db then (False, r)
                             else (True, r\<lparr>rfa_merged := Some db\<rparr>)))))"

text \<open>VerifyVersion: compareCase belongs to the RFA library; a result that is not 0 is logged at
  FATAL and reported.\<close>

definition VerifyVersion :: "(string \<Rightarrow> string \<Rightarrow> int) \<Rightarrow> string \<Rightarrow> string \<Rightarrow> bool" where
  "VerifyVersion compareCase library_version runtime_version =
     (if compareCase (take (length library_version) runtime_version) library_version \<noteq> 0 then False
      else True)"

section \<open>error.cc\<close>

text \<open>The enumerators of rfa::common::Exception, as the parameter of the two functions names them.\<close>

datatype severity = SeverityError | SeverityWarning | SeverityInformation | OtherSeverity int

datatype classification =
  Anticipated | Internal | External | IncorrectAPIUsage | ConfigurationError | OtherClassification int

fun severity_string :: "severity \<Rightarrow> string" where
  "severity_string SeverityError = ''Error''"
| "severity_string SeverityWarning = ''Warning''"
| "severity_string SeverityInformation = ''Information''"
| "severity_string (OtherSeverity _) = ''(Unknown)''"

fun classification_string :: "classification \<Rightarrow> string" where
  "classification_string Anticipated = ''Anticipated''"
| "classification_string Internal = ''Internal''"
| "classification_string External = ''External''"
| "classification_string IncorrectAPIUsage = ''IncorrectAPIUsage''"
| "classification_string ConfigurationError = ''ConfigurationError''"
| "classification_string (OtherClassification _) = ''(Unknown)''"

section \<open>The log event provider\<close>

text \<open>The calls the provider makes, and what it holds.\<close>

datatype log_call =
    AcquireLogger | CreateMonitor string | RegisterLoggerClient | UnregisterLoggerClient nat
  | DestroyMonitor | ReleaseLogger

record log_provider =
  lp_monitor_name :: string
  lp_logger :: bool
  lp_monitor :: bool
  lp_handle :: "nat option"

definition new_log_provider :: "config_t \<Rightarrow> log_provider" where
  "new_log_provider cfg =
     \<lparr>lp_monitor_name = monitor_name cfg, lp_logger = False, lp_monitor = False, lp_handle = None\<rparr>"

text \<open>Register: the answers of the library are whether the logger and the monitor are given and
  the handle of the client.\<close>

definition Register :: "bool \<Rightarrow> bool \<Rightarrow> nat option \<Rightarrow> log_provider \<Rightarrow> bool \<times> log_provider \<times> log_call list" where
  "Register logger monitor handle p =
     (let p = p\<lparr>lp_logger := logger\<rparr> in
      if \<not> logger then (False, p, [AcquireLogger])
      else
        (let p = p\<lparr>lp_monitor := monitor\<rparr> in
         if \<not> monitor then (False, p, [AcquireLogger, CreateMonitor (lp_monitor_name p)])
         else (handle \<noteq> None, p\<lparr>lp_handle := handle\<rparr>,
               [AcquireLogger, CreateMonitor (lp_monitor_name p), RegisterLoggerClient])))"

definition Unregister :: "log_provider \<Rightarrow> bool \<times> log_provider \<times> log_call list" where
  "Unregister p =
     (True, p\<lparr>lp_handle := None, lp_monitor := False, lp_logger := False\<rparr>,
      (case lp_handle p of None \<Rightarrow> [] | Some h \<Rightarrow> [UnregisterLoggerClient h]) @
      (if lp_monitor p then [DestroyMonitor] else []) @
      (if lp_logger p then [ReleaseLogger] else []))"

text \<open>The printer of a log event indexes a table of four names: None is a read past its end.\<close>

definition log_severity_name :: "nat \<Rightarrow> string option" where
  "log_severity_name s =
     (let severity = [''Success'', ''Information'', ''Warning'', ''Error'']
      in if s < length severity then Some (severity ! s) else None)"

section \<open>What the paths become\<close>

definition backslash :: "char \<Rightarrow> char" where
  "backslash c = (if c = CHR ''/'' then CHR 0x5C else c)"

lemma find_sub_slash:
  "find_sub s ''/'' pos = (if pos \<le> length s \<and> CHR ''/'' \<in> set (drop pos s)
     then Some (pos + length (takeWhile (\<lambda>c. c \<noteq> CHR ''/'') (drop pos s))) else None)"
proof -
  have "find_sub_from ''/'' n t =
      (if CHR ''/'' \<in> set t then Some (n + length (takeWhile (\<lambda>c. c \<noteq> CHR ''/'') t)) else None)" for n t
    by (induction t arbitrary: n) auto
  then show ?thesis by (auto simp: find_sub_def)
qed

lemma map_backslash_id: "CHR ''/'' \<notin> set s \<Longrightarrow> map backslash s = s"
  by (induction s) (auto simp: backslash_def)

lemma slash_loop_eq: "pos \<le> length s \<Longrightarrow> slash_loop s pos = take pos s @ map backslash (drop pos s)"
proof (induction "length s - pos" arbitrary: s pos rule: less_induct)
  case less
  show ?case
  proof (cases "CHR ''/'' \<in> set (drop pos s)")
    case False
    then show ?thesis
      by (simp add: slash_loop.simps [of s pos] find_sub_slash map_backslash_id)
  next
    case True
    let ?t = "takeWhile (\<lambda>c. c \<noteq> CHR ''/'') (drop pos s)"
    let ?p = "pos + length ?t"
    have t: "CHR ''/'' \<notin> set ?t" using set_takeWhileD by fastforce
    from split_list_first [OF True] obtain t' u where
      d: "drop pos s = t' @ CHR ''/'' # u" "CHR ''/'' \<notin> set t'" by blast
    then have t': "?t = t'" by (simp add: takeWhile_append)
    have s: "s = take pos s @ t' @ CHR ''/'' # u" using d(1) by (metis append_take_drop_id)
    have p: "?p < length s" using s t' less.prems
      by (metis add_less_cancel_left append_take_drop_id d(1) length_append length_drop less_add_same_cancel1 list.size(4) add_Suc_right zero_less_Suc le_add_diff_inverse)
    have "slash_loop s pos = slash_loop (s[?p := CHR 0x5C]) (?p + 1)"
      using True less.prems by (simp add: slash_loop.simps [of s pos] find_sub_slash)
    also have "\<dots> = take (?p + 1) (s[?p := CHR 0x5C]) @ map backslash (drop (?p + 1) (s[?p := CHR 0x5C]))"
      using p less.prems by (intro less.hyps) auto
    also have "s[?p := CHR 0x5C] = take pos s @ t' @ CHR 0x5C # u"
      using less.prems unfolding t' by (subst s) (simp add: list_update_append)
    finally show ?thesis
      using less.prems t' d map_backslash_id [of t'] by (simp add: backslash_def)
  qed
qed

lemma fix_rfa_string_path_eq: "fix_rfa_string_path s = map backslash (expand_hive s)"
  by (simp add: fix_rfa_string_path_def slash_loop_eq)

text \<open>A path of the configuration database that does not begin with an abbreviated hive is
  the same path with every slash turned into a backslash, and no slash is left in any path.\<close>

theorem rfa_path_fixed:
  "(take 2 s \<noteq> ''HK'' \<longrightarrow> fix_rfa_string_path s = map (\<lambda>c. if c = CHR ''/'' then CHR 0x5C else c) s) \<and>
   CHR ''/'' \<notin> set (fix_rfa_string_path s)"
proof -
  have "CHR ''/'' \<notin> set (map backslash t)" for t by (auto simp: backslash_def)
  then show ?thesis by (simp add: fix_rfa_string_path_eq expand_hive_def backslash_def [abs_def])
qed

theorem rfa_path_fixed_witness:
  "fix_rfa_string_path ''/Connections/C/rsslPort'' =
     CHR 0x5C # ''Connections'' @ CHR 0x5C # ''C'' @ CHR 0x5C # ''rsslPort''"
  using rfa_path_fixed [of "''/Connections/C/rsslPort''"] by simp

text \<open>The hive HKU has three letters, but four are replaced: the character after it, the
  separator of the path, is lost.\<close>

theorem hku_loses_separator:
  "fix_rfa_string_path (''HKU'' @ c # s) = ''HKEY_USERS'' @ map backslash s \<and>
   fix_rfa_string_path (''HKLM'' @ s) = ''HKEY_LOCAL_MACHINE'' @ map backslash s"
  by (simp add: fix_rfa_string_path_eq expand_hive_def replace22_def backslash_def numeral_2_eq_2 eval_nat_numeral)

section \<open>The settings of the sessions\<close>

definition is_rssl :: "session_config_t \<Rightarrow> bool" where
  "is_rssl s = (map ToLowerASCII (protocol s) = kRSSL)"

definition is_ssled :: "session_config_t \<Rightarrow> bool" where
  "is_ssled s = (map ToLowerASCII (protocol s) = kSSLED)"

lemma rssl_not_ssled [simp]: "is_rssl s \<Longrightarrow> \<not> is_ssled s"
  by (simp add: is_rssl_def is_ssled_def kRSSL_def kSSLED_def)

text \<open>A path below the connection of a session.\<close>

definition connection_path :: "session_config_t \<Rightarrow> string \<Rightarrow> string" where
  "connection_path s leaf = ''/Connections/'' @ connection_name s @ ''/'' @ leaf"

definition session_settings :: "session_config_t \<Rightarrow> (string \<times> setting) list" where
  "session_settings s =
     [(''/Sessions/'' @ session_name s @ ''/connectionList'', SetString (connection_name s)),
      (connection_path s ''serverList'', SetString (JoinString (servers s) (CHR '','')))] @
     (if is_rssl s
      then (connection_path s ''connectionType'', SetString ''RSSL'') #
        (if default_port s = [] then [] else [(connection_path s ''rsslPort'', SetString (default_port s))])
      else (connection_path s ''connectionType'', SetString ''SSLED'') #
        (if default_port s = [] then [] else [(connection_path s ''portNumber'', SetLong (atoi (default_port s)))]) @
        [(connection_path s ''userName'', SetString (ssl_user s))])"

definition staged :: "(string \<times> setting) list \<Rightarrow> staging" where
  "staged ss = map (\<lambda>(n, v). (fix_rfa_string_path n, v)) ss"

lemma staged_simps [simp]:
  "staged [] = []" "staged (a # as) = (fix_rfa_string_path (fst a), snd a) # staged as"
  "staged (as @ bs) = staged as @ staged bs"
  by (auto simp: staged_def split: prod.split)

lemma session_loop_eq:
  "session_loop ss db d m =
     (if \<forall>s\<in>set ss. is_rssl s \<or> is_ssled s
      then Some (db @ staged (concat (map session_settings ss)), d \<or> (\<exists>s\<in>set ss. is_ssled s), m \<or> (\<exists>s\<in>set ss. is_ssled s))
      else None)"
proof (induction ss arbitrary: db d m)
  case (Cons s ss)
  consider "is_rssl s" | "\<not> is_rssl s" "is_ssled s" | "\<not> is_rssl s" "\<not> is_ssled s" by blast
  then show ?case
  proof cases
    case 1
    then have "session_loop (s # ss) db d m = session_loop ss (db @ staged (session_settings s)) d m"
      by (simp add: LowerCaseEqualsASCII_iff is_rssl_def Let_def stage_def session_settings_def connection_path_def)
    with 1 Cons show ?thesis by auto
  next
    case 2
    then have "session_loop (s # ss) db d m = session_loop ss (db @ staged (session_settings s)) True True"
      by (simp add: LowerCaseEqualsASCII_iff is_rssl_def is_ssled_def Let_def stage_def session_settings_def connection_path_def)
    with 2 Cons show ?thesis by auto
  next
    case 3
    then show ?thesis
      by (simp add: LowerCaseEqualsASCII_iff is_rssl_def is_ssled_def Let_def)
  qed
qed simp

definition logger_settings :: "(string \<times> setting) list" where
  "logger_settings =
     [(''/Logger/AppLogger/windowsLoggerEnabled'', SetBool False),
      (''/Logger/AppLogger/fileLoggerEnabled'', SetBool False),
      (''/Logger/AppLogger/useInternalLogStrings'', SetBool True)]"

definition entitlement_settings :: "(string \<times> setting) list" where
  "entitlement_settings =
     [(''/Control/Entitlements/dacs_CbeEnabled'', SetBool False),
      (''/Control/Entitlements/dacs_SbeEnabled'', SetBool False)]"

definition rfa_settings :: "config_t \<Rightarrow> (string \<times> setting) list" where
  "rfa_settings cfg =
     logger_settings @ concat (map session_settings (sessions cfg)) @
     (if \<exists>s\<in>set (sessions cfg). is_ssled s then entitlement_settings else [])"

lemma rfa_Init_eq:
  "rfa_Init env cfg r =
     (if \<not> env_staging env \<or> \<not> (\<forall>s\<in>set (sessions cfg). is_rssl s \<or> is_ssled s) \<or>
         (\<exists>s\<in>set (sessions cfg). is_ssled s) \<and> \<not> env_dictionary env then (False, r)
      else if \<not> env_acquire env then (False, r\<lparr>rfa_config_held := False\<rparr>)
      else if \<not> env_merge env (staged (rfa_settings cfg)) then (False, r\<lparr>rfa_config_held := True\<rparr>)
      else (True, r\<lparr>rfa_config_held := True, rfa_merged := Some (staged (rfa_settings cfg))\<rparr>))"
proof -
  let ?db = "stage ''/Logger/AppLogger/useInternalLogStrings'' (SetBool True)
      (stage ''/Logger/AppLogger/fileLoggerEnabled'' (SetBool False)
        (stage ''/Logger/AppLogger/windowsLoggerEnabled'' (SetBool False) []))"
  have db: "?db = staged logger_settings" by (simp add: stage_def logger_settings_def)
  have ent: "stage ''/Control/Entitlements/dacs_SbeEnabled'' (SetBool False)
      (stage ''/Control/Entitlements/dacs_CbeEnabled'' (SetBool False) x) = x @ staged entitlement_settings" for x
    by (simp add: stage_def entitlement_settings_def)
  define sup where "sup = (\<forall>s\<in>set (sessions cfg). is_rssl s \<or> is_ssled s)"
  define ssl where "ssl = (\<exists>s\<in>set (sessions cfg). is_ssled s)"
  have loop: "session_loop (sessions cfg) (staged logger_settings) False False =
      (if sup then Some (staged logger_settings @ staged (concat (map session_settings (sessions cfg))), ssl, ssl) else None)"
    by (simp add: session_loop_eq sup_def ssl_def)
  show ?thesis
    unfolding rfa_Init_def Let_def db loop rfa_settings_def sup_def [symmetric] ssl_def [symmetric]
    by (cases sup; cases ssl) (simp_all add: ent)
qed

text \<open>C32: Initialisation succeeds exactly when the staging database exists, every session has a
  supported protocol, the dictionary can be read if a session is SSL, the live database can be
  acquired and takes the settings; on success the settings merged are the logger's, those of
  every session in the order of the configuration and, with an SSL session, the entitlements
  switched off; and nothing is merged otherwise.\<close>

theorem rfa_Init_succeeds_iff:
  "fst (rfa_Init env cfg new_rfa) =
     (env_staging env \<and> (\<forall>s\<in>set (sessions cfg). is_rssl s \<or> is_ssled s) \<and>
      ((\<exists>s\<in>set (sessions cfg). is_ssled s) \<longrightarrow> env_dictionary env) \<and> env_acquire env \<and>
      env_merge env (staged (rfa_settings cfg))) \<and>
   rfa_merged (snd (rfa_Init env cfg new_rfa)) =
     (if fst (rfa_Init env cfg new_rfa) then Some (staged (rfa_settings cfg)) else None)"
  by (auto simp: rfa_Init_eq new_rfa_def)

definition full_env :: rfa_env where
  "full_env = \<lparr>env_staging = True, env_dictionary = True, env_acquire = True, env_merge = (\<lambda>_. True)\<rparr>"

definition two_sessions :: config_t where
  "two_sessions = new_config_t\<lparr>sessions :=
     [new_session_config\<lparr>session_name := ''SessionA'', connection_name := ''ConnectionA'', protocol := ''RSSL'',
        servers := [''h''], default_port := ''14002''\<rparr>,
      new_session_config\<lparr>session_name := ''SessionB'', connection_name := ''ConnectionB'', protocol := ''ssled'',
        servers := [''g''], default_port := ''8101'', user_name := ''u'', application_id := ''256'', position := ''p''\<rparr>]\<rparr>"

theorem rfa_Init_succeeds_iff_witness:
  "fst (rfa_Init full_env two_sessions new_rfa) \<and> \<not> fst (rfa_Init (full_env\<lparr>env_dictionary := False\<rparr>) two_sessions new_rfa)"
proof -
  have "(list_all (\<lambda>s. is_rssl s \<or> is_ssled s) (sessions two_sessions)) \<and> list_ex is_ssled (sessions two_sessions)" by code_simp
  then show ?thesis
    by (simp only: rfa_Init_succeeds_iff) (simp add: full_env_def list_all_iff list_ex_iff)
qed

lemma fix_slash_path: "fix_rfa_string_path (CHR ''/'' # p) = CHR 0x5C # map backslash p"
  by (simp add: fix_rfa_string_path_eq expand_hive_def backslash_def numeral_2_eq_2)

definition separator_free :: "string \<Rightarrow> bool" where
  "separator_free s = (CHR ''/'' \<notin> set s \<and> CHR 0x5C \<notin> set s)"

lemma connection_path_eq_iff:
  assumes "separator_free (connection_name s)" "separator_free (connection_name t)"
    and "separator_free leaf" "separator_free leaf'"
  shows "fix_rfa_string_path (connection_path s leaf) = fix_rfa_string_path (connection_path t leaf') \<longleftrightarrow>
     connection_name s = connection_name t \<and> leaf = leaf'"
proof -
  have fixed: "fix_rfa_string_path (connection_path u l) =
      CHR 0x5C # ''Connections'' @ CHR 0x5C # connection_name u @ CHR 0x5C # l"
    if "separator_free (connection_name u)" "separator_free l" for u l
    using that map_backslash_id
    by (simp add: connection_path_def fix_slash_path separator_free_def backslash_def)
  show ?thesis
    using assms append_Cons_eq_iff [of "CHR 0x5C" "connection_name s" leaf "connection_name t" leaf']
    by (simp add: fixed separator_free_def)
qed

lemma map_of_unique:
  "(k, v) \<in> set xs \<Longrightarrow> \<forall>w. (k, w) \<in> set xs \<longrightarrow> w = v \<Longrightarrow> map_of xs k = Some v"
  using weak_map_of_SomeI [of k v xs] map_of_SomeD [of xs k] by blast

lemma other_paths:
  "fix_rfa_string_path (connection_path s leaf) \<noteq> fix_rfa_string_path (''/Sessions/'' @ x)"
  "(fix_rfa_string_path (connection_path s leaf), v) \<notin> set (staged logger_settings)"
  "(fix_rfa_string_path (connection_path s leaf), v) \<notin> set (staged entitlement_settings)"
  by (auto simp: connection_path_def fix_slash_path backslash_def logger_settings_def entitlement_settings_def)

definition leaves :: "string set" where
  "leaves = {''serverList'', ''connectionType'', ''rsslPort'', ''portNumber'', ''userName''}"

lemma leaf_free: "leaf \<in> leaves \<Longrightarrow> separator_free leaf"
  by (auto simp: leaves_def separator_free_def)

lemma session_settings_names:
  assumes "(n, w) \<in> set (session_settings t)"
  shows "n = ''/Sessions/'' @ session_name t @ ''/connectionList'' \<or>
     (\<exists>leaf. n = connection_path t leaf \<and> separator_free leaf)"
proof -
  have "connection_path t ` leaves = {connection_path t ''serverList'', connection_path t ''connectionType'',
      connection_path t ''rsslPort'', connection_path t ''portNumber'', connection_path t ''userName''}"
    unfolding leaves_def image_insert image_empty ..
  then have "fst ` set (session_settings t) \<subseteq>
      insert (''/Sessions/'' @ session_name t @ ''/connectionList'') (connection_path t ` leaves)"
    by (cases "is_rssl t"; cases "default_port t = []") (simp_all add: session_settings_def)
  moreover have "n \<in> fst ` set (session_settings t)" using assms by force
  ultimately show ?thesis using leaf_free by blast
qed

lemma setting_lookup:
  assumes s: "s \<in> set (sessions cfg)" and kv: "(connection_path s leaf, v) \<in> set (session_settings s)"
    and free: "\<forall>t\<in>set (sessions cfg). separator_free (connection_name t)"
    and uniq: "\<forall>t\<in>set (sessions cfg). connection_name t = connection_name s \<longrightarrow> t = s"
    and leaf: "separator_free leaf"
    and only: "\<forall>w. (connection_path s leaf, w) \<in> set (session_settings s) \<longrightarrow> w = v"
  shows "map_of (rev (staged (rfa_settings cfg))) (fix_rfa_string_path (connection_path s leaf)) = Some v"
proof (rule map_of_unique)
  let ?k = "fix_rfa_string_path (connection_path s leaf)"
  have "(connection_path s leaf, v) \<in> set (rfa_settings cfg)"
    using s kv by (auto simp: rfa_settings_def)
  then show "(?k, v) \<in> set (rev (staged (rfa_settings cfg)))"
    by (force simp: staged_def)
  show "\<forall>w. (?k, w) \<in> set (rev (staged (rfa_settings cfg))) \<longrightarrow> w = v"
  proof (intro allI impI)
    fix w assume "(?k, w) \<in> set (rev (staged (rfa_settings cfg)))"
    then have "(?k, w) \<in> set (staged (concat (map session_settings (sessions cfg))))"
      using other_paths(2,3) by (auto simp: rfa_settings_def split: if_splits)
    then obtain t n where t: "t \<in> set (sessions cfg)" "(n, w) \<in> set (session_settings t)" "?k = fix_rfa_string_path n"
      by (auto simp: staged_def)
    have "n \<noteq> ''/Sessions/'' @ session_name t @ ''/connectionList''"
      using t(3) other_paths(1) [of s leaf] by metis
    with session_settings_names [OF t(2)] obtain leaf' where n: "n = connection_path t leaf'" "separator_free leaf'"
      by blast
    have "connection_name s = connection_name t \<and> leaf = leaf'"
      using connection_path_eq_iff [of s t leaf leaf'] free s t(1) leaf n t(3) by simp
    with uniq t(1) have "t = s" "leaf' = leaf" by auto
    with t(2) n(1) only show "w = v" by blast
  qed
qed

text \<open>When initialisation succeeds, the database holds for the connection of each session the
  comma-separated list of its servers, its type and its port (text for RSSL, a number for SSL),
  provided that the connections have names of their own without separators.\<close>

theorem rfa_config_of_session:
  assumes init: "rfa_Init env cfg new_rfa = (True, r)" and s: "s \<in> set (sessions cfg)"
    and free: "\<forall>t\<in>set (sessions cfg). separator_free (connection_name t)"
    and uniq: "\<forall>t\<in>set (sessions cfg). connection_name t = connection_name s \<longrightarrow> t = s"
  shows "\<exists>db. rfa_merged r = Some db \<and>
     map_of (rev db) (fix_rfa_string_path (connection_path s ''serverList'')) =
       Some (SetString (JoinString (servers s) (CHR '',''))) \<and>
     map_of (rev db) (fix_rfa_string_path (connection_path s ''connectionType'')) =
       Some (SetString (if is_rssl s then ''RSSL'' else ''SSLED'')) \<and>
     (default_port s \<noteq> [] \<longrightarrow>
        map_of (rev db) (fix_rfa_string_path (connection_path s (if is_rssl s then ''rsslPort'' else ''portNumber''))) =
          Some (if is_rssl s then SetString (default_port s) else SetLong (atoi (default_port s))))"
proof -
  have r: "rfa_merged r = Some (staged (rfa_settings cfg))"
    using init by (auto simp: rfa_Init_eq split: if_splits)
  note lookup = setting_lookup [OF s _ free uniq]
  have same: "connection_path s x = connection_path s y \<longleftrightarrow> x = y"
    "connection_path s x \<noteq> CHR ''/'' # CHR ''S'' # z" for x y z
    by (auto simp: connection_path_def)
  show ?thesis
    by (rule exI [of _ "staged (rfa_settings cfg)"], intro conjI impI r lookup)
      (auto simp: session_settings_def same separator_free_def split: if_splits)
qed

theorem rfa_config_of_session_witness:
  "\<exists>r db. rfa_Init full_env two_sessions new_rfa = (True, r) \<and> rfa_merged r = Some db \<and>
     map_of (rev db) (fix_rfa_string_path ''/Connections/ConnectionB/portNumber'') = Some (SetLong 8101)"
proof -
  let ?s = "sessions two_sessions ! 1"
  have hyps: "fst (rfa_Init full_env two_sessions new_rfa)"
    "list_all (\<lambda>t. separator_free (connection_name t)) (sessions two_sessions)"
    "length (sessions two_sessions) = 2"
    "connection_path ?s ''portNumber'' = ''/Connections/ConnectionB/portNumber''" "\<not> is_rssl ?s"
    "default_port ?s = ''8101''" "atoi ''8101'' = 8101" "connection_name ?s = ''ConnectionB''"
    "connection_name (sessions two_sessions ! 0) = ''ConnectionA''" by code_simp+
  have set: "set (sessions two_sessions) = {sessions two_sessions ! 0, ?s}"
    using hyps(3) by (auto simp: set_conv_nth less_Suc_eq numeral_2_eq_2)
  obtain r where r: "rfa_Init full_env two_sessions new_rfa = (True, r)"
    using hyps(1) by (cases "rfa_Init full_env two_sessions new_rfa") simp
  have "?s \<in> set (sessions two_sessions)" unfolding set by simp
  moreover have "\<forall>t\<in>set (sessions two_sessions). connection_name t = connection_name ?s \<longrightarrow> t = ?s"
    unfolding set using hyps(8,9) by auto
  ultimately obtain db where "rfa_merged r = Some db"
    "default_port ?s \<noteq> [] \<longrightarrow>
        map_of (rev db) (fix_rfa_string_path (connection_path ?s (if is_rssl ?s then ''rsslPort'' else ''portNumber''))) =
          Some (if is_rssl ?s then SetString (default_port ?s) else SetLong (atoi (default_port ?s)))"
    using rfa_config_of_session [OF r _ hyps(2) [unfolded list_all_iff]] by blast
  then show ?thesis using r hyps by simp
qed

end
