(* ===== verification/App.thy ===== *)
theory App
  imports Capture Command_Line Rfa_Config
begin

text \<open>
  The application, torikuru_t of src/torikuru.hh and torikuru.cc with main of src/main.cc: the
  configuration from the command line, the start of the capture, the main loop that dispatches
  the events of the queue, and the release of everything by Clear. The consumers are those of
  theory Consumer and share one world. What the file system, the clock, the event queue and
  the libraries do is a parameter; None is undefined behaviour.
\<close>

section \<open>State\<close>

text \<open>The shared_ptr of the event queue with its deleter: empty, owning a null pointer, or owning
  a queue that is active or not.\<close>

datatype event_queue = NoQueue | NullQueue | Queue bool

record torikuru_t =
  t_config :: config_t
  t_rfa :: "rfa_t option"
  t_event_queue :: event_queue
  t_log :: "log_provider option"
  t_consumers :: "consumer_t list"
  t_consumers_in_sync :: u32
  t_streams :: "nat list"
  t_output_fd :: int
  t_output_stream :: bool
  t_gzip_stream :: bool
  t_coded_stream :: bool

type_synonym app = "torikuru_t \<times> world"

definition new_torikuru :: torikuru_t where
  "new_torikuru =
     \<lparr>t_config = new_config_t, t_rfa = None, t_event_queue = NoQueue, t_log = None, t_consumers = [],
      t_consumers_in_sync = 0, t_streams = [], t_output_fd = - 1, t_output_stream = False,
      t_gzip_stream = False, t_coded_stream = False\<rparr>"

text \<open>The environment: the answers of the RFA calls, of open, of the reader of the symbol file,
  getenv ("LOGNAME"), and the parameters of the conversion.\<close>

record app_env =
  app_api :: rfa_api
  app_rfa :: rfa_env
  app_queue_created :: bool
  app_log :: "bool \<times> bool \<times> nat option"
  app_open_output :: "string \<Rightarrow> int"
  app_read_symbols :: "string \<Rightarrow> string option"
  app_logname :: "string option"
  app_etl :: etl
  app_input :: "string \<Rightarrow> archive_input option"

section \<open>Configuration\<close>

definition kSession :: string where "kSession = ''session''"

definition kSymbolPath :: string where "kSymbolPath = ''symbol-path''"

definition kOutputPath :: string where "kOutputPath = ''output-path''"

definition kInputPath :: string where "kInputPath = ''input-path''"

definition kTimeLimit :: string where "kTimeLimit = ''time-limit''"

definition kDisableUpdate :: string where "kDisableUpdate = ''disable-update''"

definition kDisableRefresh :: string where "kDisableRefresh = ''disable-refresh''"

definition kTerminateOnSync :: string where "kTerminateOnSync = ''terminate-on-sync''"

definition read_instruments :: "app_env \<Rightarrow> command_line \<Rightarrow> config_t \<Rightarrow> config_t" where
  "read_instruments env cl cfg =
     (if HasSwitch kSymbolPath cl then
        (let cfg = cfg\<lparr>symbol_path := GetSwitchValueASCII kSymbolPath cl\<rparr>
         in case app_read_symbols env (symbol_path cfg) of
              None \<Rightarrow> cfg
            | Some contents \<Rightarrow> cfg\<lparr>instruments := SplitStringAlongWhitespace contents (instruments cfg)\<rparr>)
      else cfg)"

definition read_switches :: "command_line \<Rightarrow> config_t \<Rightarrow> config_t" where
  "read_switches cl cfg =
     (let cfg = (if HasSwitch kDisableUpdate cl then cfg\<lparr>disable_update := True\<rparr> else cfg);
          cfg = (if HasSwitch kDisableRefresh cl then cfg\<lparr>disable_refresh := True\<rparr> else cfg);
          cfg = (if HasSwitch kTerminateOnSync cl then cfg\<lparr>terminate_on_sync := True\<rparr> else cfg);
          cfg = (if HasSwitch kOutputPath cl then cfg\<lparr>output_path := GetSwitchValueASCII kOutputPath cl\<rparr> else cfg);
          cfg = (if HasSwitch kInputPath cl then cfg\<lparr>input_path := GetSwitchValueASCII kInputPath cl\<rparr> else cfg);
          cfg = (if HasSwitch kTimeLimit cl then cfg\<lparr>time_limit := GetSwitchValueASCII kTimeLimit cl\<rparr> else cfg)
      in cfg)"

definition Init_config :: "app_env \<Rightarrow> command_line \<Rightarrow> config_t \<Rightarrow> config_t option" where
  "Init_config env cl cfg =
     do {
       let session = GetSwitchValueASCII kSession cl;
       cfg \<leftarrow> (if session \<noteq> [] then
                 map_option (\<lambda>ss. cfg\<lparr>sessions := sessions cfg @ ss\<rparr>)
                   (sessions_of_urls (app_logname env) (SplitString session (CHR '','') []) new_Parsed)
               else Some cfg);
       Some (read_switches cl (read_instruments env cl cfg))
     }"

section \<open>Start of the capture\<close>

text \<open>The three loops of Init. The result is the return value with the state; an exception is
  caught by Init and becomes False. The numbers of the streams stand for their addresses.\<close>

fun create_consumers :: "app_env \<Rightarrow> session_config_t list \<Rightarrow> app \<Rightarrow> (bool \<times> app) option" where
  "create_consumers env [] s = Some (True, s)"
| "create_consumers env (session # ss) (t, w) =
     (case consumer_Init (app_api env) (disable_update (t_config t)) (disable_refresh (t_config t))
             (\<not> terminate_on_sync (t_config t)) True (new_consumer session (t_coded_stream t) (w_now w), w) of
        None \<Rightarrow> None
      | Some (r, c, w) \<Rightarrow>
          (if r = Inr True then create_consumers env ss (t\<lparr>t_consumers := t_consumers t @ [c]\<rparr>, w)
           else map_option (\<lambda>(c, w). (False, t, w)) (consumer_destroy (c, w))))"

fun stream_loop :: "app_env \<Rightarrow> string \<Rightarrow> nat list \<Rightarrow> nat \<Rightarrow> app \<Rightarrow> (bool \<times> nat \<times> app) option" where
  "stream_loop env name [] n s = Some (True, n, s)"
| "stream_loop env name (k # ks) n (t, w) =
     (case CreateItemStream (app_api env) name n
             (t_consumers t ! k, set_stream n (new_item_stream (second_clock w)) w) of
        None \<Rightarrow> None
      | Some (r, c, w) \<Rightarrow>
          (let t = t\<lparr>t_consumers := (t_consumers t)[k := c]\<rparr>; freed = w\<lparr>w_heap := (w_heap w)(n := None)\<rparr>
           in case r of
                Inl e \<Rightarrow> Some (False, Suc n, t, freed)
              | Inr True \<Rightarrow> stream_loop env name ks (Suc n) (t\<lparr>t_streams := t_streams t @ [n]\<rparr>, w)
              | Inr False \<Rightarrow> stream_loop env name ks (Suc n) (t, freed)))"

fun create_streams :: "app_env \<Rightarrow> string list \<Rightarrow> nat \<Rightarrow> app \<Rightarrow> (bool \<times> app) option" where
  "create_streams env [] n s = Some (True, s)"
| "create_streams env (name # names) n s =
     (case stream_loop env name [0 ..< length (t_consumers (fst s))] n s of
        None \<Rightarrow> None
      | Some (True, n, s) \<Rightarrow> create_streams env names n s
      | Some (False, n, s) \<Rightarrow> Some (False, s))"

fun resubscribe_all :: "app_env \<Rightarrow> nat list \<Rightarrow> app \<Rightarrow> (bool \<times> app) option" where
  "resubscribe_all env [] s = Some (True, s)"
| "resubscribe_all env (k # ks) (t, w) =
     (case Resubscribe (app_api env) (t_consumers t ! k, w) of
        None \<Rightarrow> None
      | Some (r, c, w) \<Rightarrow>
          (let t = t\<lparr>t_consumers := (t_consumers t)[k := c]\<rparr>
           in case r of Inl e \<Rightarrow> Some (False, t, w) | Inr _ \<Rightarrow> resubscribe_all env ks (t, w)))"

text \<open>The archive stream; -1 is a failure to open the file.\<close>

definition open_archive :: "app_env \<Rightarrow> torikuru_t \<Rightarrow> bool \<times> torikuru_t" where
  "open_archive env t =
     (if output_path (t_config t) \<noteq> [] then
        (let t = t\<lparr>t_output_fd := app_open_output env (output_path (t_config t))\<rparr>
         in if t_output_fd t = - 1 then (False, t)
            else (True, t\<lparr>t_output_stream := True, t_gzip_stream := True, t_coded_stream := True\<rparr>))
      else (True, t))"

definition start_capture :: "app_env \<Rightarrow> app \<Rightarrow> (bool \<times> app) option" where
  "start_capture env = (\<lambda>(t, w).
     let (ok, t) = open_archive env t in
     if \<not> ok then Some (False, t, w)
     else
       (case create_consumers env (sessions (t_config t)) (t, w) of
          None \<Rightarrow> None
        | Some (False, s) \<Rightarrow> Some (False, s)
        | Some (True, s) \<Rightarrow>
            (case create_streams env (instruments (t_config (fst s))) 0 s of
               None \<Rightarrow> None
             | Some (False, s) \<Rightarrow> Some (False, s)
             | Some (True, s) \<Rightarrow> resubscribe_all env [0 ..< length (t_consumers (fst s))] s)))"

definition torikuru_Init :: "app_env \<Rightarrow> command_line \<Rightarrow> app \<Rightarrow> (bool \<times> app) option" where
  "torikuru_Init env cl = (\<lambda>(t, w).
     do {
       cfg \<leftarrow> Init_config env cl (t_config t);
       let (ok, r) = rfa_Init (app_rfa env) cfg new_rfa;
       let t = t\<lparr>t_config := cfg, t_rfa := Some r\<rparr>;
       if \<not> ok then Some (False, t, w)
       else if \<not> app_queue_created env then Some (False, t\<lparr>t_event_queue := NullQueue\<rparr>, w)
       else
         (let t = t\<lparr>t_event_queue := Queue True\<rparr>;
              (logger, monitor, handle) = app_log env;
              (ok, p, calls) = Register logger monitor handle (new_log_provider cfg);
              t = t\<lparr>t_log := Some p\<rparr>
          in if \<not> ok then Some (False, t, w)
             else if input_path cfg = [] then start_capture env (t, w)
             else Some (True, t, w))
     })"

section \<open>The main loop\<close>

definition deactivate :: "torikuru_t \<Rightarrow> torikuru_t" where
  "deactivate t = t\<lparr>t_event_queue := Queue False\<rparr>"

text \<open>The callback f0 that every consumer is given.\<close>

definition on_sync_f0 :: "torikuru_t \<Rightarrow> torikuru_t" where
  "on_sync_f0 t =
     (let t = t\<lparr>t_consumers_in_sync := t_consumers_in_sync t + 1\<rparr>
      in if t_consumers_in_sync t = of_nat (length (t_consumers t))
         then (if terminate_on_sync (t_config t) then deactivate t else t)
         else t)"

text \<open>The queue hands an event to its consumer; the consumer calls f0 last, as often as the
  counter of the world says.\<close>

definition dispatch_event :: "app_env \<Rightarrow> nat \<Rightarrow> event \<Rightarrow> app \<Rightarrow> app option" where
  "dispatch_event env k ev = (\<lambda>(t, w).
     if k < length (t_consumers t) then
       (case processEvent (app_api env) ev (t_consumers t ! k, w) of
          None \<Rightarrow> None
        | Some (c, w') \<Rightarrow>
            Some ((on_sync_f0 ^^ (w_sync_calls w' - w_sync_calls w)) (t\<lparr>t_consumers := (t_consumers t)[k := c]\<rparr>), w'))
     else None)"

text \<open>One turn of the loop: the event that dispatch (100) delivered, if any, and the clock
  afterwards. The result says whether the loop has ended when the turns are used up.\<close>

type_synonym turn = "(nat \<times> event) option \<times> int"

definition loop_condition :: "int \<Rightarrow> int \<Rightarrow> app \<Rightarrow> bool" where
  "loop_condition start_time end_time s =
     (t_event_queue (fst s) = Queue True \<and> (second_clock (snd s) < end_time \<or> end_time = start_time))"

definition dispatch :: "app_env \<Rightarrow> turn \<Rightarrow> app \<Rightarrow> app option" where
  "dispatch env turn s =
     do {
       (t, w) \<leftarrow> (case fst turn of None \<Rightarrow> Some s | Some (k, ev) \<Rightarrow> dispatch_event env k ev s);
       Some (t, w\<lparr>w_now := snd turn\<rparr>)
     }"

fun main_loop :: "app_env \<Rightarrow> int \<Rightarrow> int \<Rightarrow> turn list \<Rightarrow> app \<Rightarrow> (bool \<times> app) option" where
  "main_loop env start_time end_time [] s = Some (\<not> loop_condition start_time end_time s, s)"
| "main_loop env start_time end_time (turn # turns) s =
     (if loop_condition start_time end_time s
      then Option.bind (dispatch env turn s) (main_loop env start_time end_time turns)
      else Some (True, s))"

text \<open>time_t is a signed integer of 32 bits in this build (-m32): a sum wraps around.\<close>

definition to_time_t :: "int \<Rightarrow> int" where
  "to_time_t t = sint (word_of_int t :: 32 word)"

text \<open>The start is a time that time (nullptr) can return, and the limit a value that atoi can;
  outside the range of int atoi is undefined.\<close>

definition MainLoop :: "app_env \<Rightarrow> turn list \<Rightarrow> app \<Rightarrow> (bool \<times> app) option" where
  "MainLoop env turns s =
     (let start_time = second_clock (snd s);
          limit = atoi (time_limit (t_config (fst s)));
          end_time = to_time_t (start_time + limit)
      in if 0 \<le> start_time \<and> start_time < 2 ^ 31 \<and> - (2 ^ 31) \<le> limit \<and> limit < 2 ^ 31
         then main_loop env start_time end_time turns s
         else None)"

section \<open>Clear\<close>

datatype clear_action =
    DeleteCodedStream | CloseGzipStream | DeleteGzipStream | CloseOutputStream | DeleteOutputStream
  | CloseFile int | DeactivateQueue | DropStream nat | DropConsumer session_config_t
  | DropLog "log_call list" | DestroyQueue | DropRfa

fun destroy_consumers :: "consumer_t list \<Rightarrow> world \<Rightarrow> world option" where
  "destroy_consumers [] w = Some w"
| "destroy_consumers (c # cs) w =
     Option.bind (consumer_destroy (c, w)) (\<lambda>(c, w). destroy_consumers cs w)"

fun free_streams :: "nat list \<Rightarrow> world \<Rightarrow> world" where
  "free_streams [] w = w"
| "free_streams (a # as) w = free_streams as (w\<lparr>w_heap := (w_heap w)(a := None)\<rparr>)"

definition close_streams :: "torikuru_t \<Rightarrow> clear_action list" where
  "close_streams t =
     (if t_coded_stream t then [DeleteCodedStream] else []) @
     (if t_gzip_stream t then [CloseGzipStream, DeleteGzipStream] else []) @
     (if t_output_stream t then [CloseOutputStream, DeleteOutputStream] else []) @
     (if t_output_fd t \<noteq> - 1 then [CloseFile (t_output_fd t)] else [])"

definition Clear :: "app \<Rightarrow> (clear_action list \<times> app) option" where
  "Clear = (\<lambda>(t, w).
     do {
       let files = close_streams t;
       let t = t\<lparr>t_coded_stream := False, t_gzip_stream := False, t_output_stream := False, t_output_fd := - 1\<rparr>;
       let queue = (if t_event_queue t = Queue True then [DeactivateQueue] else []);
       let t = (if t_event_queue t = Queue True then deactivate t else t);
       let strms = map DropStream (t_streams t);
       let w = free_streams (t_streams t) w;
       let cons = map (\<lambda>c. DropConsumer (c_config c)) (t_consumers t);
       w \<leftarrow> destroy_consumers (t_consumers t) w;
       let log = (case t_log t of None \<Rightarrow> [] | Some p \<Rightarrow> (case Unregister p of (ok, p, calls) \<Rightarrow> [DropLog calls]));
       destroy \<leftarrow> (case t_event_queue t of NoQueue \<Rightarrow> Some [] | NullQueue \<Rightarrow> None | Queue b \<Rightarrow> Some [DestroyQueue]);
       let rfa = (case t_rfa t of None \<Rightarrow> [] | Some r \<Rightarrow> [DropRfa]);
       Some (files @ queue @ strms @ cons @ log @ destroy @ rfa,
             t\<lparr>t_streams := [], t_consumers := [], t_log := None, t_event_queue := NoQueue, t_rfa := None\<rparr>, w)
     })"

section \<open>Run and main\<close>

datatype exit = EXIT_SUCCESS | EXIT_FAILURE

text \<open>The result: the exit code, or None while the main loop still runs, what Clear did and what
  the conversion wrote.\<close>

record run_result =
  rr_exit :: "exit option"
  rr_cleared :: "clear_action list"
  rr_outputs :: outputs
  rr_app :: app

definition finish :: "exit \<Rightarrow> outputs \<Rightarrow> app \<Rightarrow> run_result option" where
  "finish code outs s =
     map_option (\<lambda>(actions, s). \<lparr>rr_exit = Some code, rr_cleared = actions, rr_outputs = outs, rr_app = s\<rparr>) (Clear s)"

definition Run :: "app_env \<Rightarrow> command_line \<Rightarrow> turn list \<Rightarrow> app \<Rightarrow> run_result option" where
  "Run env cl turns s =
     (case torikuru_Init env cl s of
        None \<Rightarrow> None
      | Some (False, s) \<Rightarrow> finish EXIT_FAILURE no_outputs s
      | Some (True, s) \<Rightarrow>
          (if input_path (t_config (fst s)) = [] then
             (case MainLoop env turns s of
                None \<Rightarrow> None
              | Some (False, s) \<Rightarrow> Some \<lparr>rr_exit = None, rr_cleared = [], rr_outputs = no_outputs, rr_app = s\<rparr>
              | Some (True, s) \<Rightarrow> finish EXIT_SUCCESS no_outputs s)
           else
             (case Convert (app_etl env) (t_config (fst s)) (app_input env (input_path (t_config (fst s)))) of
                None \<Rightarrow> None
              | Some (outs, i) \<Rightarrow> finish EXIT_SUCCESS outs s)))"

text \<open>main: env_t reads the command line, Run runs, and the destructor clears once more.\<close>

definition torikuru_main :: "app_env \<Rightarrow> string list \<Rightarrow> turn list \<Rightarrow> world \<Rightarrow> run_result option" where
  "torikuru_main env argv turns w =
     do {
       cl \<leftarrow> CommandLine_Init argv None;
       r \<leftarrow> Run env cl turns (new_torikuru, w);
       (if rr_exit r = None then Some r
        else map_option (\<lambda>(actions, s). r\<lparr>rr_cleared := rr_cleared r @ actions, rr_app := s\<rparr>) (Clear (rr_app r)))
     }"

section \<open>The list of all applications\<close>

text \<open>The constructor enters the object in global_list_, the destructor removes it.\<close>

definition torikuru_ctor :: "nat \<Rightarrow> nat list \<Rightarrow> torikuru_t \<times> nat list" where
  "torikuru_ctor self global_list = (new_torikuru, global_list @ [self])"

definition torikuru_dtor :: "nat \<Rightarrow> app \<Rightarrow> nat list \<Rightarrow> ((clear_action list \<times> app) \<times> nat list) option" where
  "torikuru_dtor self s global_list = map_option (\<lambda>r. (r, removeAll self global_list)) (Clear s)"

end
