(* ===== verification/App_Props.thy ===== *)
theory App_Props
  imports App
begin

text \<open>
  The capture as a whole: the event queue is deactivated exactly when the capture is to stop and
  every session is synchronised, the main loop ends only for that reason, at the time limit or
  because the limit overflows the deadline, and at the time limit it does end; Clear releases everything once, in order.
\<close>

section \<open>The callback and the queue\<close>

definition all_in_sync :: "torikuru_t \<Rightarrow> bool" where
  "all_in_sync t = (t_consumers t \<noteq> [] \<and> list_all c_in_sync (t_consumers t))"

definition app_inv :: "app \<Rightarrow> bool" where
  "app_inv s =
     (let t = fst s in
      t_consumers_in_sync t = of_nat (length (filter c_in_sync (t_consumers t))) \<and>
      list_all c_on_sync (t_consumers t) \<and> length (t_consumers t) < 2 ^ 32 \<and>
      t_event_queue t = Queue (\<not> (terminate_on_sync (t_config t) \<and> all_in_sync t)))"

lemma filter_update_same:
  "P x = P (xs ! k) \<Longrightarrow> k < length xs \<Longrightarrow> length (filter P (xs[k := x])) = length (filter P xs)"
proof (induction xs arbitrary: k)
  case (Cons a xs)
  then show ?case by (cases k) auto
qed simp

lemma filter_update_new:
  "P x \<Longrightarrow> \<not> P (xs ! k) \<Longrightarrow> k < length xs \<Longrightarrow> length (filter P (xs[k := x])) = Suc (length (filter P xs))"
proof (induction xs arbitrary: k)
  case (Cons a xs)
  then show ?case by (cases k) auto
qed simp

lemma list_all_filter: "list_all P xs \<longleftrightarrow> length (filter P xs) = length xs"
proof (induction xs)
  case (Cons a xs)
  have "length (filter P xs) < Suc (length xs)" by (simp add: less_Suc_eq_le)
  with Cons show ?case by (cases "P a") simp_all
qed simp

lemma list_all_update:
  "list_all P xs \<Longrightarrow> P x \<Longrightarrow> list_all P (xs[k := x])"
  by (auto simp: list_all_iff dest: set_update_subset_insert [THEN subsetD])

lemma app_inv_same:
  assumes inv: "app_inv (t, w)" and k: "k < length (t_consumers t)"
    and "c_in_sync c = c_in_sync (t_consumers t ! k)" and "c_on_sync c = c_on_sync (t_consumers t ! k)"
  shows "app_inv (t\<lparr>t_consumers := (t_consumers t)[k := c]\<rparr>, w')"
proof -
  have n: "length (filter c_in_sync ((t_consumers t)[k := c])) = length (filter c_in_sync (t_consumers t))"
    using filter_update_same [of c_in_sync c "t_consumers t" k] assms by simp
  have "c_on_sync (t_consumers t ! k)" using inv k by (simp add: app_inv_def Let_def list_all_length)
  then have "list_all c_on_sync ((t_consumers t)[k := c])"
    using inv assms(4) by (intro list_all_update) (simp_all add: app_inv_def Let_def)
  with inv n show ?thesis by (auto simp: app_inv_def Let_def all_in_sync_def list_all_filter)
qed

lemma app_inv_sync:
  assumes inv: "app_inv (t, w)" and k: "k < length (t_consumers t)"
    and new: "\<not> c_in_sync (t_consumers t ! k)" "c_in_sync c" and "c_on_sync c"
  shows "app_inv (on_sync_f0 (t\<lparr>t_consumers := (t_consumers t)[k := c]\<rparr>), w')"
proof -
  let ?cs = "(t_consumers t)[k := c]"
  have n: "length (filter c_in_sync ?cs) = Suc (length (filter c_in_sync (t_consumers t)))"
    using filter_update_new [of c_in_sync c "t_consumers t" k] new k by simp
  have le: "length (filter c_in_sync ?cs) \<le> length ?cs" by (rule length_filter_le)
  have small: "length (t_consumers t) < 2 ^ 32" using inv by (simp add: app_inv_def Let_def)
  have count: "t_consumers_in_sync t + 1 = of_nat (length (filter c_in_sync ?cs))"
    using inv n by (simp add: app_inv_def Let_def add.commute)
  have "t_consumers_in_sync t + 1 = of_nat (length ?cs) \<longleftrightarrow> length (filter c_in_sync ?cs) = length ?cs"
    unfolding count using le small by (intro u32_of_nat_eq) auto
  moreover have "?cs \<noteq> []" using k by auto
  moreover have "list_all c_on_sync ?cs"
    using inv assms(5) by (intro list_all_update) (simp_all add: app_inv_def Let_def)
  moreover have "\<not> list_all c_in_sync (t_consumers t)" using new(1) k by (auto simp: list_all_length)
  moreover have "t_event_queue t = Queue True"
    using inv calculation(4) by (simp add: app_inv_def Let_def all_in_sync_def)
  ultimately show ?thesis
    using count small by (auto simp: app_inv_def Let_def on_sync_f0_def deactivate_def all_in_sync_def list_all_filter)
qed

lemma dispatch_event_inv:
  assumes "app_inv s" and "dispatch_event env k ev s = Some s'"
  shows "app_inv s'"
proof -
  obtain t w where s: "s = (t, w)" by (cases s)
  from assms(2) obtain c w' where k: "k < length (t_consumers t)" and
    ev: "processEvent (app_api env) ev (t_consumers t ! k, w) = Some (c, w')" and
    s': "s' = ((on_sync_f0 ^^ (w_sync_calls w' - w_sync_calls w)) (t\<lparr>t_consumers := (t_consumers t)[k := c]\<rparr>), w')"
    by (auto simp: s dispatch_event_def split: if_splits option.splits)
  have on: "c_on_sync (t_consumers t ! k)"
    using assms(1) k by (simp add: s app_inv_def Let_def list_all_length)
  have same: "app_inv s'" if "sync_view (c, w') = sync_view (t_consumers t ! k, w)"
    using that app_inv_same [OF assms(1) [unfolded s] k] by (simp add: s' sync_view_def)
  from ev show ?thesis
  proof (cases rule: processEvent_sync_step)
    case 1
    then show ?thesis by (rule same)
  next
    case (2 u)
    obtain cu wu where u: "u = (cu, wu)" by (cases u)
    show ?thesis
    proof (cases "\<not> c_in_sync cu \<and> c_refresh_count cu = of_nat (length (c_directory cu))")
      case False
      then show ?thesis using 2 u by (intro same) (auto simp: check_sync_def)
    next
      case True
      then have "c_in_sync c" "c_on_sync c" "w_sync_calls w' - w_sync_calls w = 1" "\<not> c_in_sync (t_consumers t ! k)"
        using 2 u on by (auto simp: check_sync_def sync_view_def)
      then show ?thesis using app_inv_sync [OF assms(1) [unfolded s] k] by (simp add: s')
    qed
  qed
qed

inductive app_step :: "app_env \<Rightarrow> app \<Rightarrow> app \<Rightarrow> bool" for env where
  app_turn: "dispatch env turn s = Some s' \<Longrightarrow> app_step env s s'"

inductive_simps app_step_iff: "app_step env s s'"

lemma app_step_inv: "app_inv s \<Longrightarrow> app_step env s s' \<Longrightarrow> app_inv s'"
proof -
  assume inv: "app_inv s" and "app_step env s s'"
  then obtain turn where "dispatch env turn s = Some s'" by (auto simp: app_step_iff)
  then obtain t w where tw: "s' = (t, w\<lparr>w_now := snd turn\<rparr>)" "app_inv (t, w)"
    using inv dispatch_event_inv
    by (cases s) (fastforce simp: dispatch_def bind_eq_Some_conv split: option.splits prod.splits)
  then show "app_inv s'" by (simp add: app_inv_def)
qed

section \<open>The start of a capture\<close>

text \<open>What holds while Init builds the capture: no consumer is synchronised yet, all of them have
  the callback, and the queue is active.\<close>

definition app_fresh :: "app \<Rightarrow> bool" where
  "app_fresh s =
     (let t = fst s in t_consumers_in_sync t = 0 \<and> t_event_queue t = Queue True \<and>
        list_all (\<lambda>c. \<not> c_in_sync c \<and> c_on_sync c) (t_consumers t))"

lemma app_fresh_inv: "app_fresh s \<Longrightarrow> length (t_consumers (fst s)) < 2 ^ 32 \<Longrightarrow> app_inv s"
  by (cases "t_consumers (fst s)") (auto simp: app_fresh_def app_inv_def all_in_sync_def Let_def list_all_iff)

lemma app_fresh_update:
  assumes "app_fresh (t, w)" and "k < length (t_consumers t)"
    and "c_in_sync c = c_in_sync (t_consumers t ! k)" and "c_on_sync c = c_on_sync (t_consumers t ! k)"
  shows "app_fresh (t\<lparr>t_consumers := (t_consumers t)[k := c]\<rparr>, w')"
  using assms by (auto simp: app_fresh_def Let_def list_all_length nth_list_update)

lemma app_fresh_streams: "app_fresh (t\<lparr>t_streams := x\<rparr>, w') = app_fresh (t, w)"
  by (simp add: app_fresh_def)

lemma core_flags:
  "core t = core s \<Longrightarrow> c_in_sync (fst t) = c_in_sync (fst s) \<and> c_on_sync (fst t) = c_on_sync (fst s)"
  by (cases s; cases t) (simp add: core_def)

lemma create_consumers_fresh:
  "create_consumers env ss s = Some (True, s') \<Longrightarrow> app_fresh s \<Longrightarrow>
     app_fresh s' \<and> length (t_consumers (fst s')) = length (t_consumers (fst s)) + length ss \<and>
     t_config (fst s') = t_config (fst s)"
proof (induction ss arbitrary: s)
  case (Cons session ss)
  obtain t w where s: "s = (t, w)" by (cases s)
  let ?c = "new_consumer session (t_coded_stream t) (w_now w)"
  from Cons.prems(1) obtain c w' where
    i: "consumer_Init (app_api env) (disable_update (t_config t)) (disable_refresh (t_config t))
          (\<not> terminate_on_sync (t_config t)) True (?c, w) = Some (Inr True, c, w')"
    and rest: "create_consumers env ss (t\<lparr>t_consumers := t_consumers t @ [c]\<rparr>, w') = Some (True, s')"
    by (auto simp: s split: option.splits prod.splits if_splits)
  from Init_frame [OF i] have "\<not> c_in_sync c \<and> c_on_sync c"
    by (simp add: init_frame_def new_consumer_def)
  with Cons.prems(2) have "app_fresh (t\<lparr>t_consumers := t_consumers t @ [c]\<rparr>, w')"
    by (simp add: s app_fresh_def Let_def)
  from Cons.IH [OF rest this] show ?case by (simp add: s)
qed simp

lemma stream_loop_fresh:
  "stream_loop env name ks n s = Some (True, n', s') \<Longrightarrow> app_fresh s \<Longrightarrow>
     \<forall>k\<in>set ks. k < length (t_consumers (fst s)) \<Longrightarrow>
     app_fresh s' \<and> length (t_consumers (fst s')) = length (t_consumers (fst s)) \<and>
     t_config (fst s') = t_config (fst s)"
proof (induction ks arbitrary: n s)
  case (Cons k ks)
  obtain t w where s: "s = (t, w)" by (cases s)
  from Cons.prems(1) obtain r c w' where
    c: "CreateItemStream (app_api env) name n
          (t_consumers t ! k, set_stream n (new_item_stream (second_clock w)) w) = Some (Inr r, c, w')"
    and rest: "stream_loop env name ks (Suc n)
        (if r then (t\<lparr>t_consumers := (t_consumers t)[k := c], t_streams := t_streams t @ [n]\<rparr>, w')
         else (t\<lparr>t_consumers := (t_consumers t)[k := c]\<rparr>, w'\<lparr>w_heap := (w_heap w')(n := None)\<rparr>)) = Some (True, n', s')"
    by (auto simp: s Let_def split: option.splits prod.splits sum.splits if_splits bool.splits)
  have "core (c, w') = core (t_consumers t ! k, set_stream n (new_item_stream (second_clock w)) w)"
    using CreateItemStream_frame [OF c] by blast
  from core_flags [OF this] have up: "app_fresh (t\<lparr>t_consumers := (t_consumers t)[k := c]\<rparr>, v)" for v
    using Cons.prems(2,3) by (intro app_fresh_update) (auto simp: s)
  have "app_fresh (t\<lparr>t_consumers := (t_consumers t)[k := c], t_streams := x\<rparr>, v)" for x v
    using up [of v] app_fresh_streams [of x "t\<lparr>t_consumers := (t_consumers t)[k := c]\<rparr>" v v] by simp
  with up Cons.IH [OF rest] Cons.prems(3) show ?case by (cases r) (auto simp: s)
qed simp

lemma create_streams_fresh:
  "create_streams env names n s = Some (True, s') \<Longrightarrow> app_fresh s \<Longrightarrow>
     app_fresh s' \<and> length (t_consumers (fst s')) = length (t_consumers (fst s)) \<and>
     t_config (fst s') = t_config (fst s)"
proof (induction names arbitrary: n s)
  case (Cons name names)
  from Cons.prems(1) obtain m u where
    l: "stream_loop env name [0 ..< length (t_consumers (fst s))] n s = Some (True, m, u)"
    and rest: "create_streams env names m u = Some (True, s')"
    by (auto split: option.splits prod.splits bool.splits)
  have "app_fresh u \<and> length (t_consumers (fst u)) = length (t_consumers (fst s)) \<and> t_config (fst u) = t_config (fst s)"
    by (rule stream_loop_fresh [OF l Cons.prems(2)]) simp
  with Cons.IH [OF rest] show ?case by simp
qed simp

lemma resubscribe_all_fresh:
  "resubscribe_all env ks s = Some (True, s') \<Longrightarrow> app_fresh s \<Longrightarrow>
     \<forall>k\<in>set ks. k < length (t_consumers (fst s)) \<Longrightarrow>
     app_fresh s' \<and> length (t_consumers (fst s')) = length (t_consumers (fst s)) \<and>
     t_config (fst s') = t_config (fst s)"
proof (induction ks arbitrary: s)
  case (Cons k ks)
  obtain t w where s: "s = (t, w)" by (cases s)
  from Cons.prems(1) obtain r c w' where
    c: "Resubscribe (app_api env) (t_consumers t ! k, w) = Some (Inr r, c, w')"
    and rest: "resubscribe_all env ks (t\<lparr>t_consumers := (t_consumers t)[k := c]\<rparr>, w') = Some (True, s')"
    by (auto simp: s Let_def split: option.splits prod.splits sum.splits)
  have "core (c, w') = core (t_consumers t ! k, w)"
    using Resubscribe_frame [OF c] by (simp add: request_frame_def)
  from core_flags [OF this] have up: "app_fresh (t\<lparr>t_consumers := (t_consumers t)[k := c]\<rparr>, w')"
    using Cons.prems(2,3) by (intro app_fresh_update) (auto simp: s)
  from Cons.IH [OF rest up] Cons.prems(3) show ?case by (simp add: s)
qed simp

lemma start_capture_fresh:
  assumes "start_capture env s = Some (True, s')" and "app_fresh s" and "t_consumers (fst s) = []"
  shows "app_fresh s' \<and> length (t_consumers (fst s')) = length (sessions (t_config (fst s'))) \<and>
         t_config (fst s') = t_config (fst s)"
proof -
  obtain t w where s: "s = (t, w)" by (cases s)
  from assms(1) obtain t1 u v where
    o: "open_archive env t = (True, t1)"
    and c: "create_consumers env (sessions (t_config t1)) (t1, w) = Some (True, u)"
    and d: "create_streams env (instruments (t_config (fst u))) 0 u = Some (True, v)"
    and r: "resubscribe_all env [0 ..< length (t_consumers (fst v))] v = Some (True, s')"
    by (auto simp: s start_capture_def split: option.splits prod.splits bool.splits if_splits)
  have 1: "app_fresh (t1, w)" "t_config t1 = t_config t" "t_consumers t1 = []"
    using o assms(2,3) by (auto simp: s open_archive_def app_fresh_def Let_def split: if_splits)
  have 2: "app_fresh u" "length (t_consumers (fst u)) = length (sessions (t_config t1))" "t_config (fst u) = t_config t1"
    using create_consumers_fresh [OF c 1(1)] 1(3) by simp_all
  have 3: "app_fresh v" "length (t_consumers (fst v)) = length (t_consumers (fst u))" "t_config (fst v) = t_config (fst u)"
    using create_streams_fresh [OF d 2(1)] by simp_all
  have "app_fresh s' \<and> length (t_consumers (fst s')) = length (t_consumers (fst v)) \<and> t_config (fst s') = t_config (fst v)"
    by (rule resubscribe_all_fresh [OF r 3(1)]) simp
  with 1 2 3 show ?thesis by (simp add: s)
qed

text \<open>A capture that Init has started, with a number of sessions that the counter can hold.\<close>

definition app_started :: "app_env \<Rightarrow> app \<Rightarrow> bool" where
  "app_started env s =
     (\<exists>cl w. torikuru_Init env cl (new_torikuru, w) = Some (True, s) \<and>
        input_path (t_config (fst s)) = [] \<and> length (sessions (t_config (fst s))) < 2 ^ 32)"

lemma app_started_inv:
  assumes "app_started env s"
  shows "app_inv s"
proof -
  from assms obtain cl w where i: "torikuru_Init env cl (new_torikuru, w) = Some (True, s)"
    and path: "input_path (t_config (fst s)) = []" and len: "length (sessions (t_config (fst s))) < 2 ^ 32"
    by (auto simp: app_started_def)
  from i obtain cfg where cfg: "Init_config env cl new_config_t = Some cfg"
    by (auto simp: torikuru_Init_def new_torikuru_def bind_eq_Some_conv)
  obtain ok r where r: "rfa_Init (app_rfa env) cfg new_rfa = (ok, r)" by fastforce
  obtain lg m h where l: "app_log env = (lg, m, h)" by (cases "app_log env")
  obtain ok' p calls where p: "Register lg m h (new_log_provider cfg) = (ok', p, calls)"
    by (cases "Register lg m h (new_log_provider cfg)")
  let ?t = "new_torikuru\<lparr>t_config := cfg, t_rfa := Some r, t_event_queue := Queue True, t_log := Some p\<rparr>"
  have "input_path cfg = []"
    using i path by (auto simp: torikuru_Init_def cfg r l p new_torikuru_def Let_def split: if_splits)
  then have c: "start_capture env (?t, w) = Some (True, s)"
    using i by (auto simp: torikuru_Init_def cfg r l p new_torikuru_def Let_def split: if_splits)
  have t: "app_fresh (?t, w)" "t_consumers ?t = []"
    by (simp_all add: app_fresh_def new_torikuru_def)
  from start_capture_fresh [OF c] t len show ?thesis by (intro app_fresh_inv) simp_all
qed

interpretation app_sys: invariant_system "app_started env" "app_step env" app_inv
  by unfold_locales (auto intro: app_started_inv app_step_inv)

section \<open>The main loop\<close>

lemma on_sync_config [simp]: "t_config ((on_sync_f0 ^^ n) t) = t_config t"
  by (induction n) (simp_all add: on_sync_f0_def deactivate_def Let_def)

lemma dispatch_event_config: "dispatch_event env k ev s = Some s' \<Longrightarrow> t_config (fst s') = t_config (fst s)"
  by (cases s) (auto simp: dispatch_event_def split: option.splits if_splits)

lemma dispatch_cases:
  assumes "dispatch env turn s = Some s'"
  obtains u where "u = s \<or> (\<exists>k ev. dispatch_event env k ev s = Some u)"
    "s' = (fst u, snd u\<lparr>w_now := snd turn\<rparr>)"
  using assms by (cases turn) (fastforce simp: dispatch_def bind_eq_Some_conv split: option.splits)

lemma app_step_config: "app_step env s s' \<Longrightarrow> t_config (fst s') = t_config (fst s)"
  by (auto simp: app_step_iff elim!: dispatch_cases dest: dispatch_event_config)

lemma app_steps_config: "(app_step env)\<^sup>*\<^sup>* s s' \<Longrightarrow> t_config (fst s') = t_config (fst s)"
  by (induction rule: rtranclp_induct) (simp_all add: app_step_config)

lemma main_loop_reach:
  "main_loop env a b turns s = Some (ended, s') \<Longrightarrow>
     (app_step env)\<^sup>*\<^sup>* s s' \<and> ended = (\<not> loop_condition a b s')"
proof (induction turns arbitrary: s)
  case (Cons turn turns)
  show ?case
  proof (cases "loop_condition a b s")
    case True
    with Cons.prems obtain u where u: "dispatch env turn s = Some u" "main_loop env a b turns u = Some (ended, s')"
      by (auto simp: bind_eq_Some_conv)
    from Cons.IH [OF u(2)] app_turn [OF u(1)] show ?thesis by (meson converse_rtranclp_into_rtranclp)
  qed (use Cons.prems in auto)
qed simp

text \<open>The deadline: the sum, or 2^32 less when the sum leaves the range of time_t; it is the start
  for the limit 0 only.\<close>

lemma to_time_t_eq: "- (2 ^ 31) \<le> t \<Longrightarrow> t < 2 ^ 31 \<Longrightarrow> to_time_t t = t"
  by (simp add: to_time_t_def sint_sbintrunc' signed_take_bit_int_eq_self)

lemma to_time_t_wraps:
  assumes "2 ^ 31 \<le> t" and "t < 2 ^ 32"
  shows "to_time_t t = t - 2 ^ 32"
proof -
  have "(word_of_int t :: 32 word) = word_of_int (t - 2 ^ 32)"
    by (rule word_of_int_eq_iff [THEN iffD2]) (simp add: take_bit_eq_mod)
  then have "to_time_t t = to_time_t (t - 2 ^ 32)" by (simp only: to_time_t_def)
  also have "\<dots> = t - 2 ^ 32" by (rule to_time_t_eq) (use assms in simp_all)
  finally show ?thesis .
qed

definition deadline :: "app \<Rightarrow> int" where
  "deadline s = to_time_t (second_clock (snd s) + atoi (time_limit (t_config (fst s))))"

lemma deadline_cases:
  assumes "MainLoop env turns s \<noteq> None"
  obtains "second_clock (snd s) + atoi (time_limit (t_config (fst s))) < 2 ^ 31"
      "deadline s = second_clock (snd s) + atoi (time_limit (t_config (fst s)))"
  | "2 ^ 31 \<le> second_clock (snd s) + atoi (time_limit (t_config (fst s)))" "0 \<le> second_clock (snd s)"
      "deadline s = second_clock (snd s) + atoi (time_limit (t_config (fst s))) - 2 ^ 32" "deadline s < 0"
proof -
  let ?a = "second_clock (snd s)" and ?l = "atoi (time_limit (t_config (fst s)))"
  from assms have r: "0 \<le> ?a" "?a < 2 ^ 31" "- (2 ^ 31) \<le> ?l" "?l < 2 ^ 31"
    by (simp_all add: MainLoop_def Let_def split: if_splits)
  show ?thesis
  proof (cases "?a + ?l < 2 ^ 31")
    case True
    with r show ?thesis by (intro that(1)) (simp_all add: deadline_def to_time_t_eq)
  next
    case False
    with r have "deadline s = ?a + ?l - 2 ^ 32"
      unfolding deadline_def by (intro to_time_t_wraps) simp_all
    with False r show ?thesis by (intro that(2)) simp_all
  qed
qed

lemma deadline_is_start:
  assumes "MainLoop env turns s \<noteq> None"
  shows "deadline s = second_clock (snd s) \<longleftrightarrow> atoi (time_limit (t_config (fst s))) = 0"
  using assms
proof (cases rule: deadline_cases)
  case 2
  moreover have "second_clock (snd s) < 2 ^ 31"
    using assms by (simp add: MainLoop_def Let_def split: if_splits)
  ultimately show ?thesis by auto
qed simp

lemma MainLoop_eq:
  assumes "MainLoop env turns s \<noteq> None"
  shows "MainLoop env turns s = main_loop env (second_clock (snd s)) (deadline s) turns s"
  using assms by (simp add: MainLoop_def Let_def deadline_def split: if_splits)

lemma MainLoop_reach:
  assumes "MainLoop env turns s = Some (ended, s')"
  shows "(app_step env)\<^sup>*\<^sup>* s s'" and "t_config (fst s') = t_config (fst s)"
    and "ended = (\<not> loop_condition (second_clock (snd s)) (deadline s) s')"
proof -
  from assms MainLoop_eq [of env turns s]
  have "main_loop env (second_clock (snd s)) (deadline s) turns s = Some (ended, s')" by simp
  from main_loop_reach [OF this]
  show "(app_step env)\<^sup>*\<^sup>* s s'" "ended = (\<not> loop_condition (second_clock (snd s)) (deadline s) s')" by blast+
  then show "t_config (fst s') = t_config (fst s)" using app_steps_config by blast
qed

lemma main_loop_deadline:
  "main_loop env a b turns s = Some (ended, s') \<Longrightarrow> a \<noteq> b \<Longrightarrow>
     \<exists>turn\<in>set turns. b * 1000000 \<le> snd turn \<Longrightarrow> ended"
proof (induction turns arbitrary: s)
  case (Cons turn turns)
  show ?case
  proof (cases "loop_condition a b s")
    case True
    with Cons.prems(1) obtain u where
      u: "dispatch env turn s = Some u" "main_loop env a b turns u = Some (ended, s')"
      by (auto simp: bind_eq_Some_conv)
    show ?thesis
    proof (cases "b * 1000000 \<le> snd turn")
      case True
      with u(1) have "\<not> loop_condition a b u"
        using Cons.prems(2)
        by (auto simp: dispatch_def loop_condition_def second_clock_def bind_eq_Some_conv split: prod.splits)
      then have "main_loop env a b turns u = Some (True, u)" by (cases turns) simp_all
      with u(2) show ?thesis by simp
    next
      case False
      with Cons.prems(3) Cons.IH [OF u(2) Cons.prems(2)] show ?thesis by auto
    qed
  qed (use Cons.prems in auto)
qed simp

text \<open>The capture of the README: one market data session, two instruments, --terminate-on-sync.\<close>

definition demo_env :: app_env where
  "demo_env =
     \<lparr>app_api = granting_api, app_rfa = full_env, app_queue_created = True, app_log = (True, True, Some 1),
      app_open_output = (\<lambda>_. 3), app_read_symbols = (\<lambda>_. Some ''IBM.N MSFT.O''), app_logname = Some ''user1'',
      app_etl = demo_etl, app_input = (\<lambda>_. None)\<rparr>"

definition demo_switches :: "(string \<times> string) list \<Rightarrow> command_line" where
  "demo_switches sw = new_command_line\<lparr>cl_switches := map_of ((''symbol-path'', ''ric'') # sw)\<rparr>"

definition demo_capture :: command_line where
  "demo_capture = demo_switches
     [(''session'', ''ssled://u@h/IDN_RDF''), (''terminate-on-sync'', []), (''output-path'', ''out'')]"

definition demo_turns :: "turn list" where
  "demo_turns =
     [(None, 1100000), (Some (0, MarketDataItemEvent (example_event 0 Image False)), 1200000),
      (Some (0, MarketDataItemEvent (example_event 1 Status True)), 1300000)]"

definition loop_after :: "(bool \<Rightarrow> app \<Rightarrow> bool) \<Rightarrow> command_line \<Rightarrow> turn list \<Rightarrow> bool" where
  "loop_after P cl turns =
     (case torikuru_Init demo_env cl (new_torikuru, empty_world) of
        Some (True, s) \<Rightarrow> input_path (t_config (fst s)) = [] \<and> int (length (sessions (t_config (fst s)))) < 4294967296 \<and>
          (case MainLoop demo_env turns s of Some (b, s') \<Rightarrow> P b s' | None \<Rightarrow> False)
      | _ \<Rightarrow> False)"

lemma loop_afterE:
  assumes "loop_after P cl turns"
  obtains s b s' where "app_started demo_env s" "MainLoop demo_env turns s = Some (b, s')" "P b s'"
proof -
  from assms obtain s where s: "torikuru_Init demo_env cl (new_torikuru, empty_world) = Some (True, s)"
    and p: "input_path (t_config (fst s)) = []" "int (length (sessions (t_config (fst s)))) < 4294967296"
    and l: "case MainLoop demo_env turns s of Some (b, s') \<Rightarrow> P b s' | None \<Rightarrow> False"
    by (auto simp: loop_after_def split: option.splits prod.splits bool.splits)
  from s p have "app_started demo_env s" unfolding app_started_def by auto
  moreover from l obtain b s' where "MainLoop demo_env turns s = Some (b, s')" "P b s'"
    by (auto split: option.splits)
  ultimately show ?thesis using that by blast
qed

lemma demo_capture_ends:
  "loop_after (\<lambda>b s. b \<and> terminate_on_sync (t_config (fst s)) \<and> length (t_consumers (fst s)) = 1 \<and>
     list_all c_in_sync (t_consumers (fst s)) \<and> length (w_archive (snd s)) = 1) demo_capture demo_turns"
  by code_simp

text \<open>C11: At any point of a capture the event queue is active unless --terminate-on-sync is given
  and every session is in sync, and then it is not: the count that f0 keeps modulo 2^32 reaches the
  number of sessions at that very event, whatever the order in which the sessions finish.\<close>

theorem queue_deactivated_iff_all_in_sync:
  assumes "app_started env s0" and "(app_step env)\<^sup>*\<^sup>* s0 s"
  shows "t_event_queue (fst s) =
           Queue (\<not> (terminate_on_sync (t_config (fst s)) \<and> t_consumers (fst s) \<noteq> [] \<and>
                     (\<forall>c\<in>set (t_consumers (fst s)). c_in_sync c)))"
  using app_sys.reach_inv [OF assms]
  by (simp add: app_inv_def all_in_sync_def Let_def list_all_iff)

theorem queue_deactivated_iff_all_in_sync_witness:
  "\<exists>s0 s. app_started demo_env s0 \<and> (app_step demo_env)\<^sup>*\<^sup>* s0 s \<and>
     length (t_consumers (fst s)) = 1 \<and> t_event_queue (fst s) = Queue False"
proof -
  from demo_capture_ends obtain s0 b s where r: "app_started demo_env s0" "MainLoop demo_env demo_turns s0 = Some (b, s)"
    "terminate_on_sync (t_config (fst s))" "length (t_consumers (fst s)) = 1" "list_all c_in_sync (t_consumers (fst s))"
    by (elim loop_afterE) simp
  note st = MainLoop_reach(1) [OF r(2)]
  have "t_event_queue (fst s) = Queue False"
    using queue_deactivated_iff_all_in_sync [OF r(1) st] r(3,4,5) by (auto simp: list_all_iff)
  with r st show ?thesis by blast
qed

text \<open>C33: The main loop ends for these reasons only: --terminate-on-sync is given and every session
  is in sync; a time limit other than 0 is given and that many seconds have passed (a negative
  one ends the capture at once); or the time limit is so large that the deadline leaves the range
  of the 32-bit time_t, wraps around to a negative time and so has passed from the start.
  With none of them the capture runs for ever. The start is a time from 0 to 2^31 - 1 and the time
  limit a value of int (else MainLoop has no result); the third reason is stated for a clock that
  does not go below 0.\<close>

theorem main_loop_ends_iff:
  assumes "app_started env s0" and "MainLoop env turns s0 = Some (ended, s)" and "0 \<le> second_clock (snd s)"
  shows "ended \<longleftrightarrow>
           terminate_on_sync (t_config (fst s0)) \<and> t_consumers (fst s) \<noteq> [] \<and>
             (\<forall>c\<in>set (t_consumers (fst s)). c_in_sync c) \<or>
           atoi (time_limit (t_config (fst s0))) \<noteq> 0 \<and>
             second_clock (snd s0) + atoi (time_limit (t_config (fst s0))) \<le> second_clock (snd s) \<or>
           2 ^ 31 \<le> second_clock (snd s0) + atoi (time_limit (t_config (fst s0)))"
proof -
  note r = MainLoop_reach [OF assms(2)]
  have runs: "MainLoop env turns s0 \<noteq> None" by (simp add: assms(2))
  have "app_inv s" by (rule app_sys.reach_inv [OF assms(1) r(1)])
  with r(2,3) have ended: "ended \<longleftrightarrow>
      terminate_on_sync (t_config (fst s0)) \<and> t_consumers (fst s) \<noteq> [] \<and> (\<forall>c\<in>set (t_consumers (fst s)). c_in_sync c) \<or>
      atoi (time_limit (t_config (fst s0))) \<noteq> 0 \<and> deadline s0 \<le> second_clock (snd s)"
    using deadline_is_start [OF runs]
    by (auto simp: loop_condition_def app_inv_def all_in_sync_def Let_def list_all_iff)
  from runs show ?thesis
  proof (cases rule: deadline_cases)
    case 1
    then show ?thesis unfolding ended by simp
  next
    case 2
    have "second_clock (snd s0) < 2 ^ 31"
      using runs by (simp add: MainLoop_def Let_def split: if_splits)
    with 2 have "atoi (time_limit (t_config (fst s0))) \<noteq> 0" by auto
    with 2 assms(3) show ?thesis unfolding ended by simp
  qed
qed

theorem main_loop_ends_iff_witness:
  "\<exists>s0 s. app_started demo_env s0 \<and> MainLoop demo_env [(None, 1500000), (None, 3000001)] s0 = Some (True, s) \<and>
     \<not> list_all c_in_sync (t_consumers (fst s)) \<and> second_clock (snd s0) + 2 \<le> second_clock (snd s)"
proof -
  let ?cl = "demo_switches [(''session'', ''ssled://u@h/IDN_RDF''), (''terminate-on-sync'', []), (''time-limit'', ''2'')]"
  let ?turns = "[(None, 1500000), (None, 3000001)]"
  have "case torikuru_Init demo_env ?cl (new_torikuru, empty_world) of
      Some (True, s0) \<Rightarrow> input_path (t_config (fst s0)) = [] \<and> int (length (sessions (t_config (fst s0)))) < 4294967296 \<and>
        time_limit (t_config (fst s0)) = ''2'' \<and> second_clock (snd s0) = 1 \<and>
        (case MainLoop demo_env ?turns s0 of None \<Rightarrow> False
         | Some (b, s) \<Rightarrow> b \<and> \<not> list_all c_in_sync (t_consumers (fst s)) \<and> second_clock (snd s) = 3)
    | _ \<Rightarrow> False" by code_simp
  then obtain s0 where r0: "torikuru_Init demo_env ?cl (new_torikuru, empty_world) = Some (True, s0)"
    "input_path (t_config (fst s0)) = []" "int (length (sessions (t_config (fst s0)))) < 4294967296"
    "time_limit (t_config (fst s0)) = ''2''" "second_clock (snd s0) = 1"
    and loop: "case MainLoop demo_env ?turns s0 of None \<Rightarrow> False
         | Some (b, s) \<Rightarrow> b \<and> \<not> list_all c_in_sync (t_consumers (fst s)) \<and> second_clock (snd s) = 3"
    by (auto split: option.splits prod.splits bool.splits)
  then obtain s where r: "MainLoop demo_env ?turns s0 = Some (True, s)"
    "\<not> list_all c_in_sync (t_consumers (fst s))" "second_clock (snd s) = 3"
    by (auto split: option.splits prod.splits)
  have started: "app_started demo_env s0" using r0(1,2,3) unfolding app_started_def by auto
  have "atoi ''2'' = 2" by code_simp
  then have "second_clock (snd s0) + 2 \<le> second_clock (snd s)"
    using main_loop_ends_iff [OF started r(1)] r(2,3) r0(4,5) by (auto simp: list_all_iff)
  with started r(1,2) show ?thesis by blast
qed

text \<open>C34: With a time limit other than 0 the main loop does end, at the latest when dispatch
  returns at or after the limit, whatever events came before.\<close>

theorem main_loop_ends_at_time_limit:
  assumes "MainLoop env turns s \<noteq> None" and "atoi (time_limit (t_config (fst s))) \<noteq> 0"
    and "\<exists>turn\<in>set turns. second_clock (snd s) + atoi (time_limit (t_config (fst s))) \<le> snd turn div 1000000"
  shows "\<exists>s'. MainLoop env turns s = Some (True, s')"
proof -
  let ?a = "second_clock (snd s)" and ?l = "atoi (time_limit (t_config (fst s)))"
  have "deadline s \<le> ?a + ?l" using assms(1) by (cases rule: deadline_cases) simp_all
  with assms(3) obtain turn where "turn \<in> set turns" "deadline s \<le> snd turn div 1000000" by force
  then have "\<exists>turn\<in>set turns. deadline s * 1000000 \<le> snd turn" by (intro bexI [of _ turn]) simp_all
  moreover have "?a \<noteq> deadline s" using deadline_is_start [OF assms(1)] assms(2) by simp
  moreover obtain ended s' where m: "MainLoop env turns s = Some (ended, s')" using assms(1) by auto
  ultimately have ended
    using main_loop_deadline [of env ?a "deadline s" turns s ended s'] MainLoop_eq [OF assms(1)] by simp
  with m show ?thesis by simp
qed

theorem main_loop_ends_at_time_limit_witness:
  "\<exists>s s'. app_started demo_env s \<and> MainLoop demo_env ((None, 3500000) # demo_turns) s = Some (True, s')"
proof -
  let ?cl = "demo_switches [(''session'', ''ssled://u@h/IDN_RDF''), (''time-limit'', ''2'')]"
  let ?turns = "(None, 3500000) # demo_turns"
  have "case torikuru_Init demo_env ?cl (new_torikuru, empty_world) of
      Some (True, s) \<Rightarrow> input_path (t_config (fst s)) = [] \<and> int (length (sessions (t_config (fst s)))) < 4294967296 \<and>
        MainLoop demo_env ?turns s \<noteq> None \<and> time_limit (t_config (fst s)) = ''2'' \<and> second_clock (snd s) = 1
    | _ \<Rightarrow> False" by code_simp
  then obtain s where r: "torikuru_Init demo_env ?cl (new_torikuru, empty_world) = Some (True, s)"
    "input_path (t_config (fst s)) = []" "int (length (sessions (t_config (fst s)))) < 4294967296"
    "MainLoop demo_env ?turns s \<noteq> None" "time_limit (t_config (fst s)) = ''2''" "second_clock (snd s) = 1"
    by (auto split: option.splits prod.splits bool.splits)
  have "atoi ''2'' = 2" by code_simp
  then have "\<exists>s'. MainLoop demo_env ?turns s = Some (True, s')"
    using r(5,6) by (intro main_loop_ends_at_time_limit [OF r(4)]) simp_all
  moreover have "app_started demo_env s" using r(1,2,3) unfolding app_started_def by auto
  ultimately show ?thesis by blast
qed

text \<open>A limit that takes the deadline past 2^31 - 1 ends the capture before the first event.\<close>

theorem large_limit_ends_at_once:
  assumes start: "0 \<le> second_clock (snd s)" "second_clock (snd s) < 2 ^ 31"
    and limit: "atoi (time_limit (t_config (fst s))) < 2 ^ 31"
    and "2 ^ 31 \<le> second_clock (snd s) + atoi (time_limit (t_config (fst s)))"
  shows "MainLoop env turns s = Some (True, s)"
proof -
  let ?a = "second_clock (snd s)" and ?l = "atoi (time_limit (t_config (fst s)))"
  have "to_time_t (?a + ?l) = ?a + ?l - 2 ^ 32"
    by (rule to_time_t_wraps) (use assms in simp_all)
  then have "\<not> loop_condition ?a (to_time_t (?a + ?l)) s"
    using assms by (simp add: loop_condition_def)
  then have "main_loop env ?a (to_time_t (?a + ?l)) turns s = Some (True, s)"
    by (cases turns) simp_all
  with assms show ?thesis by (simp add: MainLoop_def Let_def)
qed

theorem large_limit_ends_at_once_witness:
  "\<exists>s. app_started demo_env s \<and> MainLoop demo_env demo_turns s = Some (True, s)"
proof -
  let ?cl = "demo_switches [(''session'', ''ssled://u@h/IDN_RDF''), (''time-limit'', ''2147483647'')]"
  have "case torikuru_Init demo_env ?cl (new_torikuru, empty_world) of
      Some (True, s) \<Rightarrow> input_path (t_config (fst s)) = [] \<and> int (length (sessions (t_config (fst s)))) < 4294967296 \<and>
        time_limit (t_config (fst s)) = ''2147483647'' \<and> second_clock (snd s) = 1
    | _ \<Rightarrow> False" by code_simp
  then obtain s where r: "torikuru_Init demo_env ?cl (new_torikuru, empty_world) = Some (True, s)"
    "input_path (t_config (fst s)) = []" "int (length (sessions (t_config (fst s)))) < 4294967296"
    "time_limit (t_config (fst s)) = ''2147483647''" "second_clock (snd s) = 1"
    by (auto split: option.splits prod.splits bool.splits)
  have "atoi ''2147483647'' = 2147483647"
    by (simp add: atoi_def is_space_def is_digit_def digits_val_def digit_val_def)
  then have "MainLoop demo_env demo_turns s = Some (True, s)"
    using r(4,5) by (intro large_limit_ends_at_once) simp_all
  moreover have "app_started demo_env s" using r(1,2,3) unfolding app_started_def by auto
  ultimately show ?thesis by blast
qed

section \<open>Clear\<close>

text \<open>Clear leaves the object as its constructor made it, apart from the configuration and the
  counter of sessions, so that the second Clear, of the destructor, does nothing.\<close>

theorem Clear_twice:
  assumes "Clear s = Some (actions, s')"
  shows "fst s' = new_torikuru\<lparr>t_config := t_config (fst s), t_consumers_in_sync := t_consumers_in_sync (fst s)\<rparr> \<and>
         Clear s' = Some ([], s')"
  using assms
  by (cases s) (auto simp: Clear_def new_torikuru_def close_streams_def deactivate_def Let_def bind_eq_Some_conv
      split: event_queue.splits if_splits)

theorem Clear_twice_witness:
  "Clear (new_torikuru\<lparr>t_output_fd := 3, t_output_stream := True, t_event_queue := Queue True\<rparr>, empty_world) =
     Some ([CloseOutputStream, DeleteOutputStream, CloseFile 3, DeactivateQueue, DestroyQueue], new_torikuru, empty_world) \<and>
   Clear (new_torikuru, empty_world) = Some ([], new_torikuru, empty_world)"
proof -
  let ?s = "(new_torikuru\<lparr>t_output_fd := 3, t_output_stream := True, t_event_queue := Queue True\<rparr>, empty_world)"
  have 1: "Clear ?s = Some ([CloseOutputStream, DeleteOutputStream, CloseFile 3, DeactivateQueue, DestroyQueue],
      new_torikuru, empty_world)"
    by (simp add: Clear_def new_torikuru_def close_streams_def deactivate_def Let_def)
  with Clear_twice [OF 1] show ?thesis by simp
qed

text \<open>A session with an unknown protocol ends the program with EXIT_FAILURE before anything is
  opened: Clear releases the RFA context and has nothing else to do.\<close>

theorem failed_rfa_Init_exits:
  assumes "Init_config env cl new_config_t = Some cfg"
    and "\<exists>session\<in>set (sessions cfg). \<not> is_rssl session \<and> \<not> is_ssled session"
  shows "\<exists>s. Run env cl turns (new_torikuru, w) =
           Some \<lparr>rr_exit = Some EXIT_FAILURE, rr_cleared = [DropRfa], rr_outputs = no_outputs, rr_app = (s, w)\<rparr>"
proof -
  have "\<not> fst (rfa_Init (app_rfa env) cfg new_rfa)"
    using assms(2) by (auto simp: rfa_Init_eq)
  then obtain r where r: "rfa_Init (app_rfa env) cfg new_rfa = (False, r)"
    by (metis fst_conv prod.collapse)
  show ?thesis
    by (simp add: Run_def torikuru_Init_def new_torikuru_def assms(1) r finish_def Clear_def close_streams_def Let_def)
qed

text \<open>When EventQueue::create returns null, Init takes the error path and Clear then hands the
  null pointer to its deleter, EventQueue::destroy: the program crashes instead of exiting.\<close>

theorem null_event_queue_crashes:
  assumes "Init_config env cl new_config_t = Some cfg" and "fst (rfa_Init (app_rfa env) cfg new_rfa)"
    and "\<not> app_queue_created env"
  shows "torikuru_Init env cl (new_torikuru, w) \<noteq> None \<and> Run env cl turns (new_torikuru, w) = None"
proof -
  from assms(2) obtain r where r: "rfa_Init (app_rfa env) cfg new_rfa = (True, r)"
    by (metis prod.collapse)
  show ?thesis
    by (simp add: Run_def torikuru_Init_def new_torikuru_def assms(1,3) r finish_def Clear_def close_streams_def Let_def)
qed

theorem failed_rfa_Init_exits_witness:
  "\<exists>s. Run demo_env (demo_switches [(''session'', ''http://h/IDN_RDF'')]) [] (new_torikuru, empty_world) =
     Some \<lparr>rr_exit = Some EXIT_FAILURE, rr_cleared = [DropRfa], rr_outputs = no_outputs, rr_app = (s, empty_world)\<rparr>"
proof -
  have "case Init_config demo_env (demo_switches [(''session'', ''http://h/IDN_RDF'')]) new_config_t of
      None \<Rightarrow> False | Some cfg \<Rightarrow> list_ex (\<lambda>s. \<not> is_rssl s \<and> \<not> is_ssled s) (sessions cfg)" by code_simp
  then obtain cfg where "Init_config demo_env (demo_switches [(''session'', ''http://h/IDN_RDF'')]) new_config_t = Some cfg"
    "\<exists>s\<in>set (sessions cfg). \<not> is_rssl s \<and> \<not> is_ssled s"
    by (auto simp: list_ex_iff split: option.splits)
  then show ?thesis by (rule failed_rfa_Init_exits)
qed

theorem null_event_queue_crashes_witness:
  "Run (demo_env\<lparr>app_queue_created := False\<rparr>) demo_capture [] (new_torikuru, empty_world) = None"
proof -
  have "case Init_config (demo_env\<lparr>app_queue_created := False\<rparr>) demo_capture new_config_t of
      None \<Rightarrow> False | Some cfg \<Rightarrow> fst (rfa_Init full_env cfg new_rfa)" by code_simp
  then obtain cfg where "Init_config (demo_env\<lparr>app_queue_created := False\<rparr>) demo_capture new_config_t = Some cfg"
    "fst (rfa_Init full_env cfg new_rfa)" by (auto split: option.splits)
  then show ?thesis
    using null_event_queue_crashes [of "demo_env\<lparr>app_queue_created := False\<rparr>"] by (simp add: demo_env_def)
qed

end
