(* ===== verification/Linked_List.thy ===== *)
theory Linked_List
  imports Prelude
begin

text \<open>
  src/chromium/linked_list.hh, the intrusive circular list, and src/chromium/debug/leak_tracker.hh,
  which keeps one list of all live objects of a class. Nodes live in a heap from addresses to
  nodes, 0 is the null pointer; None is the dereference of a null or freed node.
\<close>

section \<open>LinkNode\<close>

record node =
  n_previous :: nat
  n_next :: nat

type_synonym nheap = "nat \<Rightarrow> node option"

definition new_LinkNode :: "nat \<Rightarrow> nheap \<Rightarrow> nheap" where
  "new_LinkNode this h = h(this \<mapsto> \<lparr>n_previous = 0, n_next = 0\<rparr>)"

definition previous :: "nheap \<Rightarrow> nat \<Rightarrow> nat option" where
  "previous h a = map_option n_previous (h a)"

definition next_node :: "nheap \<Rightarrow> nat \<Rightarrow> nat option" where
  "next_node h a = map_option n_next (h a)"

definition set_previous :: "nat \<Rightarrow> nat \<Rightarrow> nheap \<Rightarrow> nheap option" where
  "set_previous a v h = map_option (\<lambda>n. h(a \<mapsto> n\<lparr>n_previous := v\<rparr>)) (h a)"

definition set_next :: "nat \<Rightarrow> nat \<Rightarrow> nheap \<Rightarrow> nheap option" where
  "set_next a v h = map_option (\<lambda>n. h(a \<mapsto> n\<lparr>n_next := v\<rparr>)) (h a)"

definition InsertBefore :: "nat \<Rightarrow> nat \<Rightarrow> nheap \<Rightarrow> nheap option" where
  "InsertBefore this e h =
     do {
       h \<leftarrow> set_next this e h;
       p \<leftarrow> previous h e;
       h \<leftarrow> set_previous this p h;
       p \<leftarrow> previous h e;
       h \<leftarrow> set_next p this h;
       set_previous e this h
     }"

definition InsertAfter :: "nat \<Rightarrow> nat \<Rightarrow> nheap \<Rightarrow> nheap option" where
  "InsertAfter this e h =
     do {
       n \<leftarrow> next_node h e;
       h \<leftarrow> set_next this n h;
       h \<leftarrow> set_previous this e h;
       n \<leftarrow> next_node h e;
       h \<leftarrow> set_previous n this h;
       set_next e this h
     }"

definition RemoveFromList :: "nat \<Rightarrow> nheap \<Rightarrow> nheap option" where
  "RemoveFromList this h =
     do {
       p \<leftarrow> previous h this;
       n \<leftarrow> next_node h this;
       h \<leftarrow> set_next p n h;
       n \<leftarrow> next_node h this;
       p \<leftarrow> previous h this;
       set_previous n p h
     }"

section \<open>LinkedList\<close>

text \<open>The constructor, with the address of the root node.\<close>

definition new_LinkedList :: "nat \<Rightarrow> nheap \<Rightarrow> nheap" where
  "new_LinkedList root h = h(root \<mapsto> \<lparr>n_previous = root, n_next = root\<rparr>)"

definition Append :: "nat \<Rightarrow> nat \<Rightarrow> nheap \<Rightarrow> nheap option" where
  "Append root e h = InsertBefore e root h"

definition head :: "nat \<Rightarrow> nheap \<Rightarrow> nat option" where
  "head root h = next_node h root"

definition tail :: "nat \<Rightarrow> nheap \<Rightarrow> nat option" where
  "tail root h = previous h root"

text \<open>The loop over a list, for (node = head (); node != end (); node = node->next ()), as the list
  of the nodes it visits; None is a loop that does not end or leaves the heap.\<close>

partial_function (option) walk :: "nat \<Rightarrow> nheap \<Rightarrow> nat \<Rightarrow> nat list option" where
  "walk root h a =
     (if a = root then Some []
      else Option.bind (next_node h a) (\<lambda>n. Option.bind (walk root h n) (\<lambda>as. Some (a # as))))"

definition iterate :: "nat \<Rightarrow> nheap \<Rightarrow> nat list option" where
  "iterate root h = Option.bind (head root h) (walk root h)"

partial_function (option) walk_back :: "nat \<Rightarrow> nheap \<Rightarrow> nat \<Rightarrow> nat list option" where
  "walk_back root h a =
     (if a = root then Some []
      else Option.bind (previous h a) (\<lambda>n. Option.bind (walk_back root h n) (\<lambda>as. Some (a # as))))"

section \<open>LeakTracker\<close>

text \<open>The list of a class with its root, and the allocation stacks of the live objects.\<close>

record 'trace tracker =
  lt_heap :: nheap
  lt_stacks :: "nat \<Rightarrow> 'trace option"

definition new_LeakTracker :: "nat \<Rightarrow> nat \<Rightarrow> 'trace \<Rightarrow> 'trace tracker \<Rightarrow> 'trace tracker option" where
  "new_LeakTracker root this trace s =
     map_option (\<lambda>h. s\<lparr>lt_heap := h, lt_stacks := (lt_stacks s)(this \<mapsto> trace)\<rparr>)
       (Append root this (new_LinkNode this (lt_heap s)))"

text \<open>The destructor; the object is freed behind it.\<close>

definition delete_LeakTracker :: "nat \<Rightarrow> nat \<Rightarrow> 'trace tracker \<Rightarrow> 'trace tracker option" where
  "delete_LeakTracker root this s =
     map_option (\<lambda>h. s\<lparr>lt_heap := h(this := None), lt_stacks := (lt_stacks s)(this := None)\<rparr>)
       (RemoveFromList this (lt_heap s))"

text \<open>CheckForLeaks: the leaks it walks over, the first three stacks it copies, and the CHECK on count.
  It logs each leak when LOG_IS_ON (ERROR): leaks_logged.\<close>

definition kMaxStackTracesToCopyOntoStack :: nat where
  "kMaxStackTracesToCopyOntoStack = 3"

definition CheckForLeaks :: "nat \<Rightarrow> 'trace tracker \<Rightarrow> ((nat \<times> 'trace) list \<times> 'trace list \<times> bool) option" where
  "CheckForLeaks root s =
     do {
       nodes \<leftarrow> iterate root (lt_heap s);
       let leaks = map (\<lambda>a. (a, lt_stacks s a)) nodes;
       if list_all (\<lambda>(a, t). t \<noteq> None) leaks
       then (let leaks = map (\<lambda>(a, t). (a, the t)) leaks
             in Some (leaks, take kMaxStackTracesToCopyOntoStack (map snd leaks), length leaks = 0))
       else None
     }"

definition leaks_logged :: "bool \<Rightarrow> nat \<Rightarrow> 'trace tracker \<Rightarrow> (nat \<times> 'trace) list option" where
  "leaks_logged log_is_on_error root s =
     map_option (\<lambda>(leaks, traces, ok). if log_is_on_error then leaks else []) (CheckForLeaks root s)"

definition NumLiveInstances :: "nat \<Rightarrow> 'trace tracker \<Rightarrow> nat option" where
  "NumLiveInstances root s = map_option length (iterate root (lt_heap s))"

section \<open>Lists in the heap\<close>

text \<open>Consecutive nodes of a path point at each other.\<close>

fun linked :: "(nat \<Rightarrow> nat option) \<Rightarrow> (nat \<Rightarrow> nat option) \<Rightarrow> nat list \<Rightarrow> bool" where
  "linked nx pv (a # b # xs) = (nx a = Some b \<and> pv b = Some a \<and> linked nx pv (b # xs))"
| "linked nx pv _ = True"

definition is_list :: "nat \<Rightarrow> nheap \<Rightarrow> nat list \<Rightarrow> bool" where
  "is_list root h xs =
     (distinct (root # xs) \<and> linked (next_node h) (previous h) (root # xs @ [root]))"

lemma set_nextE:
  assumes "a \<in> dom h"
  obtains h' where "set_next a v h = Some h'" "dom h' = dom h"
    "next_node h' = (next_node h)(a \<mapsto> v)" "previous h' = previous h"
proof -
  from assms obtain n where "h a = Some n" by blast
  then show ?thesis
    by (intro that [of "h(a \<mapsto> n\<lparr>n_next := v\<rparr>)"])
      (auto simp: set_next_def next_node_def previous_def intro!: ext split: if_splits)
qed

lemma set_previousE:
  assumes "a \<in> dom h"
  obtains h' where "set_previous a v h = Some h'" "dom h' = dom h"
    "next_node h' = next_node h" "previous h' = (previous h)(a \<mapsto> v)"
proof -
  from assms obtain n where "h a = Some n" by blast
  then show ?thesis
    by (intro that [of "h(a \<mapsto> n\<lparr>n_previous := v\<rparr>)"])
      (auto simp: set_previous_def next_node_def previous_def intro!: ext split: if_splits)
qed

lemma node_dom: "next_node h a = Some b \<Longrightarrow> a \<in> dom h" "previous h a = Some b \<Longrightarrow> a \<in> dom h"
  by (auto simp: next_node_def previous_def)

lemma linked_upd_next: "a \<notin> set (butlast xs) \<Longrightarrow> linked (nx(a := v)) pv xs = linked nx pv xs"
  by (induction nx pv xs rule: linked.induct) auto

lemma linked_upd_previous: "a \<notin> set (tl xs) \<Longrightarrow> linked nx (pv(a := v)) xs = linked nx pv xs"
  by (induction nx pv xs rule: linked.induct) auto

lemma linked_append:
  "xs \<noteq> [] \<Longrightarrow> ys \<noteq> [] \<Longrightarrow>
     linked nx pv (xs @ ys) =
       (linked nx pv xs \<and> nx (last xs) = Some (hd ys) \<and> pv (hd ys) = Some (last xs) \<and> linked nx pv ys)"
  by (cases ys) (induction nx pv xs rule: linked.induct; auto)+

lemma linked_snoc:
  "xs \<noteq> [] \<Longrightarrow> linked nx pv (xs @ [y]) = (linked nx pv xs \<and> nx (last xs) = Some y \<and> pv y = Some (last xs))"
  by (simp add: linked_append)

text \<open>A list split where a node enters or leaves it.\<close>

lemma is_list_split:
  "is_list root h (xs @ ys) =
     (distinct (root # xs @ ys) \<and> linked (next_node h) (previous h) (root # xs) \<and>
      next_node h (last (root # xs)) = Some (hd (ys @ [root])) \<and>
      previous h (hd (ys @ [root])) = Some (last (root # xs)) \<and>
      linked (next_node h) (previous h) (ys @ [root]))"
  using linked_append [of "root # xs" "ys @ [root]"] by (auto simp: is_list_def)

lemma linked_Cons:
  "zs \<noteq> [] \<Longrightarrow> linked nx pv (a # zs) = (nx a = Some (hd zs) \<and> pv (hd zs) = Some a \<and> linked nx pv zs)"
  by (cases zs) auto

text \<open>Writing a node between p and e, as both insertions do.\<close>

lemma is_list_enter:
  assumes l: "is_list root h (xs @ ys)" and new: "this \<notin> set (root # xs @ ys)"
    and p: "p = last (root # xs)" and e: "e = hd (ys @ [root])"
    and nx: "next_node h' = (next_node h)(this \<mapsto> e, p \<mapsto> this)"
    and pv: "previous h' = (previous h)(this \<mapsto> p, e \<mapsto> this)"
  shows "is_list root h' (xs @ this # ys)"
proof -
  from l [unfolded is_list_split] have d: "distinct (root # xs @ ys)"
    and left: "linked (next_node h) (previous h) (root # xs)"
    and right: "linked (next_node h) (previous h) (ys @ [root])" by blast+
  have p_in: "p \<in> set (root # xs)" unfolding p by (rule last_in_set) simp
  have "p \<noteq> this" "p \<notin> set ys" using p_in new d by auto
  have "e \<noteq> this" "e \<notin> set xs" using new d by (cases ys; auto simp: e)+
  have "p \<notin> set (butlast (root # xs))"
    using d unfolding p by (metis append.assoc append_Cons append_butlast_last_id distinct_append
        list.distinct(1) not_distinct_conv_prefix append_Nil)
  moreover have "this \<notin> set (butlast (root # xs))" using new by (auto dest: in_set_butlastD)
  ultimately have 1: "linked (next_node h') (previous h') (root # xs)"
    using left \<open>e \<notin> set xs\<close> new unfolding nx pv by (simp add: linked_upd_next linked_upd_previous)
  have "e \<notin> set (tl (ys @ [root]))" using d by (cases ys) (auto simp: e)
  moreover have "this \<notin> set (tl (ys @ [root]))" using new by (cases ys) auto
  ultimately have 2: "linked (next_node h') (previous h') (ys @ [root])"
    using right \<open>p \<notin> set ys\<close> new unfolding nx pv by (simp add: linked_upd_next linked_upd_previous)
  have 3: "next_node h' p = Some this" "previous h' this = Some p" "next_node h' this = Some e" "previous h' e = Some this"
    using \<open>p \<noteq> this\<close> \<open>e \<noteq> this\<close> by (simp_all add: nx pv)
  have 4: "linked (next_node h') (previous h') (this # ys @ [root])"
    using 2 3 by (simp add: linked_Cons e)
  show ?thesis
    unfolding is_list_split [of root h' xs "this # ys"]
    using 1 3 4 d new by (auto simp: p)
qed

lemma InsertBefore_list:
  assumes l: "is_list root h (xs @ ys)" and new: "this \<notin> set (root # xs @ ys)" and dom: "this \<in> dom h"
  obtains h' where "InsertBefore this (hd (ys @ [root])) h = Some h'" "is_list root h' (xs @ this # ys)" "dom h' = dom h"
proof -
  let ?e = "hd (ys @ [root])" and ?p = "last (root # xs)"
  from l [unfolded is_list_split] have pv: "previous h ?e = Some ?p" and nx: "next_node h ?p = Some ?e" by blast+
  have "?e \<noteq> this" using new by (cases ys) auto
  obtain h1 where h1: "set_next this ?e h = Some h1" "dom h1 = dom h"
    "next_node h1 = (next_node h)(this \<mapsto> ?e)" "previous h1 = previous h"
    using dom by (rule set_nextE)
  have "this \<in> dom h1" using dom by (simp only: h1)
  then obtain h2 where h2: "set_previous this ?p h1 = Some h2" "dom h2 = dom h1"
    "next_node h2 = next_node h1" "previous h2 = (previous h1)(this \<mapsto> ?p)"
    by (rule set_previousE)
  have "?p \<in> dom h2" unfolding h2 h1 by (rule node_dom(1) [OF nx])
  then obtain h3 where h3: "set_next ?p this h2 = Some h3" "dom h3 = dom h2"
    "next_node h3 = (next_node h2)(?p \<mapsto> this)" "previous h3 = previous h2"
    by (rule set_nextE)
  have "?e \<in> dom h3" unfolding h3 h2 h1 by (rule node_dom(2) [OF pv])
  then obtain h4 where h4: "set_previous ?e this h3 = Some h4" "dom h4 = dom h3"
    "next_node h4 = next_node h3" "previous h4 = (previous h3)(?e \<mapsto> this)"
    by (rule set_previousE)
  show ?thesis
  proof (rule that)
    show "InsertBefore this ?e h = Some h4"
      using pv \<open>?e \<noteq> this\<close> by (simp add: InsertBefore_def h1 h2 h3 h4 del: last.simps)
    show "dom h4 = dom h" by (simp only: h1 h2 h3 h4)
    show "is_list root h4 (xs @ this # ys)"
      by (rule is_list_enter [OF l new refl refl]) (simp_all add: h1 h2 h3 h4)
  qed
qed

lemma InsertAfter_list:
  assumes l: "is_list root h (xs @ ys)" and new: "this \<notin> set (root # xs @ ys)" and dom: "this \<in> dom h"
  obtains h' where "InsertAfter this (last (root # xs)) h = Some h'" "is_list root h' (xs @ this # ys)" "dom h' = dom h"
proof -
  let ?e = "hd (ys @ [root])" and ?p = "last (root # xs)"
  from l [unfolded is_list_split] have pv: "previous h ?e = Some ?p" and nx: "next_node h ?p = Some ?e" by blast+
  have "?p \<noteq> this" using new by (metis last_in_set list.distinct(1) append_Cons UnCI set_append)
  obtain h1 where h1: "set_next this ?e h = Some h1" "dom h1 = dom h"
    "next_node h1 = (next_node h)(this \<mapsto> ?e)" "previous h1 = previous h"
    using dom by (rule set_nextE)
  have "this \<in> dom h1" using dom by (simp only: h1)
  then obtain h2 where h2: "set_previous this ?p h1 = Some h2" "dom h2 = dom h1"
    "next_node h2 = next_node h1" "previous h2 = (previous h1)(this \<mapsto> ?p)"
    by (rule set_previousE)
  have "?e \<in> dom h2" unfolding h2 h1 by (rule node_dom(2) [OF pv])
  then obtain h3 where h3: "set_previous ?e this h2 = Some h3" "dom h3 = dom h2"
    "next_node h3 = next_node h2" "previous h3 = (previous h2)(?e \<mapsto> this)"
    by (rule set_previousE)
  have "?p \<in> dom h3" unfolding h3 h2 h1 by (rule node_dom(1) [OF nx])
  then obtain h4 where h4: "set_next ?p this h3 = Some h4" "dom h4 = dom h3"
    "next_node h4 = (next_node h3)(?p \<mapsto> this)" "previous h4 = previous h3"
    by (rule set_nextE)
  show ?thesis
  proof (rule that)
    show "InsertAfter this ?p h = Some h4"
      using nx \<open>?p \<noteq> this\<close> by (simp add: InsertAfter_def h1 h2 h3 h4 del: last.simps)
    show "dom h4 = dom h" by (simp only: h1 h2 h3 h4)
    show "is_list root h4 (xs @ this # ys)"
      by (rule is_list_enter [OF l new refl refl]) (simp_all add: h1 h2 h3 h4)
  qed
qed

lemma RemoveFromList_list:
  assumes l: "is_list root h (xs @ this # ys)"
  obtains h' where "RemoveFromList this h = Some h'" "is_list root h' (xs @ ys)" "dom h' = dom h"
proof -
  let ?e = "hd (ys @ [root])" and ?p = "last (root # xs)"
  from l [unfolded is_list_split] have d: "distinct (root # xs @ this # ys)"
    and left: "linked (next_node h) (previous h) (root # xs)"
    and p: "next_node h ?p = Some this" "previous h this = Some ?p"
    and right: "linked (next_node h) (previous h) (this # ys @ [root])" by simp_all
  from right have n: "next_node h this = Some ?e" "previous h ?e = Some this"
    and rest: "linked (next_node h) (previous h) (ys @ [root])" by (simp_all add: linked_Cons)
  have p_in: "?p \<in> set (root # xs)" by (rule last_in_set) simp
  then have np: "?p \<noteq> this" "?p \<notin> set ys" using d by auto
  have ne: "?e \<noteq> this" "?e \<notin> set xs" using d by (cases ys; auto)+
  obtain h1 where h1: "set_next ?p ?e h = Some h1" "dom h1 = dom h"
    "next_node h1 = (next_node h)(?p \<mapsto> ?e)" "previous h1 = previous h"
    using node_dom(1) [OF p(1)] by (rule set_nextE)
  have "?e \<in> dom h1" unfolding h1 by (rule node_dom(2) [OF n(2)])
  then obtain h2 where h2: "set_previous ?e ?p h1 = Some h2" "dom h2 = dom h1"
    "next_node h2 = next_node h1" "previous h2 = (previous h1)(?e \<mapsto> ?p)"
    by (rule set_previousE)
  have v: "next_node h2 = (next_node h)(?p \<mapsto> ?e)" "previous h2 = (previous h)(?e \<mapsto> ?p)"
    by (simp_all add: h1 h2)
  have "?p \<notin> set (butlast (root # xs))"
    using d by (metis append.assoc append_Cons append_butlast_last_id distinct_append
        list.distinct(1) not_distinct_conv_prefix append_Nil)
  then have 1: "linked (next_node h2) (previous h2) (root # xs)"
    using left ne unfolding v by (simp add: linked_upd_next linked_upd_previous)
  have "?e \<notin> set (tl (ys @ [root]))" using d by (cases ys) auto
  then have 2: "linked (next_node h2) (previous h2) (ys @ [root])"
    using rest np unfolding v by (simp add: linked_upd_next linked_upd_previous)
  show ?thesis
  proof (rule that)
    show "RemoveFromList this h = Some h2"
      using p n np by (simp add: RemoveFromList_def h1 h2 del: last.simps)
    show "dom h2 = dom h" by (simp only: h1 h2)
    show "is_list root h2 (xs @ ys)"
      unfolding is_list_split using 1 2 d by (auto simp: v)
  qed
qed

lemma walk_linked:
  "linked (next_node h) pv (xs @ [root]) \<Longrightarrow> root \<notin> set xs \<Longrightarrow> walk root h (hd (xs @ [root])) = Some xs"
proof (induction xs)
  case Nil
  then show ?case by (simp add: walk.simps)
next
  case (Cons a xs)
  then show ?case by (subst walk.simps) (auto simp: linked_Cons)
qed

lemma iterate_list: "is_list root h xs \<Longrightarrow> iterate root h = Some xs"
  using walk_linked [of h "previous h" xs root]
  by (auto simp: is_list_def iterate_def head_def linked_Cons)

lemma walk_back_linked:
  "linked nx (previous h) (root # xs) \<Longrightarrow> root \<notin> set xs \<Longrightarrow> walk_back root h (last (root # xs)) = Some (rev xs)"
proof (induction xs rule: rev_induct)
  case Nil
  then show ?case by (simp add: walk_back.simps)
next
  case (snoc a xs)
  then show ?case using linked_snoc [of "root # xs" nx "previous h" a] by (subst walk_back.simps) auto
qed

text \<open>The operations of a node implement insertion into and removal from a list, wherever the neighbour
  stands, and both loops of the header visit the list, forwards and backwards.\<close>

theorem list_operations_refine:
  assumes "is_list root h (xs @ ys)" and "this \<notin> set (root # xs @ ys)" and "this \<in> dom h"
  shows "\<exists>h1 h2 h3. InsertBefore this (hd (ys @ [root])) h = Some h1 \<and>
           InsertAfter this (last (root # xs)) h = Some h2 \<and>
           iterate root h1 = Some (xs @ this # ys) \<and> iterate root h2 = Some (xs @ this # ys) \<and>
           Option.bind (tail root h1) (walk_back root h1) = Some (rev (xs @ this # ys)) \<and>
           RemoveFromList this h1 = Some h3 \<and> iterate root h3 = Some (xs @ ys)"
proof -
  obtain h1 where h1: "InsertBefore this (hd (ys @ [root])) h = Some h1" "is_list root h1 (xs @ this # ys)"
    by (rule InsertBefore_list [OF assms])
  obtain h2 where h2: "InsertAfter this (last (root # xs)) h = Some h2" "is_list root h2 (xs @ this # ys)"
    by (rule InsertAfter_list [OF assms])
  obtain h3 where h3: "RemoveFromList this h1 = Some h3" "is_list root h3 (xs @ ys)"
    by (rule RemoveFromList_list [OF h1(2)])
  let ?zs = "xs @ this # ys"
  have "linked (next_node h1) (previous h1) (root # ?zs)" "previous h1 root = Some (last (root # ?zs))" "root \<notin> set ?zs"
    using h1(2) linked_snoc [of "root # ?zs" "next_node h1" "previous h1" root] by (simp_all add: is_list_def)
  then have "Option.bind (tail root h1) (walk_back root h1) = Some (rev ?zs)"
    using walk_back_linked [of "next_node h1" h1 root ?zs] by (simp add: tail_def del: last.simps)
  then show ?thesis
    by (intro exI [of _ h1] exI [of _ h2] exI [of _ h3])
      (simp add: h1(1) h2(1) h3(1) iterate_list [OF h1(2)] iterate_list [OF h2(2)] iterate_list [OF h3(2)] del: last.simps)
qed

theorem list_operations_refine_witness:
  "\<exists>h h1. Option.bind (Append 9 2 (new_LinkNode 2 (new_LinkedList 9 (\<lambda>_. None)))) (\<lambda>h. Some (new_LinkNode 4 h)) = Some h \<and>
     InsertBefore 4 2 h = Some h1 \<and> iterate 9 h1 = Some [4, 2]"
proof -
  let ?h = "(\<lambda>_. None)(9 \<mapsto> \<lparr>n_previous = 2, n_next = 2\<rparr>, 2 \<mapsto> \<lparr>n_previous = 9, n_next = 9\<rparr>, 4 \<mapsto> \<lparr>n_previous = 0, n_next = 0\<rparr>)"
  have h: "Option.bind (Append 9 2 (new_LinkNode 2 (new_LinkedList 9 (\<lambda>_. None)))) (\<lambda>h. Some (new_LinkNode 4 h)) = Some ?h"
    by (auto simp: Append_def InsertBefore_def new_LinkNode_def new_LinkedList_def set_next_def set_previous_def
        previous_def fun_eq_iff)
  have "is_list 9 ?h ([] @ [2])" by (simp add: is_list_def next_node_def previous_def)
  from list_operations_refine [OF this, of 4] h show ?thesis by auto
qed

section \<open>Live objects\<close>

datatype 'trace life = Construct nat 'trace | Destruct nat

text \<open>The objects alive after a sequence of constructions and destructions, oldest first; a sequence
  is valid if no live object is constructed again and only live objects are destroyed.\<close>

fun live :: "'t life list \<Rightarrow> (nat \<times> 't) list \<Rightarrow> (nat \<times> 't) list" where
  "live [] xs = xs"
| "live (Construct a t # ops) xs = live ops (xs @ [(a, t)])"
| "live (Destruct a # ops) xs = live ops (filter (\<lambda>x. fst x \<noteq> a) xs)"

fun valid_life :: "nat \<Rightarrow> 't life list \<Rightarrow> nat set \<Rightarrow> bool" where
  "valid_life root [] as = True"
| "valid_life root (Construct a t # ops) as = (a \<noteq> root \<and> a \<notin> as \<and> valid_life root ops (insert a as))"
| "valid_life root (Destruct a # ops) as = (a \<in> as \<and> valid_life root ops (as - {a}))"

fun run_life ::
  "(nat \<Rightarrow> 't \<Rightarrow> 's \<Rightarrow> 's option) \<Rightarrow> (nat \<Rightarrow> 's \<Rightarrow> 's option) \<Rightarrow> 't life list \<Rightarrow> 's \<Rightarrow> 's option" where
  "run_life add del [] s = Some s"
| "run_life add del (Construct a t # ops) s = Option.bind (add a t s) (run_life add del ops)"
| "run_life add del (Destruct a # ops) s = Option.bind (del a s) (run_life add del ops)"

text \<open>What the leak tracker promises its clients: a representation of the list of live objects.\<close>

locale live_objects =
  fixes root :: nat
    and rep :: "'s \<Rightarrow> (nat \<times> 't) list \<Rightarrow> bool"
    and add :: "nat \<Rightarrow> 't \<Rightarrow> 's \<Rightarrow> 's option"
    and del :: "nat \<Rightarrow> 's \<Rightarrow> 's option"
  assumes add_rep: "rep s xs \<Longrightarrow> a \<noteq> root \<Longrightarrow> a \<notin> fst ` set xs \<Longrightarrow> \<exists>s'. add a t s = Some s' \<and> rep s' (xs @ [(a, t)])"
    and del_rep: "rep s xs \<Longrightarrow> a \<in> fst ` set xs \<Longrightarrow> \<exists>s'. del a s = Some s' \<and> rep s' (filter (\<lambda>x. fst x \<noteq> a) xs)"
begin

lemma run_rep:
  "rep s xs \<Longrightarrow> valid_life root ops (fst ` set xs) \<Longrightarrow> \<exists>s'. run_life add del ops s = Some s' \<and> rep s' (live ops xs)"
proof (induction ops arbitrary: s xs)
  case (Cons op ops)
  show ?case
  proof (cases op)
    case (Construct a t)
    with Cons.prems obtain s' where s': "add a t s = Some s'" "rep s' (xs @ [(a, t)])"
      using add_rep by fastforce
    have "valid_life root ops (fst ` set (xs @ [(a, t)]))" using Cons.prems Construct by simp
    with Cons.IH [OF s'(2)] s' Construct show ?thesis by simp
  next
    case (Destruct a)
    with Cons.prems obtain s' where s': "del a s = Some s'" "rep s' (filter (\<lambda>x. fst x \<noteq> a) xs)"
      using del_rep by fastforce
    have "fst ` set (filter (\<lambda>x. fst x \<noteq> a) xs) = fst ` set xs - {a}" by auto
    with Cons.IH [OF s'(2)] s' Cons.prems Destruct show ?thesis by simp
  qed
qed simp

end

definition tracks :: "nat \<Rightarrow> 't tracker \<Rightarrow> (nat \<times> 't) list \<Rightarrow> bool" where
  "tracks root s xs =
     (is_list root (lt_heap s) (map fst xs) \<and> dom (lt_heap s) = insert root (fst ` set xs) \<and>
      (\<forall>(a, t)\<in>set xs. lt_stacks s a = Some t))"

lemma linked_cong:
  "(\<And>a. a \<in> set xs \<Longrightarrow> nx' a = nx a \<and> pv' a = pv a) \<Longrightarrow> linked nx' pv' xs = linked nx pv xs"
  by (induction nx pv xs rule: linked.induct) auto

lemma is_list_frame:
  assumes "is_list root h xs" and "\<And>a. a \<in> set (root # xs) \<Longrightarrow> h' a = h a"
  shows "is_list root h' xs"
proof -
  have "linked (next_node h') (previous h') (root # xs @ [root]) =
        linked (next_node h) (previous h) (root # xs @ [root])"
    using assms(2) by (intro linked_cong) (auto simp: next_node_def previous_def)
  with assms(1) show ?thesis by (simp add: is_list_def)
qed

lemma new_LeakTracker_tracks:
  assumes t: "tracks root s xs" and a: "a \<noteq> root" "a \<notin> fst ` set xs"
  shows "\<exists>s'. new_LeakTracker root a tr s = Some s' \<and> tracks root s' (xs @ [(a, tr)])"
proof -
  let ?h = "new_LinkNode a (lt_heap s)"
  have l: "is_list root ?h (map fst xs @ [])"
  proof -
    have "is_list root (lt_heap s) (map fst xs)" using t by (simp add: tracks_def)
    then have "is_list root ?h (map fst xs)"
      by (rule is_list_frame) (use a in \<open>auto simp: new_LinkNode_def\<close>)
    then show ?thesis by simp
  qed
  obtain h' where h': "InsertBefore a (hd ([] @ [root])) ?h = Some h'" "is_list root h' (map fst xs @ [a])"
    "dom h' = dom ?h"
  proof -
    have new: "a \<notin> set (root # map fst xs @ [])" and dm: "a \<in> dom ?h" using a by (auto simp: new_LinkNode_def)
    from that show ?thesis using InsertBefore_list [OF l new dm] by auto
  qed
  then have "new_LeakTracker root a tr s = Some (s\<lparr>lt_heap := h', lt_stacks := (lt_stacks s)(a \<mapsto> tr)\<rparr>)"
    by (simp add: new_LeakTracker_def Append_def)
  moreover have "tracks root (s\<lparr>lt_heap := h', lt_stacks := (lt_stacks s)(a \<mapsto> tr)\<rparr>) (xs @ [(a, tr)])"
  proof -
    have "dom h' = insert root (fst ` set (xs @ [(a, tr)]))"
      using t h'(3) by (auto simp: tracks_def new_LinkNode_def)
    moreover have "\<forall>x\<in>set xs. fst x \<noteq> a \<and> lt_stacks s (fst x) = Some (snd x)"
      using t a by (auto simp: tracks_def)
    ultimately show ?thesis using h'(2) by (simp add: tracks_def case_prod_unfold)
  qed
  ultimately show ?thesis by blast
qed

lemma delete_LeakTracker_tracks:
  assumes t: "tracks root s xs" and a: "a \<in> fst ` set xs"
  shows "\<exists>s'. delete_LeakTracker root a s = Some s' \<and> tracks root s' (filter (\<lambda>x. fst x \<noteq> a) xs)"
proof -
  from a obtain tr where "(a, tr) \<in> set xs" by auto
  then obtain ys zs where xs: "xs = ys @ (a, tr) # zs" by (meson split_list)
  from t have l: "is_list root (lt_heap s) (map fst ys @ a # map fst zs)" by (simp add: tracks_def xs)
  then have d: "distinct (root # map fst ys @ a # map fst zs)" unfolding is_list_def by blast
  obtain h' where h': "RemoveFromList a (lt_heap s) = Some h'" "is_list root h' (map fst ys @ map fst zs)"
    "dom h' = dom (lt_heap s)"
    using RemoveFromList_list [OF l] by blast
  have "filter (\<lambda>x. fst x \<noteq> a) ys = ys" "filter (\<lambda>x. fst x \<noteq> a) zs = zs"
    using d by (auto simp: filter_id_conv)
  then have f: "filter (\<lambda>x. fst x \<noteq> a) xs = ys @ zs" by (simp add: xs)
  have "is_list root (h'(a := None)) (map fst ys @ map fst zs)"
    by (rule is_list_frame [OF h'(2)]) (use d in auto)
  moreover have "dom (h'(a := None)) = insert root (fst ` set (ys @ zs))"
  proof -
    have "dom h' = insert root (fst ` set (ys @ (a, tr) # zs))" using t h'(3) by (simp add: tracks_def xs)
    moreover have "a \<noteq> root" "a \<notin> fst ` set ys" "a \<notin> fst ` set zs" using d by auto
    ultimately show ?thesis by (simp add: insert_Diff_if image_Un Un_Diff)
  qed
  moreover have "\<forall>x\<in>set (ys @ zs). lt_stacks s (fst x) = Some (snd x) \<and> fst x \<noteq> a"
    using t d by (auto simp: tracks_def xs)
  ultimately have "tracks root (s\<lparr>lt_heap := h'(a := None), lt_stacks := (lt_stacks s)(a := None)\<rparr>) (ys @ zs)"
    by (simp add: tracks_def case_prod_unfold)
  then show ?thesis by (simp add: delete_LeakTracker_def h'(1) f)
qed

interpretation chromium_tracker: live_objects root "tracks root" "new_LeakTracker root" "delete_LeakTracker root"
  by unfold_locales (simp_all add: new_LeakTracker_tracks delete_LeakTracker_tracks)

lemma tracks_check:
  assumes "tracks root s xs"
  shows "CheckForLeaks root s = Some (xs, take 3 (map snd xs), xs = [])"
    and "NumLiveInstances root s = Some (length xs)"
proof -
  have it: "iterate root (lt_heap s) = Some (map fst xs)"
    using assms by (simp add: tracks_def iterate_list)
  have stacks: "lt_stacks s (fst x) = Some (snd x)" if "x \<in> set xs" for x
    using assms that by (auto simp: tracks_def)
  then have "map (\<lambda>x. (fst x, the (lt_stacks s (fst x)))) xs = xs" by (simp add: map_idI)
  moreover from this have "map (\<lambda>x. the (lt_stacks s (fst x))) xs = map snd xs" by (simp add: stacks)
  ultimately show "CheckForLeaks root s = Some (xs, take 3 (map snd xs), xs = [])"
    by (simp add: CheckForLeaks_def it Let_def kMaxStackTracesToCopyOntoStack_def list_all_iff
        case_prod_unfold o_def stacks)
  show "NumLiveInstances root s = Some (length xs)" by (simp add: NumLiveInstances_def it)
qed

definition empty_tracker :: "nat \<Rightarrow> 't tracker" where
  "empty_tracker root = \<lparr>lt_heap = new_LinkedList root (\<lambda>_. None), lt_stacks = (\<lambda>_. None)\<rparr>"

lemma empty_tracks: "tracks root (empty_tracker root) []"
  by (simp add: tracks_def empty_tracker_def new_LinkedList_def is_list_def next_node_def previous_def)



end
