(* ===== verification/Singleton.thy ===== *)
theory Singleton
  imports Prelude
begin

text \<open>
  src/chromium/memory/singleton.hh and singleton.cc: the lazily created instance that several
  threads race for with one atomic word, which is also the spin lock of its creation. A thread is a
  program counter; every access to the word is one step, and a schedule says which
  thread takes the next step (the atomic operations are sequentially consistent).
\<close>

section \<open>The word and the threads\<close>

definition kBeingCreatedMarker :: nat where
  "kBeingCreatedMarker = 1"

text \<open>Traits: what New returns for the state of the allocator, and the new state.\<close>

type_synonym 'd traits = "'d \<Rightarrow> nat \<times> 'd"

text \<open>operator new of DefaultSingletonTraits: the addresses it will return are a parameter.\<close>

definition DefaultSingletonTraits :: "(nat \<Rightarrow> nat) \<Rightarrow> nat traits" where
  "DefaultSingletonTraits address n = (address n, Suc n)"

text \<open>StaticMemorySingletonTraits: the flag dead_ and the address of the static buffer.\<close>

definition StaticMemorySingletonTraits :: "nat \<Rightarrow> bool traits" where
  "StaticMemorySingletonTraits buf dead = (if dead then (0, True) else (buf, True))"

text \<open>Where a thread is in get (): before the first load, before the compare-and-swap, before New,
  before the store, in the loop of WaitForInstance, returned.\<close>

datatype pc = AtLoad | AtCas | AtNew | AtStore nat | AtWait | Returned nat

record 'd singleton =
  s_instance :: nat
  s_traits :: 'd
  s_created :: "nat list"
  s_pc :: "nat \<Rightarrow> pc"

definition jump :: "nat \<Rightarrow> pc \<Rightarrow> 'd singleton \<Rightarrow> 'd singleton" where
  "jump t p s = s\<lparr>s_pc := (s_pc s)(t := p)\<rparr>"

definition WaitForInstance_step :: "nat \<Rightarrow> 'd singleton \<Rightarrow> 'd singleton" where
  "WaitForInstance_step t s =
     (if s_instance s \<noteq> kBeingCreatedMarker then jump t (Returned (s_instance s)) s else s)"

definition get_step :: "'d traits \<Rightarrow> nat \<Rightarrow> 'd singleton \<Rightarrow> 'd singleton" where
  "get_step New t s =
     (case s_pc s t of
        AtLoad \<Rightarrow>
          (if s_instance s \<noteq> 0 \<and> s_instance s \<noteq> kBeingCreatedMarker then jump t (Returned (s_instance s)) s
           else jump t AtCas s)
      | AtCas \<Rightarrow>
          (if s_instance s = 0 then jump t AtNew (s\<lparr>s_instance := kBeingCreatedMarker\<rparr>) else jump t AtWait s)
      | AtNew \<Rightarrow>
          (case New (s_traits s) of
             (newval, d) \<Rightarrow>
               jump t (AtStore newval)
                 (s\<lparr>s_traits := d, s_created := (if newval = 0 then s_created s else s_created s @ [newval])\<rparr>))
      | AtStore newval \<Rightarrow> jump t (Returned newval) (s\<lparr>s_instance := newval\<rparr>)
      | AtWait \<Rightarrow> WaitForInstance_step t s
      | Returned v \<Rightarrow> s)"

fun run_schedule :: "'d traits \<Rightarrow> nat list \<Rightarrow> 'd singleton \<Rightarrow> 'd singleton" where
  "run_schedule New [] s = s"
| "run_schedule New (t # ts) s = run_schedule New ts (get_step New t s)"

definition new_singleton :: "'d \<Rightarrow> 'd singleton" where
  "new_singleton d = \<lparr>s_instance = 0, s_traits = d, s_created = [], s_pc = (\<lambda>_. AtLoad)\<rparr>"

text \<open>OnExit, which runs alone, and Resurrect of the static traits; the threads start over.\<close>

definition OnExit :: "('d \<Rightarrow> 'd) \<Rightarrow> 'd singleton \<Rightarrow> 'd singleton" where
  "OnExit Delete s = s\<lparr>s_instance := 0, s_traits := Delete (s_traits s), s_pc := (\<lambda>_. AtLoad)\<rparr>"

definition StaticMemory_Delete :: "bool \<Rightarrow> bool" where
  "StaticMemory_Delete dead = True"

definition Resurrect :: "bool singleton \<Rightarrow> bool singleton" where
  "Resurrect s = s\<lparr>s_traits := False\<rparr>"

section \<open>One instance\<close>

text \<open>The thread that has won the compare-and-swap and not yet stored the pointer, and the invariant, which
  ties the word to the phase of the race.\<close>

definition creator :: "'d singleton \<Rightarrow> nat \<Rightarrow> bool" where
  "creator s w =
     ((case s_pc s w of
         AtNew \<Rightarrow> s_created s = []
       | AtStore p \<Rightarrow> s_created s = [p] \<and> p \<noteq> 0 \<and> p \<noteq> kBeingCreatedMarker
       | _ \<Rightarrow> False) \<and>
      (\<forall>t. t \<noteq> w \<longrightarrow> s_pc s t \<in> {AtLoad, AtCas, AtWait}))"

definition race_inv :: "'d singleton \<Rightarrow> bool" where
  "race_inv s =
     (if s_instance s = 0 then s_created s = [] \<and> (\<forall>t. s_pc s t \<in> {AtLoad, AtCas})
      else if s_instance s = kBeingCreatedMarker then (\<exists>w. creator s w)
      else s_created s = [s_instance s] \<and>
        (\<forall>t. s_pc s t \<in> {AtLoad, AtCas, AtWait, Returned (s_instance s)}))"

lemma jump_same: "s_pc s t = c \<Longrightarrow> jump t c s = s"
  by (cases s) (simp add: jump_def fun_upd_idem)

lemma get_step_while_created:
  assumes "s_instance s = kBeingCreatedMarker" and "s_pc s t \<in> {AtLoad, AtCas, AtWait}"
  obtains c where "get_step New t s = jump t c s" "c \<in> {AtCas, AtWait}"
proof -
  have "s_pc s t = AtWait \<Longrightarrow> get_step New t s = jump t AtWait s"
    using assms(1) by (simp add: get_step_def WaitForInstance_step_def jump_same)
  with assms that [of AtCas] that [of AtWait] show ?thesis
    by (auto simp: get_step_def kBeingCreatedMarker_def)
qed

lemma get_step_after_creation:
  assumes "s_instance s \<noteq> 0" "s_instance s \<noteq> kBeingCreatedMarker"
    and "s_pc s t \<in> {AtLoad, AtCas, AtWait, Returned (s_instance s)}"
  obtains c where "get_step New t s = jump t c s" "c \<in> {AtWait, Returned (s_instance s)}"
proof -
  have "s_pc s t = Returned (s_instance s) \<Longrightarrow> get_step New t s = jump t (Returned (s_instance s)) s"
    by (simp add: get_step_def jump_same)
  with assms that [of AtWait] that [of "Returned (s_instance s)"] show ?thesis
    by (auto simp: get_step_def WaitForInstance_step_def)
qed

locale valid_traits =
  fixes New :: "'d traits"
  assumes New_pointer: "New d = (p, d') \<Longrightarrow> p \<noteq> 0 \<and> p \<noteq> kBeingCreatedMarker"
begin

lemma get_step_inv:
  assumes inv: "race_inv s"
  shows "race_inv (get_step New t s)"
proof -
  obtain p d where new: "New (s_traits s) = (p, d)" by (cases "New (s_traits s)")
  note p = New_pointer [OF new]
  consider "s_instance s = 0" | "s_instance s = kBeingCreatedMarker" | "s_instance s \<noteq> 0" "s_instance s \<noteq> kBeingCreatedMarker"
    by blast
  then show ?thesis
  proof cases
    case 1
    then have idle: "s_created s = []" "\<forall>t. s_pc s t \<in> {AtLoad, AtCas}"
      using inv by (simp_all add: race_inv_def)
    then consider "s_pc s t = AtLoad" | "s_pc s t = AtCas" by blast
    then show ?thesis
    proof cases
      case 1
      with idle \<open>s_instance s = 0\<close> show ?thesis by (auto simp: get_step_def race_inv_def jump_def)
    next
      case 2
      with idle \<open>s_instance s = 0\<close> have "creator (get_step New t s) t"
        "s_instance (get_step New t s) = kBeingCreatedMarker"
        by (auto simp: get_step_def creator_def jump_def)
      then show ?thesis by (auto simp: race_inv_def kBeingCreatedMarker_def)
    qed
  next
    case 2
    with inv obtain w where w: "creator s w" by (auto simp: race_inv_def kBeingCreatedMarker_def)
    show ?thesis
    proof (cases "t = w")
      case True
      have others: "\<And>t. t \<noteq> w \<Longrightarrow> s_pc s t \<in> {AtLoad, AtCas, AtWait}" using w by (simp add: creator_def)
      from w consider "s_pc s w = AtNew" "s_created s = []"
        | q where "s_pc s w = AtStore q" "s_created s = [q]" "q \<noteq> 0" "q \<noteq> kBeingCreatedMarker"
        by (auto simp: creator_def split: pc.splits)
      then show ?thesis
      proof cases
        case 1
        then have "creator (get_step New t s) w" "s_instance (get_step New t s) = kBeingCreatedMarker"
          using True p others 2 by (auto simp: get_step_def creator_def jump_def new)
        then show ?thesis by (auto simp: race_inv_def kBeingCreatedMarker_def)
      next
        case 2
        then show ?thesis using True others by (auto simp: get_step_def race_inv_def jump_def)
      qed
    next
      case False
      then have "s_pc s t \<in> {AtLoad, AtCas, AtWait}" using w by (simp add: creator_def)
      with 2 obtain c where c: "get_step New t s = jump t c s" "c \<in> {AtCas, AtWait}"
        by (rule get_step_while_created)
      then have "creator (get_step New t s) w" "s_instance (get_step New t s) = kBeingCreatedMarker"
        using w False 2 by (cases "s_pc s w"; auto simp: creator_def jump_def)+
      then show ?thesis by (auto simp: race_inv_def kBeingCreatedMarker_def)
    qed
  next
    case 3
    then have one: "s_created s = [s_instance s]" "\<And>t. s_pc s t \<in> {AtLoad, AtCas, AtWait, Returned (s_instance s)}"
      using inv by (simp_all add: race_inv_def)
    obtain c where c: "get_step New t s = jump t c s" "c \<in> {AtWait, Returned (s_instance s)}"
      by (rule get_step_after_creation [OF 3 one(2)])
    then show ?thesis
      unfolding c(1) race_inv_def using one 3 by (auto simp: jump_def)
  qed
qed

lemma run_inv: "race_inv s \<Longrightarrow> race_inv (run_schedule New ts s)"
  by (induction ts arbitrary: s) (simp_all add: get_step_inv)

lemma one_instance:
  assumes "race_inv s"
  shows "length (s_created s) \<le> 1 \<and> (\<forall>t v. s_pc s t = Returned v \<longrightarrow> s_created s = [v] \<and> v \<noteq> 0)"
proof -
  have pc: "s_pc s t \<noteq> Returned v" and len: "length (s_created s) \<le> 1" if "creator s w" for t v w
    using that by (cases "t = w"; cases "s_pc s w"; auto simp: creator_def)+
  consider "s_instance s = 0" | w where "creator s w" | "s_instance s \<noteq> 0" "s_created s = [s_instance s]"
    "\<And>t. s_pc s t \<in> {AtLoad, AtCas, AtWait, Returned (s_instance s)}"
    using assms by (auto simp: race_inv_def split: if_splits)
  then show ?thesis
  proof cases
    case 1
    then have "s_created s = []" "\<And>t. s_pc s t \<in> {AtLoad, AtCas}" using assms by (simp_all add: race_inv_def)
    then have "s_pc s t \<noteq> Returned v" for t v by (metis empty_iff insert_iff pc.distinct)
    with \<open>s_created s = []\<close> show ?thesis by simp
  next
    case 2
    with pc len show ?thesis by simp
  next
    case 3
    then have "v = s_instance s" if "s_pc s t = Returned v" for t v using that by (metis empty_iff insert_iff pc.distinct pc.inject)
    with 3 show ?thesis by auto
  qed
qed

end

section \<open>Every thread gets it\<close>

fun rank :: "pc \<Rightarrow> nat" where
  "rank AtLoad = 0"
| "rank AtCas = 1"
| "rank AtNew = 2"
| "rank (AtStore _) = 3"
| "rank AtWait = 4"
| "rank (Returned _) = 5"

lemma other_pc: "u \<noteq> t \<Longrightarrow> s_pc (get_step New t s) u = s_pc s u"
  by (auto simp: get_step_def WaitForInstance_step_def jump_def split: pc.splits prod.splits)

lemma rank_mono: "rank (s_pc s u) \<le> rank (s_pc (get_step New t s) u)"
proof (cases "u = t")
  case True
  then show ?thesis
    by (cases "s_pc s t") (auto simp: get_step_def WaitForInstance_step_def jump_def split: prod.splits)
qed (simp add: other_pc)

lemma rank_up: "rank (s_pc s t) < 4 \<Longrightarrow> rank (s_pc s t) < rank (s_pc (get_step New t s) t)"
  by (cases "s_pc s t") (auto simp: get_step_def jump_def split: prod.splits)

lemma rank_5: "rank c = 5 \<longleftrightarrow> (\<exists>v. c = Returned v)"
  by (cases c) auto

text \<open>All of the first n threads have come as far as k, and nobody else takes part.\<close>

definition advanced :: "nat \<Rightarrow> nat \<Rightarrow> 'd singleton \<Rightarrow> bool" where
  "advanced n k s = (race_inv s \<and> (\<forall>t<n. k \<le> rank (s_pc s t)) \<and> (\<forall>t\<ge>n. s_pc s t = AtLoad))"

context valid_traits
begin

lemma advanced_step: "advanced n k s \<Longrightarrow> t < n \<Longrightarrow> advanced n k (get_step New t s)"
  by (auto simp: advanced_def get_step_inv other_pc intro: order_trans [OF _ rank_mono])

lemma created_when_waiting:
  assumes "advanced n 4 s" and "0 < n"
  shows "s_instance s \<noteq> 0" and "s_instance s \<noteq> kBeingCreatedMarker"
proof -
  have r: "4 \<le> rank (s_pc s t) \<or> s_pc s t = AtLoad" for t
    using assms(1) by (cases "t < n") (auto simp: advanced_def)
  have "4 \<le> rank (s_pc s 0)" using assms by (simp add: advanced_def)
  then have "s_pc s 0 \<notin> {AtLoad, AtCas}" by auto
  then show "s_instance s \<noteq> 0"
    using assms(1) unfolding advanced_def race_inv_def by (auto split: if_splits)
  have "\<not> creator s w" for w
    using r [of w] by (cases "s_pc s w") (auto simp: creator_def)
  then show "s_instance s \<noteq> kBeingCreatedMarker"
    using assms(1) by (auto simp: advanced_def race_inv_def kBeingCreatedMarker_def)
qed

lemma advance:
  assumes "advanced n k s" and "t < n" and "k < 5"
  shows "Suc k \<le> rank (s_pc (get_step New t s) t)"
proof -
  have k: "k \<le> rank (s_pc s t)" using assms by (simp add: advanced_def)
  consider "rank (s_pc s t) < 4" | "s_pc s t = AtWait" | v where "s_pc s t = Returned v"
    by (cases "s_pc s t") auto
  then show ?thesis
  proof cases
    case 1
    from rank_up [OF this, of New] k show ?thesis by simp
  next
    case 2
    show ?thesis
    proof (cases "k = 4")
      case True
      with created_when_waiting [of n s] assms 2 show ?thesis
        by (simp add: get_step_def WaitForInstance_step_def jump_def)
    next
      case False
      with assms(3) have "Suc k \<le> rank (s_pc s t)" using 2 by simp
      with rank_mono [of s t New t] show ?thesis by simp
    qed
  next
    case 3
    with rank_mono [of s t New t] assms(3) show ?thesis by simp
  qed
qed

lemma round_advances:
  assumes "advanced n k s" and "k < 5" and "set ts \<subseteq> {..<n}"
  shows "advanced n k (run_schedule New ts s) \<and> (\<forall>t\<in>set ts. Suc k \<le> rank (s_pc (run_schedule New ts s) t))"
  using assms(1,3)
proof (induction ts arbitrary: s)
  case (Cons t ts)
  let ?s = "get_step New t s"
  have t: "t < n" using Cons.prems(2) by simp
  from advanced_step [OF Cons.prems(1) t] Cons have IH: "advanced n k (run_schedule New ts ?s)"
    "\<forall>t\<in>set ts. Suc k \<le> rank (s_pc (run_schedule New ts ?s) t)" by auto
  have mono: "rank (s_pc s' t) \<le> rank (s_pc (run_schedule New ts s') t)" for s'
    by (induction ts arbitrary: s') (auto intro: order_trans [OF rank_mono])
  from advance [OF Cons.prems(1) t assms(2)] mono [of ?s] IH show ?case by auto
qed simp

lemma rounds_advance:
  assumes "advanced n k s" and "\<forall>ts\<in>set rounds. set ts = {..<n}" and "k + length rounds \<le> 5"
  shows "advanced n (k + length rounds) (run_schedule New (concat rounds) s)"
  using assms
proof (induction rounds arbitrary: k s)
  case (Cons ts rounds)
  have app: "run_schedule New (xs @ ys) s' = run_schedule New ys (run_schedule New xs s')" for xs ys s'
    by (induction xs arbitrary: s') simp_all
  have "advanced n (Suc k) (run_schedule New ts s)"
    using round_advances [OF Cons.prems(1), of ts] Cons.prems(2,3) by (auto simp: advanced_def)
  from Cons.IH [OF this] Cons.prems(2,3) show ?case by (simp add: app)
qed simp

lemma new_advanced: "advanced n 0 (new_singleton d)"
  by (simp add: advanced_def new_singleton_def race_inv_def)

lemma get_returns:
  assumes "0 < n" and "length rounds = 5" and "\<forall>ts\<in>set rounds. set ts = {..<n}"
  shows "\<exists>p. p \<noteq> 0 \<and> s_created (run_schedule New (concat rounds) (new_singleton d)) = [p] \<and>
           (\<forall>t<n. s_pc (run_schedule New (concat rounds) (new_singleton d)) t = Returned p)"
proof -
  let ?s = "run_schedule New (concat rounds) (new_singleton d)"
  have a: "advanced n 5 ?s" using rounds_advance [OF new_advanced assms(3)] assms(2) by simp
  then have "\<exists>v. s_pc ?s t = Returned v" if "t < n" for t
  proof -
    have "5 \<le> rank (s_pc ?s t)" using a that by (simp add: advanced_def)
    then show ?thesis by (cases "s_pc ?s t") auto
  qed
  moreover have "\<forall>t v. s_pc ?s t = Returned v \<longrightarrow> s_created ?s = [v] \<and> v \<noteq> 0"
    using one_instance [of ?s] a by (simp add: advanced_def)
  ultimately show ?thesis using assms(1) by (metis list.inject)
qed

end

section \<open>The two traits\<close>

text \<open>What the code relies on: operator new returns a pointer that is not null and not odd.\<close>

definition aligned :: "(nat \<Rightarrow> nat) \<Rightarrow> bool" where
  "aligned address = (\<forall>n. address n \<noteq> 0 \<and> even (address n))"

locale allocator =
  fixes address :: "nat \<Rightarrow> nat"
  assumes pointers: "aligned address"

sublocale allocator \<subseteq> default: valid_traits "DefaultSingletonTraits address"
proof
  fix d p d' assume "DefaultSingletonTraits address d = (p, d')"
  then have "p = address d" by (simp add: DefaultSingletonTraits_def)
  then have "p \<noteq> 0" "even p" using pointers by (simp_all add: aligned_def)
  then show "p \<noteq> 0 \<and> p \<noteq> kBeingCreatedMarker" by (auto simp: kBeingCreatedMarker_def)
qed

context allocator
begin

lemma one_object:
  "length (s_created (run_schedule (DefaultSingletonTraits address) schedule (new_singleton d))) \<le> 1 \<and>
   (\<forall>t v. s_pc (run_schedule (DefaultSingletonTraits address) schedule (new_singleton d)) t = Returned v \<longrightarrow>
      s_created (run_schedule (DefaultSingletonTraits address) schedule (new_singleton d)) = [v] \<and> v \<noteq> 0)"
  by (intro default.one_instance default.run_inv) (simp add: race_inv_def new_singleton_def)

lemmas all_return = default.get_returns

end

text \<open>Blocks of four bytes.\<close>

definition word_blocks :: "nat \<Rightarrow> nat" where
  "word_blocks n = 4 * Suc n"

interpretation word_allocator: allocator word_blocks
  by unfold_locales (simp add: aligned_def word_blocks_def)

text \<open>C15: Whatever the interleaving of the threads, the default traits create at most one object, and every
  call of get that returns gives a pointer to it.\<close>

theorem singleton_creates_one_instance:
  assumes "aligned address"
  shows "length (s_created (run_schedule (DefaultSingletonTraits address) schedule (new_singleton d))) \<le> 1 \<and>
     (\<forall>t v. s_pc (run_schedule (DefaultSingletonTraits address) schedule (new_singleton d)) t = Returned v \<longrightarrow>
        s_created (run_schedule (DefaultSingletonTraits address) schedule (new_singleton d)) = [v] \<and> v \<noteq> 0)"
  using allocator.one_object [OF allocator.intro [OF assms]] .

theorem singleton_creates_one_instance_witness:
  "s_created (run_schedule (DefaultSingletonTraits word_blocks) [0, 1, 1, 0, 1, 0, 1, 1, 0] (new_singleton 0)) = [4] \<and>
   s_pc (run_schedule (DefaultSingletonTraits word_blocks) [0, 1, 1, 0, 1, 0, 1, 1, 0] (new_singleton 0)) 0 = Returned 4"
proof -
  let ?s = "run_schedule (DefaultSingletonTraits word_blocks) [0, 1, 1, 0, 1, 0, 1, 1, 0] (new_singleton 0)"
  have "s_pc ?s 0 = Returned 4" by code_simp
  with singleton_creates_one_instance [OF word_allocator.pointers, of "[0, 1, 1, 0, 1, 0, 1, 1, 0]" 0] show ?thesis by blast
qed

text \<open>C25: Every call of get returns: when n threads race and each of them takes part in every one of
  five rounds, in any order and any number of times, all of them hold the same pointer afterwards.\<close>

theorem singleton_get_returns:
  assumes "aligned address" and "0 < n" and "length rounds = 5" and "\<forall>ts\<in>set rounds. set ts = {..<n}"
  shows "\<exists>p. p \<noteq> 0 \<and>
     s_created (run_schedule (DefaultSingletonTraits address) (concat rounds) (new_singleton d)) = [p] \<and>
     (\<forall>t<n. s_pc (run_schedule (DefaultSingletonTraits address) (concat rounds) (new_singleton d)) t = Returned p)"
  by (rule allocator.all_return [OF allocator.intro [OF assms(1)] assms(2-4)])

theorem singleton_get_returns_witness:
  "map (s_pc (run_schedule (DefaultSingletonTraits word_blocks)
     (concat [[0, 1], [1, 0], [0, 0, 1], [1, 0], [0, 1]]) (new_singleton 0))) [0, 1] = [Returned 4, Returned 4]"
proof -
  let ?r = "[[0, 1], [1, 0], [0, 0, 1], [1, 0], [0, 1]] :: nat list list"
  let ?s = "run_schedule (DefaultSingletonTraits word_blocks) (concat ?r) (new_singleton 0)"
  have "\<forall>ts\<in>set ?r. set ts = {..<2}" by (auto simp: less_2_cases_iff)
  then obtain p where p: "s_created ?s = [p]" "\<forall>t<2. s_pc ?s t = Returned p"
    using singleton_get_returns [OF word_allocator.pointers, of 2 ?r 0] by auto
  moreover have "s_created ?s = [4]" by code_simp
  ultimately show ?thesis by simp
qed

section \<open>The static traits after exit\<close>

text \<open>After OnExit the static traits do not revive the object: get returns null, to every thread that
  asks alone, and nothing is constructed in the buffer again, until Resurrect.\<close>

lemma static_get:
  "s_instance s = 0 \<Longrightarrow> s_pc s t = AtLoad \<Longrightarrow>
     run_schedule (StaticMemorySingletonTraits buf) [t, t, t, t] s =
       (let p = (if s_traits s then 0 else buf)
        in jump t (Returned p) (s\<lparr>s_instance := p, s_traits := True,
             s_created := (if p = 0 then s_created s else s_created s @ [p])\<rparr>))"
  by (cases s) (simp add: get_step_def jump_def StaticMemorySingletonTraits_def kBeingCreatedMarker_def)

theorem static_singleton_stays_dead:
  assumes "buf \<noteq> 0"
  shows "s_pc (run_schedule (StaticMemorySingletonTraits buf) [t, t, t, t] (OnExit StaticMemory_Delete s)) t = Returned 0 \<and>
     s_created (run_schedule (StaticMemorySingletonTraits buf) [t, t, t, t] (OnExit StaticMemory_Delete s)) = s_created s \<and>
     s_pc (run_schedule (StaticMemorySingletonTraits buf) [t, t, t, t] (Resurrect (OnExit StaticMemory_Delete s))) t =
       Returned buf"
  using assms by (simp add: static_get OnExit_def StaticMemory_Delete_def Resurrect_def jump_def Let_def del: run_schedule.simps)

theorem static_singleton_stays_dead_witness:
  "s_pc (run_schedule (StaticMemorySingletonTraits 64) [3, 3, 3, 3] (OnExit StaticMemory_Delete (new_singleton False))) 3 =
     Returned 0"
  using static_singleton_stays_dead [of 64 3 "new_singleton False"] by (simp del: run_schedule.simps)

end
