(* ===== verification/Histogram.thy ===== *)
theory Histogram
  imports Prelude
begin

text \<open>
  src/chromium/metrics/histogram.hh and histogram.cc: a histogram counts samples in buckets. A vector of
  ranges gives the least sample of each bucket, with INT_MAX behind the last one; the
  vector is checksummed, and the counts are kept twice so that corruption can be seen. This theory has
  the bucket layouts, the samples and the checks; the registry is theory Statistics, the
  rendering as text theory Histogram_Ascii.
\<close>

unbundle bit_operations_syntax

section \<open>Types\<close>

text \<open>Sample and Count are int, the sums are int64_t.\<close>

type_synonym u64 = "64 word"

definition kSampleType_MAX :: int where
  "kSampleType_MAX = 2147483647"

definition kBucketCount_MAX :: nat where
  "kBucketCount_MAX = 16384"

datatype ClassType = HISTOGRAM | LINEAR_HISTOGRAM | BOOLEAN_HISTOGRAM | CUSTOM_HISTOGRAM

definition kNoFlags :: u32 where "kNoFlags = 0"

definition kHexRangePrintingFlag :: u32 where "kHexRangePrintingFlag = 0x8000"

definition RANGE_CHECKSUM_ERROR :: u32 where "RANGE_CHECKSUM_ERROR = 1"

definition BUCKET_ORDER_ERROR :: u32 where "BUCKET_ORDER_ERROR = 2"

definition COUNT_HIGH_ERROR :: u32 where "COUNT_HIGH_ERROR = 4"

definition COUNT_LOW_ERROR :: u32 where "COUNT_LOW_ERROR = 8"

text \<open>Reading and writing a vector; None is an access out of range.\<close>

definition elem_at :: "'a list \<Rightarrow> nat \<Rightarrow> 'a option" where
  "elem_at xs i = (if i < length xs then Some (xs ! i) else None)"

definition put_at :: "nat \<Rightarrow> 'a \<Rightarrow> 'a list \<Rightarrow> 'a list option" where
  "put_at i v xs = (if i < length xs then Some (xs[i := v]) else None)"

section \<open>CachedRanges\<close>

record CachedRanges =
  cr_ranges :: "int list"
  cr_checksum :: u32

definition new_CachedRanges :: "nat \<Rightarrow> int \<Rightarrow> CachedRanges" where
  "new_CachedRanges n initial_value = \<lparr>cr_ranges = replicate n initial_value, cr_checksum = 0\<rparr>"

definition SetBucketRange :: "nat \<Rightarrow> int \<Rightarrow> CachedRanges \<Rightarrow> CachedRanges option" where
  "SetBucketRange i v r = map_option (\<lambda>xs. r\<lparr>cr_ranges := xs\<rparr>) (put_at i v (cr_ranges r))"

definition SetRangeChecksum :: "u32 \<Rightarrow> CachedRanges \<Rightarrow> CachedRanges" where
  "SetRangeChecksum checksum r = r\<lparr>cr_checksum := checksum\<rparr>"

fun ranges_equal :: "int list \<Rightarrow> int list \<Rightarrow> bool" where
  "ranges_equal (a # as) (b # bs) = (if a \<noteq> b then False else ranges_equal as bs)"
| "ranges_equal _ _ = True"

definition CachedRanges_Equals :: "CachedRanges \<Rightarrow> CachedRanges \<Rightarrow> bool" where
  "CachedRanges_Equals r other =
     (if cr_checksum r \<noteq> cr_checksum other then False
      else if length (cr_ranges r) \<noteq> length (cr_ranges other) then False
      else ranges_equal (cr_ranges r) (cr_ranges other))"

section \<open>The checksum\<close>

definition kCrcTable :: "u32 list" where
  "kCrcTable = [
    0x0, 0x77073096, 0xee0e612c, 0x990951ba, 0x76dc419, 0x706af48f, 0xe963a535, 0x9e6495a3,
    0xedb8832, 0x79dcb8a4, 0xe0d5e91e, 0x97d2d988, 0x9b64c2b, 0x7eb17cbd, 0xe7b82d07, 0x90bf1d91,
    0x1db71064, 0x6ab020f2, 0xf3b97148, 0x84be41de, 0x1adad47d, 0x6ddde4eb, 0xf4d4b551, 0x83d385c7,
    0x136c9856, 0x646ba8c0, 0xfd62f97a, 0x8a65c9ec, 0x14015c4f, 0x63066cd9, 0xfa0f3d63, 0x8d080df5,
    0x3b6e20c8, 0x4c69105e, 0xd56041e4, 0xa2677172, 0x3c03e4d1, 0x4b04d447, 0xd20d85fd, 0xa50ab56b,
    0x35b5a8fa, 0x42b2986c, 0xdbbbc9d6, 0xacbcf940, 0x32d86ce3, 0x45df5c75, 0xdcd60dcf, 0xabd13d59,
    0x26d930ac, 0x51de003a, 0xc8d75180, 0xbfd06116, 0x21b4f4b5, 0x56b3c423, 0xcfba9599, 0xb8bda50f,
    0x2802b89e, 0x5f058808, 0xc60cd9b2, 0xb10be924, 0x2f6f7c87, 0x58684c11, 0xc1611dab, 0xb6662d3d,
    0x76dc4190, 0x1db7106, 0x98d220bc, 0xefd5102a, 0x71b18589, 0x6b6b51f, 0x9fbfe4a5, 0xe8b8d433,
    0x7807c9a2, 0xf00f934, 0x9609a88e, 0xe10e9818, 0x7f6a0dbb, 0x86d3d2d, 0x91646c97, 0xe6635c01,
    0x6b6b51f4, 0x1c6c6162, 0x856530d8, 0xf262004e, 0x6c0695ed, 0x1b01a57b, 0x8208f4c1, 0xf50fc457,
    0x65b0d9c6, 0x12b7e950, 0x8bbeb8ea, 0xfcb9887c, 0x62dd1ddf, 0x15da2d49, 0x8cd37cf3, 0xfbd44c65,
    0x4db26158, 0x3ab551ce, 0xa3bc0074, 0xd4bb30e2, 0x4adfa541, 0x3dd895d7, 0xa4d1c46d, 0xd3d6f4fb,
    0x4369e96a, 0x346ed9fc, 0xad678846, 0xda60b8d0, 0x44042d73, 0x33031de5, 0xaa0a4c5f, 0xdd0d7cc9,
    0x5005713c, 0x270241aa, 0xbe0b1010, 0xc90c2086, 0x5768b525, 0x206f85b3, 0xb966d409, 0xce61e49f,
    0x5edef90e, 0x29d9c998, 0xb0d09822, 0xc7d7a8b4, 0x59b33d17, 0x2eb40d81, 0xb7bd5c3b, 0xc0ba6cad,
    0xedb88320, 0x9abfb3b6, 0x3b6e20c, 0x74b1d29a, 0xead54739, 0x9dd277af, 0x4db2615, 0x73dc1683,
    0xe3630b12, 0x94643b84, 0xd6d6a3e, 0x7a6a5aa8, 0xe40ecf0b, 0x9309ff9d, 0xa00ae27, 0x7d079eb1,
    0xf00f9344, 0x8708a3d2, 0x1e01f268, 0x6906c2fe, 0xf762575d, 0x806567cb, 0x196c3671, 0x6e6b06e7,
    0xfed41b76, 0x89d32be0, 0x10da7a5a, 0x67dd4acc, 0xf9b9df6f, 0x8ebeeff9, 0x17b7be43, 0x60b08ed5,
    0xd6d6a3e8, 0xa1d1937e, 0x38d8c2c4, 0x4fdff252, 0xd1bb67f1, 0xa6bc5767, 0x3fb506dd, 0x48b2364b,
    0xd80d2bda, 0xaf0a1b4c, 0x36034af6, 0x41047a60, 0xdf60efc3, 0xa867df55, 0x316e8eef, 0x4669be79,
    0xcb61b38c, 0xbc66831a, 0x256fd2a0, 0x5268e236, 0xcc0c7795, 0xbb0b4703, 0x220216b9, 0x5505262f,
    0xc5ba3bbe, 0xb2bd0b28, 0x2bb45a92, 0x5cb36a04, 0xc2d7ffa7, 0xb5d0cf31, 0x2cd99e8b, 0x5bdeae1d,
    0x9b64c2b0, 0xec63f226, 0x756aa39c, 0x26d930a, 0x9c0906a9, 0xeb0e363f, 0x72076785, 0x5005713,
    0x95bf4a82, 0xe2b87a14, 0x7bb12bae, 0xcb61b38, 0x92d28e9b, 0xe5d5be0d, 0x7cdcefb7, 0xbdbdf21,
    0x86d3d2d4, 0xf1d4e242, 0x68ddb3f8, 0x1fda836e, 0x81be16cd, 0xf6b9265b, 0x6fb077e1, 0x18b74777,
    0x88085ae6, 0xff0f6a70, 0x66063bca, 0x11010b5c, 0x8f659eff, 0xf862ae69, 0x616bffd3, 0x166ccf45,
    0xa00ae278, 0xd70dd2ee, 0x4e048354, 0x3903b3c2, 0xa7672661, 0xd06016f7, 0x4969474d, 0x3e6e77db,
    0xaed16a4a, 0xd9d65adc, 0x40df0b66, 0x37d83bf0, 0xa9bcae53, 0xdebb9ec5, 0x47b2cf7f, 0x30b5ffe9,
    0xbdbdf21c, 0xcabac28a, 0x53b39330, 0x24b4a3a6, 0xbad03605, 0xcdd70693, 0x54de5729, 0x23d967bf,
    0xb3667a2e, 0xc4614ab8, 0x5d681b02, 0x2a6f2b94, 0xb40bbe37, 0xc30c8ea1, 0x5a05df1b, 0x2d02ef8d
  ]"

definition crc_byte :: "u32 \<Rightarrow> u32 \<Rightarrow> u32" where
  "crc_byte crc byte = kCrcTable ! unat ((crc AND 0xff) XOR byte) XOR drop_bit 8 crc"

text \<open>The union reads the bytes of the sample, the lowest first on x86.\<close>

definition sample_byte :: "int \<Rightarrow> nat \<Rightarrow> u32" where
  "sample_byte x i = drop_bit (8 * i) (word_of_int x) AND 0xff"

definition Crc32 :: "u32 \<Rightarrow> int \<Rightarrow> u32" where
  "Crc32 crc x = foldl (\<lambda>crc i. crc_byte crc (sample_byte x i)) crc [0, 1, 2, 3]"

text \<open>The last element of the vector, which is INT_MAX, is not part of the checksum.\<close>

definition CalculateRangeChecksum :: "nat \<Rightarrow> int list \<Rightarrow> u32" where
  "CalculateRangeChecksum n ranges = foldl Crc32 (of_nat (length ranges)) (take n ranges)"

section \<open>Samples\<close>

record SampleSet =
  ss_counts :: "u32 list"
  ss_sum :: u64
  ss_redundant :: u64

definition new_SampleSet :: SampleSet where
  "new_SampleSet = \<lparr>ss_counts = [], ss_sum = 0, ss_redundant = 0\<rparr>"

definition Resize :: "nat \<Rightarrow> SampleSet \<Rightarrow> SampleSet" where
  "Resize n s = s\<lparr>ss_counts := take n (ss_counts s) @ replicate (n - length (ss_counts s)) 0\<rparr>"

text \<open>count is 1 or -1, so that the product with a sample fits into an int.\<close>

definition SampleSet_Accumulate :: "int \<Rightarrow> int \<Rightarrow> nat \<Rightarrow> SampleSet \<Rightarrow> SampleSet option" where
  "SampleSet_Accumulate v count index s =
     do {
       c \<leftarrow> elem_at (ss_counts s) index;
       cs \<leftarrow> put_at index (c + word_of_int count) (ss_counts s);
       Some (s\<lparr>ss_counts := cs, ss_sum := ss_sum s + word_of_int (count * v),
               ss_redundant := ss_redundant s + word_of_int count\<rparr>)
     }"

definition TotalCount :: "SampleSet \<Rightarrow> u32" where
  "TotalCount s = foldl (+) 0 (ss_counts s)"

text \<open>Add and Subtract read the counts of the other set at every index of this one.\<close>

definition SampleSet_Add :: "SampleSet \<Rightarrow> SampleSet \<Rightarrow> SampleSet option" where
  "SampleSet_Add other s =
     (if length (ss_counts s) \<le> length (ss_counts other)
      then Some \<lparr>ss_counts = map2 (+) (ss_counts s) (ss_counts other), ss_sum = ss_sum s + ss_sum other,
                 ss_redundant = ss_redundant s + ss_redundant other\<rparr>
      else None)"

definition SampleSet_Subtract :: "SampleSet \<Rightarrow> SampleSet \<Rightarrow> SampleSet option" where
  "SampleSet_Subtract other s =
     (if length (ss_counts s) \<le> length (ss_counts other)
      then Some \<lparr>ss_counts = map2 (-) (ss_counts s) (ss_counts other), ss_sum = ss_sum s - ss_sum other,
                 ss_redundant = ss_redundant s - ss_redundant other\<rparr>
      else None)"

section \<open>Histogram\<close>

text \<open>The pointer to the cached ranges is an address; the operations that use the ranges are given the
  object there.\<close>

record Histogram =
  histogram_name :: string
  histogram_type :: ClassType
  declared_min :: int
  declared_max :: int
  bucket_count :: nat
  h_flags :: u32
  cached_ranges :: nat
  range_checksum :: u32
  h_sample :: SampleSet
  bucket_description :: "(int \<times> string) list"

definition SetFlags :: "u32 \<Rightarrow> Histogram \<Rightarrow> Histogram" where
  "SetFlags fl h = h\<lparr>h_flags := h_flags h OR fl\<rparr>"

definition ClearFlags :: "u32 \<Rightarrow> Histogram \<Rightarrow> Histogram" where
  "ClearFlags fl h = h\<lparr>h_flags := h_flags h AND NOT fl\<rparr>"

text \<open>None is the CHECK on the number of buckets that fails, or a write outside the vector.\<close>

definition Initialize :: "Histogram \<times> CachedRanges \<Rightarrow> (Histogram \<times> CachedRanges) option" where
  "Initialize = (\<lambda>(h, r).
     if bucket_count h < kBucketCount_MAX then
       map_option (\<lambda>r.
         (h\<lparr>h_sample := Resize (bucket_count h) (h_sample h),
            declared_min := (if declared_min h < 1 then 1 else declared_min h),
            declared_max := (if declared_max h > kSampleType_MAX - 1 then kSampleType_MAX - 1 else declared_max h)\<rparr>, r))
         (SetBucketRange (bucket_count h) kSampleType_MAX r)
     else None)"

text \<open>The constructor. It allocates the ranges at the address a.\<close>

definition new_Histogram :: "ClassType \<Rightarrow> string \<Rightarrow> int \<Rightarrow> int \<Rightarrow> nat \<Rightarrow> nat \<Rightarrow> (Histogram \<times> CachedRanges) option" where
  "new_Histogram ty name minimum maximum n a =
     Initialize
       (\<lparr>histogram_name = name, histogram_type = ty, declared_min = minimum, declared_max = maximum,
         bucket_count = n, h_flags = kNoFlags, cached_ranges = a, range_checksum = 0,
         h_sample = new_SampleSet, bucket_description = []\<rparr>, new_CachedRanges (n + 1) 0)"

definition ResetRangeChecksum :: "Histogram \<times> CachedRanges \<Rightarrow> Histogram \<times> CachedRanges" where
  "ResetRangeChecksum = (\<lambda>(h, r). (h\<lparr>range_checksum := CalculateRangeChecksum (bucket_count h) (cr_ranges r)\<rparr>, r))"

definition HasValidRangeChecksum :: "Histogram \<Rightarrow> CachedRanges \<Rightarrow> bool" where
  "HasValidRangeChecksum h r = (CalculateRangeChecksum (bucket_count h) (cr_ranges r) = range_checksum h)"

definition HasConstructorArguments :: "int \<Rightarrow> int \<Rightarrow> nat \<Rightarrow> Histogram \<Rightarrow> bool" where
  "HasConstructorArguments minimum maximum n h =
     (minimum = declared_min h \<and> maximum = declared_max h \<and> n = bucket_count h)"

text \<open>static_cast of a 64-bit number of milliseconds to int.\<close>

definition to_int :: "int \<Rightarrow> int" where
  "to_int ms = signed_take_bit 31 ms"

definition HasConstructorTimeDeltaArguments :: "int \<Rightarrow> int \<Rightarrow> nat \<Rightarrow> Histogram \<Rightarrow> bool" where
  "HasConstructorTimeDeltaArguments minimum maximum n h =
     (minimum = declared_min h \<and> maximum = declared_max h \<and> n = bucket_count h)"

definition SnapshotSample :: "Histogram \<Rightarrow> SampleSet" where
  "SnapshotSample h = h_sample h"

section \<open>Bucket layouts\<close>

text \<open>The exponential layout. growth current max n stands for the double arithmetic
  static_cast<int> (floor (exp (log current + (log max - log current) / n) + 0.5)).\<close>

function exponential_loop ::
  "(int \<Rightarrow> int \<Rightarrow> nat \<Rightarrow> int) \<Rightarrow> int \<Rightarrow> nat \<Rightarrow> nat \<Rightarrow> int \<Rightarrow> CachedRanges \<Rightarrow> CachedRanges option" where
  "exponential_loop growth maximum n bucket_index current r =
     (if n > bucket_index + 1 then
        (let bucket_index = bucket_index + 1;
             new = growth current maximum (n - bucket_index);
             current = (if new > current then new else current + 1)
         in Option.bind (SetBucketRange bucket_index current r)
              (exponential_loop growth maximum n bucket_index current))
      else Some r)"
  by pat_completeness auto
termination
  by (relation "measure (\<lambda>(g, m, n, i, c, r). n - i)") auto

declare exponential_loop.simps [simp del]

definition InitializeBucketRange ::
  "(int \<Rightarrow> int \<Rightarrow> nat \<Rightarrow> int) \<Rightarrow> Histogram \<times> CachedRanges \<Rightarrow> (Histogram \<times> CachedRanges) option" where
  "InitializeBucketRange growth = (\<lambda>(h, r).
     do {
       r \<leftarrow> SetBucketRange 1 (declared_min h) r;
       r \<leftarrow> exponential_loop growth (declared_max h) (bucket_count h) 1 (declared_min h) r;
       Some (ResetRangeChecksum (h, r))
     })"

text \<open>The linear layout. The numerator and the denominator are exact doubles, and the rounded quotient
  plus 0.5 lies on the same side of every integer as the exact one, because the denominator is below
  2^14, which Initialize checks; so the cast gives the floor of the exact value. None is a division
  by zero.\<close>

definition linear_range :: "int \<Rightarrow> int \<Rightarrow> nat \<Rightarrow> nat \<Rightarrow> int option" where
  "linear_range minimum maximum n i =
     (let d = int n - 2; p = minimum * (int n - 1 - int i) + maximum * (int i - 1)
      in if d = 0 then None else Some ((2 * p + d) div (2 * d)))"

fun linear_loop :: "int \<Rightarrow> int \<Rightarrow> nat \<Rightarrow> nat list \<Rightarrow> CachedRanges \<Rightarrow> CachedRanges option" where
  "linear_loop minimum maximum n [] r = Some r"
| "linear_loop minimum maximum n (i # is) r =
     do {
       v \<leftarrow> linear_range minimum maximum n i;
       r \<leftarrow> SetBucketRange i v r;
       linear_loop minimum maximum n is r
     }"

definition Linear_InitializeBucketRange :: "Histogram \<times> CachedRanges \<Rightarrow> (Histogram \<times> CachedRanges) option" where
  "Linear_InitializeBucketRange = (\<lambda>(h, r).
     map_option (\<lambda>r. ResetRangeChecksum (h, r))
       (linear_loop (declared_min h) (declared_max h) (bucket_count h) [1 ..< bucket_count h] r))"

text \<open>The custom layout.\<close>

definition custom_ranges :: "int list \<Rightarrow> int list" where
  "custom_ranges custom =
     (let ranges = remdups_adj (sort (custom @ [0]))
      in if length ranges \<le> 1 then ranges @ [1] else ranges)"

fun custom_loop :: "nat \<Rightarrow> int list \<Rightarrow> CachedRanges \<Rightarrow> CachedRanges option" where
  "custom_loop index [] r = Some r"
| "custom_loop index (v # vs) r = Option.bind (SetBucketRange index v r) (custom_loop (index + 1) vs)"

definition InitializedCustomBucketRange ::
  "int list \<Rightarrow> Histogram \<times> CachedRanges \<Rightarrow> (Histogram \<times> CachedRanges) option" where
  "InitializedCustomBucketRange custom = (\<lambda>(h, r).
     map_option (\<lambda>r. ResetRangeChecksum (h, r)) (custom_loop 0 custom r))"

fun ArrayToCustomRanges :: "int list \<Rightarrow> int list" where
  "ArrayToCustomRanges [] = []"
| "ArrayToCustomRanges (v # vs) = v # (v + 1) # ArrayToCustomRanges vs"

definition ValidateBucketRanges :: "Histogram \<Rightarrow> CachedRanges \<Rightarrow> bool" where
  "ValidateBucketRanges h r =
     (length (cr_ranges r) = bucket_count h + 1 \<and> elem_at (cr_ranges r) 0 = Some 0 \<and>
      elem_at (cr_ranges r) 1 = Some (declared_min h) \<and>
      elem_at (cr_ranges r) (bucket_count h - 1) = Some (declared_max h) \<and>
      elem_at (cr_ranges r) (bucket_count h) = Some kSampleType_MAX)"

section \<open>Adding samples\<close>

text \<open>The binary search of BucketIndex.\<close>

function bucket_search :: "int list \<Rightarrow> int \<Rightarrow> nat \<Rightarrow> nat \<Rightarrow> nat option" where
  "bucket_search ranges v lo hi =
     (let mid = lo + (hi - lo) div 2
      in if mid = lo then Some mid
         else Option.bind (elem_at ranges mid)
           (\<lambda>x. if x \<le> v then bucket_search ranges v mid hi else bucket_search ranges v lo mid))"
  by pat_completeness auto
termination
  by (relation "measure (\<lambda>(rs, v, u, ov). ov - u)") auto

declare bucket_search.simps [simp del]

definition BucketIndex :: "nat \<Rightarrow> int list \<Rightarrow> int \<Rightarrow> nat option" where
  "BucketIndex n ranges v = bucket_search ranges v 0 n"

definition clamp_sample :: "int \<Rightarrow> int" where
  "clamp_sample v =
     (let v = (if v > kSampleType_MAX - 1 then kSampleType_MAX - 1 else v) in if v < 0 then 0 else v)"

definition Histogram_Add :: "CachedRanges \<Rightarrow> int \<Rightarrow> Histogram \<Rightarrow> Histogram option" where
  "Histogram_Add r val h =
     (let v = clamp_sample val
      in do {
           index \<leftarrow> BucketIndex (bucket_count h) (cr_ranges r) v;
           s \<leftarrow> SampleSet_Accumulate v 1 index (h_sample h);
           Some (h\<lparr>h_sample := s\<rparr>)
         })"

definition AddTime :: "CachedRanges \<Rightarrow> int \<Rightarrow> Histogram \<Rightarrow> Histogram option" where
  "AddTime r ms h = Histogram_Add r (to_int ms) h"

text \<open>AddBoolean does nothing but assert, except in a boolean histogram.\<close>

definition AddBoolean :: "CachedRanges \<Rightarrow> bool \<Rightarrow> Histogram \<Rightarrow> Histogram option" where
  "AddBoolean r val h =
     (if histogram_type h = BOOLEAN_HISTOGRAM then Histogram_Add r (if val then 1 else 0) h else Some h)"

definition AddSampleSet :: "SampleSet \<Rightarrow> Histogram \<Rightarrow> Histogram option" where
  "AddSampleSet s h = map_option (\<lambda>t. h\<lparr>h_sample := t\<rparr>) (SampleSet_Add s (h_sample h))"

text \<open>SetRangeDescriptions: a map from the least sample of a bucket to its description; it asserts
  in the classes that are not linear.\<close>

fun describe :: "(int \<times> string) list \<Rightarrow> (int \<times> string) list \<Rightarrow> (int \<times> string) list" where
  "describe [] m = m"
| "describe ((k, d) # ds) m = describe ds ((k, d) # filter (\<lambda>e. fst e \<noteq> k) m)"

definition SetRangeDescriptions :: "(int \<times> string) list \<Rightarrow> Histogram \<Rightarrow> Histogram" where
  "SetRangeDescriptions descriptions h =
     (if histogram_type h \<in> {LINEAR_HISTOGRAM, BOOLEAN_HISTOGRAM}
      then h\<lparr>bucket_description := describe descriptions (bucket_description h)\<rparr> else h)"

text \<open>Whether a bucket without samples is printed: in the linear classes only one without a description.\<close>

definition PrintEmptyBucket :: "CachedRanges \<Rightarrow> nat \<Rightarrow> Histogram \<Rightarrow> bool option" where
  "PrintEmptyBucket r index h =
     (if histogram_type h \<in> {LINEAR_HISTOGRAM, BOOLEAN_HISTOGRAM}
      then map_option (\<lambda>x. map_of (bucket_description h) x = None) (elem_at (cr_ranges r) index) else Some True)"

section \<open>FindCorruption\<close>

fun order_loop :: "int list \<Rightarrow> int \<Rightarrow> bool" where
  "order_loop [] previous_range = False"
| "order_loop (new_range # rs) previous_range = (previous_range \<ge> new_range \<or> order_loop rs new_range)"

text \<open>The difference of the 64-bit counts; one too many or too few is put down to a race.\<close>

definition count_error :: "int \<Rightarrow> u32" where
  "count_error delta64 =
     (if delta64 \<noteq> 0 then
        (let d = signed_take_bit 31 delta64; d = (if d \<noteq> delta64 then kSampleType_MAX else d)
         in if d > 0 then (if d > 1 then COUNT_HIGH_ERROR else 0)
            else (if - d > 1 then COUNT_LOW_ERROR else 0))
      else 0)"

definition FindCorruption :: "CachedRanges \<Rightarrow> SampleSet \<Rightarrow> Histogram \<Rightarrow> u32" where
  "FindCorruption r snapshot h =
     (let counts = take (bucket_count h) (ss_counts snapshot);
          order = (if order_loop (take (bucket_count h) (cr_ranges r)) (- 1) then BUCKET_ORDER_ERROR else 0);
          checksum = (if \<not> HasValidRangeChecksum h r then RANGE_CHECKSUM_ERROR else 0);
          delta64 = sint (ss_redundant snapshot - foldl (\<lambda>n c. n + word_of_int (sint c)) 0 counts)
      in order OR checksum OR count_error delta64)"

end
