(* ===== verification/Statistics.thy ===== *)
theory Statistics
  imports Histogram "HOL-Library.List_Lexorder"
begin

text \<open>
  The registry of src/chromium/metrics/histogram.cc: StatisticsRecorder keeps every histogram by
  name and every vector of ranges by checksum, so that a name has one histogram and equal
  ranges are shared. The factories of the four classes look a name up before they build anything, and the macros
  keep the result in a static pointer. Histograms and ranges are objects in two heaps; delete
  takes an object off its heap and an access to a missing object is None.
\<close>

section \<open>State\<close>

text \<open>The statics, the two heaps and the next unused address. histograms and ranges are the null pointer
  before the constructor and after the destructor; the map of histograms is ordered by name.\<close>

record recorder =
  lock_made :: bool
  histograms_map :: "(string \<times> nat) list option"
  ranges_map :: "u32 \<rightharpoonup> nat list"
  dump_on_exit :: bool
  number_of_histograms :: u32
  number_of_vectors_saved :: u32
  saved_ranges_size :: nat
  histogram_heap :: "nat \<rightharpoonup> Histogram"
  ranges_heap :: "nat \<rightharpoonup> CachedRanges"
  next_address :: nat

definition initial_recorder :: recorder where
  "initial_recorder = \<lparr>lock_made = False, histograms_map = None, ranges_map = Map.empty, dump_on_exit = False,
     number_of_histograms = 0, number_of_vectors_saved = 0, saved_ranges_size = 0,
     histogram_heap = Map.empty, ranges_heap = Map.empty, next_address = 0\<rparr>"

definition new_StatisticsRecorder :: "recorder \<Rightarrow> recorder" where
  "new_StatisticsRecorder s = s\<lparr>lock_made := True, histograms_map := Some [], ranges_map := Map.empty\<rparr>"

text \<open>The destructor; the histograms and the ranges are leaked. The dump on exit is in theory Histogram_Ascii.\<close>

definition delete_StatisticsRecorder :: "recorder \<Rightarrow> recorder" where
  "delete_StatisticsRecorder s = s\<lparr>histograms_map := None, ranges_map := Map.empty\<rparr>"

definition set_dump_on_exit :: "bool \<Rightarrow> recorder \<Rightarrow> recorder" where
  "set_dump_on_exit enable s = s\<lparr>dump_on_exit := enable\<rparr>"

definition IsActive :: "recorder \<Rightarrow> bool" where
  "IsActive s = (if \<not> lock_made s then False else histograms_map s \<noteq> None)"

text \<open>Insertion into the ordered map at a key it does not have.\<close>

fun map_insert :: "string \<Rightarrow> nat \<Rightarrow> (string \<times> nat) list \<Rightarrow> (string \<times> nat) list" where
  "map_insert k p [] = [(k, p)]"
| "map_insert k p ((k', p') # es) = (if k < k' then (k, p) # (k', p') # es else (k', p') # map_insert k p es)"

section \<open>Look-up\<close>

definition FindHistogram :: "string \<Rightarrow> recorder \<Rightarrow> nat option" where
  "FindHistogram name s =
     (if \<not> lock_made s then None else Option.bind (histograms_map s) (\<lambda>es. map_of es name))"

definition GetHistograms :: "recorder \<Rightarrow> nat list" where
  "GetHistograms s =
     (if \<not> lock_made s then [] else case histograms_map s of None \<Rightarrow> [] | Some es \<Rightarrow> map snd es)"

definition GetSnapshot :: "string \<Rightarrow> recorder \<Rightarrow> nat list" where
  "GetSnapshot query s =
     (if \<not> lock_made s then []
      else case histograms_map s of
        None \<Rightarrow> []
      | Some es \<Rightarrow> map snd (filter (\<lambda>e. find_sub (fst e) query 0 \<noteq> None) es))"

section \<open>Registration\<close>

text \<open>The loop over the ranges that have the same checksum: the first one that is equal.\<close>

fun find_equal :: "(nat \<rightharpoonup> CachedRanges) \<Rightarrow> CachedRanges \<Rightarrow> nat list \<Rightarrow> nat option option" where
  "find_equal heap r [] = Some None"
| "find_equal heap r (q # qs) =
     Option.bind (heap q) (\<lambda>e. if CachedRanges_Equals e r then Some (Some q) else find_equal heap r qs)"

definition RegisterOrDeleteDuplicateRanges :: "nat \<Rightarrow> recorder \<Rightarrow> recorder option" where
  "RegisterOrDeleteDuplicateRanges p s =
     do {
       h \<leftarrow> histogram_heap s p;
       r \<leftarrow> ranges_heap s (cached_ranges h);
       let checksum = range_checksum h;
       let r = SetRangeChecksum checksum r;
       let s = s\<lparr>ranges_heap := (ranges_heap s)(cached_ranges h \<mapsto> r)\<rparr>;
       case ranges_map s checksum of
         None \<Rightarrow> Some (s\<lparr>ranges_map := (ranges_map s)(checksum \<mapsto> [cached_ranges h])\<rparr>)
       | Some qs \<Rightarrow>
           do {
             found \<leftarrow> find_equal (ranges_heap s) r qs;
             case found of
               Some q \<Rightarrow>
                 Some (s\<lparr>histogram_heap := (histogram_heap s)(p \<mapsto> h\<lparr>cached_ranges := q\<rparr>),
                         number_of_vectors_saved := number_of_vectors_saved s + 1,
                         saved_ranges_size := saved_ranges_size s + length (cr_ranges r),
                         ranges_heap := (ranges_heap s)(cached_ranges h := None)\<rparr>)
             | None \<Rightarrow> Some (s\<lparr>ranges_map := (ranges_map s)(checksum \<mapsto> cached_ranges h # qs)\<rparr>)
           }
     }"

text \<open>A duplicate histogram is deleted; its ranges are not.\<close>

definition RegisterOrDeleteDuplicate :: "nat \<Rightarrow> recorder \<Rightarrow> (nat \<times> recorder) option" where
  "RegisterOrDeleteDuplicate p s =
     (if \<not> lock_made s then Some (p, s)
      else case histograms_map s of
        None \<Rightarrow> Some (p, s)
      | Some es \<Rightarrow>
          do {
            h \<leftarrow> histogram_heap s p;
            case map_of es (histogram_name h) of
              None \<Rightarrow>
                do {
                  s \<leftarrow> RegisterOrDeleteDuplicateRanges p
                         (s\<lparr>histograms_map := Some (map_insert (histogram_name h) p es)\<rparr>);
                  Some (p, s\<lparr>number_of_histograms := number_of_histograms s + 1\<rparr>)
                }
            | Some q \<Rightarrow> Some (q, s\<lparr>histogram_heap := (histogram_heap s)(p := None)\<rparr>)
          })"

section \<open>Factories\<close>

text \<open>The four factories build a tentative histogram with its ranges, set the flags and register it.\<close>

definition register_new ::
  "(nat \<Rightarrow> (Histogram \<times> CachedRanges) option) \<Rightarrow> u32 \<Rightarrow> recorder \<Rightarrow> (nat \<times> recorder) option" where
  "register_new build fl s =
     do {
       let p = next_address s;
       hr \<leftarrow> build (p + 1);
       RegisterOrDeleteDuplicate p
         (s\<lparr>histogram_heap := (histogram_heap s)(p \<mapsto> SetFlags fl (fst hr)),
            ranges_heap := (ranges_heap s)(p + 1 \<mapsto> snd hr), next_address := p + 2\<rparr>)
     }"

definition Histogram_FactoryGet ::
  "(int \<Rightarrow> int \<Rightarrow> nat \<Rightarrow> int) \<Rightarrow> string \<Rightarrow> int \<Rightarrow> int \<Rightarrow> nat \<Rightarrow> u32 \<Rightarrow> recorder \<Rightarrow> (nat \<times> recorder) option" where
  "Histogram_FactoryGet growth name minimum maximum n fl s =
     (let minimum = (if minimum < 1 then 1 else minimum);
          maximum = (if maximum > kSampleType_MAX - 1 then kSampleType_MAX - 1 else maximum)
      in case FindHistogram name s of
           Some p \<Rightarrow> Some (p, s)
         | None \<Rightarrow> register_new (\<lambda>a. Option.bind (new_Histogram HISTOGRAM name minimum maximum n a)
                                    (InitializeBucketRange growth)) fl s)"

definition LinearHistogram_FactoryGet ::
  "string \<Rightarrow> int \<Rightarrow> int \<Rightarrow> nat \<Rightarrow> u32 \<Rightarrow> recorder \<Rightarrow> (nat \<times> recorder) option" where
  "LinearHistogram_FactoryGet name minimum maximum n fl s =
     (let minimum = (if minimum < 1 then 1 else minimum);
          maximum = (if maximum > kSampleType_MAX - 1 then kSampleType_MAX - 1 else maximum)
      in case FindHistogram name s of
           Some p \<Rightarrow> Some (p, s)
         | None \<Rightarrow> register_new (\<lambda>a. Option.bind (new_Histogram LINEAR_HISTOGRAM name minimum maximum n a)
                                    Linear_InitializeBucketRange) fl s)"

definition BooleanHistogram_FactoryGet :: "string \<Rightarrow> u32 \<Rightarrow> recorder \<Rightarrow> (nat \<times> recorder) option" where
  "BooleanHistogram_FactoryGet name fl s =
     (case FindHistogram name s of
        Some p \<Rightarrow> Some (p, s)
      | None \<Rightarrow> register_new (\<lambda>a. Option.bind (new_Histogram BOOLEAN_HISTOGRAM name 1 2 3 a)
                                 Linear_InitializeBucketRange) fl s)"

definition CustomHistogram_FactoryGet :: "string \<Rightarrow> int list \<Rightarrow> u32 \<Rightarrow> recorder \<Rightarrow> (nat \<times> recorder) option" where
  "CustomHistogram_FactoryGet name custom fl s =
     (let ranges = custom_ranges custom
      in case FindHistogram name s of
           Some p \<Rightarrow> Some (p, s)
         | None \<Rightarrow> register_new
             (\<lambda>a. do {
                 minimum \<leftarrow> elem_at ranges 1;
                 maximum \<leftarrow> elem_at ranges (length ranges - 1);
                 hr \<leftarrow> new_Histogram CUSTOM_HISTOGRAM name minimum maximum (length ranges) a;
                 InitializedCustomBucketRange ranges hr
               }) fl s)"

text \<open>What a factory asserts (DCHECK) of the histogram it returns: its class, and the limits it was
  asked for. A debug build logs a failure and goes on; a release build does not look.\<close>

definition Histogram_FactoryGet_asserts :: "int \<Rightarrow> int \<Rightarrow> nat \<Rightarrow> Histogram \<Rightarrow> bool" where
  "Histogram_FactoryGet_asserts minimum maximum n h =
     (let minimum = (if minimum < 1 then 1 else minimum);
          maximum = (if maximum > kSampleType_MAX - 1 then kSampleType_MAX - 1 else maximum)
      in HISTOGRAM = histogram_type h \<and> HasConstructorArguments minimum maximum n h)"

definition LinearHistogram_FactoryGet_asserts :: "int \<Rightarrow> int \<Rightarrow> nat \<Rightarrow> Histogram \<Rightarrow> bool" where
  "LinearHistogram_FactoryGet_asserts minimum maximum n h =
     (let minimum = (if minimum < 1 then 1 else minimum);
          maximum = (if maximum > kSampleType_MAX - 1 then kSampleType_MAX - 1 else maximum)
      in LINEAR_HISTOGRAM = histogram_type h \<and> HasConstructorArguments minimum maximum n h)"

definition BooleanHistogram_FactoryGet_asserts :: "Histogram \<Rightarrow> bool" where
  "BooleanHistogram_FactoryGet_asserts h = (BOOLEAN_HISTOGRAM = histogram_type h)"

definition CustomHistogram_FactoryGet_asserts :: "int list \<Rightarrow> Histogram \<Rightarrow> bool" where
  "CustomHistogram_FactoryGet_asserts custom h =
     (let ranges = custom_ranges custom
      in histogram_type h = CUSTOM_HISTOGRAM \<and> HasConstructorArguments (ranges ! 1) (last ranges) (length ranges) h)"

text \<open>The limits of the factories for times become ints.\<close>

definition Histogram_FactoryTimeGet ::
  "(int \<Rightarrow> int \<Rightarrow> nat \<Rightarrow> int) \<Rightarrow> string \<Rightarrow> int \<Rightarrow> int \<Rightarrow> nat \<Rightarrow> u32 \<Rightarrow> recorder \<Rightarrow> (nat \<times> recorder) option" where
  "Histogram_FactoryTimeGet growth name minimum maximum n fl s =
     Histogram_FactoryGet growth name (to_int minimum) (to_int maximum) n fl s"

definition LinearHistogram_FactoryTimeGet ::
  "string \<Rightarrow> int \<Rightarrow> int \<Rightarrow> nat \<Rightarrow> u32 \<Rightarrow> recorder \<Rightarrow> (nat \<times> recorder) option" where
  "LinearHistogram_FactoryTimeGet name minimum maximum n fl s =
     LinearHistogram_FactoryGet name (to_int minimum) (to_int maximum) n fl s"

section \<open>Macros\<close>

text \<open>STATIC_HISTOGRAM_POINTER_BLOCK: the factory is called only while the static pointer is null, and the
  sample is added through the pointer.\<close>

definition Add_at :: "nat \<Rightarrow> int \<Rightarrow> recorder \<Rightarrow> recorder option" where
  "Add_at p v s =
     do {
       h \<leftarrow> histogram_heap s p;
       r \<leftarrow> ranges_heap s (cached_ranges h);
       h \<leftarrow> Histogram_Add r v h;
       Some (s\<lparr>histogram_heap := (histogram_heap s)(p \<mapsto> h)\<rparr>)
     }"

definition STATIC_HISTOGRAM_POINTER_BLOCK ::
  "(recorder \<Rightarrow> (nat \<times> recorder) option) \<Rightarrow> int \<Rightarrow> nat option \<times> recorder \<Rightarrow> (nat option \<times> recorder) option" where
  "STATIC_HISTOGRAM_POINTER_BLOCK factory_get v = (\<lambda>(pointer, s).
     do {
       (p, s) \<leftarrow> (case pointer of None \<Rightarrow> factory_get s | Some p \<Rightarrow> Some (p, s));
       s \<leftarrow> Add_at p v s;
       Some (Some p, s)
     })"

definition HISTOGRAM_CUSTOM_COUNTS ::
  "(int \<Rightarrow> int \<Rightarrow> nat \<Rightarrow> int) \<Rightarrow> string \<Rightarrow> int \<Rightarrow> int \<Rightarrow> int \<Rightarrow> nat \<Rightarrow> nat option \<times> recorder \<Rightarrow> (nat option \<times> recorder) option" where
  "HISTOGRAM_CUSTOM_COUNTS growth name v minimum maximum n =
     STATIC_HISTOGRAM_POINTER_BLOCK (Histogram_FactoryGet growth name minimum maximum n kNoFlags) v"

definition HISTOGRAM_COUNTS ::
  "(int \<Rightarrow> int \<Rightarrow> nat \<Rightarrow> int) \<Rightarrow> string \<Rightarrow> int \<Rightarrow> nat option \<times> recorder \<Rightarrow> (nat option \<times> recorder) option" where
  "HISTOGRAM_COUNTS growth name v = HISTOGRAM_CUSTOM_COUNTS growth name v 1 1000000 50"

definition HISTOGRAM_COUNTS_100 ::
  "(int \<Rightarrow> int \<Rightarrow> nat \<Rightarrow> int) \<Rightarrow> string \<Rightarrow> int \<Rightarrow> nat option \<times> recorder \<Rightarrow> (nat option \<times> recorder) option" where
  "HISTOGRAM_COUNTS_100 growth name v = HISTOGRAM_CUSTOM_COUNTS growth name v 1 100 50"

definition HISTOGRAM_COUNTS_10000 ::
  "(int \<Rightarrow> int \<Rightarrow> nat \<Rightarrow> int) \<Rightarrow> string \<Rightarrow> int \<Rightarrow> nat option \<times> recorder \<Rightarrow> (nat option \<times> recorder) option" where
  "HISTOGRAM_COUNTS_10000 growth name v = HISTOGRAM_CUSTOM_COUNTS growth name v 1 10000 50"

text \<open>AddTime through the pointer adds the time as an int.\<close>

definition HISTOGRAM_CUSTOM_TIMES ::
  "(int \<Rightarrow> int \<Rightarrow> nat \<Rightarrow> int) \<Rightarrow> string \<Rightarrow> int \<Rightarrow> int \<Rightarrow> int \<Rightarrow> nat \<Rightarrow> nat option \<times> recorder \<Rightarrow> (nat option \<times> recorder) option" where
  "HISTOGRAM_CUSTOM_TIMES growth name ms minimum maximum n =
     STATIC_HISTOGRAM_POINTER_BLOCK (Histogram_FactoryTimeGet growth name minimum maximum n kNoFlags) (to_int ms)"

definition HISTOGRAM_ENUMERATION ::
  "string \<Rightarrow> int \<Rightarrow> int \<Rightarrow> nat option \<times> recorder \<Rightarrow> (nat option \<times> recorder) option" where
  "HISTOGRAM_ENUMERATION name v boundary =
     STATIC_HISTOGRAM_POINTER_BLOCK
       (LinearHistogram_FactoryGet name 1 boundary (nat (boundary + 1)) kNoFlags) v"

definition HISTOGRAM_PERCENTAGE :: "string \<Rightarrow> int \<Rightarrow> nat option \<times> recorder \<Rightarrow> (nat option \<times> recorder) option" where
  "HISTOGRAM_PERCENTAGE name under_one_hundred = HISTOGRAM_ENUMERATION name under_one_hundred 101"

definition HISTOGRAM_CUSTOM_ENUMERATION ::
  "string \<Rightarrow> int \<Rightarrow> int list \<Rightarrow> nat option \<times> recorder \<Rightarrow> (nat option \<times> recorder) option" where
  "HISTOGRAM_CUSTOM_ENUMERATION name v custom =
     STATIC_HISTOGRAM_POINTER_BLOCK (CustomHistogram_FactoryGet name custom kNoFlags) v"

text \<open>The histograms of its own that FindCorruption adds a wrong number of counts to, with the two
  static pointers of its macros.\<close>

definition record_mismatch ::
  "(int \<Rightarrow> int \<Rightarrow> nat \<Rightarrow> int) \<Rightarrow> int \<Rightarrow> nat option \<times> nat option \<times> recorder \<Rightarrow> (nat option \<times> nat option \<times> recorder) option" where
  "record_mismatch growth delta64 = (\<lambda>(high, low, s).
     if delta64 \<noteq> 0 then
       (let d = signed_take_bit 31 delta64; d = (if d \<noteq> delta64 then kSampleType_MAX else d)
        in if d > 0 then
             map_option (\<lambda>(high, s). (high, low, s))
               (HISTOGRAM_COUNTS growth ''Histogram.InconsistentCountHigh'' d (high, s))
           else
             map_option (\<lambda>(low, s). (high, low, s))
               (HISTOGRAM_COUNTS growth ''Histogram.InconsistentCountLow'' (- d) (low, s)))
     else Some (high, low, s))"

end
