(* ===== verification/Histogram_Checksum.thy ===== *)
theory Histogram_Checksum
  imports Histogram
begin

text \<open>
  The table-driven checksum of src/chromium/metrics/histogram.cc is the CRC-32 of the ranges, computed bit by
  bit, and it changes whenever one bound changes.
\<close>

unbundle bit_operations_syntax

section \<open>The checksum\<close>

text \<open>One step of the bitwise division by the reversed polynomial.\<close>

definition crc_shift :: "u32 \<Rightarrow> u32" where
  "crc_shift c = (if bit c 0 then drop_bit 1 c XOR 0xedb88320 else drop_bit 1 c)"

lemma crc_shift_xor: "crc_shift (x XOR y) = crc_shift x XOR crc_shift y"
  by (cases "bit x 0"; cases "bit y 0")
    (simp_all add: crc_shift_def bit_xor_iff drop_bit_xor xor.assoc xor.left_commute xor.commute del: bit_0)

lemma crc_shift_pow_xor: "(crc_shift ^^ n) (x XOR y) = (crc_shift ^^ n) x XOR (crc_shift ^^ n) y"
  by (induction n) (simp_all add: crc_shift_xor)

lemma crc_shift_pow_low: "take_bit n x = 0 \<Longrightarrow> (crc_shift ^^ n) x = drop_bit n x"
proof (induction n arbitrary: x)
  case (Suc n)
  have "\<not> bit (take_bit (Suc n) x) 0" unfolding Suc.prems by simp
  then have "\<not> bit x 0" by (simp only: bit_take_bit_iff) simp
  moreover have "take_bit n (drop_bit 1 x) = 0"
  proof -
    have "take_bit n (drop_bit 1 x) = drop_bit 1 (take_bit (Suc n) x)" by (simp only: take_bit_drop_bit) simp
    then show ?thesis using Suc.prems by simp
  qed
  ultimately show ?case
    using Suc.IH [of "drop_bit 1 x"] by (simp add: funpow_Suc_right crc_shift_def del: funpow.simps bit_0)
qed simp

text \<open>The table is built by doubling: an index 2 i + 1 has the bits of 2 i and the lowest one.\<close>

primrec crc_row :: "nat \<Rightarrow> u32 list" where
  "crc_row 0 = [0]"
| "crc_row (Suc k) = concat (map (\<lambda>t. [t, t XOR (crc_shift ^^ Suc k) 1]) (crc_row k))"

lemma even_double: "\<not> bit (of_nat (2 * i) :: u32) 0"
  by (simp only: bit_0 of_nat_mult) simp

lemma crc_shift_double: "i < 2 ^ 31 \<Longrightarrow> crc_shift (of_nat (2 * i)) = of_nat i"
proof -
  assume i: "i < 2 ^ 31"
  have u: "unat (of_nat (2 * i) :: u32) = 2 * i" "unat (of_nat i :: u32) = i"
    using i by (simp_all add: unat_of_nat take_bit_eq_mod del: of_nat_mult)
  have "drop_bit 1 (of_nat (2 * i) :: u32) = of_nat i"
    by (rule word_unat_eq_iff [THEN iffD2]) (simp only: unat_drop_bit_eq u, simp add: drop_bit_Suc)
  then show ?thesis using even_double [of i] by (simp add: crc_shift_def del: bit_0 of_nat_mult)
qed

lemma crc_shift_pow_double:
  "i < 2 ^ 31 \<Longrightarrow> (crc_shift ^^ Suc k) (of_nat (2 * i)) = (crc_shift ^^ k) (of_nat i)"
  using crc_shift_double [of i] by (simp add: funpow_Suc_right del: funpow.simps of_nat_mult)

lemma of_nat_odd_xor: "(of_nat (2 * i + 1) :: u32) = of_nat (2 * i) XOR 1"
  using even_double [of i] by (simp add: xor_one_eq)

lemma upt_double: "[0 ..< 2 * n] = concat (map (\<lambda>i. [2 * i, 2 * i + 1]) [0 ..< n])"
  by (induction n) simp_all

lemma crc_row_eq: "k \<le> 31 \<Longrightarrow> crc_row k = map (\<lambda>i. (crc_shift ^^ k) (of_nat i)) [0 ..< 2 ^ k]"
proof (induction k)
  case (Suc k)
  have *: "i < 2 ^ 31" if "i < 2 ^ k" for i :: nat
    using that Suc.prems power_increasing [of k 31 "2::nat"] by simp
  have "map (\<lambda>i. (crc_shift ^^ Suc k) (of_nat i)) [0 ..< 2 ^ Suc k]
      = concat (map (\<lambda>i. [(crc_shift ^^ Suc k) (of_nat (2 * i)), (crc_shift ^^ Suc k) (of_nat (2 * i + 1))]) [0 ..< 2 ^ k])"
    by (simp only: power_Suc upt_double map_concat map_map comp_def list.map)
  also have "\<dots> = concat (map (\<lambda>i. [(crc_shift ^^ k) (of_nat i), (crc_shift ^^ k) (of_nat i) XOR (crc_shift ^^ Suc k) 1]) [0 ..< 2 ^ k])"
    by (rule arg_cong [where f = concat], rule map_cong [OF refl])
      (simp only: of_nat_odd_xor crc_shift_pow_xor crc_shift_pow_double * atLeastLessThan_iff atLeast_upt set_upt)
  finally show ?case
    using Suc by (simp add: comp_def del: funpow.simps)
qed simp

lemma crc_shift_one:
  "crc_shift 1 = 0xedb88320" "crc_shift 0xedb88320 = 0x76dc4190" "crc_shift 0x76dc4190 = 0x3b6e20c8"
  "crc_shift 0x3b6e20c8 = 0x1db71064" "crc_shift 0x1db71064 = 0x0edb8832"
  "crc_shift 0x0edb8832 = 0x076dc419" "crc_shift 0x076dc419 = 0xee0e612c"
  "crc_shift 0xee0e612c = 0x77073096"
  by code_simp+

lemma kCrcTable_eq: "kCrcTable = map (\<lambda>i. (crc_shift ^^ 8) (of_nat i)) [0 ..< 256]"
proof -
  have "kCrcTable = crc_row 8" by (simp add: kCrcTable_def numeral_eq_Suc crc_shift_one)
  then show ?thesis using crc_row_eq [of 8] by simp
qed

lemma word_split_xor: "(z :: u32) = take_bit n z XOR push_bit n (drop_bit n z)"
  by (rule bit_eqI) (auto simp: bit_simps)

lemma drop_push: "drop_bit n (push_bit n (drop_bit n (z :: u32))) = drop_bit n z"
  by (rule bit_eqI) (auto simp: bit_simps dest: bit_imp_le_length)

lemma crc_byte_eq: "unat byte < 256 \<Longrightarrow> crc_byte crc byte = (crc_shift ^^ 8) (crc XOR byte)"
proof -
  assume b: "unat byte < 256"
  let ?z = "crc XOR byte" and ?lo = "(crc AND 0xff) XOR byte"
  have tb: "take_bit 8 byte = byte"
    using b by (simp add: word_unat_eq_iff unsigned_take_bit_eq take_bit_nat_eq_self)
  have m: "c AND 0xff = take_bit 8 c" for c :: u32
    by (simp add: take_bit_eq_mask mask_eq_exp_minus_1)
  have lo: "?lo = take_bit 8 ?z" by (simp add: m tb)
  have lt: "unat (take_bit 8 ?z) < 256"
    using take_bit_nat_less_exp [of 8 "unat ?z"] by (simp only: unsigned_take_bit_eq) simp
  have hi: "drop_bit 8 ?z = drop_bit 8 crc"
  proof -
    have "drop_bit 8 byte = drop_bit 8 (take_bit 8 byte)" by (simp only: tb)
    also have "\<dots> = 0" by (simp only: drop_bit_take_bit) simp
    finally show ?thesis by (simp add: drop_bit_xor)
  qed
  have "(crc_shift ^^ 8) ?z = (crc_shift ^^ 8) (take_bit 8 ?z) XOR (crc_shift ^^ 8) (push_bit 8 (drop_bit 8 ?z))"
    by (subst word_split_xor [of ?z 8]) (rule crc_shift_pow_xor)
  also have "(crc_shift ^^ 8) (push_bit 8 (drop_bit 8 ?z)) = drop_bit 8 (push_bit 8 (drop_bit 8 ?z))"
    by (rule crc_shift_pow_low) (simp only: take_bit_push_bit, simp)
  also have "\<dots> = drop_bit 8 ?z" by (rule drop_push)
  also have "\<dots> = drop_bit 8 crc" by (rule hi)
  also have "(crc_shift ^^ 8) (take_bit 8 ?z) = kCrcTable ! unat (take_bit 8 ?z)"
    using lt by (simp add: kCrcTable_eq del: take_bit_xor)
  finally show ?thesis by (simp only: crc_byte_def lo)
qed

text \<open>Feeding a word byte by byte divides the word as a whole.\<close>

definition crc_word :: "u32 \<Rightarrow> int \<Rightarrow> u32" where
  "crc_word crc x = (crc_shift ^^ 32) (crc XOR word_of_int x)"

lemma crc_shift_byte:
  "(crc_shift ^^ 8) (c XOR w) = (crc_shift ^^ 8) (c XOR (w AND 0xff)) XOR drop_bit 8 w"
proof -
  have m: "w AND 0xff = take_bit 8 w"
    by (simp add: take_bit_eq_mask mask_eq_exp_minus_1)
  have "c XOR w = (c XOR take_bit 8 w) XOR push_bit 8 (drop_bit 8 w)"
    by (subst word_split_xor [of w 8]) (simp only: xor.assoc)
  moreover have "(crc_shift ^^ 8) (push_bit 8 (drop_bit 8 w)) = drop_bit 8 (push_bit 8 (drop_bit 8 w))"
    by (rule crc_shift_pow_low) (simp only: take_bit_push_bit, simp)
  moreover note drop_push [of 8 w]
  ultimately show ?thesis by (simp only: crc_shift_pow_xor m)
qed

lemma crc_byte_word:
  "crc_byte c (w AND 0xff) XOR drop_bit 8 w = (crc_shift ^^ 8) (c XOR w)"
proof -
  have "unat (w AND 0xff) < 256"
  proof -
    have "w AND 0xff = take_bit 8 w" by (simp add: take_bit_eq_mask mask_eq_exp_minus_1)
    then show ?thesis using take_bit_nat_less_exp [of 8 "unat w"] by (simp only: unsigned_take_bit_eq) simp
  qed
  then show ?thesis by (simp only: crc_byte_eq crc_shift_byte [of c w])
qed

lemma Crc32_eq: "Crc32 crc x = crc_word crc x"
proof -
  define w where "w = (word_of_int x :: u32)"
  let ?b = "\<lambda>i. sample_byte x i" and ?s = "crc_shift ^^ 8"
  have b: "?b i = drop_bit (8 * i) w AND 0xff" for i by (simp add: sample_byte_def w_def)
  have step: "?s (c XOR drop_bit (8 * i) w) = crc_byte c (?b i) XOR drop_bit (8 * (i + 1)) w" for c i
    by (simp only: b crc_byte_word [symmetric] drop_bit_drop_bit) (simp add: add.commute)
  have end0: "drop_bit (8 * (3 + 1)) w = 0" by simp
  have p: "(crc_shift ^^ 32) v = ?s (?s (?s (?s v)))" for v
    by (simp add: funpow_add [THEN fun_cong, unfolded comp_def, symmetric])
  have "crc_word crc x = ?s (?s (?s (?s (crc XOR drop_bit (8 * 0) w))))"
    by (simp add: crc_word_def p w_def)
  also have "\<dots> = crc_byte (crc_byte (crc_byte (crc_byte crc (?b 0)) (?b 1)) (?b 2)) (?b 3)"
    by (simp only: step [of _ 0] step [of _ "0 + 1"] step [of _ "0 + 1 + 1"] step [of _ "0 + 1 + 1 + 1"]) (simp add: numeral_eq_Suc)
  finally show ?thesis by (simp add: Crc32_def)
qed

lemma CalculateRangeChecksum_eq:
  "CalculateRangeChecksum n ranges = foldl crc_word (of_nat (length ranges)) (take n ranges)"
  by (simp add: CalculateRangeChecksum_def Crc32_eq fun_eq_iff [THEN iffD2, OF allI] cong: foldl_cong)

lemma xor_0_eqD: "a XOR b = 0 \<Longrightarrow> a = (b :: u32)"
proof -
  assume "a XOR b = 0"
  then have "(a XOR b) XOR b = b" by simp
  then show ?thesis by (simp add: xor.assoc)
qed

lemma xor_right_cancel: "a XOR c = b XOR c \<Longrightarrow> a = (b :: u32)"
proof -
  assume "a XOR c = b XOR c"
  then have "(a XOR c) XOR c = (b XOR c) XOR c" by simp
  then show ?thesis by (simp add: xor.assoc)
qed

lemma crc_shift_0: "crc_shift x = 0 \<Longrightarrow> x = 0"
proof -
  assume z: "crc_shift x = 0"
  have nb: "\<not> bit x 0"
  proof
    assume "bit x 0"
    then have "drop_bit 1 x = 0xedb88320"
      using z by (simp add: crc_shift_def xor_0_eqD del: bit_0)
    then have "bit (drop_bit 1 x) 31" by simp
    then show False by (auto simp: bit_simps dest: bit_imp_le_length)
  qed
  have "\<not> bit x n" for n
  proof (cases n)
    case (Suc m)
    have "drop_bit 1 x = 0" using z nb by (simp add: crc_shift_def del: bit_0)
    then have "\<not> bit (drop_bit 1 x) m" by simp
    then show ?thesis by (simp add: bit_simps Suc)
  qed (simp add: nb del: bit_0)
  then show ?thesis by (simp add: bit_eq_iff)
qed

lemma crc_shift_pow_inject: "(crc_shift ^^ n) x = (crc_shift ^^ n) y \<longleftrightarrow> x = y"
proof
  have z: "(crc_shift ^^ n) z = 0 \<Longrightarrow> z = 0" for z by (induction n) (auto dest: crc_shift_0)
  assume "(crc_shift ^^ n) x = (crc_shift ^^ n) y"
  then have "(crc_shift ^^ n) (x XOR y) = 0" by (simp add: crc_shift_pow_xor)
  then show "x = y" using z xor_0_eqD by blast
qed simp

lemma crc_word_inject1: "crc_word c x = crc_word d x \<longleftrightarrow> c = d"
  using xor_right_cancel by (auto simp: crc_word_def crc_shift_pow_inject)

lemma crc_fold_inject: "foldl crc_word c xs = foldl crc_word d xs \<longleftrightarrow> c = d"
  by (induction xs arbitrary: c d) (auto simp: crc_word_inject1)

text \<open>Distinct ints are distinct words.\<close>

definition fits_int :: "int \<Rightarrow> bool" where
  "fits_int x = (- 2147483648 \<le> x \<and> x \<le> 2147483647)"

lemma int_word_inject:
  assumes "fits_int x" "fits_int y" "word_of_int x = (word_of_int y :: u32)" shows "x = y"
proof -
  have "sint (word_of_int x :: u32) = sint (word_of_int y :: u32)" using assms(3) by simp
  then show ?thesis
    using assms(1,2) by (simp add: sint_sbintrunc' fits_int_def signed_take_bit_int_eq_self)
qed

text \<open>C26: The checksum of the ranges is their CRC-32, computed bit by bit with the reversed polynomial
  0xEDB88320 over the bucket count bounds, starting from the size of the vector.\<close>

theorem range_checksum_is_crc32:
  "CalculateRangeChecksum n ranges = foldl crc_word (of_nat (length ranges)) (take n ranges)"
  by (rule CalculateRangeChecksum_eq)

text \<open>C27: The checksum changes whenever a single bound changes, to another int, whose index is below the number
  of buckets n: a corrupt bound among these is always found. The last bound, at index n, which should be INT_MAX, is not
  covered: the checksum is the same whatever it is.\<close>

theorem range_checksum_detects_a_change:
  assumes "j < n" "j < length ranges" "fits_int (ranges ! j)" "fits_int v" "v \<noteq> ranges ! j"
  shows "CalculateRangeChecksum n (ranges[j := v]) \<noteq> CalculateRangeChecksum n ranges \<and>
     CalculateRangeChecksum n (ranges[n := w]) = CalculateRangeChecksum n ranges"
proof -
  let ?L = "of_nat (length ranges)" and ?rest = "take (n - Suc j) (drop (Suc j) ranges)"
  have ne: "crc_word c v \<noteq> crc_word c (ranges ! j)" for c
  proof
    assume "crc_word c v = crc_word c (ranges ! j)"
    then have "word_of_int v XOR c = word_of_int (ranges ! j) XOR c"
      by (simp add: crc_word_def crc_shift_pow_inject xor.commute)
    then show False using int_word_inject [OF assms(4,3)] assms(5) xor_right_cancel by blast
  qed
  have t: "take n ranges = take j ranges @ ranges ! j # ?rest"
    using assms(1,2) by (subst id_take_nth_drop [of j ranges]) (simp_all add: take_Cons')
  have u: "take n (ranges[j := v]) = take j ranges @ v # ?rest"
    using assms(1,2) by (subst upd_conv_take_nth_drop) (simp_all add: take_Cons')
  have "CalculateRangeChecksum n (ranges[j := v]) \<noteq> CalculateRangeChecksum n ranges"
    unfolding CalculateRangeChecksum_eq t u by (simp add: crc_fold_inject ne)
  moreover have "CalculateRangeChecksum n (ranges[n := w]) = CalculateRangeChecksum n ranges"
    by (simp add: CalculateRangeChecksum_def)
  ultimately show ?thesis by blast
qed

lemma range_checksum_detects_a_change_witness:
  "CalculateRangeChecksum 3 ([0, 5, 10, 2147483647] [2 := 11]) \<noteq> CalculateRangeChecksum 3 [0, 5, 10, 2147483647] \<and>
   CalculateRangeChecksum 3 ([0, 5, 10, 2147483647] [3 := 12]) = CalculateRangeChecksum 3 [0, 5, 10, 2147483647]"
  by (rule range_checksum_detects_a_change) (simp_all add: fits_int_def)

end
