(* ===== verification/Histogram_Props.thy ===== *)
theory Histogram_Props
  imports Histogram_Checksum Complex_Main
begin

text \<open>
  The three bucket layouts give strictly increasing ranges from 0 to INT_MAX, the search finds
  the one bucket of a sample, and a histogram counts what it was given and is never
  reported as corrupt.
\<close>

section \<open>Layouts\<close>

text \<open>What every layout owes to the search: n buckets, the first from 0, the last up to INT_MAX.\<close>

definition good_ranges :: "nat \<Rightarrow> int list \<Rightarrow> bool" where
  "good_ranges n rs \<longleftrightarrow> length rs = n + 1 \<and> rs ! 0 = 0 \<and> rs ! n = kSampleType_MAX \<and> sorted_wrt (<) rs"

lemma good_rangesI:
  assumes "length rs = n + 1" "rs ! 0 = 0" "rs ! n = kSampleType_MAX" "\<And>i. i < n \<Longrightarrow> rs ! i < rs ! Suc i"
  shows "good_ranges n rs"
  using assms by (auto simp: good_ranges_def sorted_wrt_iff_nth_Suc_transp)

text \<open>A layout in progress: the buckets up to i are laid out, the next ones may still be anything.\<close>

definition laid_out :: "nat \<Rightarrow> nat \<Rightarrow> int list \<Rightarrow> bool" where
  "laid_out n i rs \<longleftrightarrow> length rs = n + 1 \<and> i < n \<and> rs ! 0 = 0 \<and> rs ! n = kSampleType_MAX \<and>
     (\<forall>j < i. rs ! j < rs ! Suc j)"

lemma laid_out_step:
  "laid_out n i rs \<Longrightarrow> Suc i < n \<Longrightarrow> rs ! i < v \<Longrightarrow> laid_out n (Suc i) (rs[Suc i := v])"
  by (auto simp: laid_out_def nth_list_update less_Suc_eq)

lemma laid_out_done:
  "laid_out n i rs \<Longrightarrow> Suc i = n \<Longrightarrow> rs ! i < kSampleType_MAX \<Longrightarrow> good_ranges n rs"
  by (rule good_rangesI) (auto simp: laid_out_def less_Suc_eq)

lemma SetBucketRange_Some:
  "i < length (cr_ranges r) \<Longrightarrow> SetBucketRange i v r = Some (r\<lparr>cr_ranges := (cr_ranges r)[i := v]\<rparr>)"
  by (simp add: SetBucketRange_def put_at_def)

lemma elem_at_Some: "i < length xs \<Longrightarrow> elem_at xs i = Some (xs ! i)"
  by (simp add: elem_at_def)

subsection \<open>Exponential\<close>

text \<open>What the layout relies on of the floating point step: it goes up by at most the average step to the
  maximum, rounded to the nearest integer, and the last step reaches the maximum.\<close>

locale bucket_growth =
  fixes growth :: "int \<Rightarrow> int \<Rightarrow> nat \<Rightarrow> int"
  assumes growth_bound: "1 \<le> c \<Longrightarrow> c \<le> m \<Longrightarrow> 1 \<le> k \<Longrightarrow>
      2 * int k * growth c m k \<le> 2 * int k * c + 2 * (m - c) + int k"
    and growth_last: "1 \<le> c \<Longrightarrow> c \<le> m \<Longrightarrow> growth c m 1 = m"
begin

text \<open>Every bucket left over still has a sample of its own.\<close>

lemma growth_room:
  assumes "1 \<le> c" "int k \<le> m - c" "1 \<le> k"
  shows "growth c m k \<le> m - (int k - 1)"
proof (rule ccontr)
  assume "\<not> ?thesis"
  then have g: "growth c m k - c \<ge> m - c - int k + 2" by simp
  let ?e = "m - c - int k"
  have "2 * int k * (?e + 2) \<le> 2 * int k * (growth c m k - c)"
    using g assms by (intro mult_left_mono) auto
  also have "\<dots> \<le> 2 * (m - c) + int k"
    using growth_bound [of c m k] assms by (simp add: algebra_simps)
  finally have "2 * int k * ?e + int k \<le> 2 * ?e" by (simp add: algebra_simps)
  moreover have "1 * ?e \<le> int k * ?e" using assms by (intro mult_right_mono) auto
  ultimately show False using assms by simp
qed

lemma exponential_loop_ok:
  assumes "laid_out n i (cr_ranges r)" "c = cr_ranges r ! i" "1 \<le> c" "int n - 1 - int i \<le> m - c"
    "Suc i = n \<Longrightarrow> c = m" "m < kSampleType_MAX" "1 \<le> i"
  shows "\<exists>r'. exponential_loop growth m n i c r = Some r' \<and> good_ranges n (cr_ranges r') \<and>
     cr_ranges r' ! 1 = cr_ranges r ! 1 \<and> cr_ranges r' ! (n - 1) = m \<and> cr_checksum r' = cr_checksum r"
  using assms
proof (induction "n - i" arbitrary: i c r rule: less_induct)
  case less
  note L = less.prems
  show ?case
  proof (cases "n > i + 1")
    case False
    then have "Suc i = n" using L(1) by (auto simp: laid_out_def)
    then show ?thesis
      using L laid_out_done [OF L(1)] by (auto simp: exponential_loop.simps)
  next
    case True
    let ?k = "n - (i + 1)" and ?new = "growth c m (n - (i + 1))"
    define c' where "c' = (if ?new > c then ?new else c + 1)"
    define r' where "r' = r\<lparr>cr_ranges := (cr_ranges r)[i + 1 := c']\<rparr>"
    have k: "1 \<le> ?k" "int ?k \<le> m - c" "int ?k = int n - 1 - int i"
      using True L(4) by auto
    have "?new \<le> m - (int ?k - 1)" using growth_room L(3) k by blast
    then have c': "c < c'" "int n - 1 - int (i + 1) \<le> m - c'"
      using k L(4) by (auto simp: c'_def)
    have last: "c' = m" if "Suc (i + 1) = n"
    proof -
      have "?k = 1" using that by simp
      then have "?new = m" using growth_last [of c m] L(3) k by simp
      then show ?thesis using k by (simp add: c'_def)
    qed
    have len: "i + 1 < length (cr_ranges r)" using L(1) True by (simp add: laid_out_def)
    have "\<exists>r''. exponential_loop growth m n (i + 1) c' r' = Some r'' \<and> good_ranges n (cr_ranges r'') \<and>
        cr_ranges r'' ! 1 = cr_ranges r' ! 1 \<and> cr_ranges r'' ! (n - 1) = m \<and> cr_checksum r'' = cr_checksum r'"
    proof (rule less.hyps)
      show "n - (i + 1) < n - i" using True by simp
      show "laid_out n (i + 1) (cr_ranges r')"
        using laid_out_step [OF L(1)] True c' L(2) by (simp add: r'_def)
      show "c' = cr_ranges r' ! (i + 1)" using len by (simp add: r'_def)
    qed (use L c' last in auto)
    moreover have "exponential_loop growth m n i c r = exponential_loop growth m n (i + 1) c' r'"
      using True len by (subst exponential_loop.simps) (simp add: SetBucketRange_Some c'_def r'_def Let_def)
    moreover have "cr_ranges r' ! 1 = cr_ranges r ! 1" "cr_checksum r' = cr_checksum r"
      using L(7) by (simp_all add: r'_def)
    ultimately show ?thesis by simp
  qed
qed

end

text \<open>A histogram and its ranges are ready for samples.\<close>

definition ready :: "Histogram \<Rightarrow> CachedRanges \<Rightarrow> bool" where
  "ready h r \<longleftrightarrow> ValidateBucketRanges h r \<and> good_ranges (bucket_count h) (cr_ranges r) \<and>
     HasValidRangeChecksum h r \<and> 1 < bucket_count h \<and> ss_counts (h_sample h) = replicate (bucket_count h) 0 \<and>
     ss_sum (h_sample h) = 0 \<and> ss_redundant (h_sample h) = 0"

definition fresh_histogram :: "ClassType \<Rightarrow> string \<Rightarrow> int \<Rightarrow> int \<Rightarrow> nat \<Rightarrow> nat \<Rightarrow> Histogram" where
  "fresh_histogram ty name minimum maximum n a =
     \<lparr>histogram_name = name, histogram_type = ty, declared_min = minimum, declared_max = maximum,
      bucket_count = n, h_flags = kNoFlags, cached_ranges = a, range_checksum = 0,
      h_sample = Resize n new_SampleSet, bucket_description = []\<rparr>"

definition blank_ranges :: "nat \<Rightarrow> int list" where
  "blank_ranges n = (replicate (n + 1) 0)[n := kSampleType_MAX]"

lemma length_blank_ranges [simp]: "length (blank_ranges n) = n + 1"
  by (simp add: blank_ranges_def del: replicate_Suc)

lemma nth_blank_ranges: "i \<le> n \<Longrightarrow> blank_ranges n ! i = (if i = n then kSampleType_MAX else 0)"
  by (simp add: blank_ranges_def nth_list_update del: replicate_Suc)

definition fresh_ranges :: "nat \<Rightarrow> CachedRanges" where
  "fresh_ranges n = \<lparr>cr_ranges = blank_ranges n, cr_checksum = 0\<rparr>"

lemma new_Histogram_eq:
  "1 \<le> mn \<Longrightarrow> mx \<le> kSampleType_MAX - 1 \<Longrightarrow> n < kBucketCount_MAX \<Longrightarrow>
   new_Histogram ty name mn mx n a = Some (fresh_histogram ty name mn mx n a, fresh_ranges n)"
  by (simp add: new_Histogram_def Initialize_def new_CachedRanges_def SetBucketRange_def put_at_def
      fresh_histogram_def fresh_ranges_def blank_ranges_def del: replicate_Suc)

lemma ready_fresh:
  assumes "good_ranges n (cr_ranges r)" "cr_ranges r ! 1 = mn" "cr_ranges r ! (n - 1) = mx" "1 < n"
    "p = ResetRangeChecksum (fresh_histogram ty name mn mx n a, r)"
  shows "ready (fst p) (snd p)"
  using assms
  by (auto simp: ready_def ValidateBucketRanges_def HasValidRangeChecksum_def ResetRangeChecksum_def
      fresh_histogram_def good_ranges_def elem_at_Some Resize_def new_SampleSet_def)

lemma laid_out_fresh:
  "2 < n \<Longrightarrow> 1 \<le> mn \<Longrightarrow> laid_out n 1 ((cr_ranges (fresh_ranges n))[1 := mn])"
  by (auto simp: laid_out_def fresh_ranges_def nth_list_update nth_blank_ranges)

lemma exponential_ready:
  assumes g: "bucket_growth growth" and mn: "1 \<le> mn" and mx: "mn < mx" "mx \<le> kSampleType_MAX - 1"
    and n: "2 < n" "int n \<le> mx - mn + 2" "n < kBucketCount_MAX"
  shows "\<exists>h r. Option.bind (new_Histogram HISTOGRAM name mn mx n a) (InitializeBucketRange growth) = Some (h, r) \<and>
     ready h r"
proof -
  let ?h = "fresh_histogram HISTOGRAM name mn mx n a"
  let ?r = "fresh_ranges n\<lparr>cr_ranges := (cr_ranges (fresh_ranges n))[1 := mn]\<rparr>"
  obtain r' where r': "exponential_loop growth mx n 1 mn ?r = Some r'" "good_ranges n (cr_ranges r')"
      "cr_ranges r' ! 1 = mn" "cr_ranges r' ! (n - 1) = mx"
    using bucket_growth.exponential_loop_ok [OF g, of n 1 ?r mn mx] laid_out_fresh [of n mn] assms
    by (auto simp: fresh_ranges_def nth_list_update)
  have "SetBucketRange 1 mn (fresh_ranges n) = Some ?r"
    using n by (simp add: SetBucketRange_Some fresh_ranges_def)
  then have "Option.bind (new_Histogram HISTOGRAM name mn mx n a) (InitializeBucketRange growth)
      = Some (ResetRangeChecksum (?h, r'))"
    using mn mx n(3) r'(1) by (simp add: new_Histogram_eq InitializeBucketRange_def fresh_histogram_def)
  then show ?thesis using ready_fresh [OF r'(2-4) _ refl, of HISTOGRAM name a] n
    by (metis less_trans numeral_2_eq_2 prod.collapse lessI One_nat_def)
qed

text \<open>The step of the source in exact arithmetic.\<close>

definition exact_growth :: "int \<Rightarrow> int \<Rightarrow> nat \<Rightarrow> int" where
  "exact_growth current maximum n =
     \<lfloor>exp (ln (real_of_int current) + (ln (real_of_int maximum) - ln (real_of_int current)) / real n) + 1 / 2\<rfloor>"

interpretation exact: bucket_growth exact_growth
proof
  fix c m :: int and k :: nat
  assume c: "1 \<le> c" "c \<le> m"
  {
    assume k: "1 \<le> k"
    let ?q = "(ln (real_of_int m) - ln (real_of_int c)) / real k" and ?C = "real_of_int c"
    have e: "exp (ln ?C + ?q) = ?C * exp ?q" using c by (simp add: exp_add)
    have pw: "exp ?q ^ k = real_of_int m / ?C"
      using k c by (simp add: exp_of_nat_mult [symmetric] exp_diff)
    have "1 + real k * (exp ?q - 1) \<le> (1 + (exp ?q - 1)) ^ k"
      by (rule Bernoulli_inequality) simp
    then have "real k * (exp ?q - 1) \<le> real_of_int m / ?C - 1" using pw by simp
    then have "?C * (real k * (exp ?q - 1)) \<le> ?C * (real_of_int m / ?C - 1)"
      using c by (intro mult_left_mono) auto
    then have b: "real k * (?C * exp ?q) \<le> real k * ?C + (real_of_int m - ?C)"
      using c by (simp add: algebra_simps)
    have "real_of_int (exact_growth c m k) \<le> ?C * exp ?q + 1 / 2"
      unfolding exact_growth_def e [symmetric] by (rule of_int_floor_le)
    then have "2 * real k * real_of_int (exact_growth c m k) \<le> 2 * real k * (?C * exp ?q + 1 / 2)"
      by (intro mult_left_mono) auto
    also have "\<dots> \<le> 2 * (real k * ?C + (real_of_int m - ?C)) + real k"
      using b by (simp add: algebra_simps)
    finally have "real_of_int (2 * int k * exact_growth c m k) \<le> real_of_int (2 * int k * c + 2 * (m - c) + int k)"
      by (simp add: algebra_simps)
    then show "2 * int k * exact_growth c m k \<le> 2 * int k * c + 2 * (m - c) + int k"
      by (simp only: of_int_le_iff)
  }
  show "exact_growth c m 1 = m"
    using c by (simp add: exact_growth_def)
qed

subsection \<open>Linear\<close>

lemma linear_round: "0 < d \<Longrightarrow> (2 * (m * d) + d) div (2 * d) = (m :: int)"
  by (rule int_div_pos_eq [where r = d]) (auto simp: algebra_simps)

lemma linear_range_first: "2 < n \<Longrightarrow> linear_range mn mx n 1 = Some mn"
  using linear_round [of "int n - 2" mn] by (simp add: linear_range_def Let_def)

lemma linear_range_last: "2 < n \<Longrightarrow> linear_range mn mx n (n - 1) = Some mx"
  using linear_round [of "int n - 2" mx] by (simp add: linear_range_def Let_def of_nat_diff)

lemma linear_range_mono:
  assumes "2 < n" "int n \<le> mx - mn + 2"
  shows "\<exists>v w. linear_range mn mx n i = Some v \<and> linear_range mn mx n (Suc i) = Some w \<and> v < w"
proof -
  let ?d = "int n - 2" and ?p = "\<lambda>i. mn * (int n - 1 - int i) + mx * (int i - 1)"
  have "?p (Suc i) = ?p i + (mx - mn)" by (simp add: algebra_simps)
  then have "2 * ?p i + ?d + 2 * ?d \<le> 2 * ?p (Suc i) + ?d" using assms(2) by simp
  then have "(2 * ?p i + ?d + 2 * ?d) div (2 * ?d) \<le> (2 * ?p (Suc i) + ?d) div (2 * ?d)"
    using assms(1) by (intro zdiv_mono1) auto
  moreover have "(2 * ?p i + ?d + 2 * ?d) div (2 * ?d) = (2 * ?p i + ?d) div (2 * ?d) + 1"
    using assms(1) by (subst div_add_self2) auto
  ultimately show ?thesis using assms(1) by (simp add: linear_range_def Let_def)
qed

lemma linear_loop_ok:
  assumes "2 < n" "int n \<le> mx - mn + 2" "1 \<le> i" "laid_out n i (cr_ranges r)"
    "linear_range mn mx n i = Some (cr_ranges r ! i)"
  shows "\<exists>r'. linear_loop mn mx n [Suc i ..< n] r = Some r' \<and> laid_out n (n - 1) (cr_ranges r') \<and>
     linear_range mn mx n (n - 1) = Some (cr_ranges r' ! (n - 1)) \<and> cr_ranges r' ! 1 = cr_ranges r ! 1"
  using assms
proof (induction "n - i" arbitrary: i r rule: less_induct)
  case less
  show ?case
  proof (cases "Suc i < n")
    case False
    then have "n - 1 = i" using less.prems(4) by (auto simp: laid_out_def)
    then show ?thesis using less.prems False by auto
  next
    case True
    obtain w where w: "linear_range mn mx n (Suc i) = Some w" "cr_ranges r ! i < w"
      using linear_range_mono [OF less.prems(1,2), of i] less.prems(5) by auto
    let ?r = "r\<lparr>cr_ranges := (cr_ranges r)[Suc i := w]\<rparr>"
    have len: "Suc i < length (cr_ranges r)" using True less.prems(4) by (simp add: laid_out_def)
    have "\<exists>r'. linear_loop mn mx n [Suc (Suc i) ..< n] ?r = Some r' \<and> laid_out n (n - 1) (cr_ranges r') \<and>
       linear_range mn mx n (n - 1) = Some (cr_ranges r' ! (n - 1)) \<and> cr_ranges r' ! 1 = cr_ranges ?r ! 1"
      using True less.prems laid_out_step [OF less.prems(4) True w(2)] w(1) len
      by (intro less.hyps) auto
    moreover have "[Suc i ..< n] = Suc i # [Suc (Suc i) ..< n]" using True by (rule upt_conv_Cons)
    moreover have "cr_ranges ?r ! 1 = cr_ranges r ! 1" using less.prems(3) by simp
    ultimately show ?thesis
      using len w(1) by (simp add: SetBucketRange_Some)
  qed
qed

lemma linear_ready:
  assumes "1 \<le> mn" "mn < mx" "mx \<le> kSampleType_MAX - 1" "2 < n" "int n \<le> mx - mn + 2" "n < kBucketCount_MAX"
  shows "\<exists>h r. Option.bind (new_Histogram ty name mn mx n a) Linear_InitializeBucketRange = Some (h, r) \<and> ready h r"
proof -
  let ?h = "fresh_histogram ty name mn mx n a"
  let ?r = "fresh_ranges n\<lparr>cr_ranges := (cr_ranges (fresh_ranges n))[1 := mn]\<rparr>"
  obtain r' where r': "linear_loop mn mx n [Suc 1 ..< n] ?r = Some r'" "laid_out n (n - 1) (cr_ranges r')"
      "linear_range mn mx n (n - 1) = Some (cr_ranges r' ! (n - 1))" "cr_ranges r' ! 1 = mn"
    using linear_loop_ok [of n mx mn 1 ?r] assms linear_range_first laid_out_fresh [of n mn]
    by (auto simp: fresh_ranges_def)
  have mx: "cr_ranges r' ! (n - 1) = mx" using r'(3) linear_range_last [OF assms(4), of mn mx] by (simp only: option.inject)
  have "[1 ..< n] = 1 # [Suc 1 ..< n]" using assms(4) by (simp add: upt_conv_Cons)
  then have "linear_loop mn mx n [1 ..< n] (fresh_ranges n) = Some r'"
    using r'(1) assms(4) linear_range_first [of n mn mx] by (simp add: SetBucketRange_Some fresh_ranges_def)
  then have run: "Option.bind (new_Histogram ty name mn mx n a) Linear_InitializeBucketRange
      = Some (ResetRangeChecksum (?h, r'))"
    using assms by (simp add: new_Histogram_eq Linear_InitializeBucketRange_def fresh_histogram_def)
  have "good_ranges n (cr_ranges r')"
    using laid_out_done [OF r'(2)] mx assms by simp
  then show ?thesis
    using ready_fresh [OF _ r'(4) mx _ refl, of ty name a] assms(4) run by (metis One_nat_def Suc_1 less_trans lessI prod.collapse)
qed

subsection \<open>Custom\<close>

lemma custom_loop_eq:
  "k + length vs \<le> length (cr_ranges r) \<Longrightarrow>
   custom_loop k vs r = Some (r\<lparr>cr_ranges := take k (cr_ranges r) @ vs @ drop (k + length vs) (cr_ranges r)\<rparr>)"
proof (induction vs arbitrary: k r)
  case (Cons v vs)
  let ?r = "r\<lparr>cr_ranges := (cr_ranges r)[k := v]\<rparr>"
  have "custom_loop k (v # vs) r = custom_loop (k + 1) vs ?r"
    using Cons.prems by (simp add: SetBucketRange_Some)
  moreover have "take (k + 1) ((cr_ranges r)[k := v]) = take k (cr_ranges r) @ [v]"
    using Cons.prems by (simp add: take_Suc_conv_app_nth)
  ultimately show ?case using Cons.IH [of "k + 1" ?r] Cons.prems by simp
qed simp

lemma strict_sorted_remdups_adj: "sorted xs \<Longrightarrow> sorted_wrt (<) (remdups_adj (xs :: int list))"
  by (induction xs rule: remdups_adj.induct) (auto simp: less_le)

lemma strict_sorted_hd_min:
  "sorted_wrt (<) xs \<Longrightarrow> (0 :: int) \<in> set xs \<Longrightarrow> \<forall>v \<in> set xs. 0 \<le> v \<Longrightarrow> xs ! 0 = 0"
  by (cases xs) fastforce+

lemma custom_ranges_props:
  assumes "\<forall>v \<in> set custom. 0 \<le> v \<and> v < kSampleType_MAX"
  shows "sorted_wrt (<) (custom_ranges custom)" "1 < length (custom_ranges custom)"
    "custom_ranges custom ! 0 = 0" "\<forall>v \<in> set (custom_ranges custom). v < kSampleType_MAX"
    "set custom \<subseteq> set (custom_ranges custom)"
proof -
  let ?rs = "remdups_adj (sort (custom @ [0]))"
  have st: "set ?rs = insert 0 (set custom)" by auto
  have so: "sorted_wrt (<) ?rs" by (rule strict_sorted_remdups_adj) simp
  have hd: "?rs ! 0 = 0" using so st assms by (intro strict_sorted_hd_min) auto
  have "?rs \<noteq> []" using st by (metis empty_iff insertI1 list.set(1))
  then have cases: "?rs = [0] \<and> custom_ranges custom = [0, 1] \<or> 1 < length ?rs \<and> custom_ranges custom = ?rs"
    using hd by (cases ?rs) (auto simp: custom_ranges_def Let_def)
  show "sorted_wrt (<) (custom_ranges custom)" using cases so by auto
  show "1 < length (custom_ranges custom)" using cases by auto
  show "custom_ranges custom ! 0 = 0" using cases hd by auto
  show "\<forall>v \<in> set (custom_ranges custom). v < kSampleType_MAX"
    using cases st assms by (auto simp: kSampleType_MAX_def)
  show "set custom \<subseteq> set (custom_ranges custom)" using cases st by (metis insert_subset set_mp list.set(1,2) subsetI insert_iff empty_iff)
qed

lemma custom_ready:
  assumes "\<forall>v \<in> set custom. 0 \<le> v \<and> v < kSampleType_MAX" "rs = custom_ranges custom"
    "length rs < kBucketCount_MAX"
  shows "\<exists>h r. Option.bind (new_Histogram CUSTOM_HISTOGRAM name (rs ! 1) (last rs) (length rs) a)
       (InitializedCustomBucketRange rs) = Some (h, r) \<and> ready h r \<and> cr_ranges r = rs @ [kSampleType_MAX]"
proof -
  note C = custom_ranges_props [OF assms(1), folded assms(2)]
  let ?n = "length rs"
  let ?h = "fresh_histogram CUSTOM_HISTOGRAM name (rs ! 1) (last rs) ?n a"
  let ?r = "fresh_ranges ?n\<lparr>cr_ranges := rs @ [kSampleType_MAX]\<rparr>"
  have ne: "rs \<noteq> []" using C(2) by auto
  have last: "last rs = rs ! (?n - 1)" by (rule last_conv_nth [OF ne])
  have b: "1 \<le> rs ! 1" "last rs \<le> kSampleType_MAX - 1"
    using sorted_wrt_nth_less [OF C(1), of 0 1] C ne last_in_set [OF ne] by auto
  have "drop ?n (blank_ranges ?n) = [kSampleType_MAX]"
    by (simp add: drop_nth_Cons nth_blank_ranges)
  then have "custom_loop 0 rs (fresh_ranges ?n) = Some ?r"
    using custom_loop_eq [of 0 rs "fresh_ranges ?n"] by (simp add: fresh_ranges_def)
  then have run: "Option.bind (new_Histogram CUSTOM_HISTOGRAM name (rs ! 1) (last rs) ?n a)
      (InitializedCustomBucketRange rs) = Some (ResetRangeChecksum (?h, ?r))"
    using b assms(3) by (simp add: new_Histogram_eq InitializedCustomBucketRange_def)
  have "good_ranges ?n (cr_ranges ?r)"
    using C ne by (auto simp: good_ranges_def nth_append sorted_wrt_append)
  moreover have "cr_ranges ?r ! 1 = rs ! 1" "cr_ranges ?r ! (?n - 1) = last rs"
    using C(2) last ne by (simp_all add: nth_append)
  ultimately have "ready (fst (ResetRangeChecksum (?h, ?r))) (snd (ResetRangeChecksum (?h, ?r)))"
    using ready_fresh [OF _ _ _ C(2) refl, of ?r "rs ! 1" "last rs" CUSTOM_HISTOGRAM name a] by simp
  then show ?thesis using run by (simp add: ResetRangeChecksum_def)
qed

lemma set_ArrayToCustomRanges: "set (ArrayToCustomRanges vals) = set vals \<union> (\<lambda>v. v + 1) ` set vals"
  by (induction vals rule: ArrayToCustomRanges.induct) auto

lemma strict_sorted_next:
  assumes "sorted_wrt (<) rs" "v \<in> set rs" "v + 1 \<in> set (rs :: int list)"
  shows "\<exists>i. Suc i < length rs \<and> rs ! i = v \<and> rs ! Suc i = v + 1"
proof -
  obtain i j where ij: "i < length rs" "rs ! i = v" "j < length rs" "rs ! j = v + 1"
    using assms(2,3) by (metis in_set_conv_nth)
  have "i < j"
  proof (rule ccontr)
    assume "\<not> i < j"
    then have "j < i" using ij by (metis less_add_one linorder_neqE_nat less_irrefl)
    then show False using sorted_wrt_nth_less [OF assms(1), of j i] ij by simp
  qed
  moreover have "\<not> Suc i < j"
  proof
    assume "Suc i < j"
    then have "rs ! i < rs ! Suc i" "rs ! Suc i < rs ! j"
      using sorted_wrt_nth_less [OF assms(1), of i "Suc i"] sorted_wrt_nth_less [OF assms(1), of "Suc i" j] ij by simp_all
    then show False using ij by simp
  qed
  ultimately have "j = Suc i" by simp
  then show ?thesis using ij by blast
qed

section \<open>The search\<close>

lemma bucket_search_ok:
  "lo < hi \<Longrightarrow> hi < length rs \<Longrightarrow> rs ! lo \<le> v \<Longrightarrow> v < rs ! hi \<Longrightarrow>
   \<exists>i. bucket_search rs v lo hi = Some i \<and> i < hi \<and> rs ! i \<le> v \<and> v < rs ! Suc i"
proof (induction "hi - lo" arbitrary: lo hi rule: less_induct)
  case less
  let ?mid = "lo + (hi - lo) div 2"
  show ?case
  proof (cases "?mid = lo")
    case True
    then have "hi = Suc lo" using less.prems(1) by (auto simp: div_eq_0_iff)
    then show ?thesis using less.prems True by (subst bucket_search.simps) auto
  next
    case False
    then have m: "lo < ?mid" "?mid < hi" using less.prems(1) by auto
    have d: "hi - ?mid < hi - lo" "?mid - lo < hi - lo" using m by linarith+
    have unfold: "bucket_search rs v lo hi = (if rs ! ?mid \<le> v then bucket_search rs v ?mid hi else bucket_search rs v lo ?mid)"
      using False m less.prems(2) by (subst bucket_search.simps) (simp add: Let_def elem_at_Some)
    show ?thesis
    proof (cases "rs ! ?mid \<le> v")
      case True
      then show ?thesis using less.hyps [OF d(1) m(2) less.prems(2) True less.prems(4)] unfold by simp
    next
      case False
      then have "\<exists>i. bucket_search rs v lo ?mid = Some i \<and> i < ?mid \<and> rs ! i \<le> v \<and> v < rs ! Suc i"
        using less.hyps [OF d(2) m(1) _ less.prems(3)] m less.prems(2) by simp
      then show ?thesis using unfold False m(2) by (metis less_trans)
    qed
  qed
qed

definition in_bucket :: "int list \<Rightarrow> nat \<Rightarrow> int \<Rightarrow> bool" where
  "in_bucket rs i v \<longleftrightarrow> rs ! i \<le> v \<and> v < rs ! Suc i"

lemma in_bucket_unique:
  assumes "sorted_wrt (<) rs" "i < n" "j < n" "length rs = n + 1" "in_bucket rs i v" "in_bucket rs j v"
  shows "i = j"
proof -
  have "\<not> Suc i \<le> j" if "i < n" "j < n" "in_bucket rs i v" "in_bucket rs j v" for i j
  proof
    assume "Suc i \<le> j"
    then have "rs ! Suc i \<le> rs ! j"
      using assms(1,4) that by (cases "Suc i = j") (auto simp: sorted_wrt_iff_nth_less less_imp_le)
    then show False using that by (simp add: in_bucket_def)
  qed
  then show ?thesis using assms by (meson Suc_leI linorder_neqE_nat)
qed

lemma BucketIndex_ok:
  assumes "good_ranges n rs" "0 < n" "0 \<le> v" "v < kSampleType_MAX"
  shows "BucketIndex n rs v = Some i \<longleftrightarrow> i < n \<and> in_bucket rs i v"
proof -
  obtain k where k: "BucketIndex n rs v = Some k" "k < n" "in_bucket rs k v"
    using bucket_search_ok [of 0 n rs v] assms by (auto simp: BucketIndex_def good_ranges_def in_bucket_def)
  then show ?thesis using assms in_bucket_unique [of rs i n k v] by (auto simp: good_ranges_def)
qed

section \<open>Counting\<close>

lemma clamp_range: "0 \<le> clamp_sample v \<and> clamp_sample v < kSampleType_MAX"
  by (simp add: clamp_sample_def Let_def kSampleType_MAX_def)

primrec add_all :: "CachedRanges \<Rightarrow> int list \<Rightarrow> Histogram \<Rightarrow> Histogram option" where
  "add_all r [] h = Some h"
| "add_all r (v # vs) h = Option.bind (Histogram_Add r v h) (add_all r vs)"

lemma add_all_append: "add_all r (vs @ ws) h = Option.bind (add_all r vs h) (add_all r ws)"
  by (induction vs arbitrary: h) (auto split: bind_split)

text \<open>The counts a histogram should have after the samples vs, given as a list of numbers.\<close>

definition bucket_counts :: "nat \<Rightarrow> int list \<Rightarrow> int list \<Rightarrow> nat list" where
  "bucket_counts n rs vs = map (\<lambda>i. length (filter (\<lambda>v. in_bucket rs i (clamp_sample v)) vs)) [0 ..< n]"

definition counted :: "Histogram \<Rightarrow> CachedRanges \<Rightarrow> int list \<Rightarrow> Histogram \<Rightarrow> bool" where
  "counted h r vs h' \<longleftrightarrow>
     h' = h\<lparr>h_sample := \<lparr>ss_counts = map of_nat (bucket_counts (bucket_count h) (cr_ranges r) vs),
                         ss_sum = of_int (sum_list (map clamp_sample vs)),
                         ss_redundant = of_nat (length vs)\<rparr>\<rparr>"

lemma length_bucket_counts [simp]: "length (bucket_counts n rs vs) = n"
  by (simp add: bucket_counts_def)

lemma bucket_counts_snoc:
  assumes "good_ranges n rs" "0 < n" "BucketIndex n rs (clamp_sample v) = Some i"
  shows "bucket_counts n rs (vs @ [v]) = (bucket_counts n rs vs)[i := bucket_counts n rs vs ! i + 1]"
proof (rule nth_equalityI)
  fix j assume j: "j < length (bucket_counts n rs (vs @ [v]))"
  have i: "i < n" "in_bucket rs i (clamp_sample v)"
    using BucketIndex_ok [OF assms(1,2), of "clamp_sample v"] clamp_range assms(3) by auto
  have "in_bucket rs j (clamp_sample v) \<longleftrightarrow> j = i"
    using in_bucket_unique [of rs j n i "clamp_sample v"] assms(1) i j by (auto simp: good_ranges_def)
  then show "bucket_counts n rs (vs @ [v]) ! j = (bucket_counts n rs vs)[i := bucket_counts n rs vs ! i + 1] ! j"
    using i j by (auto simp: bucket_counts_def nth_list_update)
qed simp

lemma sum_bucket_counts:
  assumes "good_ranges n rs" "0 < n" shows "sum_list (bucket_counts n rs vs) = length vs"
proof (induction vs rule: rev_induct)
  case Nil
  show ?case by (simp add: bucket_counts_def)
next
  case (snoc v vs)
  obtain i where "BucketIndex n rs (clamp_sample v) = Some i" "i < n"
    using BucketIndex_ok [OF assms, of "clamp_sample v"] bucket_search_ok [of 0 n rs "clamp_sample v"] assms
      clamp_range [of v] by (auto simp: BucketIndex_def good_ranges_def)
  then show ?case using snoc bucket_counts_snoc [OF assms, of v i vs]
    by (simp add: sum_list_update)
qed

lemma add_all_counted:
  assumes "ready h r" shows "\<exists>h'. add_all r vs h = Some h' \<and> counted h r vs h'"
proof (induction vs rule: rev_induct)
  case Nil
  have "map of_nat (bucket_counts (bucket_count h) (cr_ranges r) []) = replicate (bucket_count h) (0 :: u32)"
    by (rule nth_equalityI) (simp_all add: bucket_counts_def)
  then show ?case using assms
    by (cases h, cases "h_sample h") (simp add: counted_def ready_def)
next
  case (snoc v vs)
  let ?n = "bucket_count h" and ?rs = "cr_ranges r"
  have g: "good_ranges ?n ?rs" "0 < ?n" using assms by (auto simp: ready_def)
  obtain i where i: "BucketIndex ?n ?rs (clamp_sample v) = Some i" "i < ?n"
    using BucketIndex_ok [OF g, of "clamp_sample v"] bucket_search_ok [of 0 ?n ?rs "clamp_sample v"] g
      clamp_range [of v] by (auto simp: BucketIndex_def good_ranges_def)
  obtain h1 where h1: "add_all r vs h = Some h1" "counted h r vs h1" using snoc by blast
  have "\<exists>h'. Histogram_Add r v h1 = Some h' \<and> counted h r (vs @ [v]) h'"
    using h1(2) i bucket_counts_snoc [OF g i(1), of vs]
    by (simp add: counted_def Histogram_Add_def Let_def SampleSet_Accumulate_def elem_at_Some put_at_def
        map_update add.commute)
  then show ?case using h1(1) by (auto simp: add_all_append)
qed

lemma order_loop_sorted: "sorted_wrt (<) xs \<Longrightarrow> \<forall>x \<in> set xs. p < x \<Longrightarrow> \<not> order_loop xs p"
  by (induction xs arbitrary: p) auto

lemma count_sum:
  "\<forall>k \<in> set ks. k < 2 ^ 31 \<Longrightarrow>
   foldl (\<lambda>n c. n + word_of_int (sint c)) (m :: u64) (map of_nat ks :: u32 list) = m + of_nat (sum_list ks)"
proof (induction ks arbitrary: m)
  case (Cons k ks)
  have "sint (of_nat k :: u32) = int k"
    using Cons.prems by (simp add: signed_of_nat signed_take_bit_int_eq_self)
  then have w: "word_of_int (sint (of_nat k :: u32)) = (of_nat k :: u64)" by (simp only: of_int_of_nat_eq)
  have "\<forall>k \<in> set ks. k < 2 ^ 31" using Cons.prems by simp
  then show ?case by (simp only: list.map foldl_Cons w Cons.IH sum_list.Cons of_nat_add add.assoc)
qed simp

lemma good_ranges_ordered:
  assumes "good_ranges n rs" shows "\<not> order_loop (take n rs) (- 1)"
proof (rule order_loop_sorted)
  show "sorted_wrt (<) (take n rs)" using assms by (simp add: good_ranges_def sorted_wrt_take)
  have "rs = 0 # tl rs" using assms by (cases rs) (auto simp: good_ranges_def)
  moreover have "sorted_wrt (<) rs" using assms by (simp add: good_ranges_def)
  ultimately have "\<forall>x \<in> set rs. 0 \<le> x" by (metis less_imp_le order_refl set_ConsD sorted_wrt.simps(2))
  then show "\<forall>x \<in> set (take n rs). - 1 < x" using set_take_subset [of n rs] by force
qed

lemma count_error_0: "count_error 0 = 0"
  by (simp add: count_error_def)

lemma no_corruption:
  assumes "ready h r" "counted h r vs h'" "length vs < 2 ^ 31"
  shows "FindCorruption r (h_sample h') h' = 0"
proof -
  let ?n = "bucket_count h"
  define ks where "ks = bucket_counts ?n (cr_ranges r) vs"
  have g: "good_ranges ?n (cr_ranges r)" "0 < ?n" using assms(1) by (auto simp: ready_def)
  have ks: "length ks = ?n" "sum_list ks = length vs"
    using sum_bucket_counts [OF g, of vs] by (simp_all add: ks_def)
  have h': "bucket_count h' = ?n" "range_checksum h' = range_checksum h"
      "ss_counts (h_sample h') = map of_nat ks" "ss_redundant (h_sample h') = of_nat (length vs)"
    using assms(2) by (simp_all add: counted_def ks_def)
  have v: "HasValidRangeChecksum h' r"
    using assms(1) h' by (simp add: ready_def HasValidRangeChecksum_def)
  have small: "\<forall>k \<in> set ks. k < 2 ^ 31"
  proof
    fix k assume "k \<in> set ks"
    then have "k \<le> length vs" using member_le_sum_list [of k ks] ks(2) by simp
    then show "k < 2 ^ 31" using assms(3) by (rule le_less_trans)
  qed
  have c: "foldl (\<lambda>n c. n + word_of_int (sint c)) (0 :: u64) (map of_nat ks :: u32 list) = of_nat (length vs)"
    by (simp only: count_sum [OF small] ks(2) add_0)
  have t: "take ?n (map of_nat ks) = (map of_nat ks :: u32 list)" using ks(1) by simp
  show ?thesis
    using v good_ranges_ordered [OF g(1)] by (simp only: FindCorruption_def h' t c Let_def count_error_0
      diff_self sint_0 not_True_eq_False if_False bit.disj_zero_right)
qed

section \<open>Properties\<close>

text \<open>C19: Both computed layouts are good: for a minimum of at least 1, a maximum above it and
  below INT_MAX, at least three buckets, fewer than kBucketCount_MAX (2^14) of them, and at most two more than
  the maximum exceeds the minimum by, the constructor passes its CHECK, and the layout write inside the vector,
  the bounds rise strictly from 0 over the declared minimum and maximum to INT_MAX, and the checksum is set. The
  exponential layout needs no more of its floating point step than bucket_growth says.\<close>

theorem computed_layouts_are_good:
  assumes "bucket_growth growth" "1 \<le> mn" "mn < mx" "mx \<le> kSampleType_MAX - 1" "2 < n" "int n \<le> mx - mn + 2"
    "n < kBucketCount_MAX"
  shows "(\<exists>h r. Option.bind (new_Histogram HISTOGRAM name mn mx n a) (InitializeBucketRange growth) = Some (h, r) \<and>
           ready h r) \<and>
         (\<exists>h r. Option.bind (new_Histogram LINEAR_HISTOGRAM name mn mx n a) Linear_InitializeBucketRange = Some (h, r) \<and>
           ready h r)"
  using exponential_ready [OF assms] linear_ready [OF assms(2-7)] by blast

lemma computed_layouts_are_good_witness:
  "(\<exists>h r. Option.bind (new_Histogram HISTOGRAM ''Count'' 1 1000000 50 0) (InitializeBucketRange exact_growth) = Some (h, r) \<and>
      ready h r) \<and>
   (\<exists>h r. Option.bind (new_Histogram LINEAR_HISTOGRAM ''Count'' 1 1000000 50 0) Linear_InitializeBucketRange = Some (h, r) \<and>
      ready h r)"
  by (rule computed_layouts_are_good [OF exact.bucket_growth_axioms])
    (simp_all add: kSampleType_MAX_def kBucketCount_MAX_def)

text \<open>The constructor refuses kBucketCount_MAX buckets and more.\<close>

theorem too_many_buckets:
  assumes "kBucketCount_MAX \<le> n"
  shows "new_Histogram ty name mn mx n a = None"
  using assms by (simp add: new_Histogram_def Initialize_def)

lemma too_many_buckets_witness: "new_Histogram LINEAR_HISTOGRAM ''Percent'' 1 100000 16384 0 = None"
  by (rule too_many_buckets) (simp add: kBucketCount_MAX_def)

text \<open>A custom histogram has a bucket bound at every value it was given, whatever their order and
  duplicates, and with ArrayToCustomRanges each value has a bucket to itself.\<close>

theorem custom_layout_separates_the_values:
  assumes "\<forall>v \<in> set vals. 0 \<le> v \<and> v < kSampleType_MAX - 1" "rs = custom_ranges (ArrayToCustomRanges vals)"
    "length rs < kBucketCount_MAX"
  shows "\<exists>h r. Option.bind (new_Histogram CUSTOM_HISTOGRAM name (rs ! 1) (last rs) (length rs) a)
      (InitializedCustomBucketRange rs) = Some (h, r) \<and> ready h r \<and>
      (\<forall>v \<in> set vals. \<exists>i < bucket_count h. \<forall>w. in_bucket (cr_ranges r) i w \<longleftrightarrow> w = v)"
proof -
  let ?cs = "ArrayToCustomRanges vals"
  have cs: "\<forall>v \<in> set ?cs. 0 \<le> v \<and> v < kSampleType_MAX"
    using assms(1) by (auto simp: set_ArrayToCustomRanges)
  obtain h r where hr: "Option.bind (new_Histogram CUSTOM_HISTOGRAM name (rs ! 1) (last rs) (length rs) a)
      (InitializedCustomBucketRange rs) = Some (h, r)" "ready h r" "cr_ranges r = rs @ [kSampleType_MAX]"
    using custom_ready [OF cs assms(2,3)] by blast
  have n: "bucket_count h = length rs" using hr(2,3) by (simp add: ready_def good_ranges_def)
  have so: "sorted_wrt (<) rs" and sub: "set ?cs \<subseteq> set rs"
    using custom_ranges_props [OF cs] assms(2) by simp_all
  have "\<exists>i < bucket_count h. \<forall>w. in_bucket (cr_ranges r) i w \<longleftrightarrow> w = v" if v: "v \<in> set vals" for v
  proof -
    have "v \<in> set rs" "v + 1 \<in> set rs" using v sub by (auto simp: set_ArrayToCustomRanges)
    then obtain i where i: "Suc i < length rs" "rs ! i = v" "rs ! Suc i = v + 1"
      using strict_sorted_next [OF so] by blast
    have "in_bucket (cr_ranges r) i w \<longleftrightarrow> w = v" for w
      unfolding in_bucket_def hr(3) nth_append using i by (simp del: append.simps) linarith
    then show ?thesis using n i(1) Suc_lessD by metis
  qed
  then show ?thesis using hr by blast
qed

lemma custom_layout_separates_the_values_witness:
  "\<exists>h r. Option.bind (new_Histogram CUSTOM_HISTOGRAM ''Enum'' (custom_ranges (ArrayToCustomRanges [7, 3, 4, 3]) ! 1)
        (last (custom_ranges (ArrayToCustomRanges [7, 3, 4, 3]))) (length (custom_ranges (ArrayToCustomRanges [7, 3, 4, 3]))) 0)
      (InitializedCustomBucketRange (custom_ranges (ArrayToCustomRanges [7, 3, 4, 3]))) = Some (h, r) \<and> ready h r \<and>
      (\<forall>v \<in> set [7, 3, 4, 3]. \<exists>i < bucket_count h. \<forall>w. in_bucket (cr_ranges r) i w \<longleftrightarrow> w = v)"
proof -
  have "length (custom_ranges (ArrayToCustomRanges [7, 3, 4, 3])) < kBucketCount_MAX"
    by (simp add: custom_ranges_def kBucketCount_MAX_def)
  then show ?thesis
    by (intro custom_layout_separates_the_values [OF _ refl]) (simp_all add: kSampleType_MAX_def)
qed

text \<open>C17: A histogram counts what it was given: after any samples, each count is the number of samples whose
  clamped value lies in that bucket, the sum and the number of samples agree, and, below 2^31 samples,
  FindCorruption finds nothing.\<close>

theorem histogram_counts_its_samples:
  assumes "ready h r" "length vs < 2 ^ 31"
  shows "\<exists>h'. add_all r vs h = Some h' \<and>
     (\<forall>i < bucket_count h. ss_counts (h_sample h') ! i =
        of_nat (length (filter (\<lambda>v. in_bucket (cr_ranges r) i (clamp_sample v)) vs))) \<and>
     ss_sum (h_sample h') = of_int (sum_list (map clamp_sample vs)) \<and>
     ss_redundant (h_sample h') = of_nat (length vs) \<and>
     FindCorruption r (h_sample h') h' = 0"
proof -
  obtain h' where h': "add_all r vs h = Some h'" "counted h r vs h'"
    using add_all_counted [OF assms(1)] by blast
  have "ss_counts (h_sample h') ! i = of_nat (length (filter (\<lambda>v. in_bucket (cr_ranges r) i (clamp_sample v)) vs))"
    if "i < bucket_count h" for i
    using h'(2) that by (simp add: counted_def bucket_counts_def)
  moreover have "ss_sum (h_sample h') = of_int (sum_list (map clamp_sample vs))"
      "ss_redundant (h_sample h') = of_nat (length vs)"
    using h'(2) by (simp_all add: counted_def)
  ultimately show ?thesis using h'(1) no_corruption [OF assms(1) h'(2) assms(2)] by blast
qed

lemma histogram_counts_its_samples_witness:
  "\<exists>h r h'. Option.bind (new_Histogram LINEAR_HISTOGRAM ''Percent'' 1 100 52 0) Linear_InitializeBucketRange = Some (h, r) \<and>
     add_all r [5, - 3, 2000000, 5] h = Some h' \<and>
     (\<forall>i < bucket_count h. ss_counts (h_sample h') ! i =
        of_nat (length (filter (\<lambda>v. in_bucket (cr_ranges r) i (clamp_sample v)) [5, - 3, 2000000, 5]))) \<and>
     ss_sum (h_sample h') = of_int (sum_list (map clamp_sample [5, - 3, 2000000, 5])) \<and>
     ss_redundant (h_sample h') = of_nat (length [5, - 3, 2000000, 5 :: int]) \<and>
     FindCorruption r (h_sample h') h' = 0"
proof -
  have "\<exists>h r. Option.bind (new_Histogram LINEAR_HISTOGRAM ''Percent'' 1 100 52 0) Linear_InitializeBucketRange = Some (h, r) \<and>
      ready h r"
    by (rule linear_ready) (simp_all add: kSampleType_MAX_def kBucketCount_MAX_def)
  then obtain h r where hr: "Option.bind (new_Histogram LINEAR_HISTOGRAM ''Percent'' 1 100 52 0) Linear_InitializeBucketRange = Some (h, r)"
      "ready h r"
    by blast
  define vs :: "int list" where "vs = [5, - 3, 2000000, 5]"
  have "length vs < 2 ^ 31" by (simp add: vs_def)
  then show ?thesis
    unfolding vs_def [symmetric] using histogram_counts_its_samples [OF hr(2), of vs] hr(1) by blast
qed

end
