(* ===== verification/Statistics_Props.thy ===== *)
theory Statistics_Props
  imports Statistics Histogram_Props
begin

text \<open>
  The factories give every name one histogram, whichever of them is called and with whichever
  arguments (what they assert of it holds if the requests agree), and equal ranges are one object. The client's view, a table that hands out one
  pointer per name, is a locale; the registry is its interpretation.
\<close>

section \<open>The client's view\<close>

primrec run_gets :: "('op \<Rightarrow> 's \<Rightarrow> ('p \<times> 's) option) \<Rightarrow> 'op list \<Rightarrow> 's \<Rightarrow> 's option" where
  "run_gets get [] s = Some s"
| "run_gets get (op # ops) s = Option.bind (get op s) (\<lambda>(p, s). run_gets get ops s)"

locale name_table =
  fixes get :: "'op \<Rightarrow> 's \<Rightarrow> ('p \<times> 's) option"
    and find :: "string \<Rightarrow> 's \<Rightarrow> 'p option"
    and key :: "'op \<Rightarrow> string"
    and ok :: "'s \<Rightarrow> bool"
    and valid :: "'op \<Rightarrow> bool"
  assumes get_ok: "ok s \<Longrightarrow> valid op \<Longrightarrow>
      \<exists>p s'. get op s = Some (p, s') \<and> ok s' \<and> find (key op) s' = Some p \<and>
        (\<forall>k q. find k s = Some q \<longrightarrow> find k s' = Some q)"
    and get_known: "find (key op) s = Some p \<Longrightarrow> get op s = Some (p, s)"
begin

lemma run_gets_ok:
  "ok s \<Longrightarrow> \<forall>op \<in> set ops. valid op \<Longrightarrow>
   \<exists>s'. run_gets get ops s = Some s' \<and> ok s' \<and> (\<forall>k q. find k s = Some q \<longrightarrow> find k s' = Some q)"
proof (induction ops arbitrary: s)
  case (Cons op ops)
  obtain p s1 where 1: "get op s = Some (p, s1)" "ok s1" "\<And>k q. find k s = Some q \<Longrightarrow> find k s1 = Some q"
    using get_ok [of s op] Cons.prems by auto
  obtain s2 where "run_gets get ops s1 = Some s2" "ok s2" "\<And>k q. find k s1 = Some q \<Longrightarrow> find k s2 = Some q"
    using Cons.IH [OF 1(2)] Cons.prems(2) by auto
  then show ?case using 1 by auto
qed simp

lemma get_again:
  assumes "ok s" "\<forall>op \<in> set ops. valid op" "valid op" "\<forall>op \<in> set ops'. valid op" "key op' = key op"
  shows "\<exists>s1 p s2 s3. run_gets get ops s = Some s1 \<and> get op s1 = Some (p, s2) \<and>
     run_gets get ops' s2 = Some s3 \<and> get op' s3 = Some (p, s3)"
proof -
  obtain s1 where 1: "run_gets get ops s = Some s1" "ok s1" using run_gets_ok assms(1,2) by blast
  obtain p s2 where 2: "get op s1 = Some (p, s2)" "ok s2" "find (key op) s2 = Some p"
    using get_ok [OF 1(2) assms(3)] by blast
  obtain s3 where 3: "run_gets get ops' s2 = Some s3" "find (key op) s3 = Some p"
    using run_gets_ok [OF 2(2) assms(4)] 2(3) by blast
  have "get op' s3 = Some (p, s3)" using get_known [of op' s3 p] 3(2) assms(5) by simp
  then show ?thesis using 1 2 3 by blast
qed

end

section \<open>Requests\<close>

datatype factory_request =
    GetExponential string int int nat u32
  | GetLinear string int int nat u32
  | GetBoolean string u32
  | GetCustom string "int list" u32

fun request_name :: "factory_request \<Rightarrow> string" where
  "request_name (GetExponential name mn mx n fl) = name"
| "request_name (GetLinear name mn mx n fl) = name"
| "request_name (GetBoolean name fl) = name"
| "request_name (GetCustom name vs fl) = name"

fun request :: "(int \<Rightarrow> int \<Rightarrow> nat \<Rightarrow> int) \<Rightarrow> factory_request \<Rightarrow> recorder \<Rightarrow> (nat \<times> recorder) option" where
  "request growth (GetExponential name mn mx n fl) s = Histogram_FactoryGet growth name mn mx n fl s"
| "request growth (GetLinear name mn mx n fl) s = LinearHistogram_FactoryGet name mn mx n fl s"
| "request growth (GetBoolean name fl) s = BooleanHistogram_FactoryGet name fl s"
| "request growth (GetCustom name vs fl) s = CustomHistogram_FactoryGet name vs fl s"

text \<open>What the factories assert of their arguments, after they have clamped them, with the CHECK of the
  constructor. (Custom values without one above 0, which the code asserts against too, but then
  replaces, are allowed.)\<close>

definition valid_limits :: "int \<Rightarrow> int \<Rightarrow> nat \<Rightarrow> bool" where
  "valid_limits mn mx n \<longleftrightarrow>
     (let mn = max 1 mn; mx = min mx (kSampleType_MAX - 1) in mn < mx \<and> 2 < n \<and> int n \<le> mx - mn + 2) \<and>
     n < kBucketCount_MAX"

fun valid_request :: "factory_request \<Rightarrow> bool" where
  "valid_request (GetExponential name mn mx n fl) = valid_limits mn mx n"
| "valid_request (GetLinear name mn mx n fl) = valid_limits mn mx n"
| "valid_request (GetBoolean name fl) = True"
| "valid_request (GetCustom name vs fl) =
     ((\<forall>v \<in> set vs. 0 \<le> v \<and> v < kSampleType_MAX) \<and> length (custom_ranges vs) < kBucketCount_MAX)"

text \<open>The class and the limits that a request asks for, and what its factory asserts of the result.\<close>

fun request_arguments :: "factory_request \<Rightarrow> ClassType \<times> int \<times> int \<times> nat" where
  "request_arguments (GetExponential name mn mx n fl) = (HISTOGRAM, max 1 mn, min mx (kSampleType_MAX - 1), n)"
| "request_arguments (GetLinear name mn mx n fl) = (LINEAR_HISTOGRAM, max 1 mn, min mx (kSampleType_MAX - 1), n)"
| "request_arguments (GetBoolean name fl) = (BOOLEAN_HISTOGRAM, 1, 2, 3)"
| "request_arguments (GetCustom name vs fl) =
     (CUSTOM_HISTOGRAM, custom_ranges vs ! 1, last (custom_ranges vs), length (custom_ranges vs))"

fun request_asserts :: "factory_request \<Rightarrow> Histogram \<Rightarrow> bool" where
  "request_asserts (GetExponential name mn mx n fl) h = Histogram_FactoryGet_asserts mn mx n h"
| "request_asserts (GetLinear name mn mx n fl) h = LinearHistogram_FactoryGet_asserts mn mx n h"
| "request_asserts (GetBoolean name fl) h = BooleanHistogram_FactoryGet_asserts h"
| "request_asserts (GetCustom name vs fl) h = CustomHistogram_FactoryGet_asserts vs h"

definition has_arguments :: "ClassType \<times> int \<times> int \<times> nat \<Rightarrow> Histogram \<Rightarrow> bool" where
  "has_arguments = (\<lambda>(ty, mn, mx, n) h. histogram_type h = ty \<and> HasConstructorArguments mn mx n h)"

lemma has_arguments_update [simp]:
  "has_arguments args (h\<lparr>cached_ranges := a\<rparr>) = has_arguments args h"
  "has_arguments args (SetFlags fl h) = has_arguments args h"
  by (simp_all add: has_arguments_def HasConstructorArguments_def SetFlags_def split: prod.split)

lemma has_arguments_asserts: "has_arguments (request_arguments req) h \<Longrightarrow> request_asserts req h"
  by (cases req) (auto simp: has_arguments_def Histogram_FactoryGet_asserts_def LinearHistogram_FactoryGet_asserts_def
      BooleanHistogram_FactoryGet_asserts_def CustomHistogram_FactoryGet_asserts_def Let_def max_def min_def
      split: if_splits)

section \<open>What the factories build\<close>

definition builds :: "string \<Rightarrow> ClassType \<times> int \<times> int \<times> nat \<Rightarrow> (nat \<Rightarrow> (Histogram \<times> CachedRanges) option) \<Rightarrow> bool" where
  "builds name args build \<longleftrightarrow> (\<forall>a. \<exists>h r. build a = Some (h, r) \<and> ready h r \<and> histogram_name h = name \<and>
     cached_ranges h = a \<and> has_arguments args h)"

lemma built_fields:
  assumes "Option.bind (new_Histogram ty name mn mx n a) layout = Some (h, r)"
    and "layout = InitializeBucketRange growth \<or> layout = Linear_InitializeBucketRange \<or> layout = InitializedCustomBucketRange rs"
    and "1 \<le> mn" "mx \<le> kSampleType_MAX - 1"
  shows "histogram_name h = name \<and> cached_ranges h = a \<and> has_arguments (ty, mn, mx, n) h"
proof -
  from assms(1) have "new_Histogram ty name mn mx n a \<noteq> None"
    by (cases "new_Histogram ty name mn mx n a") simp_all
  then have "n < kBucketCount_MAX" by (auto simp: new_Histogram_def Initialize_def split: if_splits)
  note new = new_Histogram_eq [OF assms(3,4) this]
  obtain sum where "h = fresh_histogram ty name mn mx n a\<lparr>range_checksum := sum\<rparr>"
    using assms(1,2)
    by (auto simp: new InitializeBucketRange_def Linear_InitializeBucketRange_def InitializedCustomBucketRange_def
        ResetRangeChecksum_def bind_eq_Some_conv)
  then show ?thesis by (simp add: fresh_histogram_def has_arguments_def HasConstructorArguments_def)
qed

text \<open>Every request looks its name up and otherwise registers what it builds.\<close>

lemma request_cases:
  assumes "bucket_growth growth" "valid_request req"
  shows "\<exists>build fl. builds (request_name req) (request_arguments req) build \<and>
     (\<forall>s. request growth req s = (case FindHistogram (request_name req) s of
        Some p \<Rightarrow> Some (p, s) | None \<Rightarrow> register_new build fl s))"
proof (cases req)
  case (GetExponential name mn mx n fl)
  let ?mn = "if mn < 1 then 1 else mn" and ?mx = "if mx > kSampleType_MAX - 1 then kSampleType_MAX - 1 else mx"
  have clamp: "max 1 mn = ?mn" "min mx (kSampleType_MAX - 1) = ?mx" by auto
  have v: "1 \<le> ?mn" "?mn < ?mx" "?mx \<le> kSampleType_MAX - 1" "2 < n" "int n \<le> ?mx - ?mn + 2" "n < kBucketCount_MAX"
    using assms(2) by (simp_all add: GetExponential valid_limits_def Let_def clamp)
  have "\<exists>h r. Option.bind (new_Histogram HISTOGRAM name ?mn ?mx n a) (InitializeBucketRange growth) = Some (h, r) \<and> ready h r" for a
    by (rule exponential_ready [OF assms(1) v])
  then have "builds name (request_arguments req)
      (\<lambda>a. Option.bind (new_Histogram HISTOGRAM name ?mn ?mx n a) (InitializeBucketRange growth))"
    unfolding builds_def GetExponential request_arguments.simps clamp using built_fields [OF _ _ v(1,3)] by blast
  then show ?thesis unfolding GetExponential request.simps request_name.simps Histogram_FactoryGet_def Let_def by blast
next
  case (GetLinear name mn mx n fl)
  let ?mn = "if mn < 1 then 1 else mn" and ?mx = "if mx > kSampleType_MAX - 1 then kSampleType_MAX - 1 else mx"
  have clamp: "max 1 mn = ?mn" "min mx (kSampleType_MAX - 1) = ?mx" by auto
  have v: "1 \<le> ?mn" "?mn < ?mx" "?mx \<le> kSampleType_MAX - 1" "2 < n" "int n \<le> ?mx - ?mn + 2" "n < kBucketCount_MAX"
    using assms(2) by (simp_all add: GetLinear valid_limits_def Let_def clamp)
  have "\<exists>h r. Option.bind (new_Histogram LINEAR_HISTOGRAM name ?mn ?mx n a) Linear_InitializeBucketRange = Some (h, r) \<and> ready h r" for a
    by (rule linear_ready [OF v])
  then have "builds name (request_arguments req)
      (\<lambda>a. Option.bind (new_Histogram LINEAR_HISTOGRAM name ?mn ?mx n a) Linear_InitializeBucketRange)"
    unfolding builds_def GetLinear request_arguments.simps clamp using built_fields [OF _ _ v(1,3)] by blast
  then show ?thesis unfolding GetLinear request.simps request_name.simps LinearHistogram_FactoryGet_def Let_def by blast
next
  case (GetBoolean name fl)
  have "\<exists>h r. Option.bind (new_Histogram BOOLEAN_HISTOGRAM name 1 2 3 a) Linear_InitializeBucketRange = Some (h, r) \<and> ready h r" for a
    by (intro linear_ready) (simp_all add: kSampleType_MAX_def kBucketCount_MAX_def)
  moreover have "(1 :: int) \<le> 1" "2 \<le> kSampleType_MAX - 1" by (simp_all add: kSampleType_MAX_def)
  ultimately have "builds name (request_arguments req)
      (\<lambda>a. Option.bind (new_Histogram BOOLEAN_HISTOGRAM name 1 2 3 a) Linear_InitializeBucketRange)"
    unfolding builds_def GetBoolean request_arguments.simps using built_fields by blast
  then show ?thesis unfolding GetBoolean request.simps request_name.simps BooleanHistogram_FactoryGet_def by blast
next
  case (GetCustom name vs fl)
  define rs where "rs = custom_ranges vs"
  have v: "\<forall>v \<in> set vs. 0 \<le> v \<and> v < kSampleType_MAX" "length rs < kBucketCount_MAX"
    using assms(2) by (simp_all add: GetCustom rs_def)
  note props = custom_ranges_props [OF v(1), folded rs_def]
  have len: "1 < length rs" by (rule props(2))
  have "last rs \<in> set rs" using len by (intro last_in_set) auto
  then have limits: "1 \<le> rs ! 1" "last rs \<le> kSampleType_MAX - 1"
    using sorted_wrt_nth_less [OF props(1), of 0 1] props by auto
  have b: "(do { minimum \<leftarrow> elem_at rs 1; maximum \<leftarrow> elem_at rs (length rs - 1);
        hr \<leftarrow> new_Histogram CUSTOM_HISTOGRAM name minimum maximum (length rs) a; InitializedCustomBucketRange rs hr })
      = Option.bind (new_Histogram CUSTOM_HISTOGRAM name (rs ! 1) (last rs) (length rs) a) (InitializedCustomBucketRange rs)" for a
    using len last_conv_nth [of rs] by (cases "rs = []") (simp_all add: elem_at_Some)
  have "builds name (request_arguments req) (\<lambda>a. do { minimum \<leftarrow> elem_at rs 1; maximum \<leftarrow> elem_at rs (length rs - 1);
        hr \<leftarrow> new_Histogram CUSTOM_HISTOGRAM name minimum maximum (length rs) a; InitializedCustomBucketRange rs hr })"
    unfolding builds_def b GetCustom request_arguments.simps rs_def [symmetric]
    using custom_ready [OF v(1) rs_def v(2)] built_fields [OF _ _ limits] by blast
  then show ?thesis
    unfolding GetCustom request.simps request_name.simps CustomHistogram_FactoryGet_def Let_def rs_def by blast
qed

section \<open>The invariant\<close>

text \<open>A histogram whose ranges are registered and in order.\<close>

definition registered :: "recorder \<Rightarrow> string \<Rightarrow> nat \<Rightarrow> bool" where
  "registered s name p \<longleftrightarrow> (\<exists>h r qs. histogram_heap s p = Some h \<and> histogram_name h = name \<and>
     ranges_heap s (cached_ranges h) = Some r \<and> good_ranges (bucket_count h) (cr_ranges r) \<and>
     HasValidRangeChecksum h r \<and> ranges_map s (range_checksum h) = Some qs \<and> cached_ranges h \<in> set qs)"

text \<open>The ranges with a checksum have that checksum and differ from each other.\<close>

definition listed :: "(nat \<rightharpoonup> CachedRanges) \<Rightarrow> u32 \<Rightarrow> nat list \<Rightarrow> bool" where
  "listed heap c qs \<longleftrightarrow> (\<forall>q \<in> set qs. \<exists>r. heap q = Some r \<and> cr_checksum r = c) \<and> inj_on heap (set qs)"

definition ranges_ok :: "recorder \<Rightarrow> bool" where
  "ranges_ok s \<longleftrightarrow> (\<forall>c qs. ranges_map s c = Some qs \<longrightarrow> listed (ranges_heap s) c qs)"

lemma listed_cong: "\<forall>q \<in> set qs. heap q = heap' q \<Longrightarrow> listed heap c qs \<longleftrightarrow> listed heap' c qs"
  unfolding listed_def by (simp cong: inj_on_cong)

lemma listed_Cons:
  "listed heap c qs \<Longrightarrow> heap a = Some r \<Longrightarrow> cr_checksum r = c \<Longrightarrow> \<forall>q \<in> set qs. heap q \<noteq> Some r \<Longrightarrow>
   listed heap c (a # qs)"
  unfolding listed_def by (auto simp: inj_on_insert)

definition recorder_ok :: "recorder \<Rightarrow> bool" where
  "recorder_ok s \<longleftrightarrow> lock_made s \<and> ranges_ok s \<and>
     (\<forall>p \<in> dom (histogram_heap s). p < next_address s) \<and> (\<forall>q \<in> dom (ranges_heap s). q < next_address s) \<and>
     (\<exists>es. histograms_map s = Some es \<and> sorted_wrt (<) (map fst es) \<and> (\<forall>(k, p) \<in> set es. registered s k p))"

section \<open>Registration keeps the invariant\<close>

lemma ranges_equal_iff: "length as = length bs \<Longrightarrow> ranges_equal as bs \<longleftrightarrow> as = bs"
  by (induction as bs rule: list_induct2) auto

lemma CachedRanges_Equals_iff: "CachedRanges_Equals r r' \<longleftrightarrow> r = r'"
  by (cases r; cases r') (auto simp: CachedRanges_Equals_def ranges_equal_iff)

lemma find_equal_ok:
  "\<forall>q \<in> set qs. heap q \<noteq> None \<Longrightarrow>
   (\<exists>q \<in> set qs. find_equal heap r qs = Some (Some q) \<and> heap q = Some r) \<or>
   find_equal heap r qs = Some None \<and> (\<forall>q \<in> set qs. heap q \<noteq> Some r)"
proof (induction qs)
  case (Cons q qs)
  obtain e where "heap q = Some e" using Cons.prems by auto
  then show ?case using Cons by (cases "e = r") (auto simp: CachedRanges_Equals_iff)
qed simp

definition unlisted :: "recorder \<Rightarrow> nat \<Rightarrow> bool" where
  "unlisted s a \<longleftrightarrow> (\<forall>c qs. ranges_map s c = Some qs \<longrightarrow> a \<notin> set qs)"

lemma RegisterOrDeleteDuplicateRanges_ok:
  assumes "ranges_ok s" "histogram_heap s p = Some h" "ranges_heap s (cached_ranges h) = Some r"
    "unlisted s (cached_ranges h)"
  shows "\<exists>s' a' r' qs'. RegisterOrDeleteDuplicateRanges p s = Some s' \<and> ranges_ok s' \<and>
     histogram_heap s' = (histogram_heap s)(p \<mapsto> h\<lparr>cached_ranges := a'\<rparr>) \<and>
     ranges_heap s' a' = Some r' \<and> cr_ranges r' = cr_ranges r \<and>
     ranges_map s' (range_checksum h) = Some qs' \<and> a' \<in> set qs' \<and>
     (\<forall>q. q \<noteq> cached_ranges h \<longrightarrow> ranges_heap s' q = ranges_heap s q) \<and>
     (\<forall>c qs. ranges_map s c = Some qs \<longrightarrow> (\<exists>qs'. ranges_map s' c = Some qs' \<and> set qs \<subseteq> set qs')) \<and>
     lock_made s' = lock_made s \<and> histograms_map s' = histograms_map s \<and> next_address s' = next_address s"
proof -
  define a c where "a = cached_ranges h" and "c = range_checksum h"
  define r1 where "r1 = SetRangeChecksum c r"
  define heap where "heap = (ranges_heap s)(a \<mapsto> r1)"
  have r1: "cr_ranges r1 = cr_ranges r" "cr_checksum r1 = c" by (simp_all add: r1_def SetRangeChecksum_def)
  have old: "heap q = ranges_heap s q" if "ranges_map s d = Some qs" "q \<in> set qs" for d qs q
    using assms(4) that by (auto simp: unlisted_def heap_def a_def)
  have keep: "listed heap' d qs" if "ranges_map s d = Some qs" "\<forall>q. q \<noteq> a \<longrightarrow> heap' q = ranges_heap s q" for d qs heap'
  proof -
    have "listed (ranges_heap s) d qs" "a \<notin> set qs"
      using that(1) assms(1,4) by (simp_all add: ranges_ok_def unlisted_def a_def)
    moreover have "\<forall>q \<in> set qs. heap' q = ranges_heap s q" using that(2) \<open>a \<notin> set qs\<close> by auto
    ultimately show ?thesis using listed_cong by blast
  qed
  have h: "histogram_heap s p = Some h" "ranges_heap s a = Some r" using assms(2,3) by (simp_all add: a_def)
  have run: "RegisterOrDeleteDuplicateRanges p s = (case ranges_map s c of
      None \<Rightarrow> Some (s\<lparr>ranges_heap := heap, ranges_map := (ranges_map s)(c \<mapsto> [a])\<rparr>)
    | Some qs \<Rightarrow> Option.bind (find_equal heap r1 qs) (\<lambda>found. case found of
        Some q \<Rightarrow> Some (s\<lparr>histogram_heap := (histogram_heap s)(p \<mapsto> h\<lparr>cached_ranges := q\<rparr>),
           number_of_vectors_saved := number_of_vectors_saved s + 1,
           saved_ranges_size := saved_ranges_size s + length (cr_ranges r), ranges_heap := heap(a := None)\<rparr>)
      | None \<Rightarrow> Some (s\<lparr>ranges_heap := heap, ranges_map := (ranges_map s)(c \<mapsto> a # qs)\<rparr>)))"
    using h r1 by (simp add: RegisterOrDeleteDuplicateRanges_def a_def [symmetric] c_def [symmetric]
        r1_def [symmetric] heap_def [symmetric] split: option.split)
  have same: "h\<lparr>cached_ranges := a\<rparr> = h" "(histogram_heap s)(p \<mapsto> h) = histogram_heap s"
    using h(1) by (simp_all add: a_def fun_upd_idem)
  show ?thesis
  proof (cases "ranges_map s c")
    case None
    let ?s = "s\<lparr>ranges_heap := heap, ranges_map := (ranges_map s)(c \<mapsto> [a])\<rparr>"
    have "ranges_ok ?s"
      using keep [of _ _ heap] r1(2) by (auto simp: ranges_ok_def heap_def listed_def)
    then show ?thesis
      unfolding run a_def [symmetric] c_def [symmetric] using None r1 same
      by (intro exI [of _ ?s] exI [of _ a] exI [of _ r1] exI [of _ "[a]"]) (auto simp: heap_def)
  next
    case (Some qs)
    have "\<forall>q \<in> set qs. heap q \<noteq> None" using keep [OF Some, of heap] by (auto simp: listed_def heap_def)
    from find_equal_ok [OF this, of r1] show ?thesis
    proof
      assume "\<exists>q \<in> set qs. find_equal heap r1 qs = Some (Some q) \<and> heap q = Some r1"
      then obtain q where q: "q \<in> set qs" "find_equal heap r1 qs = Some (Some q)" "heap q = Some r1" by blast
      have "q \<noteq> a" using q(1) Some assms(4) by (auto simp: unlisted_def a_def)
      let ?s = "s\<lparr>histogram_heap := (histogram_heap s)(p \<mapsto> h\<lparr>cached_ranges := q\<rparr>),
           number_of_vectors_saved := number_of_vectors_saved s + 1,
           saved_ranges_size := saved_ranges_size s + length (cr_ranges r), ranges_heap := heap(a := None)\<rparr>"
      have "ranges_ok ?s"
        using keep [of _ _ "heap(a := None)"] by (auto simp: ranges_ok_def heap_def)
      then show ?thesis
        unfolding run a_def [symmetric] c_def [symmetric] using Some q r1 \<open>q \<noteq> a\<close>
        by (intro exI [of _ ?s] exI [of _ q] exI [of _ r1] exI [of _ qs]) (auto simp: heap_def)
    next
      assume n: "find_equal heap r1 qs = Some None \<and> (\<forall>q \<in> set qs. heap q \<noteq> Some r1)"
      let ?s = "s\<lparr>ranges_heap := heap, ranges_map := (ranges_map s)(c \<mapsto> a # qs)\<rparr>"
      have "listed heap c (a # qs)"
        using listed_Cons [OF keep [OF Some, of heap], of a r1] n r1(2) by (simp add: heap_def)
      then have "ranges_ok ?s" using keep [of _ _ heap] by (auto simp: ranges_ok_def heap_def)
      then show ?thesis
        unfolding run a_def [symmetric] c_def [symmetric] using Some n r1 same
        by (intro exI [of _ ?s] exI [of _ a] exI [of _ r1] exI [of _ "a # qs"]) (auto simp: heap_def)
    qed
  qed
qed

section \<open>The map of names\<close>

lemma set_map_insert [simp]: "set (map_insert k p es) = insert (k, p) (set es)"
  by (induction k p es rule: map_insert.induct) auto

lemma sorted_map_insert:
  "sorted_wrt (<) (map fst es) \<Longrightarrow> k \<notin> fst ` set es \<Longrightarrow> sorted_wrt (<) (map fst (map_insert k p es))"
proof (induction k p es rule: map_insert.induct)
  case (2 k p k' p' es)
  show ?case
  proof (cases "k < k'")
    case True
    then show ?thesis using 2(2) by (auto intro: less_trans)
  next
    case False
    then have "k' < k" using 2(3) by auto
    then show ?thesis using 2 False by auto
  qed
qed simp

lemma map_of_sorted_iff:
  "sorted_wrt (<) (map fst es) \<Longrightarrow> map_of es k = Some p \<longleftrightarrow> (k, p) \<in> set (es :: (string \<times> nat) list)"
  by (rule map_of_eq_Some_iff) (simp add: strict_sorted_iff)

lemma FindHistogram_ok:
  "lock_made s \<Longrightarrow> histograms_map s = Some es \<Longrightarrow> sorted_wrt (<) (map fst es) \<Longrightarrow>
   FindHistogram name s = Some p \<longleftrightarrow> (name, p) \<in> set es"
  by (simp add: FindHistogram_def map_of_sorted_iff)

section \<open>The registry\<close>

lemma registered_keep:
  assumes "registered s k q" "\<forall>q. q \<in> dom (histogram_heap s) \<longrightarrow> histogram_heap s' q = histogram_heap s q"
    "\<forall>q. q \<in> dom (ranges_heap s) \<longrightarrow> ranges_heap s' q = ranges_heap s q"
    "\<forall>c qs. ranges_map s c = Some qs \<longrightarrow> (\<exists>qs'. ranges_map s' c = Some qs' \<and> set qs \<subseteq> set qs')"
  shows "registered s' k q"
  using assms unfolding registered_def by (metis domI subsetD)

lemma register_new_ok:
  assumes ok: "recorder_ok s" and new: "FindHistogram name s = None" and build: "builds name args build"
  shows "\<exists>p s'. register_new build fl s = Some (p, s') \<and> recorder_ok s' \<and> FindHistogram name s' = Some p \<and>
     (\<forall>k q. FindHistogram k s = Some q \<longrightarrow> FindHistogram k s' = Some q) \<and>
     (\<forall>k. k \<noteq> name \<longrightarrow> FindHistogram k s' = FindHistogram k s) \<and>
     (\<forall>q \<in> dom (histogram_heap s). histogram_heap s' q = histogram_heap s q) \<and>
     (\<exists>h. histogram_heap s' p = Some h \<and> has_arguments args h)"
proof -
  define p where "p = next_address s"
  obtain es where es: "lock_made s" "histograms_map s = Some es" "sorted_wrt (<) (map fst es)"
      "\<forall>(k, q) \<in> set es. registered s k q" "ranges_ok s"
      "\<forall>q \<in> dom (histogram_heap s). q < p" "\<forall>q \<in> dom (ranges_heap s). q < p"
    using ok unfolding recorder_ok_def p_def by blast
  obtain h0 r where hr: "build (p + 1) = Some (h0, r)" "ready h0 r" "histogram_name h0 = name" "cached_ranges h0 = p + 1"
      "has_arguments args h0"
    using build unfolding builds_def by blast
  define h where "h = SetFlags fl h0"
  have h: "histogram_name h = name" "cached_ranges h = p + 1" "ready h r"
    using hr by (simp_all add: h_def SetFlags_def ready_def ValidateBucketRanges_def HasValidRangeChecksum_def)
  define s1 where "s1 = s\<lparr>histogram_heap := (histogram_heap s)(p \<mapsto> h), ranges_heap := (ranges_heap s)(p + 1 \<mapsto> r),
      next_address := p + 2, histograms_map := Some (map_insert name p es)\<rparr>"
  have fresh: "name \<notin> fst ` set es"
    using new es(1,2) by (simp add: FindHistogram_def map_of_eq_None_iff)
  have old: "listed (ranges_heap s) c qs" "p + 1 \<notin> set qs" if "ranges_map s c = Some qs" for c qs
  proof -
    show l: "listed (ranges_heap s) c qs" using that es(5) by (simp add: ranges_ok_def)
    have "q < p" if "q \<in> set qs" for q using l that es(7) by (force simp: listed_def)
    then show "p + 1 \<notin> set qs" by force
  qed
  have "unlisted s1 (cached_ranges h)" using old(2) h(2) by (auto simp: unlisted_def s1_def)
  moreover have "listed (ranges_heap s1) c qs" if "ranges_map s c = Some qs" for c qs
    using old [OF that] listed_cong [of qs "ranges_heap s1" "ranges_heap s" c] by (auto simp: s1_def)
  then have "ranges_ok s1" by (simp add: ranges_ok_def s1_def)
  ultimately obtain s' a' r' qs' where s': "RegisterOrDeleteDuplicateRanges p s1 = Some s'" "ranges_ok s'"
      "histogram_heap s' = (histogram_heap s1)(p \<mapsto> h\<lparr>cached_ranges := a'\<rparr>)"
      "ranges_heap s' a' = Some r'" "cr_ranges r' = cr_ranges r"
      "ranges_map s' (range_checksum h) = Some qs'" "a' \<in> set qs'"
      "\<forall>q. q \<noteq> cached_ranges h \<longrightarrow> ranges_heap s' q = ranges_heap s1 q"
      "\<forall>c qs. ranges_map s1 c = Some qs \<longrightarrow> (\<exists>qs'. ranges_map s' c = Some qs' \<and> set qs \<subseteq> set qs')"
      "lock_made s' = lock_made s1" "histograms_map s' = histograms_map s1" "next_address s' = next_address s1"
    using RegisterOrDeleteDuplicateRanges_ok [of s1 p h r] h(2) by (auto simp: s1_def)
  have rk: "ranges_heap s' q = ranges_heap s q" if "q \<noteq> p + 1" for q
    using s'(8) [rule_format, of q] h(2) that by (simp add: s1_def)
  have hk: "histogram_heap s' q = histogram_heap s q" if "q \<noteq> p" for q
    using s'(3) that by (simp add: s1_def)
  have nx: "next_address s' = p + 2" using s'(12) by (simp add: s1_def)
  let ?s = "s'\<lparr>number_of_histograms := number_of_histograms s' + 1\<rparr>"
  have "map_of es name = None" using fresh by (simp add: map_of_eq_None_iff)
  then have run: "register_new build fl s = Some (p, ?s)"
    using hr(1) h(1) es(1,2) s'(1)
    by (simp add: register_new_def RegisterOrDeleteDuplicate_def Let_def p_def [symmetric] s1_def h_def [symmetric])
  let ?es = "map_insert name p es"
  have map': "lock_made ?s" "histograms_map ?s = Some ?es" "sorted_wrt (<) (map fst ?es)"
    using es s'(10,11) fresh by (simp_all add: s1_def sorted_map_insert)
  have keep: "registered ?s k q" if "registered s k q" for k q
  proof (rule registered_keep [OF that])
    show "\<forall>q. q \<in> dom (histogram_heap s) \<longrightarrow> histogram_heap ?s q = histogram_heap s q"
    proof (intro allI impI)
      fix q assume "q \<in> dom (histogram_heap s)"
      then have "q \<noteq> p" using es(6) by blast
      then show "histogram_heap ?s q = histogram_heap s q" using hk by simp
    qed
    show "\<forall>q. q \<in> dom (ranges_heap s) \<longrightarrow> ranges_heap ?s q = ranges_heap s q"
    proof (intro allI impI)
      fix q assume "q \<in> dom (ranges_heap s)"
      then have "q < p" using es(7) by blast
      then show "ranges_heap ?s q = ranges_heap s q" using rk by simp
    qed
    show "\<forall>c qs. ranges_map s c = Some qs \<longrightarrow> (\<exists>qs'. ranges_map ?s c = Some qs' \<and> set qs \<subseteq> set qs')"
      using s'(9) by (simp add: s1_def)
  qed
  have "registered ?s name p"
    using s'(3-7) h(1,3) by (auto simp: registered_def ready_def HasValidRangeChecksum_def)
  then have reg: "\<forall>(k, q) \<in> set ?es. registered ?s k q" using es(4) keep by auto
  have "q < next_address ?s" if "q \<in> dom (histogram_heap ?s)" for q
  proof (cases "q = p")
    case False
    then have "q < p" using that es(6) hk by auto
    then show ?thesis by (simp add: nx)
  qed (simp add: nx)
  moreover have "q < next_address ?s" if "q \<in> dom (ranges_heap ?s)" for q
  proof (cases "q = p + 1")
    case False
    then have "q < p" using that es(7) rk by auto
    then show ?thesis by (simp add: nx)
  qed (simp add: nx)
  ultimately have "recorder_ok ?s"
    using map' reg s'(2) unfolding recorder_ok_def by (auto simp: ranges_ok_def)
  moreover have "FindHistogram name ?s = Some p" using FindHistogram_ok [OF map'] by simp
  moreover have "FindHistogram k ?s = Some q" if "FindHistogram k s = Some q" for k q
    using that FindHistogram_ok [OF map'] FindHistogram_ok [OF es(1-3)] by simp
  moreover have "FindHistogram k ?s = FindHistogram k s" if "k \<noteq> name" for k
  proof -
    have "FindHistogram k ?s = Some q \<longleftrightarrow> FindHistogram k s = Some q" for q
      using that FindHistogram_ok [OF map', of k q] FindHistogram_ok [OF es(1-3), of k q] by simp
    then show ?thesis by (metis option.exhaust)
  qed
  moreover have "histogram_heap ?s q = histogram_heap s q" if "q \<in> dom (histogram_heap s)" for q
    using es(6) that hk [of q] by (cases "q = p") auto
  moreover have "\<exists>h. histogram_heap ?s p = Some h \<and> has_arguments args h"
    using s'(3) hr(5) by (simp add: h_def)
  ultimately show ?thesis using run by blast
qed

lemma request_step:
  assumes "bucket_growth growth" "recorder_ok s" "valid_request req"
  shows "\<exists>p s'. request growth req s = Some (p, s') \<and> recorder_ok s' \<and> FindHistogram (request_name req) s' = Some p \<and>
     (\<forall>k q. FindHistogram k s = Some q \<longrightarrow> FindHistogram k s' = Some q) \<and>
     (\<forall>k. k \<noteq> request_name req \<longrightarrow> FindHistogram k s' = FindHistogram k s) \<and>
     (\<forall>q \<in> dom (histogram_heap s). histogram_heap s' q = histogram_heap s q) \<and>
     (FindHistogram (request_name req) s = None \<longrightarrow>
        (\<exists>h. histogram_heap s' p = Some h \<and> has_arguments (request_arguments req) h))"
proof -
  obtain build fl where b: "builds (request_name req) (request_arguments req) build"
      "\<And>s. request growth req s = (case FindHistogram (request_name req) s of
         Some p \<Rightarrow> Some (p, s) | None \<Rightarrow> register_new build fl s)"
    using request_cases [OF assms(1,3)] by blast
  show ?thesis
  proof (cases "FindHistogram (request_name req) s")
    case None
    with register_new_ok [OF assms(2) None b(1), of fl] b(2) [of s] show ?thesis by simp
  next
    case (Some p)
    with b(2) [of s] assms(2) show ?thesis by simp
  qed
qed

lemma request_ok:
  assumes "bucket_growth growth" "recorder_ok s" "valid_request req"
  shows "\<exists>p s'. request growth req s = Some (p, s') \<and> recorder_ok s' \<and> FindHistogram (request_name req) s' = Some p \<and>
     (\<forall>k q. FindHistogram k s = Some q \<longrightarrow> FindHistogram k s' = Some q)"
  using request_step [OF assms] by blast

lemma request_known: "FindHistogram (request_name req) s = Some p \<Longrightarrow> request growth req s = Some (p, s)"
  by (cases req) (simp_all add: Histogram_FactoryGet_def LinearHistogram_FactoryGet_def
      BooleanHistogram_FactoryGet_def CustomHistogram_FactoryGet_def)

lemma recorder_ok_new: "recorder_ok (new_StatisticsRecorder initial_recorder)"
  by (simp add: recorder_ok_def new_StatisticsRecorder_def initial_recorder_def ranges_ok_def)

text \<open>The table of the registry, for the floating point step in exact arithmetic.\<close>

interpretation registry: name_table "request exact_growth" FindHistogram request_name recorder_ok valid_request
  by unfold_locales (rule request_ok [OF exact.bucket_growth_axioms], assumption+, rule request_known)

lemma name_table_request:
  "bucket_growth growth \<Longrightarrow> name_table (request growth) FindHistogram request_name recorder_ok valid_request"
  by unfold_locales (rule request_ok, assumption+, rule request_known)

lemma recorder_ok_registered: "recorder_ok s \<Longrightarrow> FindHistogram name s = Some p \<Longrightarrow> registered s name p"
  unfolding recorder_ok_def using FindHistogram_ok by blast

lemma registered_shares:
  assumes "ranges_ok s" "registered s m p" "registered s n q" "histogram_heap s p = Some h" "histogram_heap s q = Some g"
    "ranges_heap s (cached_ranges h) = Some r" "ranges_heap s (cached_ranges g) = Some e" "cr_ranges r = cr_ranges e"
  shows "cached_ranges h = cached_ranges g"
proof -
  obtain qs qs' where 1: "good_ranges (bucket_count h) (cr_ranges r)" "HasValidRangeChecksum h r"
      "ranges_map s (range_checksum h) = Some qs" "cached_ranges h \<in> set qs"
    and 2: "good_ranges (bucket_count g) (cr_ranges e)" "HasValidRangeChecksum g e"
      "ranges_map s (range_checksum g) = Some qs'" "cached_ranges g \<in> set qs'"
    using assms(2-7) unfolding registered_def by auto
  have "bucket_count h = bucket_count g" using 1(1) 2(1) assms(8) by (simp add: good_ranges_def)
  then have c: "range_checksum h = range_checksum g"
    using 1(2) 2(2) assms(8) by (simp add: HasValidRangeChecksum_def)
  then have l: "listed (ranges_heap s) (range_checksum h) qs" "cached_ranges g \<in> set qs"
    using assms(1) 1(3) 2(3,4) by (auto simp: ranges_ok_def)
  then have "cr_checksum r = cr_checksum e" using 1(4) assms(6,7) unfolding listed_def by (metis option.inject)
  then have "r = e" using assms(8) by (cases r; cases e) simp
  then show ?thesis using l 1(4) assms(6,7) by (auto simp: listed_def inj_on_def)
qed

section \<open>Requests that agree\<close>

text \<open>Every registered histogram has the class and the limits of a request for its name.\<close>

definition made_by :: "factory_request set \<Rightarrow> recorder \<Rightarrow> bool" where
  "made_by reqs s \<longleftrightarrow> recorder_ok s \<and> (\<forall>k p. FindHistogram k s = Some p \<longrightarrow>
     (\<exists>req \<in> reqs. request_name req = k \<and>
        (\<exists>h. histogram_heap s p = Some h \<and> has_arguments (request_arguments req) h)))"

lemma made_by_new: "made_by {} (new_StatisticsRecorder initial_recorder)"
  using recorder_ok_new by (simp add: made_by_def FindHistogram_def new_StatisticsRecorder_def initial_recorder_def)

lemma made_by_request:
  assumes "bucket_growth growth" "made_by reqs s" "valid_request req" "request growth req s = Some (p, s')"
  shows "made_by (insert req reqs) s'"
proof -
  have ok: "recorder_ok s" using assms(2) by (simp add: made_by_def)
  from request_step [OF assms(1) ok assms(3)] assms(4)
  have step: "recorder_ok s'" "FindHistogram (request_name req) s' = Some p"
      "\<And>k. k \<noteq> request_name req \<Longrightarrow> FindHistogram k s' = FindHistogram k s"
      "\<And>q. q \<in> dom (histogram_heap s) \<Longrightarrow> histogram_heap s' q = histogram_heap s q"
      "\<And>k q. FindHistogram k s = Some q \<Longrightarrow> FindHistogram k s' = Some q"
      "FindHistogram (request_name req) s = None \<Longrightarrow>
        \<exists>h. histogram_heap s' p = Some h \<and> has_arguments (request_arguments req) h"
    by auto
  have "\<exists>r \<in> insert req reqs. request_name r = k \<and>
      (\<exists>h. histogram_heap s' q = Some h \<and> has_arguments (request_arguments r) h)"
    if k: "FindHistogram k s' = Some q" for k q
  proof (cases "FindHistogram k s")
    case None
    then have "k = request_name req" using step(3) [of k] k by auto
    then show ?thesis using None k step(2,6) by auto
  next
    case (Some q')
    then have "q' = q" using step(5) k by fastforce
    then obtain r h where "r \<in> reqs" "request_name r = k" "histogram_heap s q = Some h"
        "has_arguments (request_arguments r) h"
      using assms(2) Some unfolding made_by_def by blast
    moreover from this(3) have "histogram_heap s' q = Some h" using step(4) [of q] by auto
    ultimately show ?thesis by blast
  qed
  then show ?thesis using step(1) by (simp add: made_by_def)
qed

lemma made_by_requests:
  assumes "bucket_growth growth"
  shows "made_by reqs s \<Longrightarrow> \<forall>req \<in> set ops. valid_request req \<Longrightarrow>
     run_gets (request growth) ops s = Some s' \<Longrightarrow> made_by (reqs \<union> set ops) s'"
proof (induction ops arbitrary: reqs s)
  case (Cons op ops)
  then obtain p s1 where s1: "request growth op s = Some (p, s1)" "run_gets (request growth) ops s1 = Some s'"
    by (auto simp: bind_eq_Some_conv)
  have "made_by (insert op reqs) s1"
    using made_by_request [OF assms Cons.prems(1) _ s1(1)] Cons.prems(2) by simp
  from Cons.IH [OF this _ s1(2)] Cons.prems(2) show ?case by simp
qed simp

lemma made_by_asserts:
  assumes "made_by reqs s" "FindHistogram (request_name req) s = Some p"
    and "\<forall>r \<in> reqs. request_name r = request_name req \<longrightarrow> request_arguments r = request_arguments req"
  shows "\<exists>h. histogram_heap s p = Some h \<and> request_asserts req h"
proof -
  from assms(1,2) obtain r h where "r \<in> reqs" "request_name r = request_name req"
      "histogram_heap s p = Some h" "has_arguments (request_arguments r) h"
    unfolding made_by_def by blast
  with assms(3) have "histogram_heap s p = Some h" "has_arguments (request_arguments req) h" by auto
  then show ?thesis using has_arguments_asserts by blast
qed

section \<open>Properties\<close>

text \<open>C20: A name has one histogram. Whatever valid requests came before and between, as long as requests for
  the same name agree on the class and on the limits (after clamping), two requests for a name give
  the same pointer, the second changes nothing, and the assertions of both factories on the class and
  the limits of the histogram they return hold.\<close>

theorem a_name_has_one_histogram:
  assumes "bucket_growth growth" "\<forall>req \<in> set before. valid_request req" "valid_request req"
    "\<forall>req \<in> set between. valid_request req" "request_name req' = request_name req"
    and agree: "\<forall>a \<in> set (before @ req # between). \<forall>b \<in> {req, req'}.
      request_name a = request_name b \<longrightarrow> request_arguments a = request_arguments b"
  shows "\<exists>s1 p s2 s3. run_gets (request growth) before (new_StatisticsRecorder initial_recorder) = Some s1 \<and>
     request growth req s1 = Some (p, s2) \<and> run_gets (request growth) between s2 = Some s3 \<and>
     request growth req' s3 = Some (p, s3) \<and>
     (\<exists>h. histogram_heap s2 p = Some h \<and> request_asserts req h) \<and>
     (\<exists>h. histogram_heap s3 p = Some h \<and> request_asserts req' h)"
proof -
  obtain s1 p s2 s3 where
    s1: "run_gets (request growth) before (new_StatisticsRecorder initial_recorder) = Some s1" and
    s2: "request growth req s1 = Some (p, s2)" and
    s3: "run_gets (request growth) between s2 = Some s3" and
    again: "request growth req' s3 = Some (p, s3)"
    using name_table.get_again [OF name_table_request [OF assms(1)] recorder_ok_new assms(2-5)] by blast
  have m1: "made_by (set before) s1"
    using made_by_requests [OF assms(1) made_by_new assms(2) s1] by simp
  have m2: "made_by (insert req (set before)) s2" by (rule made_by_request [OF assms(1) m1 assms(3) s2])
  have m3: "made_by (insert req (set before) \<union> set between) s3"
    by (rule made_by_requests [OF assms(1) m2 assms(4) s3])
  have ok: "recorder_ok s1" "recorder_ok s2" using m1 m2 by (simp_all add: made_by_def)
  have f2: "FindHistogram (request_name req) s2 = Some p"
    using request_step [OF assms(1) ok(1) assms(3)] s2 by auto
  have f3: "FindHistogram (request_name req') s3 = Some p"
    using name_table.run_gets_ok [OF name_table_request [OF assms(1)] ok(2) assms(4)] s3 f2 assms(5) by auto
  have "\<exists>h. histogram_heap s2 p = Some h \<and> request_asserts req h"
    by (rule made_by_asserts [OF m2 f2]) (use agree in auto)
  moreover have "\<exists>h. histogram_heap s3 p = Some h \<and> request_asserts req' h"
    by (rule made_by_asserts [OF m3 f3]) (use agree in auto)
  ultimately show ?thesis using s1 s2 s3 again by blast
qed

lemma a_name_has_one_histogram_witness:
  "\<exists>s1 p s2 s3. run_gets (request exact_growth) [GetBoolean ''Hit'' 0] (new_StatisticsRecorder initial_recorder) = Some s1 \<and>
     request exact_growth (GetExponential ''Latency'' 0 10000 50 0) s1 = Some (p, s2) \<and>
     run_gets (request exact_growth) [GetExponential ''Size'' 1 10000 50 0, GetCustom ''State'' [1, 2] 0] s2 = Some s3 \<and>
     request exact_growth (GetExponential ''Latency'' 1 10000 50 1) s3 = Some (p, s3)"
proof -
  have "custom_ranges [1, 2] = [0, 1, 2]" by (simp add: custom_ranges_def)
  then have "\<exists>s1 p s2 s3. run_gets (request exact_growth) [GetBoolean ''Hit'' 0]
      (new_StatisticsRecorder initial_recorder) = Some s1 \<and>
     request exact_growth (GetExponential ''Latency'' 0 10000 50 0) s1 = Some (p, s2) \<and>
     run_gets (request exact_growth) [GetExponential ''Size'' 1 10000 50 0, GetCustom ''State'' [1, 2] 0] s2 = Some s3 \<and>
     request exact_growth (GetExponential ''Latency'' 1 10000 50 1) s3 = Some (p, s3) \<and>
     (\<exists>h. histogram_heap s2 p = Some h \<and> request_asserts (GetExponential ''Latency'' 0 10000 50 0) h) \<and>
     (\<exists>h. histogram_heap s3 p = Some h \<and> request_asserts (GetExponential ''Latency'' 1 10000 50 1) h)"
    by (intro a_name_has_one_histogram [OF exact.bucket_growth_axioms])
      (simp_all add: valid_limits_def kSampleType_MAX_def kBucketCount_MAX_def)
  then show ?thesis by blast
qed

text \<open>Without that agreement the second request still gets the histogram of the first, of another
  class, and its factory asserts the contrary.\<close>

theorem class_mismatch_is_returned:
  "\<exists>p s h. request exact_growth (GetBoolean ''Hit'' 0) (new_StatisticsRecorder initial_recorder) = Some (p, s) \<and>
     request exact_growth (GetLinear ''Hit'' 1 100 50 0) s = Some (p, s) \<and>
     histogram_heap s p = Some h \<and> \<not> request_asserts (GetLinear ''Hit'' 1 100 50 0) h"
proof -
  let ?first = "GetBoolean ''Hit'' 0"
  have valid: "valid_request ?first" by simp
  obtain p s where s: "request exact_growth ?first (new_StatisticsRecorder initial_recorder) = Some (p, s)"
      "FindHistogram ''Hit'' s = Some p"
    using request_ok [OF exact.bucket_growth_axioms recorder_ok_new valid] by auto
  have "made_by {?first} s"
    using made_by_request [OF exact.bucket_growth_axioms made_by_new valid s(1)] by simp
  with s(2) obtain h where h: "histogram_heap s p = Some h" "has_arguments (request_arguments ?first) h"
    unfolding made_by_def by blast
  then have "\<not> request_asserts (GetLinear ''Hit'' 1 100 50 0) h"
    by (auto simp: has_arguments_def LinearHistogram_FactoryGet_asserts_def)
  moreover have "request exact_growth (GetLinear ''Hit'' 1 100 50 0) s = Some (p, s)"
    by (rule request_known) (simp add: s(2))
  ultimately show ?thesis using s(1) h(1) by blast
qed

text \<open>C16: After any valid requests every registered histogram is there with its ranges, which are in order and
  match the checksum, and two histograms with equal bounds point to the same ranges.\<close>

theorem equal_ranges_are_shared:
  assumes "bucket_growth growth" "\<forall>req \<in> set reqs. valid_request req"
  shows "\<exists>s. run_gets (request growth) reqs (new_StatisticsRecorder initial_recorder) = Some s \<and>
     (\<forall>name p. FindHistogram name s = Some p \<longrightarrow>
        (\<exists>h r. histogram_heap s p = Some h \<and> histogram_name h = name \<and> ranges_heap s (cached_ranges h) = Some r \<and>
           good_ranges (bucket_count h) (cr_ranges r) \<and> HasValidRangeChecksum h r)) \<and>
     (\<forall>m p h r n q g e. FindHistogram m s = Some p \<longrightarrow> FindHistogram n s = Some q \<longrightarrow>
        histogram_heap s p = Some h \<longrightarrow> histogram_heap s q = Some g \<longrightarrow>
        ranges_heap s (cached_ranges h) = Some r \<longrightarrow> ranges_heap s (cached_ranges g) = Some e \<longrightarrow>
        cr_ranges r = cr_ranges e \<longrightarrow> cached_ranges h = cached_ranges g)"
proof -
  obtain s where s: "run_gets (request growth) reqs (new_StatisticsRecorder initial_recorder) = Some s" "recorder_ok s"
    using name_table.run_gets_ok [OF name_table_request [OF assms(1)] recorder_ok_new assms(2)] by blast
  have ok: "ranges_ok s" using s(2) by (simp add: recorder_ok_def)
  have "\<exists>h r. histogram_heap s p = Some h \<and> histogram_name h = name \<and> ranges_heap s (cached_ranges h) = Some r \<and>
      good_ranges (bucket_count h) (cr_ranges r) \<and> HasValidRangeChecksum h r" if "FindHistogram name s = Some p" for name p
    using recorder_ok_registered [OF s(2) that] unfolding registered_def by blast
  moreover have "cached_ranges h = cached_ranges g"
    if "FindHistogram m s = Some p" "FindHistogram n s = Some q" "histogram_heap s p = Some h" "histogram_heap s q = Some g"
      "ranges_heap s (cached_ranges h) = Some r" "ranges_heap s (cached_ranges g) = Some e" "cr_ranges r = cr_ranges e"
    for m p h r n q g e
    using registered_shares [OF ok recorder_ok_registered [OF s(2) that(1)] recorder_ok_registered [OF s(2) that(2)] that(3-7)] .
  ultimately show ?thesis using s(1) by blast
qed

lemma equal_ranges_are_shared_witness:
  "\<exists>s. run_gets (request exact_growth) [GetLinear ''A'' 1 100 50 0, GetBoolean ''B'' 0, GetLinear ''C'' 1 100 50 0]
       (new_StatisticsRecorder initial_recorder) = Some s \<and>
     (\<forall>name p. FindHistogram name s = Some p \<longrightarrow>
        (\<exists>h r. histogram_heap s p = Some h \<and> histogram_name h = name \<and> ranges_heap s (cached_ranges h) = Some r \<and>
           good_ranges (bucket_count h) (cr_ranges r) \<and> HasValidRangeChecksum h r)) \<and>
     (\<forall>m p h r n q g e. FindHistogram m s = Some p \<longrightarrow> FindHistogram n s = Some q \<longrightarrow>
        histogram_heap s p = Some h \<longrightarrow> histogram_heap s q = Some g \<longrightarrow>
        ranges_heap s (cached_ranges h) = Some r \<longrightarrow> ranges_heap s (cached_ranges g) = Some e \<longrightarrow>
        cr_ranges r = cr_ranges e \<longrightarrow> cached_ranges h = cached_ranges g)"
  by (rule equal_ranges_are_shared [OF exact.bucket_growth_axioms])
    (simp add: valid_limits_def kSampleType_MAX_def kBucketCount_MAX_def)

end
