(* ===== verification/Histogram_Ascii.thy ===== *)
theory Histogram_Ascii
  imports Statistics_Props
begin

text \<open>
  The rendering of histograms as text: WriteAscii and the functions it calls in
  src/chromium/metrics/histogram.cc, and the graphs of StatisticsRecorder. The arithmetic of double and float and
  its decimal text belong to the processor and the C library and are the parameter double_ops; the rows of
  the graph are determined by the counts, and the widths of the bars need only the laws of the locale doubles.
  StringAppendF appends its text (theory String_Printf: it does below 32 MiB). None is an access
  out of range or a conversion to int of a value that does not fit.
\<close>

unbundle bit_operations_syntax

section \<open>Parameters\<close>

text \<open>The conversion of an int64_t, the operations, a < b, the conversion to int by truncation, 0.5, 100.0, the
  average computed in float, and the text of the format "%<n>.1f".\<close>

record 'd double_ops =
  d_of_int :: "int \<Rightarrow> 'd"
  d_add :: "'d \<Rightarrow> 'd \<Rightarrow> 'd"
  d_mul :: "'d \<Rightarrow> 'd \<Rightarrow> 'd"
  d_div :: "'d \<Rightarrow> 'd \<Rightarrow> 'd"
  d_less :: "'d \<Rightarrow> 'd \<Rightarrow> bool"
  d_to_int :: "'d \<Rightarrow> int option"
  d_half :: "'d"
  float_average :: "int \<Rightarrow> int \<Rightarrow> 'd"
  fixed1 :: "nat \<Rightarrow> 'd \<Rightarrow> string"

section \<open>Text of the parts of a row\<close>

text \<open>The formats "%x" and "%#x" of an unsigned value.\<close>

fun hex_rev :: "nat \<Rightarrow> string" where
  "hex_rev n =
     (let d = n mod 16; c = char_of (if d < 10 then 48 + d else 87 + d)
      in if n < 16 then [c] else c # hex_rev (n div 16))"

declare hex_rev.simps [simp del]

definition show_hex :: "u32 \<Rightarrow> string" where
  "show_hex w = rev (hex_rev (unat w))"

definition show_hex_prefixed :: "u32 \<Rightarrow> string" where
  "show_hex_prefixed w = (if w = 0 then ''0'' else ''0x'' @ show_hex w)"

text \<open>GetAsciiBucketRange of Histogram, and of the linear classes, which know descriptions.\<close>

definition range_number :: "Histogram \<Rightarrow> int \<Rightarrow> string" where
  "range_number h x =
     (if kHexRangePrintingFlag AND h_flags h \<noteq> 0 then show_hex_prefixed (word_of_int x) else show_int x)"

definition Linear_GetAsciiBucketRange :: "Histogram \<Rightarrow> int \<Rightarrow> string" where
  "Linear_GetAsciiBucketRange h x =
     (case map_of (bucket_description h) x of None \<Rightarrow> range_number h x | Some d \<Rightarrow> d)"

definition GetAsciiBucketRange :: "CachedRanges \<Rightarrow> nat \<Rightarrow> Histogram \<Rightarrow> string option" where
  "GetAsciiBucketRange r i h =
     map_option
       (if histogram_type h \<in> {LINEAR_HISTOGRAM, BOOLEAN_HISTOGRAM} then Linear_GetAsciiBucketRange h else range_number h)
       (elem_at (cr_ranges r) i)"

text \<open>GetBucketSize: by the width up to the transition width, by the real width in the linear classes, and 1 in
  custom histograms.\<close>

definition bucket_width :: "'d double_ops \<Rightarrow> CachedRanges \<Rightarrow> nat \<Rightarrow> 'd option" where
  "bucket_width D r i =
     do {
       b \<leftarrow> elem_at (cr_ranges r) (i + 1);
       a \<leftarrow> elem_at (cr_ranges r) i;
       Some (d_of_int D (b - a))
     }"

definition Histogram_GetBucketSize :: "'d double_ops \<Rightarrow> CachedRanges \<Rightarrow> int \<Rightarrow> nat \<Rightarrow> 'd option" where
  "Histogram_GetBucketSize D r current i =
     do {
       denominator \<leftarrow> bucket_width D r i;
       let kTransitionWidth = d_of_int D 5;
           denominator = (if d_less D kTransitionWidth denominator then kTransitionWidth else denominator)
       in Some (d_div D (d_of_int D current) denominator)
     }"

definition Linear_GetBucketSize :: "'d double_ops \<Rightarrow> CachedRanges \<Rightarrow> int \<Rightarrow> nat \<Rightarrow> 'd option" where
  "Linear_GetBucketSize D r current i =
     map_option (\<lambda>denominator. d_div D (d_of_int D current) denominator) (bucket_width D r i)"

definition Custom_GetBucketSize :: "'d double_ops \<Rightarrow> 'd option" where
  "Custom_GetBucketSize D = Some (d_of_int D 1)"

definition GetBucketSize :: "'d double_ops \<Rightarrow> CachedRanges \<Rightarrow> int \<Rightarrow> nat \<Rightarrow> Histogram \<Rightarrow> 'd option" where
  "GetBucketSize D r current i h =
     (case histogram_type h of
        HISTOGRAM \<Rightarrow> Histogram_GetBucketSize D r current i
      | LINEAR_HISTOGRAM \<Rightarrow> Linear_GetBucketSize D r current i
      | BOOLEAN_HISTOGRAM \<Rightarrow> Linear_GetBucketSize D r current i
      | CUSTOM_HISTOGRAM \<Rightarrow> Custom_GetBucketSize D)"

text \<open>A count of the snapshot.\<close>

definition count_at :: "SampleSet \<Rightarrow> nat \<Rightarrow> int option" where
  "count_at s i = map_option sint (elem_at (ss_counts s) i)"

fun peak_loop :: "'d double_ops \<Rightarrow> CachedRanges \<Rightarrow> Histogram \<Rightarrow> SampleSet \<Rightarrow> nat list \<Rightarrow> 'd \<Rightarrow> 'd option" where
  "peak_loop D r h s [] max_size = Some max_size"
| "peak_loop D r h s (i # is) max_size =
     do {
       c \<leftarrow> count_at s i;
       current_size \<leftarrow> GetBucketSize D r c i h;
       peak_loop D r h s is (if d_less D max_size current_size then current_size else max_size)
     }"

definition GetPeakBucketSize :: "'d double_ops \<Rightarrow> CachedRanges \<Rightarrow> SampleSet \<Rightarrow> Histogram \<Rightarrow> 'd option" where
  "GetPeakBucketSize D r s h = peak_loop D r h s [0..<bucket_count h] (d_of_int D 0)"

text \<open>The first line. The name is read as a C string.\<close>

definition WriteAsciiHeader :: "'d double_ops \<Rightarrow> SampleSet \<Rightarrow> int \<Rightarrow> Histogram \<Rightarrow> string \<Rightarrow> string" where
  "WriteAsciiHeader D s sample_count h output =
     output @ ''Histogram: '' @ takeWhile (\<lambda>c. c \<noteq> CHR 0x00) (histogram_name h) @ '' recorded '' @
     show_int sample_count @ '' samples'' @
     (if 0 = sample_count then []
      else '', average = '' @ fixed1 D 0 (float_average D (sint (ss_sum s)) sample_count)) @
     (if h_flags h AND NOT kHexRangePrintingFlag \<noteq> 0
      then '' (flags = 0x'' @ show_hex (h_flags h AND NOT kHexRangePrintingFlag) @ '')'' else [])"

definition WriteAsciiBucketValue :: "'d double_ops \<Rightarrow> int \<Rightarrow> 'd \<Rightarrow> string \<Rightarrow> string" where
  "WriteAsciiBucketValue D current scaled_sum output =
     output @ '' ('' @ show_int current @ '' = '' @ fixed1 D 3 (d_div D (d_of_int D current) scaled_sum) @ ''%)''"

definition WriteAsciiBucketContext :: "'d double_ops \<Rightarrow> int \<Rightarrow> int \<Rightarrow> int \<Rightarrow> nat \<Rightarrow> string \<Rightarrow> string" where
  "WriteAsciiBucketContext D past current remaining i output =
     (let scaled_sum = d_div D (d_of_int D (past + current + remaining)) (d_of_int D 100);
          output = WriteAsciiBucketValue D current scaled_sum output
      in if 0 < i then output @ '' {'' @ fixed1 D 3 (d_div D (d_of_int D past) scaled_sum) @ ''%}'' else output)"

definition k_line_length :: int where "k_line_length = 72"

text \<open>The loops append x_count dashes and x_remainder blanks, none when negative; the difference must be an int.\<close>

definition WriteAsciiBucketGraph :: "'d double_ops \<Rightarrow> 'd \<Rightarrow> 'd \<Rightarrow> string \<Rightarrow> string option" where
  "WriteAsciiBucketGraph D current_size max_size output =
     do {
       x_count \<leftarrow> d_to_int D (d_add D (d_mul D (d_of_int D k_line_length) (d_div D current_size max_size)) (d_half D));
       let x_remainder = k_line_length - x_count
       in if x_remainder > 2147483647 then None
          else Some (output @ replicate (nat x_count) (CHR ''-'') @ ''O'' @ replicate (nat x_remainder) (CHR '' ''))
     }"

section \<open>WriteAscii\<close>

text \<open>The largest non-empty bucket, whose index the code computes and does not use.\<close>

fun largest_non_empty_bucket :: "SampleSet \<Rightarrow> nat \<Rightarrow> nat option" where
  "largest_non_empty_bucket s 0 = map_option (\<lambda>_. 0) (count_at s 0)"
| "largest_non_empty_bucket s (Suc i) =
     Option.bind (count_at s (Suc i)) (\<lambda>c. if 0 = c then largest_non_empty_bucket s i else Some (Suc i))"

fun width_loop :: "CachedRanges \<Rightarrow> Histogram \<Rightarrow> SampleSet \<Rightarrow> nat list \<Rightarrow> nat \<Rightarrow> nat option" where
  "width_loop r h s [] print_width = Some print_width"
| "width_loop r h s (i # is) print_width =
     do {
       c \<leftarrow> count_at s i;
       print_width \<leftarrow> (if c \<noteq> 0 then map_option (\<lambda>t. max (length t + 1) print_width) (GetAsciiBucketRange r i h)
                        else Some print_width);
       width_loop r h s is print_width
     }"

text \<open>The inner loop over a run of empty buckets: the index of the last one before a bucket with samples.\<close>

function skip_empty :: "SampleSet \<Rightarrow> nat \<Rightarrow> nat \<Rightarrow> nat option" where
  "skip_empty s n i =
     (if i + 1 < n then Option.bind (count_at s (i + 1)) (\<lambda>c. if 0 = c then skip_empty s n (i + 1) else Some i)
      else Some i)"
  by pat_completeness auto
termination
  by (relation "measure (\<lambda>(s, n, i). n - i)") auto

declare skip_empty.simps [simp del]

lemma skip_empty_ge: "skip_empty s n i = Some j \<Longrightarrow> i \<le> j"
proof (induction s n i rule: skip_empty.induct)
  case (1 s n i)
  show ?case
  proof (cases "i + 1 < n \<and> count_at s (i + 1) = Some 0")
    case True
    with 1(2) have "skip_empty s n (i + 1) = Some j" by (subst (asm) skip_empty.simps) simp
    with 1(1) [of 0] True show ?thesis by simp
  next
    case False
    with 1(2) show ?thesis
      by (subst (asm) skip_empty.simps) (auto simp: bind_eq_Some_conv split: if_splits)
  qed
qed

text \<open>The loop over the buckets from index i on; past, remaining and the output are its variables.\<close>

function bucket_loop ::
  "'d double_ops \<Rightarrow> CachedRanges \<Rightarrow> Histogram \<Rightarrow> SampleSet \<Rightarrow> 'd option \<Rightarrow> nat \<Rightarrow> string \<Rightarrow>
     nat \<Rightarrow> int \<Rightarrow> int \<Rightarrow> string \<Rightarrow> (int \<times> string) option" where
  "bucket_loop D r h s max_size print_width newline i past remaining output =
     (if i < bucket_count h then
        do {
          current \<leftarrow> count_at s i;
          printed \<leftarrow> (if current = 0 then PrintEmptyBucket r i h else Some True);
          if \<not> printed then bucket_loop D r h s max_size print_width newline (i + 1) past remaining output
          else do {
            let remaining = remaining - current;
            range \<leftarrow> GetAsciiBucketRange r i h;
            let output = output @ range @ replicate (print_width + 1 - length range) (CHR '' '');
            gap \<leftarrow> (if 0 = current \<and> i < bucket_count h - 1
                     then map_option (\<lambda>c. 0 = c) (count_at s (i + 1)) else Some False);
            if gap then
              (case skip_empty s (bucket_count h) i of
                 None \<Rightarrow> None
               | Some j \<Rightarrow>
                   bucket_loop D r h s max_size print_width newline (j + 1) past remaining
                     (output @ ''... '' @ newline))
            else do {
              current_size \<leftarrow> GetBucketSize D r current i h;
              output \<leftarrow> (case max_size of None \<Rightarrow> Some output
                          | Some m \<Rightarrow> WriteAsciiBucketGraph D current_size m output);
              let output = WriteAsciiBucketContext D past current remaining i output @ newline;
              bucket_loop D r h s max_size print_width newline (i + 1) (past + current) remaining output
            }
          }
        }
      else Some (past, output))"
  by pat_completeness auto
termination
  by (relation "measure (\<lambda>(D, r, h, s, m, w, nl, i, p, q, out). bucket_count h - i)")
     (auto dest: skip_empty_ge)

declare bucket_loop.simps [simp del]

definition WriteAscii ::
  "'d double_ops \<Rightarrow> CachedRanges \<Rightarrow> bool \<Rightarrow> string \<Rightarrow> Histogram \<Rightarrow> string \<Rightarrow> string option" where
  "WriteAscii D r graph_it newline h output =
     (let snapshot = SnapshotSample h;
          sample_count = sint (TotalCount snapshot);
          output = WriteAsciiHeader D snapshot sample_count h output @ newline
      in do {
           max_size \<leftarrow> (if graph_it then map_option Some (GetPeakBucketSize D r snapshot h) else Some None);
           unused \<leftarrow> largest_non_empty_bucket snapshot (bucket_count h - 1);
           print_width \<leftarrow> width_loop r h snapshot [0..<bucket_count h] 1;
           map_option snd (bucket_loop D r h snapshot max_size print_width newline 0 0 sample_count output)
         })"

definition WriteHTMLGraph :: "'d double_ops \<Rightarrow> CachedRanges \<Rightarrow> Histogram \<Rightarrow> string \<Rightarrow> string option" where
  "WriteHTMLGraph D r h output =
     map_option (\<lambda>t. t @ ''</PRE>'') (WriteAscii D r True ''<br>'' h (output @ ''<PRE>''))"

section \<open>The graphs of the recorder\<close>

text \<open>A histogram of the heap with its ranges.\<close>

definition histogram_at :: "recorder \<Rightarrow> nat \<Rightarrow> (Histogram \<times> CachedRanges) option" where
  "histogram_at s p =
     do {
       h \<leftarrow> histogram_heap s p;
       r \<leftarrow> ranges_heap s (cached_ranges h);
       Some (h, r)
     }"

fun graph_loop :: "(Histogram \<times> CachedRanges \<Rightarrow> string \<Rightarrow> string option) \<Rightarrow> recorder \<Rightarrow> nat list \<Rightarrow> string \<Rightarrow> string option" where
  "graph_loop body s [] output = Some output"
| "graph_loop body s (p # ps) output =
     do {
       hr \<leftarrow> histogram_at s p;
       output \<leftarrow> body hr output;
       graph_loop body s ps output
     }"

definition Recorder_WriteHTMLGraph :: "'d double_ops \<Rightarrow> string \<Rightarrow> recorder \<Rightarrow> string \<Rightarrow> string option" where
  "Recorder_WriteHTMLGraph D query s output =
     (if \<not> IsActive s then Some output
      else graph_loop (\<lambda>(h, r) out. map_option (\<lambda>t. t @ ''<br><hr><br>'') (WriteHTMLGraph D r h out)) s
             (GetSnapshot query s) output)"

definition Recorder_WriteGraph :: "'d double_ops \<Rightarrow> string \<Rightarrow> recorder \<Rightarrow> string \<Rightarrow> string option" where
  "Recorder_WriteGraph D query s output =
     (if \<not> IsActive s then Some output
      else
        let output =
              (if length query \<noteq> 0
               then output @ ''Collections of histograms for '' @ takeWhile (\<lambda>c. c \<noteq> CHR 0x00) query @ [CHR 0x0A]
               else output @ ''Collections of all histograms'' @ [CHR 0x0A])
        in graph_loop (\<lambda>(h, r) out. map_option (\<lambda>t. t @ [CHR 0x0A]) (WriteAscii D r True [CHR 0x0A] h out)) s
             (GetSnapshot query s) output)"

text \<open>What the destructor logs before it clears the recorder.\<close>

definition exit_dump :: "'d double_ops \<Rightarrow> recorder \<Rightarrow> string option option" where
  "exit_dump D s = (if dump_on_exit s then map_option Some (Recorder_WriteGraph D [] s []) else Some None)"

end
