(* ===== verification/Histogram_Ascii_Props.thy ===== *)
theory Histogram_Ascii_Props
  imports Histogram_Ascii
begin

text \<open>
  What the text of a histogram shows: after the header one row for some of the buckets, in order, among them
  every bucket with samples; the rows are described here from the counts alone: the count of the bucket, its share
  of all samples and the share of the samples before it, or an ellipsis; and every bar is as wide as every other, under the laws of double arithmetic that the locale doubles states and
  that exact arithmetic satisfies. A linear histogram without samples whose buckets, all but the last, have
  descriptions converts 0/0 to int.
\<close>

section \<open>Sums of counts\<close>

lemma sum_list_take_Suc: "i < length cs \<Longrightarrow> sum_list (take (Suc i) cs) = sum_list (take i cs) + (cs ! i :: int)"
  by (simp add: take_Suc_conv_app_nth)

lemma sum_list_drop_nth: "i < length cs \<Longrightarrow> sum_list (drop i cs) = (cs ! i :: int) + sum_list (drop (Suc i) cs)"
  by (simp add: drop_nth_Cons)

lemma sum_zero_run:
  "i \<le> j \<Longrightarrow> j \<le> length cs \<Longrightarrow> \<forall>k\<in>{i..<j}. cs ! k = (0::int) \<Longrightarrow>
     sum_list (take j cs) = sum_list (take i cs) \<and> sum_list (drop j cs) = sum_list (drop i cs)"
proof (induction j)
  case (Suc j)
  show ?case
  proof (cases "i = Suc j")
    case False
    then have "i \<le> j" "j < length cs" "cs ! j = 0" using Suc.prems by auto
    then show ?thesis using Suc.IH Suc.prems(3) sum_list_take_Suc [of j cs] sum_list_drop_nth [of j cs] by simp
  qed simp
qed simp

lemma member_le_sum_list_int: "x \<in> set cs \<Longrightarrow> \<forall>c\<in>set cs. 0 \<le> c \<Longrightarrow> x \<le> sum_list (cs :: int list)"
proof (induction cs)
  case (Cons c cs)
  then have "0 \<le> sum_list cs" by (simp add: sum_list_nonneg)
  with Cons show ?case by auto
qed simp

text \<open>The counts of a snapshot as integers.\<close>

definition int_counts :: "SampleSet \<Rightarrow> int list" where
  "int_counts s = map sint (ss_counts s)"

lemma count_at_nth: "i < length (int_counts s) \<Longrightarrow> count_at s i = Some (int_counts s ! i)"
  by (simp add: count_at_def elem_at_def int_counts_def)

lemma TotalCount_sum:
  assumes "\<forall>c\<in>set (int_counts s). 0 \<le> c" and "sum_list (int_counts s) < 2 ^ 31"
  shows "sint (TotalCount s) = sum_list (int_counts s)"
proof -
  have "foldl (+) a ws = a + word_of_int (sum_list (map sint ws))" for a :: u32 and ws
    by (induction ws arbitrary: a) (simp_all add: wi_hom_add [symmetric] add.assoc)
  then have "TotalCount s = word_of_int (sum_list (int_counts s))"
    by (simp add: TotalCount_def int_counts_def)
  moreover have "0 \<le> sum_list (int_counts s)" using assms(1) by (simp add: sum_list_nonneg)
  ultimately show ?thesis using assms(2) by (simp add: sint_sbintrunc' signed_take_bit_int_eq_self)
qed

text \<open>A histogram whose text can be written.\<close>

definition countable_histogram :: "Histogram \<Rightarrow> CachedRanges \<Rightarrow> bool" where
  "countable_histogram h r =
     (0 < bucket_count h \<and> good_ranges (bucket_count h) (cr_ranges r) \<and>
      length (int_counts (h_sample h)) = bucket_count h \<and>
      (\<forall>c\<in>set (int_counts (h_sample h)). 0 \<le> c) \<and> sum_list (int_counts (h_sample h)) < 2 ^ 31)"

section \<open>The rows\<close>

definition bucket_text :: "CachedRanges \<Rightarrow> nat \<Rightarrow> Histogram \<Rightarrow> string" where
  "bucket_text r i h =
     (let x = cr_ranges r ! i;
          number = (if bit (h_flags h) 15 then show_hex_prefixed (word_of_int x) else show_int x)
      in case histogram_type h of
           LINEAR_HISTOGRAM \<Rightarrow> the_default number (map_of (bucket_description h) x)
         | BOOLEAN_HISTOGRAM \<Rightarrow> the_default number (map_of (bucket_description h) x)
         | _ \<Rightarrow> number)"

definition bar_text :: "nat \<Rightarrow> string" where
  "bar_text k = replicate k (CHR ''-'') @ ''O'' @ replicate (72 - k) (CHR '' '')"

lemma length_bar_text: "k \<le> 72 \<Longrightarrow> length (bar_text k) = 73"
  by (simp add: bar_text_def)

text \<open>The share of a count in percent, with one decimal.\<close>

definition percent :: "'d double_ops \<Rightarrow> int \<Rightarrow> int \<Rightarrow> string" where
  "percent D part whole = fixed1 D 3 (d_div D (d_of_int D part) (d_div D (d_of_int D whole) (d_of_int D 100))) @ ''%''"

text \<open>A row: the range, padded, and then an ellipsis when this bucket and the next are empty, or the bar, the
  count of the bucket with its share, and, but for the first bucket, the share of the samples before it.\<close>

definition counts_text :: "'d double_ops \<Rightarrow> int list \<Rightarrow> nat \<Rightarrow> string" where
  "counts_text D cs i =
     '' ('' @ show_int (cs ! i) @ '' = '' @ percent D (cs ! i) (sum_list cs) @ '')'' @
     (if i = 0 then [] else '' {'' @ percent D (sum_list (take i cs)) (sum_list cs) @ ''}'')"

definition row ::
  "'d double_ops \<Rightarrow> CachedRanges \<Rightarrow> Histogram \<Rightarrow> (nat \<Rightarrow> string) \<Rightarrow> nat \<Rightarrow> string \<Rightarrow> nat \<Rightarrow> string" where
  "row D r h bar w newline i =
     (let cs = int_counts (h_sample h)
      in bucket_text r i h @ replicate (w + 1 - length (bucket_text r i h)) (CHR '' '') @
         (if cs ! i = 0 \<and> i + 1 < bucket_count h \<and> cs ! (i + 1) = 0 then ''... '' else bar i @ counts_text D cs i) @
         newline)"

text \<open>The header: the name up to a zero byte, the number of samples and their average, and the flags other
  than the one for hexadecimal ranges (bit 15), when there are any.\<close>

definition header_text :: "'d double_ops \<Rightarrow> Histogram \<Rightarrow> string" where
  "header_text D h =
     (let count = sum_list (int_counts (h_sample h)); fl = unset_bit 15 (h_flags h)
      in ''Histogram: '' @ takeWhile (\<lambda>c. c \<noteq> CHR 0x00) (histogram_name h) @ '' recorded '' @ show_int count @
         '' samples, average = '' @ fixed1 D 0 (float_average D (sint (ss_sum (h_sample h))) count) @
         (if fl = 0 then [] else '' (flags = 0x'' @ show_hex fl @ '')''))"

lemma context_text:
  assumes "p = sum_list (take i cs)" and "c = cs ! i" and "p + c + q = sum_list cs"
  shows "WriteAsciiBucketContext D p c q i out = out @ counts_text D cs i"
  using assms by (simp add: WriteAsciiBucketContext_def WriteAsciiBucketValue_def counts_text_def percent_def Let_def)

lemma header_eq:
  assumes "sum_list (int_counts (h_sample h)) \<noteq> 0"
  shows "WriteAsciiHeader D (h_sample h) (sum_list (int_counts (h_sample h))) h out = out @ header_text D h"
proof -
  have "h_flags h AND NOT kHexRangePrintingFlag = unset_bit 15 (h_flags h)"
    by (simp add: unset_bit_eq_and_not kHexRangePrintingFlag_def)
  with assms show ?thesis by (simp add: WriteAsciiHeader_def header_text_def Let_def)
qed

lemma counts_length: "countable_histogram h r \<Longrightarrow> length (int_counts (h_sample h)) = bucket_count h"
  by (simp add: countable_histogram_def)

lemma count_in:
  "countable_histogram h r \<Longrightarrow> i < bucket_count h \<Longrightarrow> count_at (h_sample h) i = Some (int_counts (h_sample h) ! i)"
  by (simp add: count_at_nth counts_length)

lemma range_in: "countable_histogram h r \<Longrightarrow> i < bucket_count h + 1 \<Longrightarrow> elem_at (cr_ranges r) i = Some (cr_ranges r ! i)"
  by (simp add: countable_histogram_def good_ranges_def elem_at_def)

lemma text_in:
  "countable_histogram h r \<Longrightarrow> i < bucket_count h \<Longrightarrow> GetAsciiBucketRange r i h = Some (bucket_text r i h)"
proof -
  assume "countable_histogram h r" "i < bucket_count h"
  then have x: "elem_at (cr_ranges r) i = Some (cr_ranges r ! i)" by (simp add: range_in)
  have "kHexRangePrintingFlag AND h_flags h \<noteq> 0 \<longleftrightarrow> bit (h_flags h) 15"
    by (simp add: bit_iff_and_push_bit_not_eq_0 kHexRangePrintingFlag_def and.commute)
  then show "GetAsciiBucketRange r i h = Some (bucket_text r i h)"
    by (cases "histogram_type h") (simp_all add: bucket_text_def GetAsciiBucketRange_def Linear_GetAsciiBucketRange_def
        range_number_def x Let_def split: option.split)
qed

lemma printed_in: "countable_histogram h r \<Longrightarrow> i < bucket_count h \<Longrightarrow> \<exists>b. PrintEmptyBucket r i h = Some b"
  by (auto simp: PrintEmptyBucket_def range_in)

lemma skip_in:
  assumes "countable_histogram h r"
  shows "i < bucket_count h \<Longrightarrow> int_counts (h_sample h) ! i = 0 \<Longrightarrow>
     \<exists>j. skip_empty (h_sample h) (bucket_count h) i = Some j \<and> i \<le> j \<and> j < bucket_count h \<and>
         (\<forall>k\<in>{i..<j + 1}. int_counts (h_sample h) ! k = 0)"
proof (induction "bucket_count h - i" arbitrary: i rule: less_induct)
  case less
  note count = count_in [OF assms]
  show ?case
  proof (cases "i + 1 < bucket_count h \<and> int_counts (h_sample h) ! (i + 1) = 0")
    case True
    then obtain j where
      j: "skip_empty (h_sample h) (bucket_count h) (i + 1) = Some j" "i + 1 \<le> j" "j < bucket_count h"
        "\<forall>k\<in>{i + 1..<j + 1}. int_counts (h_sample h) ! k = 0"
      using less(1) [of "i + 1"] less(2) by fastforce
    moreover have "skip_empty (h_sample h) (bucket_count h) i = Some j"
      using True j(1) by (subst skip_empty.simps) (simp add: count)
    moreover have "\<forall>k\<in>{i..<j + 1}. int_counts (h_sample h) ! k = 0"
    proof
      fix k assume "k \<in> {i..<j + 1}"
      then show "int_counts (h_sample h) ! k = 0" using j(4) less(3) by (cases "k = i") auto
    qed
    ultimately show ?thesis by auto
  next
    case False
    then have "skip_empty (h_sample h) (bucket_count h) i = Some i"
      by (subst skip_empty.simps) (auto simp: count)
    then show ?thesis using less(2,3) by (auto simp: le_less_Suc_eq)
  qed
qed

text \<open>The loop writes rows in the order of the buckets, and one for every bucket that has samples. It is
  enough that each bucket has a size and each size a bar.\<close>

lemma bucket_loop_rows:
  fixes bucket_size :: "nat \<Rightarrow> 'd"
  assumes C: "countable_histogram h r"
    and size: "\<And>i. i < bucket_count h \<Longrightarrow> GetBucketSize D r (int_counts (h_sample h) ! i) i h = Some (bucket_size i)"
    and bar: "\<And>i out. i < bucket_count h \<Longrightarrow>
      (case max_size of None \<Rightarrow> Some out | Some m \<Rightarrow> WriteAsciiBucketGraph D (bucket_size i) m out) = Some (out @ bar i)"
  shows "i \<le> bucket_count h \<Longrightarrow>
     \<exists>L. bucket_loop D r h (h_sample h) max_size w newline i (sum_list (take i (int_counts (h_sample h))))
           (sum_list (drop i (int_counts (h_sample h)))) out =
         Some (sum_list (int_counts (h_sample h)), out @ concat (map (row D r h bar w newline) L)) \<and>
       sorted_wrt (<) L \<and> set L \<subseteq> {i..<bucket_count h} \<and>
       (\<forall>j\<in>{i..<bucket_count h}. int_counts (h_sample h) ! j \<noteq> 0 \<longrightarrow> j \<in> set L)"
proof (induction "bucket_count h - i" arbitrary: i out rule: less_induct)
  case less
  let ?cs = "int_counts (h_sample h)" and ?n = "bucket_count h"
  let ?loop = "bucket_loop D r h (h_sample h) max_size w newline"
  note len = counts_length [OF C]
  have rows: "\<exists>L. P L \<and> sorted_wrt (<) L \<and> set L \<subseteq> {i..<?n} \<and> (\<forall>j\<in>{i..<?n}. ?cs ! j \<noteq> 0 \<longrightarrow> j \<in> set L)"
    if "P (i # M)" "sorted_wrt (<) M" "set M \<subseteq> {k..<?n}" "\<forall>j\<in>{k..<?n}. ?cs ! j \<noteq> 0 \<longrightarrow> j \<in> set M"
       "i < k" "i < ?n" "\<forall>j\<in>{i + 1..<k}. ?cs ! j = 0" for P M k
    using that by (intro exI [of _ "i # M"]) (auto, metis Suc_leI atLeastLessThan_iff le_less_linear nat_less_le)
  show ?case
  proof (cases "i < ?n")
    case False
    with less(2) len show ?thesis by (subst bucket_loop.simps) (auto intro: exI [of _ "[]"])
  next
    case i: True
    note IH = less(1) [OF diff_less_mono2 [OF _ i]]
    note take_i = sum_list_take_Suc [of i ?cs] and drop_i = sum_list_drop_nth [of i ?cs]
    let ?range = "bucket_text r i h @ replicate (w + 1 - length (bucket_text r i h)) (CHR '' '')"
    consider (hidden) "?cs ! i = 0" "PrintEmptyBucket r i h = Some False"
      | (gap) "?cs ! i = 0" "PrintEmptyBucket r i h = Some True" "i + 1 < ?n" "?cs ! (i + 1) = 0"
      | (plot) "?cs ! i = 0 \<longrightarrow> PrintEmptyBucket r i h = Some True" "\<not> (?cs ! i = 0 \<and> i + 1 < ?n \<and> ?cs ! (i + 1) = 0)"
      using printed_in [OF C i]
      by (cases "?cs ! i = 0"; cases "i + 1 < ?n \<and> ?cs ! (i + 1) = 0"; cases "PrintEmptyBucket r i h = Some True") auto
    then show ?thesis
    proof cases
      case hidden
      have "?loop i p q out = ?loop (i + 1) p q out" for p q
        by (subst bucket_loop.simps) (simp add: i count_in [OF C i] hidden)
      moreover have "sum_list (take (i + 1) ?cs) = sum_list (take i ?cs)" "sum_list (drop (i + 1) ?cs) = sum_list (drop i ?cs)"
        using take_i drop_i hidden(1) i len by simp_all
      ultimately obtain L where "?loop i (sum_list (take i ?cs)) (sum_list (drop i ?cs)) out =
          Some (sum_list ?cs, out @ concat (map (row D r h bar w newline) L))" "sorted_wrt (<) L" "set L \<subseteq> {i + 1..<?n}"
          "\<forall>j\<in>{i + 1..<?n}. ?cs ! j \<noteq> 0 \<longrightarrow> j \<in> set L"
        using IH [of "i + 1" out] i by auto
      moreover have "\<forall>j\<in>{i..<?n}. ?cs ! j \<noteq> 0 \<longrightarrow> j \<in> set L"
        using calculation(4) hidden(1) by (auto simp: Suc_le_eq le_less)
      ultimately show ?thesis by (intro exI [of _ L]) auto
    next
      case gap
      obtain j where j: "skip_empty (h_sample h) ?n i = Some j" "i \<le> j" "j < ?n" "\<forall>k\<in>{i..<j + 1}. ?cs ! k = 0"
        using skip_in [OF C i gap(1)] by blast
      have "?loop i p q out = ?loop (j + 1) p q (out @ row D r h bar w newline i)" for p q
        using gap less_diff_conv [of i ?n 1] by (subst bucket_loop.simps) (simp add: i count_in [OF C] text_in [OF C] j(1) row_def Let_def)
      moreover have "sum_list (take (j + 1) ?cs) = sum_list (take i ?cs) \<and> sum_list (drop (j + 1) ?cs) = sum_list (drop i ?cs)"
        using j len by (intro sum_zero_run) auto
      ultimately obtain M where M: "?loop i (sum_list (take i ?cs)) (sum_list (drop i ?cs)) out =
          Some (sum_list ?cs, (out @ row D r h bar w newline i) @ concat (map (row D r h bar w newline) M))"
          "sorted_wrt (<) M" "set M \<subseteq> {j + 1..<?n}" "\<forall>k\<in>{j + 1..<?n}. ?cs ! k \<noteq> 0 \<longrightarrow> k \<in> set M"
        using IH [of "j + 1" "out @ row D r h bar w newline i"] j(2,3) by auto
      then show ?thesis using i j(2,4) by (intro rows [of _ M "j + 1"]) auto
    next
      case plot
      have "?loop i p q out = ?loop (i + 1) (p + ?cs ! i) (q - ?cs ! i) (out @ row D r h bar w newline i)"
        if pq: "p = sum_list (take i ?cs)" "q = sum_list (drop i ?cs)" for p q
      proof -
        have "p + q = sum_list ?cs"
          using sum_list_append [of "take i ?cs" "drop i ?cs"] pq by simp
        then have counts: "WriteAsciiBucketContext D p (?cs ! i) (q - ?cs ! i) i t = t @ counts_text D ?cs i" for t
          using pq(1) by (intro context_text) simp_all
        then have counts_0: "WriteAsciiBucketContext D p 0 q i t = t @ counts_text D ?cs i" if "?cs ! i = 0" for t
          using that by simp
        show ?thesis
          using plot less_diff_conv [of i ?n 1] i size [OF i]
          by (subst bucket_loop.simps, cases "?cs ! i = 0"; cases "i + 1 < ?n")
             (simp_all add: count_in [OF C] text_in [OF C i] bar [OF i] row_def Let_def counts counts_0)
      qed
      moreover have "sum_list (take (i + 1) ?cs) = sum_list (take i ?cs) + ?cs ! i"
          "sum_list (drop (i + 1) ?cs) = sum_list (drop i ?cs) - ?cs ! i"
        using take_i drop_i i len by simp_all
      ultimately obtain M where M: "?loop i (sum_list (take i ?cs)) (sum_list (drop i ?cs)) out =
          Some (sum_list ?cs, (out @ row D r h bar w newline i) @ concat (map (row D r h bar w newline) M))"
          "sorted_wrt (<) M" "set M \<subseteq> {i + 1..<?n}" "\<forall>k\<in>{i + 1..<?n}. ?cs ! k \<noteq> 0 \<longrightarrow> k \<in> set M"
        using IH [of "i + 1" "out @ row D r h bar w newline i"] i by auto
      then show ?thesis using i by (intro rows [of _ M "i + 1"]) auto
    qed
  qed
qed

lemma largest_in:
  assumes "countable_histogram h r"
  shows "i < bucket_count h \<Longrightarrow> \<exists>j. largest_non_empty_bucket (h_sample h) i = Some j"
  by (induction i) (simp_all add: count_in [OF assms])

text \<open>The width of the column of ranges: no range of a bucket with samples is cut.\<close>

lemma width_in:
  assumes "countable_histogram h r"
  shows "set is \<subseteq> {..<bucket_count h} \<Longrightarrow>
     \<exists>w. width_loop r h (h_sample h) is w0 = Some w \<and> w0 \<le> w \<and>
       (\<forall>i\<in>set is. int_counts (h_sample h) ! i \<noteq> 0 \<longrightarrow> length (bucket_text r i h) < w)"
proof (induction "is" arbitrary: w0)
  case (Cons i "is")
  then have i: "i < bucket_count h" and rest: "set is \<subseteq> {..<bucket_count h}" by auto
  let ?w1 = "if int_counts (h_sample h) ! i \<noteq> 0 then max (length (bucket_text r i h) + 1) w0 else w0"
  from Cons.IH [OF rest, of ?w1] obtain w where
    w: "width_loop r h (h_sample h) is ?w1 = Some w" "?w1 \<le> w"
      "\<forall>i\<in>set is. int_counts (h_sample h) ! i \<noteq> 0 \<longrightarrow> length (bucket_text r i h) < w"
    by blast
  have "width_loop r h (h_sample h) (i # is) w0 = Some w"
    using w(1) by (cases "int_counts (h_sample h) ! i = 0") (simp_all add: count_in [OF assms i] text_in [OF assms i])
  moreover have "w0 \<le> w" "int_counts (h_sample h) ! i \<noteq> 0 \<longrightarrow> length (bucket_text r i h) < w"
    using w(2) by (auto split: if_splits)
  ultimately show ?case using w(3) by auto
qed simp

section \<open>Double arithmetic\<close>

text \<open>The sizes of buckets: 0, 1, and a count divided by a width, all of them in the range of int.\<close>

definition int_range :: "int set" where
  "int_range = {0..<2 ^ 31}"

definition bucket_sizes :: "'d double_ops \<Rightarrow> 'd set" where
  "bucket_sizes D =
     {d_of_int D 0, d_of_int D 1} \<union> {d_div D (d_of_int D c) (d_of_int D w) | c w. c \<in> int_range \<and> w \<in> int_range \<and> 0 < w}"

text \<open>What IEEE arithmetic promises for them: integers of this size are exact and compared exactly, the order of the
  sizes is a strict weak order, a quotient is positive exactly when the count is, and a size divided by one that is not
  smaller is between 0 and 1, so that the number of dashes is between 0 and 72.\<close>

locale doubles =
  fixes D :: "'d double_ops"
  assumes int_less: "j \<in> int_range \<Longrightarrow> k \<in> int_range \<Longrightarrow> d_less D (d_of_int D j) (d_of_int D k) = (j < k)"
    and less_asym: "x \<in> bucket_sizes D \<Longrightarrow> y \<in> bucket_sizes D \<Longrightarrow> d_less D x y \<Longrightarrow> \<not> d_less D y x"
    and less_cotrans: "x \<in> bucket_sizes D \<Longrightarrow> y \<in> bucket_sizes D \<Longrightarrow> z \<in> bucket_sizes D \<Longrightarrow>
           d_less D x z \<Longrightarrow> d_less D x y \<or> d_less D y z"
    and quotient_pos: "c \<in> int_range \<Longrightarrow> w \<in> int_range \<Longrightarrow> 0 < w \<Longrightarrow>
           d_less D (d_of_int D 0) (d_div D (d_of_int D c) (d_of_int D w)) = (0 < c)"
    and dashes: "x \<in> bucket_sizes D \<Longrightarrow> m \<in> bucket_sizes D \<Longrightarrow> \<not> d_less D m x \<Longrightarrow> d_less D (d_of_int D 0) m \<Longrightarrow>
           \<exists>k. d_to_int D (d_add D (d_mul D (d_of_int D 72) (d_div D x m)) (d_half D)) = Some k \<and> 0 \<le> k \<and> k \<le> 72"
begin

text \<open>The peak is not smaller than any of the sizes, and positive if one of them is.\<close>

lemma peak_loop_max:
  fixes bucket_size :: "nat \<Rightarrow> 'd"
  assumes "\<forall>i\<in>set is. \<exists>c. count_at s i = Some c \<and> GetBucketSize D r c i h = Some (bucket_size i)"
    and "\<forall>i\<in>set is. bucket_size i \<in> bucket_sizes D" and "m0 \<in> bucket_sizes D"
  shows "\<exists>m. peak_loop D r h s is m0 = Some m \<and> m \<in> bucket_sizes D \<and> \<not> d_less D m m0 \<and>
     (\<forall>i\<in>set is. \<not> d_less D m (bucket_size i))"
  using assms
proof (induction "is" arbitrary: m0)
  case Nil
  have "\<not> d_less D m0 m0" using less_asym [OF Nil(3) Nil(3)] by blast
  with Nil(3) show ?case by simp
next
  case (Cons i "is")
  let ?x = "bucket_size i"
  let ?m1 = "if d_less D m0 ?x then ?x else m0"
  have x: "?x \<in> bucket_sizes D" and m0: "m0 \<in> bucket_sizes D" using Cons.prems(2,3) by simp_all
  obtain c where c: "count_at s i = Some c" "GetBucketSize D r c i h = Some ?x" using Cons.prems(1) by auto
  have m1: "?m1 \<in> bucket_sizes D" using x m0 by simp
  have rest: "\<forall>i\<in>set is. \<exists>c. count_at s i = Some c \<and> GetBucketSize D r c i h = Some (bucket_size i)"
      "\<forall>i\<in>set is. bucket_size i \<in> bucket_sizes D"
    using Cons.prems(1,2) by simp_all
  from Cons.IH [OF rest m1] obtain m where m: "peak_loop D r h s is ?m1 = Some m" "m \<in> bucket_sizes D"
      "\<not> d_less D m ?m1" "\<forall>i\<in>set is. \<not> d_less D m (bucket_size i)" by blast
  have "\<not> d_less D m m0 \<and> \<not> d_less D m ?x"
  proof (cases "d_less D m0 ?x")
    case True
    then have "\<not> d_less D m ?x" "\<not> d_less D ?x m0" using m(3) less_asym [OF m0 x] by simp_all
    then show ?thesis using less_cotrans [OF m(2) x m0] by blast
  next
    case False
    then have "\<not> d_less D m m0" using m(3) by simp
    with False show ?thesis using less_cotrans [OF m(2) m0 x] by blast
  qed
  moreover have "peak_loop D r h s (i # is) m0 = Some m" using m(1) c by simp
  ultimately show ?case using m(2,4) by (intro exI [of _ m]) simp
qed

lemma bar_drawn:
  assumes "x \<in> bucket_sizes D" and "m \<in> bucket_sizes D" and "\<not> d_less D m x" and "d_less D (d_of_int D 0) m"
  shows "\<exists>k\<le>72. \<forall>out. WriteAsciiBucketGraph D x m out = Some (out @ bar_text k)"
proof -
  from dashes [OF assms] obtain k where
    k: "d_to_int D (d_add D (d_mul D (d_of_int D 72) (d_div D x m)) (d_half D)) = Some k" "0 \<le> k" "k \<le> 72"
    by blast
  then have "nat (72 - k) = 72 - nat k" by linarith
  with k show ?thesis
    by (intro exI [of _ "nat k"]) (simp add: WriteAsciiBucketGraph_def k_line_length_def bar_text_def)
qed

lemma bucket_size_in:
  assumes C: "countable_histogram h r" and i: "i < bucket_count h"
  shows "\<exists>x. GetBucketSize D r (int_counts (h_sample h) ! i) i h = Some x \<and> x \<in> bucket_sizes D \<and>
     (int_counts (h_sample h) ! i \<noteq> 0 \<longrightarrow> d_less D (d_of_int D 0) x)"
proof -
  let ?c = "int_counts (h_sample h) ! i" and ?w = "cr_ranges r ! (i + 1) - cr_ranges r ! i"
  have len: "length (int_counts (h_sample h)) = bucket_count h" by (rule counts_length [OF C])
  have c: "0 \<le> ?c" "?c < 2 ^ 31"
  proof -
    show nonneg: "0 \<le> ?c" using C i len by (simp add: countable_histogram_def)
    have "?c \<le> sum_list (int_counts (h_sample h))"
      using C i len by (intro member_le_sum_list_int) (auto simp: countable_histogram_def)
    then show "?c < 2 ^ 31" using C by (simp add: countable_histogram_def)
  qed
  have rs: "length (cr_ranges r) = bucket_count h + 1" "cr_ranges r ! 0 = 0" "cr_ranges r ! bucket_count h = kSampleType_MAX"
      "sorted_wrt (<) (cr_ranges r)"
    using C by (simp_all add: countable_histogram_def good_ranges_def)
  have w: "0 < ?w" using sorted_wrt_nth_less [OF rs(4), of i "i + 1"] i rs(1) by simp
  have "cr_ranges r ! 0 \<le> cr_ranges r ! i"
    using sorted_wrt_nth_less [OF rs(4), of 0 i] i rs(1) by (cases "i = 0") auto
  moreover have "cr_ranges r ! (i + 1) \<le> cr_ranges r ! bucket_count h"
    using sorted_wrt_nth_less [OF rs(4), of "i + 1" "bucket_count h"] i rs(1) by (cases "i + 1 = bucket_count h") auto
  ultimately have w': "?w < 2 ^ 31" using rs(2,3) by (simp add: kSampleType_MAX_def)
  show ?thesis
  proof (cases "histogram_type h = CUSTOM_HISTOGRAM")
    case True
    then show ?thesis using int_less [of 0 1] by (simp add: GetBucketSize_def Custom_GetBucketSize_def bucket_sizes_def int_range_def)
  next
    case False
    have width: "bucket_width D r i = Some (d_of_int D ?w)"
      using range_in [OF C, of i] range_in [OF C, of "i + 1"] i by (simp add: bucket_width_def)
    define v where "v = (if histogram_type h = HISTOGRAM \<and> d_less D (d_of_int D 5) (d_of_int D ?w) then 5 else ?w)"
    have v: "0 < v" "v < 2 ^ 31" using w w' by (simp_all add: v_def)
    have size: "GetBucketSize D r ?c i h = Some (d_div D (d_of_int D ?c) (d_of_int D v))"
      using False by (cases "histogram_type h") (simp_all add: GetBucketSize_def Histogram_GetBucketSize_def
          Linear_GetBucketSize_def width v_def)
    have "d_div D (d_of_int D ?c) (d_of_int D v) \<in> bucket_sizes D"
      unfolding bucket_sizes_def using c v(1,2)
      by (intro UnI2 CollectI exI [of _ ?c] exI [of _ v]) (simp add: int_range_def)
    moreover have "?c \<noteq> 0 \<longrightarrow> d_less D (d_of_int D 0) (d_div D (d_of_int D ?c) (d_of_int D v))"
      using quotient_pos [of ?c v] c v(1,2) by (simp add: int_range_def)
    ultimately show ?thesis using size by blast
  qed
qed

lemma WriteAscii_rows:
  assumes C: "countable_histogram h r" and some: "\<exists>i<bucket_count h. int_counts (h_sample h) ! i \<noteq> 0"
  shows "\<exists>L bar w. WriteAscii D r True newline h out =
       Some (out @ header_text D h @ newline @
             concat (map (row D r h (bar_text \<circ> bar) w newline) L)) \<and>
     (\<forall>i. bar i \<le> 72) \<and> sorted_wrt (<) L \<and> set L \<subseteq> {..<bucket_count h} \<and>
     (\<forall>i<bucket_count h. int_counts (h_sample h) ! i \<noteq> 0 \<longrightarrow> i \<in> set L \<and> length (bucket_text r i h) < w)"
proof -
  let ?s = "h_sample h" and ?cs = "int_counts (h_sample h)" and ?n = "bucket_count h"
  obtain bucket_size where size: "\<And>i. i < ?n \<Longrightarrow> GetBucketSize D r (?cs ! i) i h = Some (bucket_size i) \<and>
      bucket_size i \<in> bucket_sizes D \<and> (?cs ! i \<noteq> 0 \<longrightarrow> d_less D (d_of_int D 0) (bucket_size i))"
    using bucket_size_in [OF C] by metis
  have "\<forall>i\<in>set [0..<?n]. \<exists>c. count_at ?s i = Some c \<and> GetBucketSize D r c i h = Some (bucket_size i)"
      "\<forall>i\<in>set [0..<?n]. bucket_size i \<in> bucket_sizes D"
    using size count_in [OF C] by auto
  moreover have zero: "d_of_int D 0 \<in> bucket_sizes D" by (simp add: bucket_sizes_def)
  ultimately obtain m where m: "GetPeakBucketSize D r ?s h = Some m" "m \<in> bucket_sizes D"
      "\<forall>i\<in>set [0..<?n]. \<not> d_less D m (bucket_size i)"
    using peak_loop_max [of "[0..<?n]" ?s r h bucket_size "d_of_int D 0"] by (auto simp: GetPeakBucketSize_def)
  obtain k where k: "k < ?n" "?cs ! k \<noteq> 0" using some by blast
  then have "d_less D (d_of_int D 0) (bucket_size k)" "bucket_size k \<in> bucket_sizes D" "\<not> d_less D m (bucket_size k)"
    using size m(3) by auto
  then have pos: "d_less D (d_of_int D 0) m" using less_cotrans [OF zero m(2)] by blast
  have "\<exists>b. b \<le> 72 \<and> (i < ?n \<longrightarrow> (\<forall>out. WriteAsciiBucketGraph D (bucket_size i) m out = Some (out @ bar_text b)))" for i
  proof (cases "i < ?n")
    case True
    then show ?thesis using bar_drawn [OF _ m(2) _ pos, of "bucket_size i"] size m(3) by auto
  qed auto
  then obtain bar where bar: "\<And>i. bar i \<le> 72"
      "\<And>i out. i < ?n \<Longrightarrow> WriteAsciiBucketGraph D (bucket_size i) m out = Some (out @ bar_text (bar i))"
    by metis
  obtain w where w: "width_loop r h ?s [0..<?n] 1 = Some w"
      "\<forall>i\<in>set [0..<?n]. ?cs ! i \<noteq> 0 \<longrightarrow> length (bucket_text r i h) < w"
    using width_in [OF C, of "[0..<?n]" 1] by (auto simp: subset_iff)
  have "?cs ! k \<le> sum_list ?cs" "0 \<le> ?cs ! k"
    using C k(1) by (auto simp: countable_histogram_def intro!: member_le_sum_list_int)
  then have nonzero: "sum_list ?cs \<noteq> 0" using k(2) by simp
  let ?out = "out @ header_text D h @ newline"
  obtain L where L: "bucket_loop D r h ?s (Some m) w newline 0 0 (sum_list ?cs) ?out =
      Some (sum_list ?cs, ?out @ concat (map (row D r h (bar_text \<circ> bar) w newline) L))"
      "sorted_wrt (<) L" "set L \<subseteq> {0..<?n}" "\<forall>j\<in>{0..<?n}. ?cs ! j \<noteq> 0 \<longrightarrow> j \<in> set L"
    using bucket_loop_rows [OF C, of D bucket_size "Some m" "bar_text \<circ> bar" 0 w newline ?out] size bar(2) by auto
  obtain j where "largest_non_empty_bucket ?s (?n - 1) = Some j"
    using largest_in [OF C, of "?n - 1"] C by (auto simp: countable_histogram_def)
  then have "WriteAscii D r True newline h out =
      Some (?out @ concat (map (row D r h (bar_text \<circ> bar) w newline) L))"
    using C m(1) w(1) L(1)
    by (simp add: WriteAscii_def SnapshotSample_def TotalCount_sum countable_histogram_def header_eq [OF nonzero] Let_def)
  then show ?thesis using bar(1) L(2-4) w(2) by (intro exI [of _ L] exI [of _ bar] exI [of _ w]) auto
qed

end

section \<open>Exact arithmetic\<close>

text \<open>Rational numbers; None is what is not a finite number, as 0/0.\<close>

definition finite_op :: "(rat \<Rightarrow> rat \<Rightarrow> rat) \<Rightarrow> rat option \<Rightarrow> rat option \<Rightarrow> rat option" where
  "finite_op f x y = Option.bind x (\<lambda>a. map_option (f a) y)"

definition truncate_int :: "rat \<Rightarrow> int option" where
  "truncate_int q =
     (let k = (if q < 0 then \<lceil>q\<rceil> else \<lfloor>q\<rfloor>) in if - 2147483648 \<le> k \<and> k \<le> 2147483647 then Some k else None)"

definition one_decimal :: "nat \<Rightarrow> rat option \<Rightarrow> string" where
  "one_decimal w x =
     (let t = (case x of
                 None \<Rightarrow> ''nan''
               | Some q \<Rightarrow> (let k = round (10 * \<bar>q\<bar>)
                            in (if q < 0 then ''-'' else []) @ show_int (k div 10) @ ''.'' @ show_int (k mod 10)))
      in replicate (w - length t) (CHR '' '') @ t)"

definition exact_doubles :: "rat option double_ops" where
  "exact_doubles = \<lparr>
     d_of_int = (\<lambda>k. Some (of_int k)),
     d_add = finite_op (+),
     d_mul = finite_op (*),
     d_div = (\<lambda>x y. if y = Some 0 then None else finite_op (/) x y),
     d_less = (\<lambda>x y. case (x, y) of (Some a, Some b) \<Rightarrow> a < b | _ \<Rightarrow> False),
     d_to_int = (\<lambda>x. Option.bind x truncate_int),
     d_half = Some (1 / 2),
     float_average = (\<lambda>s c. if c = 0 then None else Some (of_int s / of_int c)),
     fixed1 = one_decimal\<rparr>"

lemma exact_sizes: "x \<in> bucket_sizes exact_doubles \<Longrightarrow> \<exists>q. x = Some q \<and> 0 \<le> q"
  by (auto simp: bucket_sizes_def exact_doubles_def finite_op_def int_range_def)

lemma exact_less: "d_less exact_doubles (Some a) (Some b) = (a < b)"
  by (simp add: exact_doubles_def)

lemma exact_dashes:
  assumes "0 \<le> q" and "q \<le> p" and "0 < p"
  shows "\<exists>k. truncate_int (72 * (q / p) + 1 / 2) = Some k \<and> 0 \<le> k \<and> k \<le> 72"
proof -
  have "0 \<le> q / p" "q / p \<le> 1" using assms by simp_all
  then have "0 \<le> 72 * (q / p) + 1 / 2" "72 * (q / p) + 1 / 2 < 73" by simp_all
  then have "0 \<le> \<lfloor>72 * (q / p) + 1 / 2\<rfloor>" "\<lfloor>72 * (q / p) + 1 / 2\<rfloor> < 73" "\<not> 72 * (q / p) + 1 / 2 < 0"
    by (simp_all add: floor_less_iff)
  then show ?thesis by (simp add: truncate_int_def Let_def)
qed

interpretation exact_double: doubles exact_doubles
proof unfold_locales
  fix x m assume "x \<in> bucket_sizes exact_doubles" "m \<in> bucket_sizes exact_doubles"
  then obtain q p where q: "x = Some q" "0 \<le> q" "m = Some p" "0 \<le> p" using exact_sizes by blast
  assume "\<not> d_less exact_doubles m x" "d_less exact_doubles (d_of_int exact_doubles 0) m"
  with q have "q \<le> p" "0 < p" by (simp_all add: exact_doubles_def)
  with exact_dashes [OF q(2)] q show "\<exists>k. d_to_int exact_doubles (d_add exact_doubles
      (d_mul exact_doubles (d_of_int exact_doubles 72) (d_div exact_doubles x m)) (d_half exact_doubles)) = Some k \<and> 0 \<le> k \<and> k \<le> 72"
    by (simp add: exact_doubles_def finite_op_def)
next
  fix x y z assume "x \<in> bucket_sizes exact_doubles" "y \<in> bucket_sizes exact_doubles" "z \<in> bucket_sizes exact_doubles"
    and less: "d_less exact_doubles x z"
  then obtain a b c where "x = Some a" "y = Some b" "z = Some c" using exact_sizes by meson
  with less show "d_less exact_doubles x y \<or> d_less exact_doubles y z" by (auto simp: exact_less)
next
  fix x y assume "x \<in> bucket_sizes exact_doubles" "y \<in> bucket_sizes exact_doubles" and less: "d_less exact_doubles x y"
  then obtain a b where "x = Some a" "y = Some b" using exact_sizes by meson
  with less show "\<not> d_less exact_doubles y x" by (simp add: exact_less)
next
  fix c w assume "c \<in> int_range" "w \<in> int_range" "0 < w"
  then show "d_less exact_doubles (d_of_int exact_doubles 0)
      (d_div exact_doubles (d_of_int exact_doubles c) (d_of_int exact_doubles w)) = (0 < c)"
    by (simp add: exact_doubles_def finite_op_def zero_less_divide_iff)
qed (simp add: exact_doubles_def)

section \<open>The properties\<close>

text \<open>A histogram that was ready and has been given samples can be written.\<close>

lemma countable_after_samples:
  assumes "ready h r" and "counted h r vs h'" and "length vs < 2 ^ 31"
  shows "countable_histogram h' r"
    and "int_counts (h_sample h') = map int (bucket_counts (bucket_count h) (cr_ranges r) vs)"
proof -
  let ?ks = "bucket_counts (bucket_count h) (cr_ranges r) vs"
  have g: "good_ranges (bucket_count h) (cr_ranges r)" "0 < bucket_count h" using assms(1) by (auto simp: ready_def)
  have ks: "length ?ks = bucket_count h" "sum_list ?ks = length vs" using sum_bucket_counts [OF g, of vs] by simp_all
  have "k < 2 ^ 31" if "k \<in> set ?ks" for k
    using member_le_sum_list [OF that] ks(2) assms(3) by simp
  then have "sint (of_nat k :: u32) = int k" if "k \<in> set ?ks" for k
    using that by (simp add: signed_of_nat signed_take_bit_int_eq_self)
  then show counts: "int_counts (h_sample h') = map int ?ks"
    using assms(2) by (simp add: counted_def int_counts_def)
  have bucket_count_h': "bucket_count h' = bucket_count h" using assms(2) by (simp add: counted_def)
  have "sum_list (map int ks) = int (sum_list ks)" for ks by (induction ks) simp_all
  then have "sum_list (map int ?ks) = int (length vs)" using ks(2) by simp
  then show "countable_histogram h' r"
    using g ks(1) assms(3) bucket_count_h' by (simp add: countable_histogram_def counts)
qed

text \<open>C18: The text of a histogram with samples, in an intact state (good_ranges, no negative count, fewer than
  2^31 samples) and for a double arithmetic with the laws of doubles, is its header, with the name, the number of samples and
  their average, and rows for some of its buckets, in order. Every bucket with samples has exactly one
  row, which shows its range, not cut, a bar, its count, the share of the count and, but for bucket 0, the share of the
  samples before it. A row for an empty bucket either shows the same or, when the next bucket is empty
  as well, an ellipsis in place of the bar and the counts. Each bar occupies 73 columns, at most 72 of
  them dashes.\<close>

theorem WriteAscii_shows_every_count:
  assumes "doubles D" and "countable_histogram h r" and "\<exists>i<bucket_count h. int_counts (h_sample h) ! i \<noteq> 0"
  shows "\<exists>L bar w. WriteAscii D r True newline h out =
       Some (out @ header_text D h @ newline @
             concat (map (row D r h (bar_text \<circ> bar) w newline) L)) \<and>
     (\<forall>i. bar i \<le> 72 \<and> length (bar_text (bar i)) = 73) \<and> sorted_wrt (<) L \<and> set L \<subseteq> {..<bucket_count h} \<and>
     (\<forall>i<bucket_count h. int_counts (h_sample h) ! i \<noteq> 0 \<longrightarrow> i \<in> set L \<and> length (bucket_text r i h) < w)"
  using doubles.WriteAscii_rows [OF assms] length_bar_text by meson

text \<open>Seven samples in three buckets.\<close>

definition demo_ranges :: CachedRanges where
  "demo_ranges = \<lparr>cr_ranges = [0, 1, 10, kSampleType_MAX], cr_checksum = 0\<rparr>"

definition demo_histogram :: "u32 list \<Rightarrow> (int \<times> string) list \<Rightarrow> Histogram" where
  "demo_histogram counts descriptions =
     \<lparr>histogram_name = ''Delay'', histogram_type = LINEAR_HISTOGRAM, declared_min = 1, declared_max = 10, bucket_count = 3,
      h_flags = kNoFlags, cached_ranges = 0, range_checksum = 0,
      h_sample = \<lparr>ss_counts = counts, ss_sum = 30, ss_redundant = 7\<rparr>, bucket_description = descriptions\<rparr>"

lemma demo_ranges_good: "good_ranges 3 (cr_ranges demo_ranges)"
  by (simp add: good_ranges_def demo_ranges_def kSampleType_MAX_def numeral_3_eq_3)

theorem WriteAscii_shows_every_count_witness:
  "\<exists>L bar w. WriteAscii exact_doubles demo_ranges True ''/'' (demo_histogram [0, 5, 2] []) [] =
       Some (''Histogram: Delay recorded 7 samples, average = 4.3/'' @
             concat (map (row exact_doubles demo_ranges (demo_histogram [0, 5, 2] []) (bar_text \<circ> bar) w ''/'') L)) \<and>
     1 \<in> set L \<and> 2 \<in> set L \<and> set L \<subseteq> {..<3}"
proof -
  let ?h = "demo_histogram [0, 5, 2] []"
  have h: "bucket_count ?h = 3" "int_counts (h_sample ?h) = [0, 5, 2]" by (simp_all add: demo_histogram_def int_counts_def)
  then have c: "countable_histogram ?h demo_ranges" by (simp add: countable_histogram_def demo_ranges_good)
  have some: "\<exists>i<bucket_count ?h. int_counts (h_sample ?h) ! i \<noteq> 0" by (rule exI [of _ 1]) (simp add: h)
  have header: "header_text exact_doubles ?h = ''Histogram: Delay recorded 7 samples, average = 4.3''"
    by code_simp
  from WriteAscii_shows_every_count [OF exact_double.doubles_axioms c some, of "''/''" "[]"] obtain L bar w where L:
      "WriteAscii exact_doubles demo_ranges True ''/'' ?h [] =
         Some ([] @ header_text exact_doubles ?h @ ''/'' @
               concat (map (row exact_doubles demo_ranges ?h (bar_text \<circ> bar) w ''/'') L))"
      "set L \<subseteq> {..<bucket_count ?h}" "\<forall>i<bucket_count ?h. int_counts (h_sample ?h) ! i \<noteq> 0 \<longrightarrow> i \<in> set L"
    by blast
  have "1 \<in> set L" "2 \<in> set L" "set L \<subseteq> {..<3}" using L(2,3) by (simp_all add: h)
  with L(1) show ?thesis unfolding header by (intro exI [of _ L] exI [of _ bar] exI [of _ w]) simp
qed

text \<open>The whole text, and the conversion of 0/0 for a linear histogram without samples in which every bucket but the
  last has a description.\<close>

lemma demo_text:
  "WriteAscii exact_doubles demo_ranges False ''/'' (demo_histogram [0, 5, 2] [(1, ''few'')]) [] =
     Some ''Histogram: Delay recorded 7 samples, average = 4.3/0     (0 = 0.0%)/few   (5 = 71.4%) {0.0%}/10    (2 = 28.6%) {71.4%}/''"
  by code_simp

lemma no_samples_undefined:
  "WriteAscii exact_doubles demo_ranges True ''/'' (demo_histogram [0, 0, 0] [(0, ''none''), (1, ''few'')]) [] = None"
  by code_simp

end
