(* ===== verification/Logging.thy ===== *)
theory Logging
  imports Convert Command_Line Vlog
begin

text \<open>
  src/chromium/logging.cc and logging.hh: a message is composed in a LogMessage object and goes to its
  destinations when the object is destroyed. The statics of the file and what was written to the terminal and to
  files are one record; a null pointer dereference, an index outside log_severity_names and locking a lock
  that the thread holds are None. The POSIX branches are modelled. The environment
  gives the numbers and the time of the header and says which files can be opened.
\<close>

section \<open>Types\<close>

datatype LoggingDestination =
    LOG_NONE | LOG_ONLY_TO_FILE | LOG_ONLY_TO_SYSTEM_DEBUG_LOG | LOG_TO_BOTH_FILE_AND_SYSTEM_DEBUG_LOG

datatype LogLockingState = LOCK_LOG_FILE | DONT_LOCK_LOG_FILE

datatype OldFileDeletionState = DELETE_OLD_LOG_FILE | APPEND_TO_OLD_LOG_FILE

datatype DcheckState = DISABLE_DCHECK_FOR_NON_OFFICIAL_RELEASE_BUILDS | ENABLE_DCHECK_FOR_NON_OFFICIAL_RELEASE_BUILDS

definition LOG_INFO :: int where "LOG_INFO = 0"
definition LOG_WARNING :: int where "LOG_WARNING = 1"
definition LOG_ERROR :: int where "LOG_ERROR = 2"
definition LOG_FATAL :: int where "LOG_FATAL = 3"

definition log_severity_names :: "string list" where
  "log_severity_names = [''INFO'', ''WARNING'', ''ERROR'', ''FATAL'']"

definition kAlwaysPrintErrorLevel :: int where "kAlwaysPrintErrorLevel = LOG_ERROR"

definition kEnableLogging :: string where "kEnableLogging = ''enable-logging''"
definition kV :: string where "kV = ''v''"
definition kVModule :: string where "kVModule = ''vmodule''"

text \<open>A handler is told of the message; it answers whether it took care of it, and prints to stdout.\<close>

type_synonym log_handler_fun = "int \<Rightarrow> string \<Rightarrow> int \<Rightarrow> nat \<Rightarrow> string \<Rightarrow> bool \<times> string"

record log_env =
  debug_build :: bool
  stack_trace :: string
  process_id :: int
  thread_id :: int
  local_time :: tm
  tick_count :: int
  can_open :: "string \<Rightarrow> bool"

record log_state =
  g_dcheck_state :: DcheckState
  g_vlog_info :: "VlogInfo option"
  min_log_level :: int
  logging_destination :: LoggingDestination
  log_file_name :: "string option"
  log_file :: "string option"
  log_process_id :: bool
  log_thread_id :: bool
  log_timestamp :: bool
  log_tickcount :: bool
  log_message_handler :: "log_handler_fun option"
  lock_initialized :: bool
  lock_log_file :: LogLockingState
  log_lock :: bool
  lock_held :: bool
  to_stdout :: string
  to_stderr :: string
  files :: "string \<rightharpoonup> string"

text \<open>The static initialisers, on a terminal with nothing written and files fs.\<close>

definition initial_log_state :: "(string \<rightharpoonup> string) \<Rightarrow> log_state" where
  "initial_log_state fs = \<lparr>g_dcheck_state = DISABLE_DCHECK_FOR_NON_OFFICIAL_RELEASE_BUILDS, g_vlog_info = None,
     min_log_level = 0, logging_destination = LOG_ONLY_TO_SYSTEM_DEBUG_LOG, log_file_name = None, log_file = None,
     log_process_id = False, log_thread_id = False, log_timestamp = True, log_tickcount = False,
     log_message_handler = None, lock_initialized = False, lock_log_file = LOCK_LOG_FILE, log_lock = False,
     lock_held = False, to_stdout = [], to_stderr = [], files = fs\<rparr>"

text \<open>What a %s conversion prints of a std::string.\<close>

definition c_str :: "string \<Rightarrow> string" where
  "c_str s = takeWhile (\<lambda>c. c \<noteq> CHR 0x00) s"

section \<open>The lock\<close>

definition LoggingLock_Init :: "LogLockingState \<Rightarrow> log_state \<Rightarrow> log_state" where
  "LoggingLock_Init lock_log s =
     (if lock_initialized s then s
      else (let s = s\<lparr>lock_log_file := lock_log\<rparr>;
                s = (if lock_log = LOCK_LOG_FILE then s else s\<lparr>log_lock := True\<rparr>)
            in s\<lparr>lock_initialized := True\<rparr>))"

definition LockLogging :: "log_state \<Rightarrow> log_state option" where
  "LockLogging s =
     (if (lock_log_file s = LOCK_LOG_FILE \<or> log_lock s) \<and> \<not> lock_held s then Some (s\<lparr>lock_held := True\<rparr>) else None)"

definition UnlockLogging :: "log_state \<Rightarrow> log_state" where
  "UnlockLogging s = s\<lparr>lock_held := False\<rparr>"

section \<open>The log file\<close>

definition GetDefaultLogFile :: string where "GetDefaultLogFile = ''debug.log''"

definition CloseFile :: "log_state \<Rightarrow> log_state" where
  "CloseFile s = s\<lparr>log_file := None\<rparr>"

definition DeleteFilePath :: "string \<Rightarrow> log_state \<Rightarrow> log_state" where
  "DeleteFilePath log_name s = s\<lparr>files := (files s)(c_str log_name := None)\<rparr>"

text \<open>fopen in append mode makes a file that is not there.\<close>

definition InitializeLogFileHandle :: "log_env \<Rightarrow> log_state \<Rightarrow> bool \<times> log_state" where
  "InitializeLogFileHandle e s =
     (if log_file s \<noteq> None then (True, s)
      else
        let name = (case log_file_name s of None \<Rightarrow> GetDefaultLogFile | Some n \<Rightarrow> n);
            s = s\<lparr>log_file_name := Some name\<rparr>
        in if logging_destination s = LOG_ONLY_TO_FILE \<or>
              logging_destination s = LOG_TO_BOTH_FILE_AND_SYSTEM_DEBUG_LOG then
             (if can_open e (c_str name) then
                (True, s\<lparr>log_file := Some (c_str name),
                         files := (files s)(c_str name \<mapsto> the_default [] (files s (c_str name)))\<rparr>)
              else (False, s))
           else (True, s))"

section \<open>Initialisation and settings\<close>

definition ChromiumInitLoggingImpl ::
  "log_env \<Rightarrow> command_line \<Rightarrow> string option \<Rightarrow> LoggingDestination \<Rightarrow> LogLockingState \<Rightarrow> OldFileDeletionState \<Rightarrow>
   DcheckState \<Rightarrow> log_state \<Rightarrow> (bool \<times> log_state) option" where
  "ChromiumInitLoggingImpl e command_line new_log_file logging_dest lock_log delete_old dcheck_state s =
     (let s = s\<lparr>g_dcheck_state := dcheck_state\<rparr>;
          s = (if HasSwitch kV command_line \<or> HasSwitch kVModule command_line then
                 (case new_VlogInfo (GetSwitchValueASCII kV command_line) (GetSwitchValueASCII kVModule command_line)
                         (min_log_level s) of
                    (info, level) \<Rightarrow> s\<lparr>g_vlog_info := Some info, min_log_level := level\<rparr>)
               else s);
          s = LoggingLock_Init lock_log s
      in do {
           s \<leftarrow> LockLogging s;
           let s = (if log_file s \<noteq> None then CloseFile s else s);
           let s = s\<lparr>logging_destination := logging_dest\<rparr>;
           if logging_dest = LOG_NONE \<or> logging_dest = LOG_ONLY_TO_SYSTEM_DEBUG_LOG then Some (True, UnlockLogging s)
           else
             (case new_log_file of
                None \<Rightarrow> None
              | Some name \<Rightarrow>
                  let s = s\<lparr>log_file_name := Some name\<rparr>;
                      s = (if delete_old = DELETE_OLD_LOG_FILE then DeleteFilePath name s else s);
                      (ok, s) = InitializeLogFileHandle e s
                  in Some (ok, UnlockLogging s))
         })"

definition SetMinLogLevel :: "int \<Rightarrow> log_state \<Rightarrow> log_state" where
  "SetMinLogLevel level s = s\<lparr>min_log_level := min LOG_ERROR level\<rparr>"

definition GetVlogVerbosity :: "log_state \<Rightarrow> int" where
  "GetVlogVerbosity s = max (- 1) (LOG_INFO - min_log_level s)"

definition GetVlogLevelHelper :: "string \<Rightarrow> log_state \<Rightarrow> int option" where
  "GetVlogLevelHelper file s =
     (case g_vlog_info s of
        Some info \<Rightarrow> GetVlogLevel info (min_log_level s) file
      | None \<Rightarrow> Some (GetVlogVerbosity s))"

definition SetLogItems :: "bool \<Rightarrow> bool \<Rightarrow> bool \<Rightarrow> bool \<Rightarrow> log_state \<Rightarrow> log_state" where
  "SetLogItems enable_process_id enable_thread_id enable_timestamp enable_tickcount s =
     s\<lparr>log_process_id := enable_process_id, log_thread_id := enable_thread_id,
       log_timestamp := enable_timestamp, log_tickcount := enable_tickcount\<rparr>"

definition SetLogMessageHandler :: "log_handler_fun option \<Rightarrow> log_state \<Rightarrow> log_state" where
  "SetLogMessageHandler handler s = s\<lparr>log_message_handler := handler\<rparr>"

section \<open>LogMessage\<close>

record LogMessage =
  lm_severity :: int
  lm_stream :: string
  lm_message_start :: nat
  lm_file :: string
  lm_line :: int

text \<open>LogMessage::Init. Only the fill of the stream survives a number, and the width is set for the
  time alone.\<close>

definition base_name :: "string \<Rightarrow> string" where
  "base_name filename =
     (case find_last (\<lambda>c. c = CHR 0x5C \<or> c = CHR ''/'') filename of
        None \<Rightarrow> filename | Some last_slash_pos \<Rightarrow> drop (last_slash_pos + 1) filename)"

definition time_stamp :: "tm \<Rightarrow> string" where
  "time_stamp t = pad 2 (1 + tm_mon t) @ pad 2 (tm_mday t) @ ''/'' @
     pad 2 (tm_hour t) @ pad 2 (tm_min t) @ pad 2 (tm_sec t) @ '':''"

definition severity_text :: "int \<Rightarrow> string option" where
  "severity_text severity =
     (if severity \<ge> 0 then
        (if nat severity < length log_severity_names then Some (log_severity_names ! nat severity) else None)
      else Some (''VERBOSE'' @ show_int (- severity)))"

definition LogMessage_Init :: "log_env \<Rightarrow> string \<Rightarrow> int \<Rightarrow> int \<Rightarrow> log_state \<Rightarrow> LogMessage option" where
  "LogMessage_Init e file line severity s =
     map_option (\<lambda>name.
       (let text = ''['' @
              (if log_process_id s then show_int (process_id e) @ '':'' else []) @
              (if log_thread_id s then show_int (thread_id e) @ '':'' else []) @
              (if log_timestamp s then time_stamp (local_time e) else []) @
              (if log_tickcount s then show_int (tick_count e) @ '':'' else []) @
              name @ '':'' @ base_name file @ ''('' @ show_int line @ '')] ''
        in \<lparr>lm_severity = severity, lm_stream = text, lm_message_start = length text,
            lm_file = file, lm_line = line\<rparr>))
       (severity_text severity)"

text \<open>stream () and the insertions into it.\<close>

definition stream_text :: "string \<Rightarrow> LogMessage \<Rightarrow> LogMessage" where
  "stream_text t m = m\<lparr>lm_stream := lm_stream m @ t\<rparr>"

text \<open>The constructors of a failed check add the text that MakeCheckOpString made.\<close>

definition check_message :: "log_env \<Rightarrow> string \<Rightarrow> int \<Rightarrow> int \<Rightarrow> string \<Rightarrow> log_state \<Rightarrow> LogMessage option" where
  "check_message e file line severity result s =
     map_option (stream_text (''Check failed: '' @ result)) (LogMessage_Init e file line severity s)"

definition print_stderr :: "string \<Rightarrow> log_state \<Rightarrow> log_state" where
  "print_stderr t s = s\<lparr>to_stderr := to_stderr s @ c_str t\<rparr>"

definition print_log_file :: "string \<Rightarrow> log_state \<Rightarrow> log_state" where
  "print_log_file t s =
     (case log_file s of
        None \<Rightarrow> s
      | Some name \<Rightarrow> s\<lparr>files := (files s)(name \<mapsto> the_default [] (files s name) @ c_str t)\<rparr>)"

text \<open>The destructor; first what it does with the text of a message that no handler took.\<close>

definition write_destinations :: "log_env \<Rightarrow> int \<Rightarrow> string \<Rightarrow> log_state \<Rightarrow> log_state option" where
  "write_destinations e severity str_newline s =
     (let s = (if logging_destination s = LOG_ONLY_TO_SYSTEM_DEBUG_LOG \<or>
                  logging_destination s = LOG_TO_BOTH_FILE_AND_SYSTEM_DEBUG_LOG then print_stderr str_newline s
               else if severity \<ge> kAlwaysPrintErrorLevel then print_stderr str_newline s
               else s);
          s = LoggingLock_Init LOCK_LOG_FILE s
      in if logging_destination s \<noteq> LOG_NONE \<and> logging_destination s \<noteq> LOG_ONLY_TO_SYSTEM_DEBUG_LOG then
           do {
             s \<leftarrow> LockLogging s;
             let (ok, s) = InitializeLogFileHandle e s;
             Some (UnlockLogging (if ok then print_log_file str_newline s else s))
           }
         else Some s)"

definition delete_LogMessage :: "log_env \<Rightarrow> LogMessage \<Rightarrow> log_state \<Rightarrow> log_state option" where
  "delete_LogMessage e m s =
     (let str_newline = lm_stream m @
            (if debug_build e \<and> lm_severity m = LOG_FATAL then [CHR 0x0A] @ stack_trace e else []) @ [CHR 0x0A];
          (handled, s) = (case log_message_handler s of
             None \<Rightarrow> (False, s)
           | Some handler \<Rightarrow>
               (case handler (lm_severity m) (lm_file m) (lm_line m) (lm_message_start m) str_newline of
                  (h, out) \<Rightarrow> (h, s\<lparr>to_stdout := to_stdout s @ out\<rparr>)))
      in if handled then Some s else write_destinations e (lm_severity m) str_newline s)"

section \<open>Macros\<close>

definition LOG_IS_ON :: "int \<Rightarrow> log_state \<Rightarrow> bool" where
  "LOG_IS_ON severity s = (severity \<ge> min_log_level s)"

definition VLOG_IS_ON :: "int \<Rightarrow> string \<Rightarrow> log_state \<Rightarrow> bool option" where
  "VLOG_IS_ON verboselevel file s = map_option (\<lambda>level. verboselevel \<le> level) (GetVlogLevelHelper file s)"

definition log_now :: "log_env \<Rightarrow> string \<Rightarrow> int \<Rightarrow> int \<Rightarrow> string \<Rightarrow> log_state \<Rightarrow> log_state option" where
  "log_now e file line severity t s =
     Option.bind (LogMessage_Init e file line severity s) (\<lambda>m. delete_LogMessage e (stream_text t m) s)"

definition LOG_IF :: "log_env \<Rightarrow> string \<Rightarrow> int \<Rightarrow> int \<Rightarrow> bool \<Rightarrow> string \<Rightarrow> log_state \<Rightarrow> log_state option" where
  "LOG_IF e file line severity condition t s =
     (if LOG_IS_ON severity s \<and> condition then log_now e file line severity t s else Some s)"

definition LOG :: "log_env \<Rightarrow> string \<Rightarrow> int \<Rightarrow> int \<Rightarrow> string \<Rightarrow> log_state \<Rightarrow> log_state option" where
  "LOG e file line severity t s = LOG_IF e file line severity True t s"

definition VLOG :: "log_env \<Rightarrow> string \<Rightarrow> int \<Rightarrow> int \<Rightarrow> string \<Rightarrow> log_state \<Rightarrow> log_state option" where
  "VLOG e file line verbose_level t s =
     Option.bind (VLOG_IS_ON verbose_level file s)
       (\<lambda>on. if on then log_now e file line (- verbose_level) t s else Some s)"

definition CHECK :: "log_env \<Rightarrow> string \<Rightarrow> int \<Rightarrow> bool \<Rightarrow> string \<Rightarrow> string \<Rightarrow> log_state \<Rightarrow> log_state option" where
  "CHECK e file line condition condition_text t s =
     (if \<not> condition then log_now e file line LOG_FATAL (''Check failed: '' @ condition_text @ ''. '' @ t) s else Some s)"

text \<open>CHECK_EQ and the others, on ints.\<close>

definition MakeCheckOpString :: "int \<Rightarrow> int \<Rightarrow> string \<Rightarrow> string" where
  "MakeCheckOpString v1 v2 names = names @ '' ('' @ show_int v1 @ '' vs. '' @ show_int v2 @ '')''"

definition CheckImpl :: "(int \<Rightarrow> int \<Rightarrow> bool) \<Rightarrow> int \<Rightarrow> int \<Rightarrow> string \<Rightarrow> string option" where
  "CheckImpl comparison v1 v2 names = (if comparison v1 v2 then None else Some (MakeCheckOpString v1 v2 names))"

definition CHECK_OP ::
  "log_env \<Rightarrow> string \<Rightarrow> int \<Rightarrow> (int \<Rightarrow> int \<Rightarrow> bool) \<Rightarrow> int \<Rightarrow> int \<Rightarrow> string \<Rightarrow> string \<Rightarrow> log_state \<Rightarrow> log_state option" where
  "CHECK_OP e file line comparison v1 v2 names t s =
     (case CheckImpl comparison v1 v2 names of
        None \<Rightarrow> Some s
      | Some result \<Rightarrow> Option.bind (check_message e file line LOG_FATAL result s)
          (\<lambda>m. delete_LogMessage e (stream_text t m) s))"

text \<open>DCHECK: a release build logs an error if the checks are enabled, a debug build a fatal message.\<close>

definition LOG_DCHECK :: "log_env \<Rightarrow> int" where
  "LOG_DCHECK e = (if debug_build e then LOG_FATAL else LOG_ERROR)"

definition DCHECK_IS_ON :: "log_env \<Rightarrow> log_state \<Rightarrow> bool" where
  "DCHECK_IS_ON e s =
     (if debug_build e then True
      else g_dcheck_state s = ENABLE_DCHECK_FOR_NON_OFFICIAL_RELEASE_BUILDS \<and> LOG_IS_ON (LOG_DCHECK e) s)"

definition DCHECK :: "log_env \<Rightarrow> string \<Rightarrow> int \<Rightarrow> bool \<Rightarrow> string \<Rightarrow> string \<Rightarrow> log_state \<Rightarrow> log_state option" where
  "DCHECK e file line condition condition_text t s =
     (if DCHECK_IS_ON e s \<and> \<not> condition
      then log_now e file line (LOG_DCHECK e) (''Check failed: '' @ condition_text @ ''. '' @ t) s else Some s)"

definition DLOG :: "log_env \<Rightarrow> string \<Rightarrow> int \<Rightarrow> int \<Rightarrow> string \<Rightarrow> log_state \<Rightarrow> log_state option" where
  "DLOG e file line severity t s = (if debug_build e then LOG e file line severity t s else Some s)"

section \<open>The logging of main.cc\<close>

text \<open>env_t::log_handler prints to stdout and leaves the message to the other destinations.\<close>

definition log_handler :: log_handler_fun where
  "log_handler severity file line message_start str = (False, c_str str)"

definition DetermineLogMode :: "log_env \<Rightarrow> command_line \<Rightarrow> LoggingDestination" where
  "DetermineLogMode e command_line =
     (if GetSwitchValueASCII kEnableLogging command_line = ''file'' then LOG_ONLY_TO_FILE
      else if debug_build e then LOG_TO_BOTH_FILE_AND_SYSTEM_DEBUG_LOG else LOG_NONE)"

definition env_t :: "log_env \<Rightarrow> string list \<Rightarrow> log_state \<Rightarrow> log_state option" where
  "env_t e argv s =
     do {
       command_line \<leftarrow> CommandLine_Init argv None;
       (ok, s) \<leftarrow> ChromiumInitLoggingImpl e command_line None LOG_NONE DONT_LOCK_LOG_FILE APPEND_TO_OLD_LOG_FILE
         ENABLE_DCHECK_FOR_NON_OFFICIAL_RELEASE_BUILDS s;
       Some (SetLogMessageHandler (Some log_handler) s)
     }"

end
