(* ===== verification/Logging_Props.thy ===== *)
theory Logging_Props
  imports Logging
begin

text \<open>
  Every message reaches each of its destinations once and in order, the process logs to stdout whatever its
  switches, a failed CHECK is logged and passed, and --v sets the level of VLOG.
\<close>

section \<open>Delivery\<close>

record log_call =
  call_file :: string
  call_line :: int
  call_severity :: int
  call_text :: string

fun log_all :: "log_env \<Rightarrow> log_call list \<Rightarrow> log_state \<Rightarrow> log_state option" where
  "log_all e [] s = Some s"
| "log_all e (c # cs) s =
     Option.bind (log_now e (call_file c) (call_line c) (call_severity c) (call_text c) s) (log_all e cs)"

text \<open>What a call writes under the settings of s, and where the destinations of s take it.\<close>

definition full_text :: "log_env \<Rightarrow> log_state \<Rightarrow> log_call \<Rightarrow> string" where
  "full_text e s c =
     c_str ((case LogMessage_Init e (call_file c) (call_line c) (call_severity c) s of
               None \<Rightarrow> [] | Some m \<Rightarrow> lm_stream m) @ call_text c @
            (if debug_build e \<and> call_severity c = LOG_FATAL then [CHR 0x0A] @ stack_trace e else []) @ [CHR 0x0A])"

definition to_system :: "LoggingDestination \<Rightarrow> bool" where
  "to_system d \<longleftrightarrow> d = LOG_ONLY_TO_SYSTEM_DEBUG_LOG \<or> d = LOG_TO_BOTH_FILE_AND_SYSTEM_DEBUG_LOG"

definition to_file :: "LoggingDestination \<Rightarrow> bool" where
  "to_file d \<longleftrightarrow> d = LOG_ONLY_TO_FILE \<or> d = LOG_TO_BOTH_FILE_AND_SYSTEM_DEBUG_LOG"

text \<open>Between two messages the lock is free and usable, an open log is there, and the handler is the one of
  main.cc or none.\<close>

definition log_ok :: "log_state \<Rightarrow> bool" where
  "log_ok s \<longleftrightarrow> \<not> lock_held s \<and> (lock_initialized s \<longrightarrow> lock_log_file s = LOCK_LOG_FILE \<or> log_lock s) \<and>
     (to_file (logging_destination s) \<longrightarrow> (\<exists>f. log_file s = Some f \<and> files s f \<noteq> None)) \<and>
     log_message_handler s \<in> {None, Some log_handler}"

text \<open>The settings that messages do not change.\<close>

definition same_settings :: "log_state \<Rightarrow> log_state \<Rightarrow> bool" where
  "same_settings s s' \<longleftrightarrow> logging_destination s' = logging_destination s \<and> log_file s' = log_file s \<and>
     log_message_handler s' = log_message_handler s \<and> log_process_id s' = log_process_id s \<and>
     log_thread_id s' = log_thread_id s \<and> log_timestamp s' = log_timestamp s \<and>
     log_tickcount s' = log_tickcount s \<and> min_log_level s' = min_log_level s"

lemma same_settings_trans: "same_settings s t \<Longrightarrow> same_settings t u \<Longrightarrow> same_settings s u"
  by (simp add: same_settings_def)

lemma full_text_same: "same_settings s s' \<Longrightarrow> full_text e s' c = full_text e s c"
  by (simp add: same_settings_def full_text_def LogMessage_Init_def)

definition delivered :: "log_env \<Rightarrow> log_call list \<Rightarrow> log_state \<Rightarrow> log_state \<Rightarrow> bool" where
  "delivered e cs s s' \<longleftrightarrow>
     to_stdout s' = to_stdout s @ (if log_message_handler s = None then [] else concat (map (full_text e s) cs)) \<and>
     to_stderr s' = to_stderr s @ concat (map (full_text e s)
       (filter (\<lambda>c. to_system (logging_destination s) \<or> LOG_ERROR \<le> call_severity c) cs)) \<and>
     (if to_file (logging_destination s)
      then \<exists>f t. log_file s = Some f \<and> files s f = Some t \<and>
             files s' = (files s)(f \<mapsto> t @ concat (map (full_text e s) cs))
      else files s' = files s)"

lemma severity_text_ok: "n \<le> 3 \<Longrightarrow> severity_text n \<noteq> None"
  by (auto simp: severity_text_def log_severity_names_def)

lemma LogMessage_Init_ok:
  "n \<le> 3 \<Longrightarrow> \<exists>m. LogMessage_Init e file line n s = Some m \<and> lm_severity m = n \<and> lm_file m = file \<and>
     lm_line m = line \<and> lm_message_start m = length (lm_stream m)"
  using severity_text_ok [of n] by (auto simp: LogMessage_Init_def Let_def)

lemma write_destinations_ok:
  assumes "log_ok s"
  shows "\<exists>s'. write_destinations e n t s = Some s' \<and> log_ok s' \<and> same_settings s s' \<and> to_stdout s' = to_stdout s \<and>
     to_stderr s' = to_stderr s @ (if to_system (logging_destination s) \<or> LOG_ERROR \<le> n then c_str t else []) \<and>
     (if to_file (logging_destination s)
      then \<exists>f u. log_file s = Some f \<and> files s f = Some u \<and> files s' = (files s)(f \<mapsto> u @ c_str t)
      else files s' = files s)"
proof -
  define s1 where "s1 = (if to_system (logging_destination s) \<or> LOG_ERROR \<le> n then print_stderr t s else s)"
  define s2 where "s2 = LoggingLock_Init LOCK_LOG_FILE s1"
  have s1: "log_ok s1" "same_settings s s1" "to_stdout s1 = to_stdout s" "files s1 = files s"
      "to_stderr s1 = to_stderr s @ (if to_system (logging_destination s) \<or> LOG_ERROR \<le> n then c_str t else [])"
    using assms by (auto simp: s1_def print_stderr_def log_ok_def same_settings_def)
  have s2: "log_ok s2" "same_settings s1 s2" "to_stdout s2 = to_stdout s1" "files s2 = files s1"
      "to_stderr s2 = to_stderr s1" "lock_log_file s2 = LOCK_LOG_FILE \<or> log_lock s2" "\<not> lock_held s2"
    using s1(1) by (auto simp: s2_def LoggingLock_Init_def log_ok_def same_settings_def Let_def)
  have run: "write_destinations e n t s = (if to_file (logging_destination s2) then
        Option.bind (LockLogging s2) (\<lambda>s. case InitializeLogFileHandle e s of
          (ok, s) \<Rightarrow> Some (UnlockLogging (if ok then print_log_file t s else s)))
      else Some s2)"
    using s2(2) s1(2) by (cases "logging_destination s")
      (simp_all add: write_destinations_def Let_def s2_def s1_def to_system_def to_file_def kAlwaysPrintErrorLevel_def same_settings_def)
  have sm: "same_settings s s2" using s1(2) s2(2) by (rule same_settings_trans)
  then have d: "logging_destination s2 = logging_destination s" by (simp add: same_settings_def)
  show ?thesis
  proof (cases "to_file (logging_destination s)")
    case False
    then show ?thesis using run sm s1 s2 by (auto simp: same_settings_def)
  next
    case True
    then obtain f u where f: "log_file s2 = Some f" "files s2 f = Some u"
      using s2(1) sm by (auto simp: log_ok_def same_settings_def)
    let ?s = "s2\<lparr>lock_held := False, files := (files s2)(f \<mapsto> u @ c_str t)\<rparr>"
    have "write_destinations e n t s = Some ?s"
      using run True d s2(6,7) f
      by (simp add: LockLogging_def InitializeLogFileHandle_def print_log_file_def UnlockLogging_def)
    moreover have "log_ok ?s"
      using s2(1) f by (auto simp: log_ok_def)
    moreover have "same_settings s ?s" using sm by (simp add: same_settings_def)
    moreover have "log_file s = Some f" "files s f = Some u" "files s2 = files s"
      using sm f s1(4) s2(4) by (simp_all add: same_settings_def)
    moreover have "to_stdout s2 = to_stdout s" "to_stderr s2 = to_stderr s1" using s1(3) s2(3,5) by simp_all
    ultimately show ?thesis using True s1(5) by simp
  qed
qed

lemma log_now_ok:
  assumes "log_ok s" "call_severity c \<le> 3"
  shows "\<exists>s'. log_now e (call_file c) (call_line c) (call_severity c) (call_text c) s = Some s' \<and>
     log_ok s' \<and> same_settings s s' \<and> delivered e [c] s s'"
proof -
  let ?n = "call_severity c"
  obtain m where m: "LogMessage_Init e (call_file c) (call_line c) ?n s = Some m" "lm_severity m = ?n"
    using LogMessage_Init_ok [OF assms(2)] by blast
  define t where "t = lm_stream m @ call_text c @
      (if debug_build e \<and> ?n = LOG_FATAL then [CHR 0x0A] @ stack_trace e else []) @ [CHR 0x0A]"
  have ft: "full_text e s c = c_str t" by (simp add: full_text_def m(1) t_def)
  define s1 where "s1 = (if log_message_handler s = None then s else s\<lparr>to_stdout := to_stdout s @ c_str t\<rparr>)"
  have s1: "log_ok s1" "same_settings s s1" "files s1 = files s" "to_stderr s1 = to_stderr s"
      "to_stdout s1 = to_stdout s @ (if log_message_handler s = None then [] else c_str t)"
    using assms(1) by (auto simp: s1_def log_ok_def same_settings_def)
  have "log_message_handler s = None \<or> log_message_handler s = Some log_handler"
    using assms(1) by (simp add: log_ok_def)
  then have run: "log_now e (call_file c) (call_line c) ?n (call_text c) s = write_destinations e ?n t s1"
    by (elim disjE) (simp_all add: log_now_def m delete_LogMessage_def stream_text_def t_def log_handler_def s1_def Let_def)
  obtain s' where s': "write_destinations e ?n t s1 = Some s'" "log_ok s'" "same_settings s1 s'" "to_stdout s' = to_stdout s1"
      "to_stderr s' = to_stderr s1 @ (if to_system (logging_destination s1) \<or> LOG_ERROR \<le> ?n then c_str t else [])"
      "if to_file (logging_destination s1)
       then \<exists>f u. log_file s1 = Some f \<and> files s1 f = Some u \<and> files s' = (files s1)(f \<mapsto> u @ c_str t)
       else files s' = files s1"
    using write_destinations_ok [OF s1(1), of e ?n t] by blast
  have d: "logging_destination s1 = logging_destination s" "log_file s1 = log_file s"
    using s1(2) by (simp_all add: same_settings_def)
  have "delivered e [c] s s'"
    using s'(4-6) s1(3-5) by (auto simp add: delivered_def ft d)
  then show ?thesis using run s'(1,2) same_settings_trans [OF s1(2) s'(3)] by auto
qed

lemma delivered_Cons:
  assumes "delivered e [c] s s1" "same_settings s s1" "delivered e cs s1 s2"
  shows "delivered e (c # cs) s s2"
  using assms full_text_same [OF assms(2), of e]
  by (auto simp: delivered_def same_settings_def split: if_splits cong: map_cong)

lemma log_all_ok:
  "log_ok s \<Longrightarrow> \<forall>c \<in> set cs. call_severity c \<le> 3 \<Longrightarrow>
   \<exists>s'. log_all e cs s = Some s' \<and> log_ok s' \<and> same_settings s s' \<and> delivered e cs s s'"
proof (induction cs arbitrary: s)
  case Nil
  then show ?case by (auto simp: same_settings_def delivered_def log_ok_def fun_upd_idem)
next
  case (Cons c cs)
  obtain s1 where s1: "log_now e (call_file c) (call_line c) (call_severity c) (call_text c) s = Some s1"
      "log_ok s1" "same_settings s s1" "delivered e [c] s s1"
    using log_now_ok [OF Cons.prems(1), of c e] Cons.prems(2) by auto
  obtain s2 where s2: "log_all e cs s1 = Some s2" "log_ok s2" "same_settings s1 s2" "delivered e cs s1 s2"
    using Cons.IH [OF s1(2)] Cons.prems(2) by auto
  show ?case
    using s1(1) s2(1,2) same_settings_trans [OF s1(3) s2(3)] delivered_Cons [OF s1(4,3) s2(4)] by auto
qed

section \<open>Initialisation\<close>

lemma no_vmodule_levels: "vmodule_loop (snd (SplitStringIntoKeyValuePairs [] (CHR ''='') (CHR '',''))) = []"
  by code_simp

lemma InitializeLogFileHandle_levels:
  "InitializeLogFileHandle e s = (ok, s') \<Longrightarrow> min_log_level s' = min_log_level s \<and> g_vlog_info s' = g_vlog_info s"
  by (auto simp: InitializeLogFileHandle_def Let_def split: if_splits option.splits)

lemma Init_keeps_levels:
  assumes "ChromiumInitLoggingImpl e cl name dest lock del dc s = Some (ok, s')"
    "HasSwitch kV cl \<or> HasSwitch kVModule cl"
  shows "(case new_VlogInfo (GetSwitchValueASCII kV cl) (GetSwitchValueASCII kVModule cl) (min_log_level s) of
     (info, level) \<Rightarrow> min_log_level s' = level \<and> g_vlog_info s' = Some info)"
  using assms
  by (auto simp: ChromiumInitLoggingImpl_def Let_def LoggingLock_Init_def LockLogging_def UnlockLogging_def CloseFile_def
      DeleteFilePath_def split: if_splits option.splits prod.splits bind_splits dest!: InitializeLogFileHandle_levels)

lemma Init_none_ok:
  "\<exists>s'. ChromiumInitLoggingImpl e cl None LOG_NONE DONT_LOCK_LOG_FILE APPEND_TO_OLD_LOG_FILE
      ENABLE_DCHECK_FOR_NON_OFFICIAL_RELEASE_BUILDS (initial_log_state fs) = Some (True, s')"
  by (simp add: ChromiumInitLoggingImpl_def initial_log_state_def LoggingLock_Init_def LockLogging_def Let_def
      split: prod.split)

lemma env_t_eq:
  "\<exists>cl s'. CommandLine_Init argv None = Some cl \<and> env_t e argv (initial_log_state fs) = Some s' \<and>
     logging_destination s' = LOG_NONE \<and> log_message_handler s' = Some log_handler \<and> log_ok s' \<and>
     files s' = fs \<and> to_stdout s' = [] \<and> to_stderr s' = []"
proof -
  obtain cl where cl: "CommandLine_Init argv None = Some cl" by (simp add: CommandLine_Init_def)
  show ?thesis
    by (intro exI [of _ cl]) (simp add: cl env_t_def ChromiumInitLoggingImpl_def initial_log_state_def LoggingLock_Init_def
        LockLogging_def UnlockLogging_def SetLogMessageHandler_def log_ok_def to_file_def Let_def split: prod.split)
qed

text \<open>Data for the examples.\<close>

definition demo_log_env :: log_env where
  "demo_log_env = \<lparr>debug_build = False, stack_trace = [], process_id = 42, thread_id = 43,
     local_time = \<lparr>tm_year = 113, tm_mon = 8, tm_mday = 7, tm_hour = 1, tm_min = 30, tm_sec = 5\<rparr>,
     tick_count = 0, can_open = (\<lambda>f. True)\<rparr>"

definition demo_log_state :: log_state where
  "demo_log_state = (initial_log_state [''t.log'' \<mapsto> ''old''])
     \<lparr>logging_destination := LOG_ONLY_TO_FILE, log_file := Some ''t.log''\<rparr>"

definition demo_calls :: "log_call list" where
  "demo_calls = [\<lparr>call_file = ''src/main.cc'', call_line = 7, call_severity = LOG_INFO, call_text = ''started''\<rparr>,
     \<lparr>call_file = ''src/main.cc'', call_line = 9, call_severity = LOG_ERROR, call_text = ''failed''\<rparr>]"

lemma demo_log_ok: "log_ok demo_log_state"
  by (simp add: log_ok_def demo_log_state_def initial_log_state_def)

lemma demo_calls_ok: "\<forall>c \<in> set demo_calls. call_severity c \<le> 3"
  by (simp add: demo_calls_def LOG_INFO_def LOG_ERROR_def)

lemma demo_texts: "map (full_text demo_log_env demo_log_state) demo_calls =
    [''[0907/013005:INFO:main.cc(7)] started'' @ [CHR 0x0A], ''[0907/013005:ERROR:main.cc(9)] failed'' @ [CHR 0x0A]]"
  by code_simp

section \<open>Properties\<close>



text \<open>The process logs to stdout, and errors to stderr as well, whatever the arguments it was started
  with: --enable-logging=file opens no file, since nothing calls DetermineLogMode.\<close>

theorem the_process_logs_to_the_terminal:
  assumes "\<forall>c \<in> set cs. call_severity c \<le> 3"
  shows "\<exists>s s'. env_t e argv (initial_log_state fs) = Some s \<and> log_all e cs s = Some s' \<and>
     to_stdout s' = concat (map (full_text e s) cs) \<and>
     to_stderr s' = concat (map (full_text e s) (filter (\<lambda>c. LOG_ERROR \<le> call_severity c) cs)) \<and>
     files s' = fs"
proof -
  obtain s where s: "env_t e argv (initial_log_state fs) = Some s" "logging_destination s = LOG_NONE"
      "log_message_handler s = Some log_handler" "log_ok s" "files s = fs" "to_stdout s = []" "to_stderr s = []"
    using env_t_eq [of argv e fs] by blast
  then show ?thesis
    using log_all_ok [OF s(4) assms, of e] by (auto simp: delivered_def to_system_def to_file_def)
qed

lemma the_process_logs_to_the_terminal_witness:
  "\<exists>s s'. env_t demo_log_env [''torikuru'', ''--enable-logging=file''] (initial_log_state Map.empty) = Some s \<and>
     log_all demo_log_env demo_calls s = Some s' \<and>
     to_stdout s' = concat (map (full_text demo_log_env s) demo_calls) \<and>
     to_stderr s' = concat (map (full_text demo_log_env s) (filter (\<lambda>c. LOG_ERROR \<le> call_severity c) demo_calls)) \<and>
     files s' = Map.empty"
  by (rule the_process_logs_to_the_terminal [OF demo_calls_ok])

text \<open>A failed CHECK is logged and the program goes on, in every build.\<close>

theorem failed_check_continues:
  assumes "log_ok s"
  shows "\<exists>s'. CHECK e file line False condition_text t s = Some s' \<and> log_ok s' \<and>
     to_stderr s' = to_stderr s @ full_text e s
       \<lparr>call_file = file, call_line = line, call_severity = LOG_FATAL,
        call_text = ''Check failed: '' @ condition_text @ ''. '' @ t\<rparr>"
proof -
  let ?c = "\<lparr>call_file = file, call_line = line, call_severity = LOG_FATAL,
      call_text = ''Check failed: '' @ condition_text @ ''. '' @ t\<rparr>"
  have "call_severity ?c \<le> 3" by (simp add: LOG_FATAL_def)
  from log_now_ok [OF assms this, of e] show ?thesis
    by (auto simp: CHECK_def delivered_def LOG_FATAL_def LOG_ERROR_def)
qed

lemma failed_check_continues_witness:
  "\<exists>s'. CHECK demo_log_env ''src/main.cc'' 3 False ''x'' ''y'' demo_log_state = Some s' \<and> log_ok s' \<and>
     to_stderr s' = to_stderr demo_log_state @ full_text demo_log_env demo_log_state
       \<lparr>call_file = ''src/main.cc'', call_line = 3, call_severity = LOG_FATAL,
        call_text = ''Check failed: '' @ ''x'' @ ''. '' @ ''y''\<rparr>"
  by (rule failed_check_continues [OF demo_log_ok])

text \<open>The value of --v is the level of VLOG in every file when there is no --vmodule, whatever else the
  logging is initialised with: messages up to it are on, and LOG drops what is below its negative.\<close>

theorem v_switch_sets_the_level:
  assumes "cl_switches cl kV = Some v" "v \<noteq> []" "cl_switches cl kVModule = None"
    "ChromiumInitLoggingImpl e cl name dest lock del dc s = Some (ok, s')"
  shows "VLOG_IS_ON n file s' = Some (n \<le> atoi v) \<and> (LOG_IS_ON n s' \<longleftrightarrow> - atoi v \<le> n)"
proof -
  have "min_log_level s' = - atoi v \<and> g_vlog_info s' = Some \<lparr>vmodule_levels = []\<rparr>"
    using assms Init_keeps_levels [of e cl name dest lock del dc s ok s'] no_vmodule_levels
    by (simp add: HasSwitch_def GetSwitchValueASCII_def new_VlogInfo_def SetMaxVlogLevel_def)
  then show ?thesis
    by (simp add: VLOG_IS_ON_def GetVlogLevelHelper_def GetVlogLevel_def GetMaxVlogLevel_def LOG_IS_ON_def)
qed

lemma v_switch_sets_the_level_witness:
  "\<exists>s'. ChromiumInitLoggingImpl demo_log_env (AppendSwitchASCII ''v'' ''2'' new_command_line) None LOG_NONE
      DONT_LOCK_LOG_FILE APPEND_TO_OLD_LOG_FILE ENABLE_DCHECK_FOR_NON_OFFICIAL_RELEASE_BUILDS
      (initial_log_state Map.empty) = Some (True, s') \<and>
     VLOG_IS_ON 3 ''consumer.cc'' s' = Some False \<and> LOG_IS_ON (- 2) s'"
proof -
  let ?cl = "AppendSwitchASCII ''v'' ''2'' new_command_line"
  have cl: "cl_switches ?cl kV = Some ''2''" "cl_switches ?cl kVModule = None" by code_simp+
  obtain s' where s': "ChromiumInitLoggingImpl demo_log_env ?cl None LOG_NONE DONT_LOCK_LOG_FILE APPEND_TO_OLD_LOG_FILE
      ENABLE_DCHECK_FOR_NON_OFFICIAL_RELEASE_BUILDS (initial_log_state Map.empty) = Some (True, s')"
    using Init_none_ok by blast
  have "atoi ''2'' = 2" by code_simp
  then show ?thesis
    using s' v_switch_sets_the_level [OF cl(1) _ cl(2) s', of 3 "''consumer.cc''"]
      v_switch_sets_the_level [OF cl(1) _ cl(2) s', of "- 2" "''consumer.cc''"] by auto
qed

end
