(* ===== verification/String_Printf.thy ===== *)
theory String_Printf
  imports Prelude
begin

text \<open>
  src/chromium/stringprintf.cc: StringAppendV prints into a buffer on the stack and, if the text does not
  fit, into buffers on the heap of growing size, up to 32 MiB. vsnprintf belongs to the C library: it is a
  parameter, which for a buffer size gives the value returned, whether errno is then an error other than
  EOVERFLOW, and what the buffer holds.
\<close>

section \<open>The code\<close>

type_synonym vsnprintf_fun = "int \<Rightarrow> int \<times> bool \<times> string"

text \<open>arraysize (stack_buf), and the limit of the loop.\<close>

definition stack_buf_size :: int where "stack_buf_size = 1024"

definition max_mem_length :: int where "max_mem_length = 32 * 1024 * 1024"

text \<open>The loop that grows the buffer. None is a loop that does not end, or the overflow of result + 1.\<close>

partial_function (option) grow_loop :: "vsnprintf_fun \<Rightarrow> string \<Rightarrow> int \<Rightarrow> int \<times> bool \<times> string \<Rightarrow> string option" where
  "grow_loop vsnprintf dst mem_length r =
     (if fst r < 0 \<and> fst (snd r) then Some dst
      else if \<not> fst r < 0 \<and> fst r = 2147483647 then None
      else
        let mem_length = (if fst r < 0 then mem_length * 2 else fst r + 1)
        in if mem_length > max_mem_length then Some dst
           else
             let r = vsnprintf mem_length
             in if 0 \<le> fst r \<and> fst r < mem_length then Some (dst @ take (nat (fst r)) (snd (snd r)))
                else grow_loop vsnprintf dst mem_length r)"

definition StringAppendVT :: "vsnprintf_fun \<Rightarrow> string \<Rightarrow> string option" where
  "StringAppendVT vsnprintf dst =
     (let r = vsnprintf stack_buf_size
      in if 0 \<le> fst r \<and> fst r < stack_buf_size then Some (dst @ take (nat (fst r)) (snd (snd r)))
         else grow_loop vsnprintf dst stack_buf_size r)"

definition StringAppendV :: "string \<Rightarrow> vsnprintf_fun \<Rightarrow> string option" where
  "StringAppendV dst vsnprintf = StringAppendVT vsnprintf dst"

definition StringPrintf :: "vsnprintf_fun \<Rightarrow> string option" where
  "StringPrintf vsnprintf = StringAppendV [] vsnprintf"

definition StringPrintV :: "vsnprintf_fun \<Rightarrow> string option" where
  "StringPrintV vsnprintf = StringAppendV [] vsnprintf"

text \<open>The new value of dst, which is cleared first.\<close>

definition SStringPrintf :: "string \<Rightarrow> vsnprintf_fun \<Rightarrow> string option" where
  "SStringPrintf dst vsnprintf = StringAppendV [] vsnprintf"

definition StringAppendF :: "string \<Rightarrow> vsnprintf_fun \<Rightarrow> string option" where
  "StringAppendF dst vsnprintf = StringAppendV dst vsnprintf"

section \<open>What vsnprintf promises\<close>

text \<open>A text that fits is in the buffer and its length is returned. For one that does not fit the standard
  returns the length it has; older libraries return a negative number and leave errno alone.\<close>

locale printf_library =
  fixes vsnprintf :: vsnprintf_fun and t :: string
  assumes fits: "int (length t) < n \<Longrightarrow> fst (vsnprintf n) = int (length t) \<and> snd (snd (vsnprintf n)) = t"
    and too_long: "0 < n \<Longrightarrow> n \<le> int (length t) \<Longrightarrow>
      (fst (vsnprintf n) = int (length t) \<and> length t < 2147483647) \<or> (fst (vsnprintf n) < 0 \<and> \<not> fst (snd (vsnprintf n)))"
begin

text \<open>Doubling reaches the limit exactly, so no text that would still fit is given up.\<close>

lemma grow_loop_ok:
  "0 < m \<Longrightarrow> m * 2 ^ k = max_mem_length \<Longrightarrow> m \<le> int (length t) \<Longrightarrow>
   grow_loop vsnprintf dst m (vsnprintf m) = Some (if int (length t) < max_mem_length then dst @ t else dst)"
proof (induction k arbitrary: m)
  case (0 m)
  show ?case
    using too_long [of m] 0 by (subst grow_loop.simps) (auto simp: max_mem_length_def)
next
  case (Suc k m)
  have m: "m * 2 \<le> max_mem_length"
  proof -
    have "m * 2 * 1 \<le> m * 2 * 2 ^ k" using Suc.prems(1) by (intro mult_left_mono) auto
    then show ?thesis using Suc.prems(2) by simp
  qed
  from too_long [OF Suc.prems(1,3)] show ?case
  proof
    assume r: "fst (vsnprintf m) = int (length t) \<and> length t < 2147483647"
    show ?thesis
    proof (cases "int (length t) < max_mem_length")
      case True
      then show ?thesis using r fits [of "int (length t) + 1"] by (subst grow_loop.simps) (auto simp: Let_def)
    next
      case False
      then show ?thesis using r by (subst grow_loop.simps) (auto simp: Let_def)
    qed
  next
    assume r: "fst (vsnprintf m) < 0 \<and> \<not> fst (snd (vsnprintf m))"
    then have step: "grow_loop vsnprintf dst m (vsnprintf m) =
        (if 0 \<le> fst (vsnprintf (m * 2)) \<and> fst (vsnprintf (m * 2)) < m * 2
         then Some (dst @ take (nat (fst (vsnprintf (m * 2)))) (snd (snd (vsnprintf (m * 2)))))
         else grow_loop vsnprintf dst (m * 2) (vsnprintf (m * 2)))"
      using m by (subst grow_loop.simps) (simp add: Let_def)
    show ?thesis
    proof (cases "int (length t) < m * 2")
      case True
      then show ?thesis using step fits [OF True] m by simp
    next
      case False
      then have nb: "\<not> (0 \<le> fst (vsnprintf (m * 2)) \<and> fst (vsnprintf (m * 2)) < m * 2)"
        using too_long [of "m * 2"] Suc.prems(1) by auto
      show ?thesis unfolding step if_not_P [OF nb] using Suc.IH [of "m * 2"] Suc.prems False by simp
    qed
  qed
qed

lemma append_ok:
  "StringAppendVT vsnprintf dst = Some (if int (length t) < max_mem_length then dst @ t else dst)"
proof (cases "int (length t) < stack_buf_size")
  case True
  then show ?thesis
    using fits [OF True] by (simp add: StringAppendVT_def Let_def stack_buf_size_def max_mem_length_def)
next
  case False
  then have nb: "\<not> (0 \<le> fst (vsnprintf stack_buf_size) \<and> fst (vsnprintf stack_buf_size) < stack_buf_size)"
    using too_long [of stack_buf_size] by (auto simp: stack_buf_size_def)
  have "StringAppendVT vsnprintf dst = grow_loop vsnprintf dst stack_buf_size (vsnprintf stack_buf_size)"
    unfolding StringAppendVT_def Let_def if_not_P [OF nb] ..
  moreover have "stack_buf_size * 2 ^ 15 = max_mem_length" "0 < stack_buf_size"
    by (simp_all add: stack_buf_size_def max_mem_length_def)
  ultimately show ?thesis using grow_loop_ok False by simp
qed

end

text \<open>The two conventions, for the text t.\<close>

definition c99_vsnprintf :: "string \<Rightarrow> vsnprintf_fun" where
  "c99_vsnprintf t n = (int (length t), False, take (nat (n - 1)) t)"

definition old_vsnprintf :: "string \<Rightarrow> vsnprintf_fun" where
  "old_vsnprintf t n = (if int (length t) < n then int (length t) else - 1, False, take (nat (n - 1)) t)"

interpretation old: printf_library "old_vsnprintf t" t for t
  by unfold_locales (auto simp: old_vsnprintf_def)

section \<open>Properties\<close>

text \<open>C24: The loop ends with every library that keeps either convention, and the text is appended whole if it is
  shorter than 32 MiB and not at all otherwise.\<close>

theorem StringAppendV_appends_the_text:
  assumes "printf_library vsnprintf t"
  shows "StringAppendV dst vsnprintf = Some (if length t < 33554432 then dst @ t else dst)"
  using printf_library.append_ok [OF assms, of dst] by (simp add: StringAppendV_def max_mem_length_def)

lemma StringAppendV_appends_the_text_witness:
  "StringAppendV ''Count: '' (old_vsnprintf (replicate 3000 (CHR ''x''))) = Some (''Count: '' @ replicate 3000 (CHR ''x''))"
  using StringAppendV_appends_the_text [OF old.printf_library_axioms, of "''Count: ''" "replicate 3000 (CHR ''x'')"]
  by (simp del: replicate.simps)

end
