(* ===== verification/Json.thy ===== *)
theory Json
  imports Prelude
begin

text \<open>
  The part of JSON (RFC 8259) that the printers of src/rfaostream.hh write: objects, strings, integers and
  the two truth values. A value, the text of a value in the layout of the printers, and a parser that reads
  the grammar itself (white space between tokens, no raw control character, quote or backslash in a string,
  no leading zero); escapes, arrays, fractions and null are not needed and are refused. The round trip shows
  that the parser returns the value that was printed. It is the specification theory Rfa_Ostream is compared with.
\<close>

section \<open>Values and their text\<close>

datatype json = JString string | JInt int | JBool bool | JObject "(string \<times> json) list"

fun commas :: "string list \<Rightarrow> string" where
  "commas [] = []"
| "commas [x] = x"
| "commas (x # y # xs) = x @ '', '' @ commas (y # xs)"

fun render :: "json \<Rightarrow> string" where
  "render (JString s) = ''\"'' @ s @ ''\"''"
| "render (JInt i) = show_int i"
| "render (JBool b) = (if b then ''true'' else ''false'')"
| "render (JObject ms) = ''{ '' @ commas (map (\<lambda>m. ''\"'' @ fst m @ ''\": '' @ render (snd m)) ms) @ '' }''"

definition member :: "string \<times> json \<Rightarrow> string" where
  "member m = ''\"'' @ fst m @ ''\": '' @ render (snd m)"

lemma render_JObject: "render (JObject ms) = ''{ '' @ commas (map member ms) @ '' }''"
  by (simp add: member_def [abs_def])

text \<open>A character that may stand for itself in a string.\<close>

definition unescaped :: "char \<Rightarrow> bool" where
  "unescaped c = (32 \<le> (of_char c :: nat) \<and> c \<noteq> CHR 0x22 \<and> c \<noteq> CHR 0x5C)"

abbreviation unquoted :: "string \<Rightarrow> bool" where
  "unquoted s \<equiv> list_all unescaped s"

fun writable :: "json \<Rightarrow> bool" where
  "writable (JString s) = unquoted s"
| "writable (JInt i) = True"
| "writable (JBool b) = True"
| "writable (JObject ms) = (\<forall>m\<in>set ms. unquoted (fst m) \<and> writable (snd m))"

section \<open>A parser\<close>

definition is_ws :: "char \<Rightarrow> bool" where
  "is_ws c = (c = CHR '' '' \<or> c = CHR 0x09 \<or> c = CHR 0x0A \<or> c = CHR 0x0D)"

abbreviation skip_ws :: "string \<Rightarrow> string" where
  "skip_ws s \<equiv> dropWhile is_ws s"

text \<open>The next token, when it is the given word.\<close>

definition expect :: "string \<Rightarrow> string \<Rightarrow> string option" where
  "expect w s = (let t = skip_ws s in if take (length w) t = w then Some (drop (length w) t) else None)"

text \<open>The characters up to the closing quote.\<close>

definition parse_chars :: "string \<Rightarrow> (string \<times> string) option" where
  "parse_chars s =
     (let r = dropWhile unescaped s
      in if r \<noteq> [] \<and> hd r = CHR 0x22 then Some (takeWhile unescaped s, tl r) else None)"

definition parse_digits :: "string \<Rightarrow> (nat \<times> string) option" where
  "parse_digits s =
     (let ds = takeWhile is_digit s
      in if ds = [] \<or> (hd ds = CHR ''0'' \<and> length ds \<noteq> 1) then None
         else Some (digits_val ds, dropWhile is_digit s))"

definition parse_int :: "string \<Rightarrow> (int \<times> string) option" where
  "parse_int s =
     (case expect ''-'' s of
        Some r \<Rightarrow> map_option (\<lambda>(n, r). (- int n, r)) (parse_digits r)
      | None \<Rightarrow> map_option (\<lambda>(n, r). (int n, r)) (parse_digits (skip_ws s)))"

text \<open>
  A value, and the members of an object after its opening brace; the first argument bounds the depth of the
  recursion, and the length of the text is always enough.
\<close>

fun parse_value :: "nat \<Rightarrow> string \<Rightarrow> (json \<times> string) option"
  and parse_member :: "nat \<Rightarrow> string \<Rightarrow> ((string \<times> json) \<times> string) option"
  and parse_members :: "nat \<Rightarrow> string \<Rightarrow> ((string \<times> json) list \<times> string) option" where
  "parse_value 0 s = None"
| "parse_value (Suc n) s =
     (case expect ''\"'' s of
        Some r \<Rightarrow> map_option (\<lambda>(k, r). (JString k, r)) (parse_chars r)
      | None \<Rightarrow>
     (case expect ''{'' s of
        Some r \<Rightarrow>
          (case expect ''}'' r of
             Some r \<Rightarrow> Some (JObject [], r)
           | None \<Rightarrow> map_option (\<lambda>(ms, r). (JObject ms, r)) (parse_members n r))
      | None \<Rightarrow>
     (case expect ''true'' s of
        Some r \<Rightarrow> Some (JBool True, r)
      | None \<Rightarrow>
     (case expect ''false'' s of
        Some r \<Rightarrow> Some (JBool False, r)
      | None \<Rightarrow> map_option (\<lambda>(i, r). (JInt i, r)) (parse_int s)))))"
| "parse_member 0 s = None"
| "parse_member (Suc n) s =
     do {
       r \<leftarrow> expect ''\"'' s;
       (k, r) \<leftarrow> parse_chars r;
       r \<leftarrow> expect '':'' r;
       (v, r) \<leftarrow> parse_value n r;
       Some ((k, v), r)
     }"
| "parse_members 0 s = None"
| "parse_members (Suc n) s =
     do {
       (m, r) \<leftarrow> parse_member n s;
       (case expect '','' r of
          Some r \<Rightarrow> map_option (\<lambda>(ms, r). (m # ms, r)) (parse_members n r)
        | None \<Rightarrow> map_option (\<lambda>r. ([m], r)) (expect ''}'' r))
     }"

text \<open>A text that is one member of an object and nothing else, as a line of the log holds it.\<close>

definition read_member :: "string \<Rightarrow> (string \<times> json) option" where
  "read_member s =
     (case parse_member (length s) s of
        Some (m, r) \<Rightarrow> if skip_ws r = [] then Some m else None
      | None \<Rightarrow> None)"

section \<open>The round trip\<close>

lemma expect_hit: "\<not> is_ws c \<Longrightarrow> expect (c # w) (c # w @ r) = Some r"
  by (simp add: expect_def)

lemma expect_miss: "\<not> is_ws c \<Longrightarrow> c \<noteq> d \<Longrightarrow> expect (d # w) (c # r) = None"
  by (simp add: expect_def)

lemma expect_blank [simp]: "expect w (CHR '' '' # r) = expect w r"
  by (simp add: expect_def is_ws_def)

lemma parse_chars_quoted: "unquoted s \<Longrightarrow> parse_chars (s @ CHR 0x22 # r) = Some (s, r)"
  by (simp add: parse_chars_def Let_def list_all_iff takeWhile_append_stop dropWhile_append_stop unescaped_def)

text \<open>What follows a value in a text: its first character is not a digit.\<close>

definition stops :: "string \<Rightarrow> bool" where
  "stops r = (r = [] \<or> \<not> is_digit (hd r))"

lemma takeWhile_digits: "list_all is_digit ds \<Longrightarrow> stops r \<Longrightarrow> takeWhile is_digit (ds @ r) = ds"
  "list_all is_digit ds \<Longrightarrow> stops r \<Longrightarrow> dropWhile is_digit (ds @ r) = r"
  by (induction ds; cases r; simp add: stops_def)+

lemma parse_digits_show: "stops r \<Longrightarrow> parse_digits (show_nat n @ r) = Some (n, r)"
  using show_nat_no_leading_zero [of n]
  by (auto simp: parse_digits_def Let_def takeWhile_digits show_nat_digits show_nat_0)

lemma digit_first: "\<exists>c s. show_nat n = c # s \<and> is_digit c"
  using show_nat_digits [of n] by (cases "show_nat n") auto

lemma digit_not:
  "is_digit c \<Longrightarrow> \<not> is_ws c" "is_digit c \<Longrightarrow> c \<noteq> CHR ''-''" "is_digit c \<Longrightarrow> c \<noteq> CHR 0x22"
  "is_digit c \<Longrightarrow> c \<noteq> CHR ''{''" "is_digit c \<Longrightarrow> c \<noteq> CHR ''t''" "is_digit c \<Longrightarrow> c \<noteq> CHR ''f''"
  by (auto simp: is_digit_def is_ws_def)

lemma parse_int_show: "stops r \<Longrightarrow> parse_int (show_int i @ r) = Some (i, r)"
proof -
  assume r: "stops r"
  show ?thesis
  proof (cases "i < 0")
    case True
    with r show ?thesis
      by (simp add: show_int_def parse_int_def expect_def is_ws_def parse_digits_show)
  next
    case False
    obtain c s where c: "show_nat (nat i) = c # s" "is_digit c" using digit_first by blast
    then have "expect ''-'' (c # s @ r) = None" "skip_ws (c # s @ r) = c # s @ r"
      by (simp_all add: expect_miss digit_not)
    moreover have "parse_digits (c # s @ r) = Some (nat i, r)"
      using parse_digits_show [OF r, of "nat i"] c by simp
    ultimately show ?thesis using False c by (simp add: show_int_def parse_int_def)
  qed
qed

lemma parse_blank:
  "parse_value n (CHR '' '' # s) = parse_value n s"
  "parse_member n (CHR '' '' # s) = parse_member n s"
  "parse_members n (CHR '' '' # s) = parse_members n s"
proof -
  show "parse_value n (CHR '' '' # s) = parse_value n s"
    by (cases n) (simp_all add: parse_int_def is_ws_def cong: option.case_cong)
  show *: "parse_member n (CHR '' '' # s) = parse_member n s" for n by (cases n) simp_all
  show "parse_members n (CHR '' '' # s) = parse_members n s" by (cases n) (simp_all add: *)
qed

lemma parse_member_text:
  assumes inner: "\<And>n r. length (render v) \<le> n \<Longrightarrow> stops r \<Longrightarrow> parse_value n (render v @ r) = Some (v, r)"
    and "unquoted k" and "length (member (k, v)) \<le> n" and "stops r"
  shows "parse_member n (member (k, v) @ r) = Some ((k, v), r)"
proof -
  obtain m where n: "n = Suc m" "length (render v) \<le> m"
    using assms(3) by (cases n) (auto simp: member_def)
  have "expect ''\"'' (member (k, v) @ r) = Some (k @ CHR 0x22 # CHR '':'' # CHR '' '' # render v @ r)"
    by (simp add: member_def expect_def is_ws_def)
  moreover have "expect '':'' (CHR '':'' # CHR '' '' # render v @ r) = Some (CHR '' '' # render v @ r)"
    by (simp add: expect_def is_ws_def)
  ultimately show ?thesis
    using inner [OF n(2) assms(4)] by (simp add: n(1) parse_chars_quoted [OF assms(2)] parse_blank)
qed

lemma parse_members_text:
  assumes "ms \<noteq> []"
    and "\<And>m n r. m \<in> set ms \<Longrightarrow> length (render (snd m)) \<le> n \<Longrightarrow> stops r \<Longrightarrow>
           parse_value n (render (snd m) @ r) = Some (snd m, r)"
    and "\<forall>m\<in>set ms. unquoted (fst m)" and "length (commas (map member ms)) < n"
  shows "parse_members n (commas (map member ms) @ '' }'' @ r) = Some (ms, r)"
  using assms
proof (induction ms arbitrary: n rule: list_nonempty_induct)
  case (single m)
  then obtain n' where n: "n = Suc n'" "length (member m) \<le> n'" by (cases n) auto
  have "parse_member n' (member m @ '' }'' @ r) = Some (m, '' }'' @ r)"
    using parse_member_text [of "snd m" "fst m" n' "'' }'' @ r"] single.prems n(2) by (simp add: stops_def is_digit_def)
  then show ?case by (simp add: n(1) expect_def is_ws_def)
next
  case (cons m ms)
  obtain y ys where ms: "ms = y # ys" using cons.hyps by (cases ms) auto
  let ?t = "'', '' @ commas (map member ms) @ '' }'' @ r"
  have "length (commas (map member (m # ms))) = length (member m) + 2 + length (commas (map member ms))"
    by (simp add: ms)
  then obtain n' where n: "n = Suc n'" "length (member m) \<le> n'" "length (commas (map member ms)) < n'"
    using cons.prems(3) by (cases n) auto
  have "parse_member n' (member m @ ?t) = Some (m, ?t)"
    using parse_member_text [of "snd m" "fst m" n' ?t] cons.prems n(2) by (simp add: stops_def is_digit_def)
  moreover have "parse_members n' (commas (map member ms) @ '' }'' @ r) = Some (ms, r)"
    using cons.prems(1,2) by (intro cons.IH n(3)) auto
  ultimately show ?case by (simp add: n(1) ms expect_def is_ws_def parse_blank)
qed

text \<open>The first character of a value tells its kind.\<close>

lemma parse_int_value:
  "stops r \<Longrightarrow> parse_value (Suc n) (show_int i @ r) = Some (JInt i, r)"
proof -
  assume r: "stops r"
  obtain c s where c: "show_int i = c # s" "is_digit c \<or> c = CHR ''-''"
    using digit_first [of "nat i"] by (cases "i < 0") (auto simp: show_int_def)
  then have not: "\<not> is_ws c" "c \<noteq> CHR 0x22" "c \<noteq> CHR ''{''" "c \<noteq> CHR ''t''" "c \<noteq> CHR ''f''"
    by (auto simp: is_digit_def is_ws_def)
  have "expect (d # w) (show_int i @ r) = None" if "c \<noteq> d" for d w
    using that not(1) by (simp add: c(1) expect_miss)
  with not parse_int_show [OF r] show ?thesis by simp
qed

theorem parse_render:
  "writable j \<Longrightarrow> length (render j) \<le> n \<Longrightarrow> stops r \<Longrightarrow> parse_value n (render j @ r) = Some (j, r)"
proof (induction j arbitrary: n r rule: render.induct)
  case (1 s)
  then obtain m where "n = Suc m" by (cases n) auto
  moreover have "expect ''\"'' (CHR 0x22 # t) = Some t" for t by (simp add: expect_def is_ws_def)
  ultimately show ?case using 1 by (simp add: parse_chars_quoted)
next
  case (2 i)
  have "show_int i \<noteq> []" by (simp add: show_int_def)
  with 2 obtain m where "n = Suc m" by (cases n) auto
  with parse_int_value [OF 2(3), of m i] show ?case by (simp del: parse_value.simps)
next
  case (3 b)
  then obtain m where "n = Suc m" by (cases n; cases b) auto
  then show ?case by (cases b) (simp_all add: expect_def is_ws_def)
next
  case (4 ms)
  then obtain m where n: "n = Suc m" by (cases n) auto
  have open_brace: "expect ''\"'' (CHR ''{'' # t) = None" "expect ''{'' (CHR ''{'' # t) = Some t" for t
    by (simp_all add: expect_def is_ws_def)
  show ?case
  proof (cases "ms = []")
    case True
    then show ?thesis by (simp add: n open_brace, simp add: expect_def is_ws_def)
  next
    case False
    let ?t = "commas (map member ms)"
    have parts: "\<And>x n r. x \<in> set ms \<Longrightarrow> length (render (snd x)) \<le> n \<Longrightarrow> stops r \<Longrightarrow>
        parse_value n (render (snd x) @ r) = Some (snd x, r)"
      using 4 by auto
    have "length ?t < m" using 4(3) n by (simp add: render_JObject del: render.simps)
    then have "parse_members m (?t @ '' }'' @ r) = Some (ms, r)"
      using 4(2) by (intro parse_members_text [OF False parts]) auto
    moreover have "\<exists>t. ?t = CHR 0x22 # t"
      using False by (cases ms; cases "tl ms") (auto simp: member_def)
    then have "expect ''}'' (?t @ '' }'' @ r) = None" by (auto simp: expect_def is_ws_def)
    ultimately show ?thesis
      by (simp add: n render_JObject open_brace parse_blank del: render.simps)
  qed
qed

text \<open>A member printed on a line is read back.\<close>

theorem read_member_member:
  assumes "unquoted k" and "writable v"
  shows "read_member (member (k, v)) = Some (k, v)"
proof -
  have "parse_member (length (member (k, v))) (member (k, v) @ []) = Some ((k, v), [])"
    by (rule parse_member_text [OF parse_render [OF assms(2)] assms(1)]) (auto simp: stops_def)
  then show ?thesis by (simp add: read_member_def)
qed

section \<open>More depth changes no result\<close>

lemma parse_mono:
  "parse_value n s = Some x \<Longrightarrow> n \<le> m \<Longrightarrow> parse_value m s = Some x"
  "parse_member n s = Some y \<Longrightarrow> n \<le> m \<Longrightarrow> parse_member m s = Some y"
  "parse_members n s = Some z \<Longrightarrow> n \<le> m \<Longrightarrow> parse_members m s = Some z"
proof (induction n s and n s and n s arbitrary: m x and m y and m z
    rule: parse_value_parse_member_parse_members.induct)
  case (2 n s)
  from 2(3) obtain k where m: "m = Suc k" "n \<le> k" by (cases m) auto
  show ?case
  proof (cases "expect ''\"'' s = None \<and> (\<exists>r. expect ''{'' s = Some r \<and> expect ''}'' r = None)")
    case True
    then obtain r where r: "expect ''\"'' s = None" "expect ''{'' s = Some r" "expect ''}'' r = None" by blast
    with 2(2) obtain ms t where "parse_members n r = Some (ms, t)" "x = (JObject ms, t)" by auto
    with 2(1) [OF r this(1) m(2)] r m(1) show ?thesis by simp
  next
    case False
    then consider (quote) a where "expect ''\"'' s = Some a" | (other) "expect ''\"'' s = None" "expect ''{'' s = None"
      | (empty) r t where "expect ''\"'' s = None" "expect ''{'' s = Some r" "expect ''}'' r = Some t"
      by (cases "expect ''\"'' s"; cases "expect ''{'' s") auto
    then show ?thesis by cases (use 2(2) m(1) in simp_all)
  qed
next
  case (4 n s)
  from 4(3) obtain k where m: "m = Suc k" "n \<le> k" by (cases m) auto
  from 4(2) obtain a b c d v r where p: "expect ''\"'' s = Some a" "parse_chars a = Some (b, c)" "expect '':'' c = Some d"
      "parse_value n d = Some (v, r)" "y = ((b, v), r)"
    by (auto simp: bind_eq_Some_conv)
  from 4(1) [OF p(1,2) refl p(3,4) m(2)] p m(1) show ?case by simp
next
  case (6 n s)
  from 6(4) obtain k where m: "m = Suc k" "n \<le> k" by (cases m) auto
  from 6(3) obtain u r where u: "parse_member n s = Some (u, r)" by (auto simp: bind_eq_Some_conv)
  note u' = 6(1) [OF u m(2)]
  show ?case
  proof (cases "expect '','' r")
    case None
    with 6(3) u u' m(1) show ?thesis by simp
  next
    case (Some t)
    with 6(3) u obtain ms w where "parse_members n t = Some (ms, w)" "z = (u # ms, w)" by auto
    with 6(2) [OF u refl Some this(1) m(2)] Some u u' m(1) show ?thesis by simp
  qed
qed simp_all

text \<open>A text that goes wrong behind a good member is not a list of members.\<close>

lemma parse_member_prefix:
  assumes "unquoted k" and "writable v" and "stops r" and "parse_member n (member (k, v) @ r) = Some z"
  shows "z = ((k, v), r)"
proof -
  let ?m = "max n (length (member (k, v)))"
  have "parse_member ?m (member (k, v) @ r) = Some ((k, v), r)"
    by (rule parse_member_text [OF parse_render [OF assms(2)] assms(1) _ assms(3)]) auto
  moreover have "parse_member ?m (member (k, v) @ r) = Some z"
    by (rule parse_mono(2) [OF assms(4)]) simp
  ultimately show ?thesis by simp
qed

lemma bad_rest:
  assumes "unquoted k" and "writable v" and "\<And>n. parse_members n rest = None"
  shows "parse_members n (member (k, v) @ CHR '','' # rest) = None"
proof (cases n)
  case (Suc k')
  show ?thesis
  proof (cases "parse_member k' (member (k, v) @ CHR '','' # rest)")
    case (Some z)
    have "stops (CHR '','' # rest)" by (simp add: stops_def is_digit_def)
    from parse_member_prefix [OF assms(1,2) this Some] Some show ?thesis
      using assms(3) by (simp add: Suc expect_def is_ws_def)
  qed (simp add: Suc)
qed simp

lemma bad_member_members: "(\<And>n. parse_member n s = None) \<Longrightarrow> parse_members n s = None"
  by (cases n) simp_all

lemma bad_value:
  assumes "unquoted k" and "\<And>n. parse_value n rest = None"
  shows "parse_member n (CHR 0x22 # k @ CHR 0x22 # CHR '':'' # rest) = None"
  by (cases n) (simp_all add: expect_def is_ws_def parse_chars_quoted [OF assms(1)] assms(2))

lemma bad_object:
  assumes "\<And>n. parse_members n rest = None" and "\<exists>t. rest = CHR '' '' # CHR 0x22 # t"
  shows "parse_value n (CHR ''{'' # rest) = None"
proof -
  have "expect ''}'' rest = None" "expect ''\"'' (CHR ''{'' # rest) = None" "expect ''{'' (CHR ''{'' # rest) = Some rest"
    using assms(2) by (auto simp: expect_def is_ws_def)
  then show ?thesis by (cases n) (simp_all add: assms(1))
qed

text \<open>A word that is neither true nor false nor quoted is no value.\<close>

lemma bad_word:
  assumes "\<not> is_ws c" and "\<not> is_digit c" and "c \<notin> {CHR 0x22, CHR ''{'', CHR ''t'', CHR ''f'', CHR ''-''}"
  shows "parse_value n (c # rest) = None"
proof -
  have miss: "expect (d # w) (c # rest) = None" if "d \<in> {CHR 0x22, CHR ''{'', CHR ''t'', CHR ''f'', CHR ''-''}" for d w
    using that assms(1,3) by (intro expect_miss) blast+
  have "takeWhile is_digit (c # rest) = []" "skip_ws (c # rest) = c # rest"
    using assms(1,2) by simp_all
  then have "parse_int (c # rest) = None"
    by (simp add: parse_int_def miss parse_digits_def del: takeWhile.simps dropWhile.simps)
  then show ?thesis by (cases n) (simp_all add: miss)
qed

end
