(* ===== verification/Rfa_Ostream.thy ===== *)
theory Rfa_Ostream
  imports Json
begin

text \<open>
  src/rfaostream.hh: the stream operators that write the events and messages of RFA to the log. The classes
  of RFA are records of what their accessors return; an enumeration is a datatype with one more constructor
  for any other value; the masks are words. The values of the constants that are not enumerators (flags, name
  types, rates, timeliness) belong to RFA and are the parameter rfa_constants. A printer returns the text it
  appends to the stream, which stays in its default decimal format.
\<close>

unbundle bit_operations_syntax

section \<open>Constants and strings of RFA\<close>

datatype flag =
    AttribInfo_DataMaskFlag | AttribInfo_NameFlag | AttribInfo_NameTypeFlag | AttribInfo_ServiceNameFlag
  | AttribInfo_IDFlag | AttribInfo_AttribFlag | AttribInfo_ServiceIDFlag
  | Manifest_SeqFlag | Manifest_FilteredFlag | Manifest_ItemGroupFlag | Manifest_PermissionDataFlag
  | RespMsg_RespTypeNumFlag | RespMsg_RespStatusFlag | RespMsg_QualityOfServiceFlag | RespMsg_AttribInfoFlag
  | RespMsg_ManifestFlag | RespMsg_HeaderFlag | RespMsg_PayloadFlag | RespMsg_PrincipalIdentityFlag
  | RespMsg_DoNotCacheFlag | RespMsg_DoNotFilterFlag | RespMsg_ClearCacheFlag | RespMsg_RefreshCompleteFlag
  | RespMsg_DoNotRippleFlag
  | ReqMsg_PriorityFlag | ReqMsg_QualityOfServiceReqFlag | ReqMsg_AttribInfoFlag | ReqMsg_HeaderFlag
  | ReqMsg_PayloadFlag
  | ReqMsg_AttribInfoInUpdatesFlag | ReqMsg_FilteredInUpdatesFlag | ReqMsg_ViewFlag | ReqMsg_BatchFlag
  | ReqMsg_InitialImageFlag | ReqMsg_InterestAfterRefreshFlag | ReqMsg_PauseFlag

datatype name_type =
    USER_NAME | USER_EMAIL_ADDRESS | USER_TOKEN
  | INSTRUMENT_NAME_UNSPECIFIED | INSTRUMENT_NAME_RIC | INSTRUMENT_NAME_MAX_RESERVED

text \<open>QualityOfService and QualityOfServiceRequest: "constants are not constant", so no switch.\<close>

datatype qos_constant =
    QoS_tickByTick | QoS_justInTimeFilteredRate | QoS_unspecifiedRate
  | QoS_realTime | QoS_unspecifiedDelayedTimeliness | QoS_unspecifiedTimeliness
  | Request_tickByTick | Request_fastestFilteredRate | Request_justInTimeFilteredRate | Request_slowestRate
  | Request_realTime | Request_delayed

record rfa_constants =
  flag_bits :: "flag \<Rightarrow> u32"
  name_type_of :: "name_type \<Rightarrow> int"
  qos_of :: "qos_constant \<Rightarrow> int"

text \<open>The text of an RFA_String is its C string.\<close>

definition print_RFA_String :: "string \<Rightarrow> string" where
  "print_RFA_String s = takeWhile (\<lambda>c. c \<noteq> CHR 0x00) s"

text \<open>
  The names of the flags of a mask, with a bar before every name but the first. The code tests whether the
  stream is still empty before each name but that of the first flag, where it always is.
\<close>

definition add_flag :: "u32 \<Rightarrow> string \<Rightarrow> u32 \<times> string \<Rightarrow> string" where
  "add_flag m ss f =
     (if m AND fst f \<noteq> 0 then (if ss \<noteq> [] then ss @ ''|'' else ss) @ snd f else ss)"

definition flag_text :: "u32 \<Rightarrow> (u32 \<times> string) list \<Rightarrow> string" where
  "flag_text m fs = foldl (add_flag m) [] fs"

definition print_bool :: "bool \<Rightarrow> string" where
  "print_bool b = (if b then ''true'' else ''false'')"

section \<open>AttribInfo\<close>

record attrib_info =
  ai_hint_mask :: u32
  ai_id :: int
  ai_name :: string
  ai_name_type :: int
  ai_service_id :: int
  ai_service_name :: string

definition attrib_flags :: "rfa_constants \<Rightarrow> (u32 \<times> string) list" where
  "attrib_flags C =
     [(flag_bits C AttribInfo_DataMaskFlag, ''DataMaskFlag''),
      (flag_bits C AttribInfo_NameFlag, ''NameFlag''),
      (flag_bits C AttribInfo_NameTypeFlag, ''NameTypeFlag''),
      (flag_bits C AttribInfo_ServiceNameFlag, ''ServiceNameFlag''),
      (flag_bits C AttribInfo_IDFlag, ''IDFlag''),
      (flag_bits C AttribInfo_AttribFlag, ''AttribFlag''),
      (flag_bits C AttribInfo_ServiceIDFlag, ''ServiceIDFlag'')]"

definition print_AttribInfo :: "rfa_constants \<Rightarrow> attrib_info \<Rightarrow> string" where
  "print_AttribInfo C a =
     ''\"AttribInfo\": { '' @
       ''\"HintMask\": \"'' @ flag_text (ai_hint_mask a) (attrib_flags C) @ ''\"'' @
     '', \"ID\": '' @ show_int (ai_id a) @
     '', \"Name\": \"'' @ print_RFA_String (ai_name a) @ ''\"'' @
     '', \"NameType\": '' @ show_int (ai_name_type a) @
     '', \"ServiceID\": '' @ show_int (ai_service_id a) @
     '', \"ServiceName\": \"'' @ print_RFA_String (ai_service_name a) @ ''\"'' @
     '' }''"

text \<open>Type B: the name types of a login.\<close>

definition login_name_type :: "rfa_constants \<Rightarrow> int \<Rightarrow> string" where
  "login_name_type C t =
     (if t = name_type_of C USER_NAME then ''USER_NAME''
      else if t = name_type_of C USER_EMAIL_ADDRESS then ''USER_EMAIL_ADDRESS''
      else if t = name_type_of C USER_TOKEN then ''USER_TOKEN''
      else ''(Unknown)'')"

definition print_LoginAttribInfo :: "rfa_constants \<Rightarrow> attrib_info \<Rightarrow> string" where
  "print_LoginAttribInfo C a =
     ''\"AttribInfo\": { '' @
       ''\"HintMask\": \"'' @ flag_text (ai_hint_mask a) (attrib_flags C) @ ''\"'' @
     '', \"ID\": '' @ show_int (ai_id a) @
     '', \"Name\": \"'' @ print_RFA_String (ai_name a) @ ''\"'' @
     '', \"NameType\": \"'' @ login_name_type C (ai_name_type a) @ ''\"'' @
     '', \"ServiceID\": '' @ show_int (ai_service_id a) @
     '', \"ServiceName\": \"'' @ print_RFA_String (ai_service_name a) @ ''\"'' @
     '' }''"

text \<open>Type A: the name types of an instrument.\<close>

definition instrument_name_type :: "rfa_constants \<Rightarrow> int \<Rightarrow> string" where
  "instrument_name_type C t =
     (if t = name_type_of C INSTRUMENT_NAME_UNSPECIFIED then ''INSTRUMENT_NAME_UNSPECIFIED''
      else if t = name_type_of C INSTRUMENT_NAME_RIC then ''INSTRUMENT_NAME_RIC''
      else if t = name_type_of C INSTRUMENT_NAME_MAX_RESERVED then ''INSTRUMENT_NAME_MAX_RESERVED''
      else ''(Unknown)'')"

definition print_InstrumentAttribInfo :: "rfa_constants \<Rightarrow> attrib_info \<Rightarrow> string" where
  "print_InstrumentAttribInfo C a =
     ''\"AttribInfo\": { '' @
       ''\"HintMask\": \"'' @ flag_text (ai_hint_mask a) (attrib_flags C) @ ''\"'' @
     '', \"ID\": '' @ show_int (ai_id a) @
     '', \"Name\": \"'' @ print_RFA_String (ai_name a) @ ''\"'' @
     '', \"NameType\": \"'' @ instrument_name_type C (ai_name_type a) @ ''\"'' @
     '', \"ServiceID\": '' @ show_int (ai_service_id a) @
     '', \"ServiceName\": \"'' @ print_RFA_String (ai_service_name a) @ ''\"'' @
     '' }''"

section \<open>Manifest and principal identity\<close>

record manifest =
  mf_hint_mask :: u32
  mf_filtered_count :: int
  mf_filtered_time :: int
  mf_seq_num :: int

definition manifest_flags :: "rfa_constants \<Rightarrow> (u32 \<times> string) list" where
  "manifest_flags C =
     [(flag_bits C Manifest_SeqFlag, ''SeqFlag''),
      (flag_bits C Manifest_FilteredFlag, ''FilteredFlag''),
      (flag_bits C Manifest_ItemGroupFlag, ''ItemGroupFlag''),
      (flag_bits C Manifest_PermissionDataFlag, ''PermissionDataFlag'')]"

definition print_Manifest :: "rfa_constants \<Rightarrow> manifest \<Rightarrow> string" where
  "print_Manifest C m =
     ''\"Manifest\": { '' @
       ''\"FilteredCount\": '' @ show_int (mf_filtered_count m) @
     '', \"FilteredTime\": '' @ show_int (mf_filtered_time m) @
     '', \"HintMask\": \"'' @ flag_text (mf_hint_mask m) (manifest_flags C) @ ''\"'' @
     '', \"SeqNum\": '' @ show_int (mf_seq_num m) @
     '' }''"

text \<open>The identities by their type; of a publisher, the texts that its address and its user id write.\<close>

datatype principal_identity =
    StandardPrincipalIdentity (si_app_name: string) (si_name: string) (si_password: string) (si_position: string)
  | TokenizedPrincipalIdentity
  | PublisherPrincipalIdentity (pi_user_address: string) (pi_user_id: string)
  | OtherPrincipalIdentity

definition print_PublisherPrincipalIdentity :: "string \<Rightarrow> string \<Rightarrow> string" where
  "print_PublisherPrincipalIdentity address user_id =
     ''\"PrincipalIdentity\": { '' @
       ''\"Type\": \"PublisherPrincipalIdentity\"'' @
     '', \"UserAddress\": \"'' @ address @ ''\"'' @
     '', \"UserID\": \"'' @ user_id @ ''\"'' @
     '' }''"

definition print_StandardPrincipalIdentity :: "string \<Rightarrow> string \<Rightarrow> string \<Rightarrow> string \<Rightarrow> string" where
  "print_StandardPrincipalIdentity app_name name password position =
     ''\"PrincipalIdentity\": { '' @
       ''\"Type\": \"StandardPrincipalIdentity\"'' @
     '', \"AppName\": \"'' @ print_RFA_String app_name @ ''\"'' @
     '', \"Name\": \"'' @ print_RFA_String name @ ''\"'' @
     '', \"Password\": \"'' @ print_RFA_String password @ ''\"'' @
     '', \"Position\": \"'' @ print_RFA_String position @ ''\"'' @
     '' }''"

definition print_TokenizedPrincipalIdentity :: string where
  "print_TokenizedPrincipalIdentity =
     ''\"PrincipalIdentity\": { '' @
       ''\"Type\": \"TokenizedPrincipalIdentity\"'' @
     '' }''"

fun print_PrincipalIdentity :: "principal_identity \<Rightarrow> string" where
  "print_PrincipalIdentity (StandardPrincipalIdentity app_name name password position) =
     print_StandardPrincipalIdentity app_name name password position"
| "print_PrincipalIdentity TokenizedPrincipalIdentity = print_TokenizedPrincipalIdentity"
| "print_PrincipalIdentity (PublisherPrincipalIdentity address user_id) =
     print_PublisherPrincipalIdentity address user_id"
| "print_PrincipalIdentity OtherPrincipalIdentity =
     ''\"PrincipalIdentity\": { '' @
       ''\"Type\": \"(Unknown)\"'' @
     '' }''"

section \<open>Quality of service\<close>

record quality_of_service =
  q_rate :: int
  q_timeliness :: int

definition print_QualityOfService :: "rfa_constants \<Rightarrow> quality_of_service \<Rightarrow> string" where
  "print_QualityOfService C q =
     (let rate =
            (if q_rate q > 0 then show_int (q_rate q)
             else ''\"'' @
               (if q_rate q = qos_of C QoS_tickByTick then ''tickByTick''
                else if q_rate q = qos_of C QoS_justInTimeFilteredRate then ''justInTimeFilteredRate''
                else if q_rate q = qos_of C QoS_unspecifiedRate then ''unspecifiedRate''
                else ''(Unknown)'') @ ''\"'');
          timeliness =
            (if q_timeliness q > 0 then show_int (q_timeliness q)
             else ''\"'' @
               (if q_timeliness q = qos_of C QoS_realTime then ''realTime''
                else if q_timeliness q = qos_of C QoS_unspecifiedDelayedTimeliness then ''unspecifiedDelayedTimeliness''
                else if q_timeliness q = qos_of C QoS_unspecifiedTimeliness then ''unspecifiedTimeliness''
                else ''(Unknown)'') @ ''\"'')
      in ''\"QualityOfService\": { '' @
           ''\"Rate\": '' @ rate @
         '', \"Timeliness\": '' @ timeliness @
         '' }'')"

datatype stream_property = StaticStream | DynamicStream | OtherStreamProperty int

record qos_request =
  qr_best_rate :: int
  qr_best_timeliness :: int
  qr_stream_property :: stream_property
  qr_worst_rate :: int
  qr_worst_timeliness :: int

fun stream_property_text :: "stream_property \<Rightarrow> string" where
  "stream_property_text StaticStream = ''StaticStream''"
| "stream_property_text DynamicStream = ''DynamicStream''"
| "stream_property_text (OtherStreamProperty _) = ''(Unknown)''"

text \<open>The last branch of each of the four prints getBestRate, whatever it is about.\<close>

definition print_QualityOfServiceRequest :: "rfa_constants \<Rightarrow> qos_request \<Rightarrow> string" where
  "print_QualityOfServiceRequest C q =
     (let best_rate =
            (if qr_best_rate q = qos_of C Request_tickByTick then ''\"tickByTick\"''
             else if qr_best_rate q = qos_of C Request_fastestFilteredRate then ''\"fastestFilteredRate\"''
             else if qr_best_rate q = qos_of C Request_justInTimeFilteredRate then ''\"justInTimeFilteredRate\"''
             else if qr_best_rate q = qos_of C Request_slowestRate then ''\"slowestRate\"''
             else show_int (qr_best_rate q));
          best_timeliness =
            (if qr_best_timeliness q = qos_of C Request_realTime then ''\"realTime\"''
             else if qr_best_timeliness q = qos_of C Request_delayed then ''\"delayed\"''
             else show_int (qr_best_rate q));
          worst_rate =
            (if qr_worst_rate q = qos_of C Request_tickByTick then ''\"tickByTick\"''
             else if qr_worst_rate q = qos_of C Request_fastestFilteredRate then ''\"fastestFilteredRate\"''
             else if qr_worst_rate q = qos_of C Request_justInTimeFilteredRate then ''\"justInTimeFilteredRate\"''
             else if qr_worst_rate q = qos_of C Request_slowestRate then ''\"slowestRate\"''
             else show_int (qr_best_rate q));
          worst_timeliness =
            (if qr_worst_timeliness q = qos_of C Request_realTime then ''\"realTime\"''
             else if qr_worst_timeliness q = qos_of C Request_delayed then ''\"delayed\"''
             else show_int (qr_best_rate q))
      in ''\"QualityOfServiceRequest\": { '' @
           ''\"BestRate\": '' @ best_rate @
         '', \"BestTimeliness\": '' @ best_timeliness @
         '', \"StreamProperty\": \"'' @ stream_property_text (qr_stream_property q) @ ''\"'' @
         '', \"WorstRate\": '' @ worst_rate @
         '', \"WorstTimeliness\": '' @ worst_timeliness @
         '' }'')"

section \<open>RespStatus\<close>

datatype data_state = UnspecifiedEnum | OkEnum | SuspectEnum | OtherDataState int

datatype status_code =
    NoneEnum | NotFoundEnum | TimeoutEnum | NotAuthorizedEnum | InvalidArgumentEnum | UsageErrorEnum
  | PreemptedEnum | JustInTimeFilteringStartedEnum | TickByTickResumedEnum | FailoverStartedEnum
  | FailoverCompletedEnum | GapDetectedEnum | NoResourcesEnum | TooManyItemsEnum | AlreadyOpenEnum
  | SourceUnknownEnum | NotOpenEnum | NonUpdatingItemEnum | UnsupportedViewTypeEnum | InvalidViewEnum
  | FullViewProvidedEnum | UnableToRequestAsBatchEnum | OtherStatusCode int

datatype stream_state =
    UnspecifiedStreamStateEnum | OpenEnum | NonStreamingEnum | ClosedRecoverEnum | ClosedEnum
  | RedirectedEnum | OtherStreamState int

record resp_status =
  rs_data_state :: data_state
  rs_status_code :: status_code
  rs_stream_state :: stream_state

fun data_state_text :: "data_state \<Rightarrow> string" where
  "data_state_text UnspecifiedEnum = ''UnspecifiedEnum''"
| "data_state_text OkEnum = ''OkEnum''"
| "data_state_text SuspectEnum = ''SuspectEnum''"
| "data_state_text (OtherDataState _) = ''(Unknown)''"

fun status_code_text :: "status_code \<Rightarrow> string" where
  "status_code_text NoneEnum = ''NoneEnum''"
| "status_code_text NotFoundEnum = ''NotFoundEnum''"
| "status_code_text TimeoutEnum = ''TimeoutEnum''"
| "status_code_text NotAuthorizedEnum = ''NotAuthorizedEnum''"
| "status_code_text InvalidArgumentEnum = ''InvalidArgumentEnum''"
| "status_code_text UsageErrorEnum = ''UsageErrorEnum''"
| "status_code_text PreemptedEnum = ''PreemptedEnum''"
| "status_code_text JustInTimeFilteringStartedEnum = ''JustInTimeFilteringStartedEnum''"
| "status_code_text TickByTickResumedEnum = ''TickByTickResumedEnum''"
| "status_code_text FailoverStartedEnum = ''FailoverStartedEnum''"
| "status_code_text FailoverCompletedEnum = ''FailoverCompletedEnum''"
| "status_code_text GapDetectedEnum = ''GapDetectedEnum''"
| "status_code_text NoResourcesEnum = ''NoResourcesEnum''"
| "status_code_text TooManyItemsEnum = ''TooManyItemsEnum''"
| "status_code_text AlreadyOpenEnum = ''AlreadyOpenEnum''"
| "status_code_text SourceUnknownEnum = ''SourceUnknownEnum''"
| "status_code_text NotOpenEnum = ''NotOpenEnum''"
| "status_code_text NonUpdatingItemEnum = ''NonUpdatingItemEnum''"
| "status_code_text UnsupportedViewTypeEnum = ''UnsupportedViewTypeEnum''"
| "status_code_text InvalidViewEnum = ''InvalidViewEnum''"
| "status_code_text FullViewProvidedEnum = ''FullViewProvidedEnum''"
| "status_code_text UnableToRequestAsBatchEnum = ''UnableToRequestAsBatchEnum''"
| "status_code_text (OtherStatusCode _) = ''(Unknown)''"

fun stream_state_text :: "stream_state \<Rightarrow> string" where
  "stream_state_text UnspecifiedStreamStateEnum = ''UnspecifiedStreamStateEnum''"
| "stream_state_text OpenEnum = ''OpenEnum''"
| "stream_state_text NonStreamingEnum = ''NonStreamingEnum''"
| "stream_state_text ClosedRecoverEnum = ''ClosedRecoverEnum''"
| "stream_state_text ClosedEnum = ''ClosedEnum''"
| "stream_state_text RedirectedEnum = ''RedirectedEnum''"
| "stream_state_text (OtherStreamState _) = ''(Unknown)''"

definition print_RespStatus :: "resp_status \<Rightarrow> string" where
  "print_RespStatus s =
     ''\"RespStatus\": { '' @
       ''\"DataState\": \"'' @ data_state_text (rs_data_state s) @ ''\"'' @
     '', \"StatusCode\": \"'' @ status_code_text (rs_status_code s) @ ''\"'' @
     '', \"StreamState\": \"'' @ stream_state_text (rs_stream_state s) @ ''\"'' @
     '' }''"

section \<open>Messages\<close>

datatype msg_model =
    MMT_LOGIN | MMT_DIRECTORY | MMT_DICTIONARY | MMT_MARKET_PRICE | MMT_MARKET_BY_ORDER
  | MMT_MARKET_BY_PRICE | MMT_MARKET_MAKER | MMT_SYMBOL_LIST | MMT_HISTORY | OtherModel int

fun msg_model_text :: "msg_model \<Rightarrow> string" where
  "msg_model_text MMT_LOGIN = ''MMT_LOGIN''"
| "msg_model_text MMT_DIRECTORY = ''MMT_DIRECTORY''"
| "msg_model_text MMT_DICTIONARY = ''MMT_DICTIONARY''"
| "msg_model_text MMT_MARKET_PRICE = ''MMT_MARKET_PRICE''"
| "msg_model_text MMT_MARKET_BY_ORDER = ''MMT_MARKET_BY_ORDER''"
| "msg_model_text MMT_MARKET_BY_PRICE = ''MMT_MARKET_BY_PRICE''"
| "msg_model_text MMT_MARKET_MAKER = ''MMT_MARKET_MAKER''"
| "msg_model_text MMT_SYMBOL_LIST = ''MMT_SYMBOL_LIST''"
| "msg_model_text MMT_HISTORY = ''MMT_HISTORY''"
| "msg_model_text (OtherModel _) = ''(Unknown)''"

text \<open>The attributes of a message, printed by its model: the second switch of both printers.\<close>

definition print_msg_AttribInfo :: "rfa_constants \<Rightarrow> msg_model \<Rightarrow> attrib_info \<Rightarrow> string" where
  "print_msg_AttribInfo C m a =
     (case m of
        MMT_LOGIN \<Rightarrow> print_LoginAttribInfo C a
      | MMT_MARKET_BY_ORDER \<Rightarrow> print_InstrumentAttribInfo C a
      | MMT_MARKET_BY_PRICE \<Rightarrow> print_InstrumentAttribInfo C a
      | MMT_MARKET_MAKER \<Rightarrow> print_InstrumentAttribInfo C a
      | MMT_MARKET_PRICE \<Rightarrow> print_InstrumentAttribInfo C a
      | MMT_SYMBOL_LIST \<Rightarrow> print_InstrumentAttribInfo C a
      | _ \<Rightarrow> print_AttribInfo C a)"

datatype resp_type = RefreshEnum | StatusEnum | UpdateEnum | OtherRespType int

fun resp_type_text :: "resp_type \<Rightarrow> string" where
  "resp_type_text RefreshEnum = ''RefreshEnum''"
| "resp_type_text StatusEnum = ''StatusEnum''"
| "resp_type_text UpdateEnum = ''UpdateEnum''"
| "resp_type_text (OtherRespType _) = ''(Unknown)''"

record resp_msg =
  rm_hint_mask :: u32
  rm_indication_mask :: u32
  rm_model :: msg_model
  rm_attrib_info :: attrib_info
  rm_manifest :: manifest
  rm_identity :: principal_identity
  rm_qos :: quality_of_service
  rm_status :: resp_status
  rm_resp_type :: resp_type
  rm_resp_type_num :: int
  rm_blank :: bool

definition resp_hint_flags :: "rfa_constants \<Rightarrow> (u32 \<times> string) list" where
  "resp_hint_flags C =
     [(flag_bits C RespMsg_RespTypeNumFlag, ''RespTypeNumFlag''),
      (flag_bits C RespMsg_RespStatusFlag, ''RespStatusFlag''),
      (flag_bits C RespMsg_QualityOfServiceFlag, ''QualityOfServiceFlag''),
      (flag_bits C RespMsg_AttribInfoFlag, ''AttribInfoFlag''),
      (flag_bits C RespMsg_ManifestFlag, ''ManifestFlag''),
      (flag_bits C RespMsg_HeaderFlag, ''HeaderFlag''),
      (flag_bits C RespMsg_PayloadFlag, ''PayloadFlag''),
      (flag_bits C RespMsg_PrincipalIdentityFlag, ''PrincipalIdentityFlag'')]"

definition resp_indication_flags :: "rfa_constants \<Rightarrow> (u32 \<times> string) list" where
  "resp_indication_flags C =
     [(flag_bits C RespMsg_DoNotCacheFlag, ''DoNotCacheFlag''),
      (flag_bits C RespMsg_DoNotFilterFlag, ''DoNotFilterFlag''),
      (flag_bits C RespMsg_ClearCacheFlag, ''ClearCacheFlag''),
      (flag_bits C RespMsg_RefreshCompleteFlag, ''RefreshCompleteFlag''),
      (flag_bits C RespMsg_DoNotRippleFlag, ''DoNotRippleFlag'')]"

definition print_RespMsg :: "rfa_constants \<Rightarrow> resp_msg \<Rightarrow> string" where
  "print_RespMsg C m =
     ''\"Msg\": { '' @
       ''\"HintMask\": \"'' @ flag_text (rm_hint_mask m) (resp_hint_flags C) @ ''\"'' @
     '', \"IndicationMask\": \"'' @ flag_text (rm_indication_mask m) (resp_indication_flags C) @ ''\"'' @
     '', \"MsgModelType\": \"'' @ msg_model_text (rm_model m) @ ''\"'' @
     '', \"MsgType\": \"RespMsg\"'' @
     '', '' @ print_msg_AttribInfo C (rm_model m) (rm_attrib_info m) @
     '', '' @ print_Manifest C (rm_manifest m) @
     '', '' @ print_PrincipalIdentity (rm_identity m) @
     '', '' @ print_QualityOfService C (rm_qos m) @
     '', '' @ print_RespStatus (rm_status m) @
     '', \"RespType\": \"'' @ resp_type_text (rm_resp_type m) @ ''\"'' @
     '', \"RespTypeNum\": '' @ show_int (rm_resp_type_num m) @
     '', \"isBlank\": '' @ print_bool (rm_blank m) @
     '' }''"

record req_msg =
  qm_hint_mask :: u32
  qm_indication_mask :: u32
  qm_model :: msg_model
  qm_attrib_info :: attrib_info
  qm_interaction_type :: u32
  qm_priority_class :: int
  qm_priority_count :: int
  qm_requested_qos :: qos_request
  qm_blank :: bool

definition req_hint_flags :: "rfa_constants \<Rightarrow> (u32 \<times> string) list" where
  "req_hint_flags C =
     [(flag_bits C ReqMsg_PriorityFlag, ''PriorityFlag''),
      (flag_bits C ReqMsg_QualityOfServiceReqFlag, ''QualityOfServiceReqFlag''),
      (flag_bits C ReqMsg_AttribInfoFlag, ''AttribInfoFlag''),
      (flag_bits C ReqMsg_HeaderFlag, ''HeaderFlag''),
      (flag_bits C ReqMsg_PayloadFlag, ''PayloadFlag'')]"

definition req_indication_flags :: "rfa_constants \<Rightarrow> (u32 \<times> string) list" where
  "req_indication_flags C =
     [(flag_bits C ReqMsg_AttribInfoInUpdatesFlag, ''AttribInfoInUpdatesFlag''),
      (flag_bits C ReqMsg_FilteredInUpdatesFlag, ''FilteredInUpdatesFlag''),
      (flag_bits C ReqMsg_ViewFlag, ''ViewFlag''),
      (flag_bits C ReqMsg_BatchFlag, ''BatchFlag'')]"

definition interaction_flags :: "rfa_constants \<Rightarrow> (u32 \<times> string) list" where
  "interaction_flags C =
     [(flag_bits C ReqMsg_InitialImageFlag, ''InitialImageFlag''),
      (flag_bits C ReqMsg_InterestAfterRefreshFlag, ''InterestAfterRefreshFlag''),
      (flag_bits C ReqMsg_PauseFlag, ''PauseFlag'')]"

definition print_ReqMsg :: "rfa_constants \<Rightarrow> req_msg \<Rightarrow> string" where
  "print_ReqMsg C m =
     ''\"Msg\": { '' @
       ''\"HintMask\": \"'' @ flag_text (qm_hint_mask m) (req_hint_flags C) @ ''\"'' @
     '', \"IndicationMask\": \"'' @ flag_text (qm_indication_mask m) (req_indication_flags C) @ ''\"'' @
     '', \"MsgModelType\": \"'' @ msg_model_text (qm_model m) @ ''\"'' @
     '', \"MsgType\": \"ReqMsg\"'' @
     '', '' @ print_msg_AttribInfo C (qm_model m) (qm_attrib_info m) @
     '', \"InteractionType\": \"'' @ flag_text (qm_interaction_type m) (interaction_flags C) @ ''\"'' @
     '', \"PriorityClass\": '' @ show_int (qm_priority_class m) @
     '', \"PriorityCount\": '' @ show_int (qm_priority_count m) @
     '', '' @ print_QualityOfServiceRequest C (qm_requested_qos m) @
     '', \"isBlank\": '' @ print_bool (qm_blank m) @
     '' }''"

text \<open>A message by its type; of the other types only the blank flag is printed.\<close>

datatype msg =
    RespMsg resp_msg | ReqMsg req_msg | GenericMsg bool | PostMsg bool | AckMsg bool | OtherMsg int bool

definition print_plain_Msg :: "string \<Rightarrow> bool \<Rightarrow> string" where
  "print_plain_Msg msg_type blank =
     ''\"Msg\": { '' @
       ''\"HintMask\": \"'' @ ''(Unknown)'' @ ''\"'' @
     '', \"IndicationMask\": \"'' @ ''(Unknown)'' @ ''\"'' @
     '', \"MsgModelType\": \"'' @ ''(Unknown)'' @ ''\"'' @
     '', \"MsgType\": \"'' @ msg_type @ ''\"'' @
     '', \"isBlank\": '' @ print_bool blank @
     '' }''"

fun print_Msg :: "rfa_constants \<Rightarrow> msg \<Rightarrow> string" where
  "print_Msg C (RespMsg m) = print_RespMsg C m"
| "print_Msg C (ReqMsg m) = print_ReqMsg C m"
| "print_Msg C (GenericMsg b) = print_plain_Msg ''GenericMsg'' b"
| "print_Msg C (PostMsg b) = print_plain_Msg ''PostMsg'' b"
| "print_Msg C (AckMsg b) = print_plain_Msg ''AckMsg'' b"
| "print_Msg C (OtherMsg _ b) = print_plain_Msg ''(Unknown)'' b"

section \<open>Events\<close>

datatype connection_state = Up | Down | OtherConnectionState int

datatype connection_code =
    ConnectionStatus_None | AccessDenied | IntermittentProblems | ServerSwitched | Closed | OtherConnectionCode int

fun connection_state_text :: "connection_state \<Rightarrow> string" where
  "connection_state_text Up = ''Up''"
| "connection_state_text Down = ''Down''"
| "connection_state_text (OtherConnectionState _) = ''(Unknown)''"

fun connection_code_text :: "connection_code \<Rightarrow> string" where
  "connection_code_text ConnectionStatus_None = ''None''"
| "connection_code_text AccessDenied = ''AccessDenied''"
| "connection_code_text IntermittentProblems = ''IntermittentProblems''"
| "connection_code_text ServerSwitched = ''ServerSwitched''"
| "connection_code_text Closed = ''Closed''"
| "connection_code_text (OtherConnectionCode _) = ''(Uknown)''"

definition print_ConnectionStatus :: "connection_state \<Rightarrow> connection_code \<Rightarrow> string" where
  "print_ConnectionStatus state code =
     ''\"Status\": { '' @
       ''\"State\": \"'' @ connection_state_text state @ ''\"'' @
     '', \"StatusCode\": '' @ connection_code_text code @ ''\"'' @
     '' }''"

datatype connection_type =
    SASS3 | SSLED | RV | SSLED_MP | RSSL | RSSL_PROV | RSSL_CPROV | RSSL_NIPROV | RSSL_NIPROV_MCAST
  | OtherConnectionType int

fun connection_type_text :: "connection_type \<Rightarrow> string" where
  "connection_type_text SASS3 = ''SASS3''"
| "connection_type_text SSLED = ''SSLED''"
| "connection_type_text RV = ''RV''"
| "connection_type_text SSLED_MP = ''SSLED_MP''"
| "connection_type_text RSSL = ''RSSL''"
| "connection_type_text RSSL_PROV = ''RSSL_PROV''"
| "connection_type_text RSSL_CPROV = ''RSSL_CPROV''"
| "connection_type_text RSSL_NIPROV = ''RSSL_NIPROV''"
| "connection_type_text RSSL_NIPROV_MCAST = ''RSSL_NIPROV_MCAST''"
| "connection_type_text (OtherConnectionType _) = ''(Unknown)''"

text \<open>The event types that have no printer of their own.\<close>

datatype event_type =
    EventQueueStatusEventEnum | ComplEventEnum
  | MarketDataItemEventEnum | MarketDataDictEventEnum | MarketDataSvcEventEnum
  | MarketDataManagedPubChannelReqEventEnum | MarketDataManagedPubItemReqEventEnum | PubErrorEventEnum
  | MarketDataItemContReplyEventEnum | SessionEventEnum | MarketDataCBR_NameEventEnum
  | EntitlementsAuthenticationEventEnum
  | MarketDataManagedActiveItemsPubEventEnum | MarketDataManagedInactiveItemsPubEventEnum
  | MarketDataManagedPubMirroringModeEventEnum | MarketDataManagedItemContReqPubEventEnum
  | MarketDataManagedActiveClientSessionPubEventEnum | MarketDataManagedInactiveClientSessionPubEventEnum
  | OMMInactiveClientSessionEventEnum | OMMCmdErrorEventEnum | LoggerNotifyEventEnum
  | OtherEventType int

fun event_type_text :: "event_type \<Rightarrow> string" where
  "event_type_text EventQueueStatusEventEnum = ''EventQueueStatusEventEnum''"
| "event_type_text ComplEventEnum = ''ComplEventEnum''"
| "event_type_text MarketDataItemEventEnum = ''MarketDataItemEventEnum''"
| "event_type_text MarketDataDictEventEnum = ''MarketDataDictEventEnum''"
| "event_type_text MarketDataSvcEventEnum = ''MarketDataSvcEventEnum''"
| "event_type_text MarketDataManagedPubChannelReqEventEnum = ''MarketDataManagedPubChannelReqEventEnum''"
| "event_type_text MarketDataManagedPubItemReqEventEnum = ''MarketDataManagedPubItemReqEventEnum''"
| "event_type_text PubErrorEventEnum = ''PubErrorEventEnum''"
| "event_type_text MarketDataItemContReplyEventEnum = ''MarketDataItemContReplyEventEnum''"
| "event_type_text SessionEventEnum = ''SessionEventEnum''"
| "event_type_text MarketDataCBR_NameEventEnum = ''MarketDataCBR_NameEventEnum''"
| "event_type_text EntitlementsAuthenticationEventEnum = ''EntitlementsAuthenticationEventEnum''"
| "event_type_text MarketDataManagedActiveItemsPubEventEnum = ''MarketDataManagedActiveItemsPubEventEnum''"
| "event_type_text MarketDataManagedInactiveItemsPubEventEnum = ''MarketDataManagedInactiveItemsPubEventEnum''"
| "event_type_text MarketDataManagedPubMirroringModeEventEnum = ''MarketDataManagedPubMirroringModeEventEnum''"
| "event_type_text MarketDataManagedItemContReqPubEventEnum = ''MarketDataManagedItemContReqPubEventEnum''"
| "event_type_text MarketDataManagedActiveClientSessionPubEventEnum = ''MarketDataManagedActiveClientSessionPubEventEnum''"
| "event_type_text MarketDataManagedInactiveClientSessionPubEventEnum = ''MarketDataManagedInactiveClientSessionPubEventEnum''"
| "event_type_text OMMInactiveClientSessionEventEnum = ''OMMInactiveClientSessionEventEnum''"
| "event_type_text OMMCmdErrorEventEnum = ''OMMCmdErrorEventEnum''"
| "event_type_text LoggerNotifyEventEnum = ''LoggerNotifyEventEnum''"
| "event_type_text (OtherEventType _) = ''(Unknown)''"

record connection_event =
  ce_connection_name :: string
  ce_connection_type :: connection_type
  ce_state :: connection_state
  ce_code :: connection_code
  ce_stream_closed :: bool

definition print_ConnectionEvent :: "connection_event \<Rightarrow> string" where
  "print_ConnectionEvent e =
     ''\"Event\": { '' @
       ''\"Type\": \"ConnectionEvent\"'' @
     '', \"ConnectionName\": \"'' @ print_RFA_String (ce_connection_name e) @ ''\"'' @
     '', \"ConnectionType\": \"'' @ connection_type_text (ce_connection_type e) @ ''\"'' @
     '', '' @ print_ConnectionStatus (ce_state e) (ce_code e) @
     '', \"isEventStreamClosed\": '' @ print_bool (ce_stream_closed e) @
     '' }''"

definition print_OMMItemEvent :: "rfa_constants \<Rightarrow> msg \<Rightarrow> bool \<Rightarrow> string" where
  "print_OMMItemEvent C m closed =
     ''\"Event\": { '' @
       ''\"Type\": \"OMMItemEvent\"'' @
     '', '' @ print_Msg C m @
     '', \"isEventStreamClosed\": '' @ print_bool closed @
     '' }''"

definition print_OMMActiveClientSessionEvent :: "string \<Rightarrow> string \<Rightarrow> string \<Rightarrow> bool \<Rightarrow> string" where
  "print_OMMActiveClientSessionEvent host address listener closed =
     ''\"Event\": { '' @
       ''\"Type\": \"OMMActiveClientSessionEvent\"'' @
     '', \"ClientHostName\": \"'' @ print_RFA_String host @ ''\"'' @
     '', \"ClientIPAddress\": \"'' @ print_RFA_String address @ ''\"'' @
     '', \"ListenerName\": \"'' @ print_RFA_String listener @ ''\"'' @
     '', \"isEventStreamClosed\": '' @ print_bool closed @
     '' }''"

definition print_OMMSolicitedItemEvent :: "rfa_constants \<Rightarrow> msg \<Rightarrow> bool \<Rightarrow> string" where
  "print_OMMSolicitedItemEvent C m closed =
     ''\"Event\": { '' @
       ''\"Type\": \"OMMSolicitedItemEvent\"'' @
     '', '' @ print_Msg C m @
     '', \"isEventStreamClosed\": '' @ print_bool closed @
     '' }''"

datatype event =
    ConnectionEvent connection_event
  | OMMItemEvent msg bool
  | OMMActiveClientSessionEvent string string string bool
  | OMMSolicitedItemEvent msg bool
  | PlainEvent event_type bool

fun print_Event :: "rfa_constants \<Rightarrow> event \<Rightarrow> string" where
  "print_Event C (ConnectionEvent e) = print_ConnectionEvent e"
| "print_Event C (OMMItemEvent m closed) = print_OMMItemEvent C m closed"
| "print_Event C (OMMActiveClientSessionEvent host address listener closed) =
     print_OMMActiveClientSessionEvent host address listener closed"
| "print_Event C (OMMSolicitedItemEvent m closed) = print_OMMSolicitedItemEvent C m closed"
| "print_Event C (PlainEvent t closed) =
     ''\"Event\": { '' @
       ''\"Type\": \"'' @ event_type_text t @ ''\"'' @
     '', \"isEventStreamClosed\": '' @ print_bool closed @
     '' }''"

end
