(* ===== verification/Rfa_Ostream_Props.thy ===== *)
theory Rfa_Ostream_Props
  imports Rfa_Ostream Strings
begin

text \<open>
  What the printers of RFA events promise: the text of an event is one member of a JSON object, and the parser
  of theory Json reads from it the member that specifies the event. It fails for the two defects of the
  printers: a connection event, whose status lacks a quote, and a request whose timeliness or worst rate has no
  name, for which the best rate is printed. The text of a mask is the list of its flags, joined by bars.
\<close>

unbundle bit_operations_syntax

section \<open>Masks\<close>

definition flag_names :: "u32 \<Rightarrow> (u32 \<times> string) list \<Rightarrow> string list" where
  "flag_names m fs = map snd (filter (\<lambda>f. m AND fst f \<noteq> 0) fs)"

lemma JoinString_snoc: "ps \<noteq> [] \<Longrightarrow> JoinString (ps @ [p]) c = JoinString ps c @ c # p"
  by (induction ps rule: list_nonempty_induct) simp_all

lemma JoinString_empty_iff: "\<forall>p\<in>set ps. p \<noteq> [] \<Longrightarrow> JoinString ps c = [] \<longleftrightarrow> ps = []"
  by (cases ps; cases "tl ps") auto

lemma flag_text_join:
  assumes "\<forall>f\<in>set fs. snd f \<noteq> []"
  shows "flag_text m fs = JoinString (flag_names m fs) (CHR ''|'')"
  using assms
proof (induction fs rule: rev_induct)
  case Nil
  then show ?case by (simp add: flag_text_def flag_names_def)
next
  case (snoc f fs)
  then have "flag_text m fs = JoinString (flag_names m fs) (CHR ''|'')" by simp
  moreover have "\<forall>p\<in>set (flag_names m fs). p \<noteq> []" using snoc.prems by (auto simp: flag_names_def)
  ultimately show ?case
    by (auto simp: flag_text_def add_flag_def flag_names_def JoinString_empty_iff JoinString_snoc)
qed

definition good_flags :: "(u32 \<times> string) list \<Rightarrow> bool" where
  "good_flags fs = (\<forall>f\<in>set fs. snd f \<noteq> [] \<and> CHR ''|'' \<notin> set (snd f) \<and> unquoted (snd f))"

lemma flags_good:
  "good_flags (attrib_flags C)" "good_flags (manifest_flags C)" "good_flags (resp_hint_flags C)"
  "good_flags (resp_indication_flags C)" "good_flags (req_hint_flags C)"
  "good_flags (req_indication_flags C)" "good_flags (interaction_flags C)"
  by (simp_all add: good_flags_def attrib_flags_def manifest_flags_def resp_hint_flags_def
      resp_indication_flags_def req_hint_flags_def req_indication_flags_def interaction_flags_def unescaped_def)

lemma flag_text_split:
  assumes "good_flags fs"
  shows "SplitStringDontTrim (flag_text m fs) (CHR ''|'') [] =
     (if flag_names m fs = [] then [[]] else flag_names m fs)"
proof -
  have "\<forall>f\<in>set fs. snd f \<noteq> []" and bar: "\<forall>p\<in>set (flag_names m fs). CHR ''|'' \<notin> set p"
    using assms by (auto simp: good_flags_def flag_names_def)
  then show ?thesis
    using split_on_join [OF _ bar] by (simp add: flag_text_join SplitStringDontTrim_eq)
qed

lemma JoinString_unquoted: "\<forall>p\<in>set ps. unquoted p \<Longrightarrow> unescaped c \<Longrightarrow> unquoted (JoinString ps c)"
  by (induction ps) (auto simp: JoinString_def JoinStringT_def join_loop_eq split: list.splits)

text \<open>The names of the flags that are set, with a bar between each two.\<close>

definition mask_text :: "u32 \<Rightarrow> (u32 \<times> string) list \<Rightarrow> string" where
  "mask_text m fs = JoinString (flag_names m fs) (CHR ''|'')"

lemma flag_text_mask [simp]: "good_flags fs \<Longrightarrow> flag_text m fs = mask_text m fs"
  by (simp add: flag_text_join mask_text_def good_flags_def)

lemma mask_text_unquoted [simp]: "good_flags fs \<Longrightarrow> unquoted (mask_text m fs)"
proof -
  assume "good_flags fs"
  then have "\<forall>p\<in>set (flag_names m fs). unquoted p" by (auto simp: good_flags_def flag_names_def)
  then show ?thesis by (simp add: mask_text_def JoinString_unquoted unescaped_def)
qed

section \<open>The members that specify the printed objects\<close>

definition attrib_member :: "rfa_constants \<Rightarrow> json \<Rightarrow> attrib_info \<Rightarrow> string \<times> json" where
  "attrib_member C name_type a =
     (''AttribInfo'', JObject
        [(''HintMask'', JString (mask_text (ai_hint_mask a) (attrib_flags C))),
         (''ID'', JInt (ai_id a)),
         (''Name'', JString (ai_name a)),
         (''NameType'', name_type),
         (''ServiceID'', JInt (ai_service_id a)),
         (''ServiceName'', JString (ai_service_name a))])"

definition msg_attrib_member :: "rfa_constants \<Rightarrow> msg_model \<Rightarrow> attrib_info \<Rightarrow> string \<times> json" where
  "msg_attrib_member C m a =
     attrib_member C
       (if m = MMT_LOGIN then JString (login_name_type C (ai_name_type a))
        else if m \<in> {MMT_MARKET_BY_ORDER, MMT_MARKET_BY_PRICE, MMT_MARKET_MAKER, MMT_MARKET_PRICE, MMT_SYMBOL_LIST}
        then JString (instrument_name_type C (ai_name_type a))
        else JInt (ai_name_type a)) a"

definition manifest_member :: "rfa_constants \<Rightarrow> manifest \<Rightarrow> string \<times> json" where
  "manifest_member C m =
     (''Manifest'', JObject
        [(''FilteredCount'', JInt (mf_filtered_count m)),
         (''FilteredTime'', JInt (mf_filtered_time m)),
         (''HintMask'', JString (mask_text (mf_hint_mask m) (manifest_flags C))),
         (''SeqNum'', JInt (mf_seq_num m))])"

fun identity_member :: "principal_identity \<Rightarrow> string \<times> json" where
  "identity_member (StandardPrincipalIdentity a n p q) =
     (''PrincipalIdentity'', JObject
        [(''Type'', JString ''StandardPrincipalIdentity''), (''AppName'', JString a), (''Name'', JString n),
         (''Password'', JString p), (''Position'', JString q)])"
| "identity_member TokenizedPrincipalIdentity =
     (''PrincipalIdentity'', JObject [(''Type'', JString ''TokenizedPrincipalIdentity'')])"
| "identity_member (PublisherPrincipalIdentity a u) =
     (''PrincipalIdentity'', JObject
        [(''Type'', JString ''PublisherPrincipalIdentity''), (''UserAddress'', JString a), (''UserID'', JString u)])"
| "identity_member OtherPrincipalIdentity = (''PrincipalIdentity'', JObject [(''Type'', JString ''(Unknown)'')])"

text \<open>A positive rate or timeliness is a number, every other one has a name.\<close>

definition qos_member :: "rfa_constants \<Rightarrow> quality_of_service \<Rightarrow> string \<times> json" where
  "qos_member C q =
     (''QualityOfService'', JObject
        [(''Rate'',
          if q_rate q > 0 then JInt (q_rate q)
          else JString (if q_rate q = qos_of C QoS_tickByTick then ''tickByTick''
                        else if q_rate q = qos_of C QoS_justInTimeFilteredRate then ''justInTimeFilteredRate''
                        else if q_rate q = qos_of C QoS_unspecifiedRate then ''unspecifiedRate''
                        else ''(Unknown)'')),
         (''Timeliness'',
          if q_timeliness q > 0 then JInt (q_timeliness q)
          else JString (if q_timeliness q = qos_of C QoS_realTime then ''realTime''
                        else if q_timeliness q = qos_of C QoS_unspecifiedDelayedTimeliness then ''unspecifiedDelayedTimeliness''
                        else if q_timeliness q = qos_of C QoS_unspecifiedTimeliness then ''unspecifiedTimeliness''
                        else ''(Unknown)''))])"

text \<open>What a request means to say: its own rates and timeliness, by their names where they have one.\<close>

definition request_rate :: "rfa_constants \<Rightarrow> int \<Rightarrow> int \<Rightarrow> json" where
  "request_rate C r unnamed =
     (if r = qos_of C Request_tickByTick then JString ''tickByTick''
      else if r = qos_of C Request_fastestFilteredRate then JString ''fastestFilteredRate''
      else if r = qos_of C Request_justInTimeFilteredRate then JString ''justInTimeFilteredRate''
      else if r = qos_of C Request_slowestRate then JString ''slowestRate''
      else JInt unnamed)"

definition request_timeliness :: "rfa_constants \<Rightarrow> int \<Rightarrow> int \<Rightarrow> json" where
  "request_timeliness C t unnamed =
     (if t = qos_of C Request_realTime then JString ''realTime''
      else if t = qos_of C Request_delayed then JString ''delayed''
      else JInt unnamed)"

definition request_object :: "stream_property \<Rightarrow> json \<Rightarrow> json \<Rightarrow> json \<Rightarrow> json \<Rightarrow> string \<times> json" where
  "request_object p br bt wr wt =
     (''QualityOfServiceRequest'', JObject
        [(''BestRate'', br), (''BestTimeliness'', bt), (''StreamProperty'', JString (stream_property_text p)),
         (''WorstRate'', wr), (''WorstTimeliness'', wt)])"

definition request_member :: "rfa_constants \<Rightarrow> qos_request \<Rightarrow> string \<times> json" where
  "request_member C q =
     request_object (qr_stream_property q)
       (request_rate C (qr_best_rate q) (qr_best_rate q))
       (request_timeliness C (qr_best_timeliness q) (qr_best_timeliness q))
       (request_rate C (qr_worst_rate q) (qr_worst_rate q))
       (request_timeliness C (qr_worst_timeliness q) (qr_worst_timeliness q))"

definition status_member :: "resp_status \<Rightarrow> string \<times> json" where
  "status_member s =
     (''RespStatus'', JObject
        [(''DataState'', JString (data_state_text (rs_data_state s))),
         (''StatusCode'', JString (status_code_text (rs_status_code s))),
         (''StreamState'', JString (stream_state_text (rs_stream_state s)))])"

definition plain_msg_member :: "string \<Rightarrow> bool \<Rightarrow> string \<times> json" where
  "plain_msg_member msg_type blank =
     (''Msg'', JObject
        [(''HintMask'', JString ''(Unknown)''), (''IndicationMask'', JString ''(Unknown)''),
         (''MsgModelType'', JString ''(Unknown)''), (''MsgType'', JString msg_type), (''isBlank'', JBool blank)])"

fun msg_member :: "rfa_constants \<Rightarrow> msg \<Rightarrow> string \<times> json" where
  "msg_member C (RespMsg m) =
     (''Msg'', JObject
        [(''HintMask'', JString (mask_text (rm_hint_mask m) (resp_hint_flags C))),
         (''IndicationMask'', JString (mask_text (rm_indication_mask m) (resp_indication_flags C))),
         (''MsgModelType'', JString (msg_model_text (rm_model m))),
         (''MsgType'', JString ''RespMsg''),
         msg_attrib_member C (rm_model m) (rm_attrib_info m),
         manifest_member C (rm_manifest m),
         identity_member (rm_identity m),
         qos_member C (rm_qos m),
         status_member (rm_status m),
         (''RespType'', JString (resp_type_text (rm_resp_type m))),
         (''RespTypeNum'', JInt (rm_resp_type_num m)),
         (''isBlank'', JBool (rm_blank m))])"
| "msg_member C (ReqMsg m) =
     (''Msg'', JObject
        [(''HintMask'', JString (mask_text (qm_hint_mask m) (req_hint_flags C))),
         (''IndicationMask'', JString (mask_text (qm_indication_mask m) (req_indication_flags C))),
         (''MsgModelType'', JString (msg_model_text (qm_model m))),
         (''MsgType'', JString ''ReqMsg''),
         msg_attrib_member C (qm_model m) (qm_attrib_info m),
         (''InteractionType'', JString (mask_text (qm_interaction_type m) (interaction_flags C))),
         (''PriorityClass'', JInt (qm_priority_class m)),
         (''PriorityCount'', JInt (qm_priority_count m)),
         request_member C (qm_requested_qos m),
         (''isBlank'', JBool (qm_blank m))])"
| "msg_member C (GenericMsg b) = plain_msg_member ''GenericMsg'' b"
| "msg_member C (PostMsg b) = plain_msg_member ''PostMsg'' b"
| "msg_member C (AckMsg b) = plain_msg_member ''AckMsg'' b"
| "msg_member C (OtherMsg _ b) = plain_msg_member ''(Unknown)'' b"

definition connection_status_member :: "connection_state \<Rightarrow> connection_code \<Rightarrow> string \<times> json" where
  "connection_status_member s c =
     (''Status'', JObject
        [(''State'', JString (connection_state_text s)), (''StatusCode'', JString (connection_code_text c))])"

fun event_member :: "rfa_constants \<Rightarrow> event \<Rightarrow> string \<times> json" where
  "event_member C (ConnectionEvent e) =
     (''Event'', JObject
        [(''Type'', JString ''ConnectionEvent''), (''ConnectionName'', JString (ce_connection_name e)),
         (''ConnectionType'', JString (connection_type_text (ce_connection_type e))),
         connection_status_member (ce_state e) (ce_code e), (''isEventStreamClosed'', JBool (ce_stream_closed e))])"
| "event_member C (OMMItemEvent m closed) =
     (''Event'', JObject
        [(''Type'', JString ''OMMItemEvent''), msg_member C m, (''isEventStreamClosed'', JBool closed)])"
| "event_member C (OMMActiveClientSessionEvent h a l closed) =
     (''Event'', JObject
        [(''Type'', JString ''OMMActiveClientSessionEvent''), (''ClientHostName'', JString h),
         (''ClientIPAddress'', JString a), (''ListenerName'', JString l), (''isEventStreamClosed'', JBool closed)])"
| "event_member C (OMMSolicitedItemEvent m closed) =
     (''Event'', JObject
        [(''Type'', JString ''OMMSolicitedItemEvent''), msg_member C m, (''isEventStreamClosed'', JBool closed)])"
| "event_member C (PlainEvent t closed) =
     (''Event'', JObject [(''Type'', JString (event_type_text t)), (''isEventStreamClosed'', JBool closed)])"

section \<open>The printers write these members\<close>

text \<open>A string of RFA that JSON can hold as it is: no quote, backslash or control character.\<close>

lemma print_RFA_String_unquoted [simp]: "unquoted s \<Longrightarrow> print_RFA_String s = s"
proof -
  assume s: "unquoted s"
  have "unescaped c \<Longrightarrow> c \<noteq> CHR 0x00" for c by (auto simp: unescaped_def)
  with s have "\<forall>c\<in>set s. c \<noteq> CHR 0x00" by (simp add: list_all_iff)
  then show ?thesis unfolding print_RFA_String_def by (simp only: takeWhile_eq_all_conv)
qed

lemma text_of_member: "render (JObject ms) = ''{ '' @ commas (map member ms) @ '' }''"
  by (rule render_JObject)

lemmas member_simps = member_def render.simps(1-3) text_of_member print_bool_def

lemma print_attrib_member:
  assumes "unquoted (ai_name a)" and "unquoted (ai_service_name a)"
  shows "print_AttribInfo C a = member (attrib_member C (JInt (ai_name_type a)) a)"
    and "print_LoginAttribInfo C a = member (attrib_member C (JString (login_name_type C (ai_name_type a))) a)"
    and "print_InstrumentAttribInfo C a = member (attrib_member C (JString (instrument_name_type C (ai_name_type a))) a)"
  by (simp_all add: assms flags_good print_AttribInfo_def print_LoginAttribInfo_def print_InstrumentAttribInfo_def
      attrib_member_def member_simps del: render.simps(4))

lemma print_msg_attrib_member:
  assumes "unquoted (ai_name a)" and "unquoted (ai_service_name a)"
  shows "print_msg_AttribInfo C m a = member (msg_attrib_member C m a)"
  by (cases m) (simp_all add: print_msg_AttribInfo_def msg_attrib_member_def print_attrib_member [OF assms])

lemma print_manifest_member: "print_Manifest C m = member (manifest_member C m)"
  by (simp add: flags_good print_Manifest_def manifest_member_def member_simps del: render.simps(4))

fun identity_unquoted :: "principal_identity \<Rightarrow> bool" where
  "identity_unquoted (StandardPrincipalIdentity a n p q) = (unquoted a \<and> unquoted n \<and> unquoted p \<and> unquoted q)"
| "identity_unquoted (PublisherPrincipalIdentity a u) = (unquoted a \<and> unquoted u)"
| "identity_unquoted _ = True"

lemma print_identity_member: "identity_unquoted i \<Longrightarrow> print_PrincipalIdentity i = member (identity_member i)"
  by (cases i) (simp_all add: print_StandardPrincipalIdentity_def print_TokenizedPrincipalIdentity_def
      print_PublisherPrincipalIdentity_def member_simps del: render.simps(4))

lemma print_qos_member: "print_QualityOfService C q = member (qos_member C q)"
  by (simp add: print_QualityOfService_def Let_def qos_member_def member_simps del: render.simps(4))

lemma print_status_member: "print_RespStatus s = member (status_member s)"
  by (simp add: print_RespStatus_def status_member_def member_simps del: render.simps(4))

text \<open>What the printer of a request writes: the best rate stands in for whatever has no name.\<close>

lemma print_request_member:
  "print_QualityOfServiceRequest C q =
     member (request_object (qr_stream_property q)
       (request_rate C (qr_best_rate q) (qr_best_rate q))
       (request_timeliness C (qr_best_timeliness q) (qr_best_rate q))
       (request_rate C (qr_worst_rate q) (qr_best_rate q))
       (request_timeliness C (qr_worst_timeliness q) (qr_best_rate q)))"
proof -
  have rate: "render (request_rate C r u) =
      (if r = qos_of C Request_tickByTick then ''\"tickByTick\"''
       else if r = qos_of C Request_fastestFilteredRate then ''\"fastestFilteredRate\"''
       else if r = qos_of C Request_justInTimeFilteredRate then ''\"justInTimeFilteredRate\"''
       else if r = qos_of C Request_slowestRate then ''\"slowestRate\"'' else show_int u)" for r u
    by (simp add: request_rate_def)
  have timeliness: "render (request_timeliness C t u) =
      (if t = qos_of C Request_realTime then ''\"realTime\"''
       else if t = qos_of C Request_delayed then ''\"delayed\"'' else show_int u)" for t u
    by (simp add: request_timeliness_def)
  show ?thesis
    unfolding print_QualityOfServiceRequest_def Let_def rate [symmetric] timeliness [symmetric]
    by (simp add: request_object_def member_simps del: render.simps(4))
qed

section \<open>Which events are printed right\<close>

definition attrib_unquoted :: "attrib_info \<Rightarrow> bool" where
  "attrib_unquoted a = (unquoted (ai_name a) \<and> unquoted (ai_service_name a))"

text \<open>What is not named is equal to the best rate, so that printing the best rate is right.\<close>

definition named_rate :: "rfa_constants \<Rightarrow> int \<Rightarrow> bool" where
  "named_rate C r =
     (r \<in> qos_of C ` {Request_tickByTick, Request_fastestFilteredRate, Request_justInTimeFilteredRate, Request_slowestRate})"

definition named_timeliness :: "rfa_constants \<Rightarrow> int \<Rightarrow> bool" where
  "named_timeliness C t = (t \<in> qos_of C ` {Request_realTime, Request_delayed})"

definition request_printable :: "rfa_constants \<Rightarrow> qos_request \<Rightarrow> bool" where
  "request_printable C q =
     ((named_timeliness C (qr_best_timeliness q) \<or> qr_best_timeliness q = qr_best_rate q) \<and>
      (named_rate C (qr_worst_rate q) \<or> qr_worst_rate q = qr_best_rate q) \<and>
      (named_timeliness C (qr_worst_timeliness q) \<or> qr_worst_timeliness q = qr_best_rate q))"

fun msg_printable :: "rfa_constants \<Rightarrow> msg \<Rightarrow> bool" where
  "msg_printable C (RespMsg m) = (attrib_unquoted (rm_attrib_info m) \<and> identity_unquoted (rm_identity m))"
| "msg_printable C (ReqMsg m) = (attrib_unquoted (qm_attrib_info m) \<and> request_printable C (qm_requested_qos m))"
| "msg_printable C _ = True"

fun event_printable :: "rfa_constants \<Rightarrow> event \<Rightarrow> bool" where
  "event_printable C (ConnectionEvent _) = False"
| "event_printable C (OMMItemEvent m _) = msg_printable C m"
| "event_printable C (OMMActiveClientSessionEvent h a l _) = (unquoted h \<and> unquoted a \<and> unquoted l)"
| "event_printable C (OMMSolicitedItemEvent m _) = msg_printable C m"
| "event_printable C (PlainEvent _ _) = True"

lemma request_rate_right: "request_rate C r u = request_rate C r r \<longleftrightarrow> named_rate C r \<or> r = u"
  by (auto simp: request_rate_def named_rate_def)

lemma request_timeliness_right:
  "request_timeliness C t u = request_timeliness C t t \<longleftrightarrow> named_timeliness C t \<or> t = u"
  by (auto simp: request_timeliness_def named_timeliness_def)

lemma printed_request_right:
  "request_object (qr_stream_property q)
       (request_rate C (qr_best_rate q) (qr_best_rate q))
       (request_timeliness C (qr_best_timeliness q) (qr_best_rate q))
       (request_rate C (qr_worst_rate q) (qr_best_rate q))
       (request_timeliness C (qr_worst_timeliness q) (qr_best_rate q)) = request_member C q
     \<longleftrightarrow> request_printable C q"
  by (simp add: request_member_def request_object_def request_rate_right request_timeliness_right
      request_printable_def)

lemma print_msg_member: "msg_printable C m \<Longrightarrow> print_Msg C m = member (msg_member C m)"
proof (cases m)
  case (RespMsg r)
  moreover assume "msg_printable C m"
  ultimately show ?thesis
    by (simp add: flags_good print_RespMsg_def attrib_unquoted_def print_msg_attrib_member print_manifest_member
        print_identity_member print_qos_member print_status_member)
       (simp add: member_def [of "(_, _)"] text_of_member print_bool_def del: render.simps(4))
next
  case (ReqMsg r)
  moreover assume printable: "msg_printable C m"
  moreover have "print_QualityOfServiceRequest C (qm_requested_qos r) = member (request_member C (qm_requested_qos r))"
    using printable ReqMsg by (simp add: print_request_member printed_request_right [THEN iffD2])
  ultimately show ?thesis
    by (simp add: flags_good print_ReqMsg_def attrib_unquoted_def print_msg_attrib_member)
       (simp add: member_def [of "(_, _)"] text_of_member print_bool_def del: render.simps(4))
qed (simp_all add: print_plain_Msg_def plain_msg_member_def member_simps del: render.simps(4))

lemma print_event_member: "event_printable C e \<Longrightarrow> print_Event C e = member (event_member C e)"
  by (cases e)
     (simp_all add: print_OMMItemEvent_def print_OMMSolicitedItemEvent_def print_OMMActiveClientSessionEvent_def
       print_msg_member member_def [of "(_, _)"] render.simps(1-3) text_of_member print_bool_def del: render.simps(4))

section \<open>The members can be written\<close>

lemma name_texts_unquoted [simp]:
  "unquoted (data_state_text d)" "unquoted (status_code_text c)" "unquoted (stream_state_text t)"
  "unquoted (msg_model_text m)" "unquoted (resp_type_text r)" "unquoted (stream_property_text p)"
  "unquoted (event_type_text et)" "unquoted (connection_type_text ct)" "unquoted (connection_state_text cs)"
  "unquoted (login_name_type C i)" "unquoted (instrument_name_type C i)"
proof -
  show "unquoted (data_state_text d)" by (cases d) (simp_all add: unescaped_def)
  show "unquoted (status_code_text c)" by (cases c) (simp_all add: unescaped_def)
  show "unquoted (stream_state_text t)" by (cases t) (simp_all add: unescaped_def)
  show "unquoted (msg_model_text m)" by (cases m) (simp_all add: unescaped_def)
  show "unquoted (resp_type_text r)" by (cases r) (simp_all add: unescaped_def)
  show "unquoted (stream_property_text p)" by (cases p) (simp_all add: unescaped_def)
  show "unquoted (event_type_text et)" by (cases et) (simp_all add: unescaped_def)
  show "unquoted (connection_type_text ct)" by (cases ct) (simp_all add: unescaped_def)
  show "unquoted (connection_state_text cs)" by (cases cs) (simp_all add: unescaped_def)
qed (simp_all add: login_name_type_def instrument_name_type_def unescaped_def)

definition writable_member :: "string \<times> json \<Rightarrow> bool" where
  "writable_member m = (unquoted (fst m) \<and> writable (snd m))"

lemma attrib_writable: "attrib_unquoted a \<Longrightarrow> writable_member (msg_attrib_member C m a)"
  by (simp add: writable_member_def msg_attrib_member_def attrib_member_def attrib_unquoted_def
      flags_good unescaped_def)

lemma parts_writable:
  "writable_member (manifest_member C f)" "identity_unquoted i \<Longrightarrow> writable_member (identity_member i)"
  "writable_member (qos_member C q)" "writable_member (status_member s)"
  "writable_member (plain_msg_member ''GenericMsg'' b)" "writable_member (plain_msg_member ''PostMsg'' b)"
  "writable_member (plain_msg_member ''AckMsg'' b)" "writable_member (plain_msg_member ''(Unknown)'' b)"
proof -
  show "identity_unquoted i \<Longrightarrow> writable_member (identity_member i)"
    by (cases i) (simp_all add: writable_member_def unescaped_def)
qed (simp_all add: writable_member_def manifest_member_def qos_member_def status_member_def plain_msg_member_def
      flags_good unescaped_def)

lemma request_parts_writable: "writable (request_rate C r u)" "writable (request_timeliness C t u)"
  by (simp_all add: request_rate_def request_timeliness_def unescaped_def)

lemma request_object_writable:
  "writable br \<Longrightarrow> writable bt \<Longrightarrow> writable wr \<Longrightarrow> writable wt \<Longrightarrow> writable_member (request_object p br bt wr wt)"
  by (simp add: writable_member_def request_object_def unescaped_def)

lemma request_writable: "writable_member (request_member C q)"
  unfolding request_member_def by (intro request_object_writable request_parts_writable)

lemma msg_writable: "msg_printable C m \<Longrightarrow> writable_member (msg_member C m)"
proof (cases m)
  case (RespMsg r)
  moreover assume "msg_printable C m"
  ultimately have "writable_member (msg_attrib_member C (rm_model r) (rm_attrib_info r))"
      "writable_member (identity_member (rm_identity r))"
    by (simp_all add: attrib_writable parts_writable)
  with RespMsg parts_writable(1) [of C "rm_manifest r"] parts_writable(3) [of C "rm_qos r"] parts_writable(4) [of "rm_status r"]
  show ?thesis by (simp add: writable_member_def flags_good unescaped_def)
next
  case (ReqMsg r)
  moreover assume "msg_printable C m"
  ultimately have "writable_member (msg_attrib_member C (qm_model r) (qm_attrib_info r))"
    by (simp add: attrib_writable)
  with ReqMsg request_writable [of C "qm_requested_qos r"]
  show ?thesis by (simp add: writable_member_def flags_good unescaped_def)
qed (simp_all add: parts_writable)

lemma event_writable: "event_printable C e \<Longrightarrow> writable_member (event_member C e)"
  using msg_writable [of C] by (cases e) (auto simp: writable_member_def unescaped_def)

lemma read_writable: "writable_member m \<Longrightarrow> read_member (member m) = Some m"
  using read_member_member [of "fst m" "snd m"] by (simp add: writable_member_def)

section \<open>The connection event\<close>

text \<open>The status of a connection opens no quote before its code.\<close>

lemma bad_connection_status: "parse_member n (print_ConnectionStatus s c @ r) = None"
proof -
  have word: "parse_value n (connection_code_text c @ t) = None" for n t
    by (cases c) (simp_all add: bad_word is_ws_def is_digit_def)
  have "parse_member n (''\"StatusCode\": '' @ connection_code_text c @ t) = None" for n t
    using bad_value [of "''StatusCode''" "CHR '' '' # connection_code_text c @ t"] word
    by (simp add: parse_blank unescaped_def)
  then have "parse_members n (CHR '' '' # ''\"StatusCode\": '' @ connection_code_text c @ t) = None" for n t
    by (intro bad_member_members) (simp add: parse_blank)
  from bad_rest [OF _ _ this, of "''State''" "JString (connection_state_text s)"]
  have "parse_members n (CHR '' '' # member (''State'', JString (connection_state_text s)) @
      '', \"StatusCode\": '' @ connection_code_text c @ t) = None" for n t
    by (simp add: parse_blank unescaped_def)
  from bad_object [OF this] have "parse_value n (CHR ''{'' # CHR '' '' # member (''State'', JString (connection_state_text s)) @
      '', \"StatusCode\": '' @ connection_code_text c @ t) = None" for n t
    by (simp add: member_def)
  then show ?thesis
    using bad_value [of "''Status''" "CHR '' '' # CHR ''{'' # CHR '' '' # member (''State'', JString (connection_state_text s)) @
      '', \"StatusCode\": '' @ connection_code_text c @ ''\" }'' @ r" n]
    by (simp add: print_ConnectionStatus_def member_def parse_blank unescaped_def)
qed

text \<open>The text of a connection event is never JSON, whatever its status.\<close>

theorem connection_event_unreadable:
  assumes "unquoted (ce_connection_name e)"
  shows "read_member (print_Event C (ConnectionEvent e)) = None"
proof -
  let ?fields = "[(''Type'', JString ''ConnectionEvent''), (''ConnectionName'', JString (ce_connection_name e)),
     (''ConnectionType'', JString (connection_type_text (ce_connection_type e)))]"
  let ?rest = "print_ConnectionStatus (ce_state e) (ce_code e) @
     '', \"isEventStreamClosed\": '' @ print_bool (ce_stream_closed e) @ '' }''"
  have step: "parse_members n (CHR '' '' # member (k, v) @ CHR '','' # rest) = None"
    if "unquoted k" "writable v" "\<And>n. parse_members n rest = None" for k v rest n
    using bad_rest [OF that] by (simp add: parse_blank)
  have "parse_members n (CHR '' '' # ?rest) = None" for n
    by (intro bad_member_members) (simp add: parse_blank bad_connection_status)
  from step [OF _ _ step [OF _ _ step [OF _ _ this]],
      of "''Type''" "JString ''ConnectionEvent''" "''ConnectionName''" "JString (ce_connection_name e)"
         "''ConnectionType''" "JString (connection_type_text (ce_connection_type e))"]
  have "parse_members n (CHR '' '' # member (?fields ! 0) @ CHR '','' # CHR '' '' # member (?fields ! 1) @
      CHR '','' # CHR '' '' # member (?fields ! 2) @ CHR '','' # CHR '' '' # ?rest) = None" for n
    using assms by (simp add: unescaped_def)
  from bad_object [OF this] have "parse_value n (CHR ''{'' # CHR '' '' # member (?fields ! 0) @ CHR '','' # CHR '' '' #
      member (?fields ! 1) @ CHR '','' # CHR '' '' # member (?fields ! 2) @ CHR '','' # CHR '' '' # ?rest) = None" for n
    by (simp add: member_def)
  from bad_value [of "''Event''", OF _ this [THEN parse_blank(1) [THEN trans]]]
  have "parse_member n (print_ConnectionEvent e) = None" for n
    by (simp add: print_ConnectionEvent_def member_def unescaped_def assms)
  then show ?thesis by (simp add: read_member_def)
qed

section \<open>The properties\<close>

text \<open>C14: The text of an event is one member of a JSON object, and a JSON parser reads from it exactly the member
  that specifies the event: its type, its message with the model-dependent attributes, the flags, the status and
  the quality of service. It holds for every event but a connection event, as long as the names hold no quote,
  backslash or control character and a request names what it asks for.\<close>

theorem event_text_roundtrip:
  assumes "event_printable C e"
  shows "read_member (print_Event C e) = Some (event_member C e)"
  by (simp add: print_event_member [OF assms] read_writable event_writable [OF assms])

text \<open>The printer of a request writes the best rate for whatever has no name: the text says what the request
  asks for exactly when each timeliness and the worst rate either has a name or equals the best rate.\<close>

theorem request_text_right_iff:
  "read_member (print_QualityOfServiceRequest C q) = Some (request_member C q) \<longleftrightarrow> request_printable C q"
proof -
  let ?m = "request_object (qr_stream_property q)
       (request_rate C (qr_best_rate q) (qr_best_rate q))
       (request_timeliness C (qr_best_timeliness q) (qr_best_rate q))
       (request_rate C (qr_worst_rate q) (qr_best_rate q))
       (request_timeliness C (qr_worst_timeliness q) (qr_best_rate q))"
  have "writable_member ?m" by (intro request_object_writable request_parts_writable)
  then have "read_member (print_QualityOfServiceRequest C q) = Some ?m"
    by (simp only: print_request_member read_writable)
  then show ?thesis using printed_request_right [of q C] by simp
qed

text \<open>The text of a mask and the mask, as far as the printer knows its flags.\<close>

definition printed_masks :: "rfa_constants \<Rightarrow> (u32 \<times> string) list list" where
  "printed_masks C =
     [attrib_flags C, manifest_flags C, resp_hint_flags C, resp_indication_flags C, req_hint_flags C,
      req_indication_flags C, interaction_flags C]"

lemma printed_masks_good: "fs \<in> set (printed_masks C) \<Longrightarrow> good_flags fs"
  using flags_good [of C] by (auto simp: printed_masks_def)

lemma printed_masks_distinct: "fs \<in> set (printed_masks C) \<Longrightarrow> distinct (map snd fs)"
  by (auto simp: printed_masks_def attrib_flags_def manifest_flags_def resp_hint_flags_def
      resp_indication_flags_def req_hint_flags_def req_indication_flags_def interaction_flags_def)

lemma flag_names_eq:
  assumes "distinct (map snd fs)" and "flag_names m fs = flag_names k fs" and "f \<in> set fs"
  shows "(m AND fst f \<noteq> 0) = (k AND fst f \<noteq> 0)"
proof -
  have "(j AND fst f \<noteq> 0) = (snd f \<in> set (flag_names j fs))" for j
    using assms(1,3) by (auto simp: flag_names_def distinct_map dest: inj_onD)
  with assms(2) show ?thesis by simp
qed

text \<open>Two masks have the same text exactly when they agree on every flag the printer knows.\<close>

theorem flag_text_tells_the_flags:
  assumes "fs \<in> set (printed_masks C)"
  shows "flag_text m fs = flag_text k fs \<longleftrightarrow> (\<forall>f\<in>set fs. (m AND fst f \<noteq> 0) = (k AND fst f \<noteq> 0))"
proof
  assume "flag_text m fs = flag_text k fs"
  then have "(if flag_names m fs = [] then [[]] else flag_names m fs) =
      (if flag_names k fs = [] then [[]] else flag_names k fs)"
    using flag_text_split [OF printed_masks_good [OF assms]] by metis
  moreover have "\<forall>p\<in>set (flag_names j fs). p \<noteq> []" for j
    using printed_masks_good [OF assms] by (auto simp: good_flags_def flag_names_def)
  then have "flag_names j fs \<noteq> [[]]" for j by (metis list.set_intros(1))
  ultimately have "flag_names m fs = flag_names k fs"
    by (metis (full_types))
  then show "\<forall>f\<in>set fs. (m AND fst f \<noteq> 0) = (k AND fst f \<noteq> 0)"
    using flag_names_eq [OF printed_masks_distinct [OF assms]] by blast
next
  assume "\<forall>f\<in>set fs. (m AND fst f \<noteq> 0) = (k AND fst f \<noteq> 0)"
  then have "flag_names m fs = flag_names k fs" by (simp add: flag_names_def cong: filter_cong)
  then show "flag_text m fs = flag_text k fs"
    using printed_masks_good [OF assms] by (simp add: mask_text_def)
qed

section \<open>Examples\<close>

definition demo_constants :: rfa_constants where
  "demo_constants = \<lparr>
     flag_bits = (\<lambda>f. if f \<in> {AttribInfo_NameFlag, RespMsg_AttribInfoFlag, RespMsg_RefreshCompleteFlag} then 2
                      else if f \<in> {AttribInfo_ServiceNameFlag, RespMsg_PayloadFlag} then 8 else 64),
     name_type_of = (\<lambda>n. if n \<in> {USER_NAME, INSTRUMENT_NAME_RIC} then 1 else if n = USER_TOKEN then 3 else 0),
     qos_of = (\<lambda>q. if q \<in> {QoS_tickByTick, QoS_realTime, Request_tickByTick, Request_realTime} then 0
                   else if q = Request_delayed then 65535 else - 1)\<rparr>"

definition demo_refresh :: msg where
  "demo_refresh = RespMsg
     \<lparr>rm_hint_mask = 10, rm_indication_mask = 2, rm_model = MMT_MARKET_PRICE,
      rm_attrib_info = \<lparr>ai_hint_mask = 10, ai_id = 0, ai_name = ''IBM.N'', ai_name_type = 1, ai_service_id = 0,
        ai_service_name = ''IDN_RDF''\<rparr>,
      rm_manifest = \<lparr>mf_hint_mask = 0, mf_filtered_count = 0, mf_filtered_time = 0, mf_seq_num = 7\<rparr>,
      rm_identity = TokenizedPrincipalIdentity,
      rm_qos = \<lparr>q_rate = 0, q_timeliness = 30\<rparr>,
      rm_status = \<lparr>rs_data_state = OkEnum, rs_status_code = NoneEnum, rs_stream_state = OpenEnum\<rparr>,
      rm_resp_type = RefreshEnum, rm_resp_type_num = 0, rm_blank = False\<rparr>"

theorem event_text_roundtrip_witness:
  "\<exists>ms. read_member (print_Event demo_constants (OMMItemEvent demo_refresh False)) =
     Some (''Event'', JObject [(''Type'', JString ''OMMItemEvent''), (''Msg'', JObject ms), (''isEventStreamClosed'', JBool False)]) \<and>
     ms ! 0 = (''HintMask'', JString ''AttribInfoFlag|PayloadFlag'') \<and>
     ms ! 7 = (''QualityOfService'', JObject [(''Rate'', JString ''tickByTick''), (''Timeliness'', JInt 30)])"
proof -
  have "event_printable demo_constants (OMMItemEvent demo_refresh False)"
    by (simp add: demo_refresh_def attrib_unquoted_def unescaped_def)
  from event_text_roundtrip [OF this] show ?thesis
    by (simp add: demo_refresh_def resp_hint_flags_def mask_text_def flag_names_def demo_constants_def qos_member_def)
qed

theorem connection_event_unreadable_witness:
  "read_member (print_Event demo_constants (ConnectionEvent
     \<lparr>ce_connection_name = ''Connection_A'', ce_connection_type = RSSL, ce_state = Up, ce_code = ConnectionStatus_None,
      ce_stream_closed = False\<rparr>)) = None"
  by (rule connection_event_unreadable) (simp add: unescaped_def)

text \<open>Names are not escaped.\<close>

lemma quote_breaks_the_text:
  "read_member (print_Event C (OMMActiveClientSessionEvent [CHR 0x22] [] [] True)) = None"
  by (simp add: print_OMMActiveClientSessionEvent_def print_RFA_String_def print_bool_def, code_simp)

theorem flag_text_tells_the_flags_witness:
  "flag_text 10 (attrib_flags demo_constants) \<noteq> flag_text 2 (attrib_flags demo_constants) \<and>
   flag_text 10 (attrib_flags demo_constants) = flag_text 26 (attrib_flags demo_constants)"
proof -
  have "attrib_flags demo_constants \<in> set (printed_masks demo_constants)" by (simp add: printed_masks_def)
  note tells = flag_text_tells_the_flags [OF this]
  have "(10 :: u32) AND 8 \<noteq> 0" "(2 :: u32) AND 8 = 0" by simp_all
  then show ?thesis
    unfolding tells by (simp add: attrib_flags_def demo_constants_def)
qed

end
