(* ===== verification/Stack_Trace.thy ===== *)
theory Stack_Trace
  imports Prelude
begin

text \<open>
  src/chromium/debug/stack_trace.cc and stack_trace_posix.cc, built with libstdc++ and without USE_SYMBOLIZE: the text of
  a stack trace. The backtrace, its symbols, the demangler of the C++ ABI and the text of a pointer belong to
  the C and C++ libraries and are parameters. Shown: the loop that demangles in place ends and is the replacement of
  the mangled names from left to right, and the text has one line for each frame.
\<close>

section \<open>Demangling\<close>

definition kMangledSymbolPrefix :: string where
  "kMangledSymbolPrefix = ''_Z''"

definition kSymbolCharacters :: string where
  "kSymbolCharacters = ''abcdefghijklmnopqrstuvwxyzABCDEFGHIJKLMNOPQRSTUVWXYZ0123456789_''"

lemma prefix_at:
  assumes "find_sub s kMangledSymbolPrefix k = Some m"
  shows "k \<le> m" and "m + 2 \<le> length s" and "take 2 (drop m s) = kMangledSymbolPrefix"
  using find_sub_Some [OF assms] by (simp_all add: kMangledSymbolPrefix_def numeral_2_eq_2)

text \<open>The end of the mangled symbol: find_first_not_of from its start, or the end of the text.\<close>

definition mangled_end :: "string \<Rightarrow> nat \<Rightarrow> nat" where
  "mangled_end s mangled_start =
     (case find_first (\<lambda>c. c \<notin> set kSymbolCharacters) (drop mangled_start s) of
        None \<Rightarrow> length s
      | Some n \<Rightarrow> mangled_start + n)"

lemma mangled_end_eq:
  "m \<le> length s \<Longrightarrow> mangled_end s m = m + length (takeWhile (\<lambda>c. c \<in> set kSymbolCharacters) (drop m s))"
proof -
  assume m: "m \<le> length s"
  show ?thesis
  proof (cases "\<forall>x\<in>set (drop m s). x \<in> set kSymbolCharacters")
    case True
    then have "takeWhile (\<lambda>c. c \<in> set kSymbolCharacters) (drop m s) = drop m s" by (simp only: takeWhile_eq_all_conv)
    moreover have "find_first (\<lambda>c. c \<notin> set kSymbolCharacters) (drop m s) = None" using True by (simp only: find_first_None_iff) blast
    ultimately show ?thesis using m unfolding mangled_end_def by (simp only: option.case length_drop le_add_diff_inverse)
  next
    case False
    then show ?thesis by (simp only: mangled_end_def find_first_eq) auto
  qed
qed

lemma mangled_end_le: "m \<le> length s \<Longrightarrow> mangled_end s m \<le> length s"
  using length_takeWhile_le [of "\<lambda>c. c \<in> set kSymbolCharacters" "drop m s"] by (simp add: mangled_end_eq)

lemma mangled_prefix:
  "take 2 t = kMangledSymbolPrefix \<Longrightarrow> 2 \<le> length (takeWhile (\<lambda>c. c \<in> set kSymbolCharacters) t)"
  by (cases t; cases "tl t") (auto simp: kMangledSymbolPrefix_def kSymbolCharacters_def)

text \<open>The loop; demangle is abi::__cxa_demangle, None when the status is not 0.\<close>

function demangle_loop :: "(string \<Rightarrow> string option) \<Rightarrow> string \<Rightarrow> nat \<Rightarrow> string" where
  "demangle_loop demangle s search_from =
     (if search_from < length s then
        case find_sub s kMangledSymbolPrefix search_from of
          None \<Rightarrow> s
        | Some mangled_start \<Rightarrow>
            (case demangle (take (mangled_end s mangled_start - mangled_start) (drop mangled_start s)) of
               Some demangled_symbol \<Rightarrow>
                 demangle_loop demangle
                   (take mangled_start s @ demangled_symbol @ drop (mangled_end s mangled_start) s)
                   (mangled_start + length demangled_symbol)
             | None \<Rightarrow> demangle_loop demangle s (mangled_start + 2))
      else s)"
  by pat_completeness auto
termination
proof (relation "measure (\<lambda>(d, s, k). length s - k)"; (simp only: in_measure prod.case)?)
  fix s :: string and k m :: nat and d :: string
  assume k: "k < length s" and m: "find_sub s kMangledSymbolPrefix k = Some m"
  note at = prefix_at [OF m]
  show "length s - (m + 2) < length s - k" using at k by linarith
  have "m + 2 \<le> mangled_end s m" using mangled_prefix [OF at(3)] at by (simp add: mangled_end_eq)
  then show "length (take m s @ d @ drop (mangled_end s m) s) - (m + length d) < length s - k"
    using at mangled_end_le [of m s] k by simp
qed simp

declare demangle_loop.simps [simp del]

definition DemangleSymbols :: "(string \<Rightarrow> string option) \<Rightarrow> string \<Rightarrow> string" where
  "DemangleSymbols demangle s = demangle_loop demangle s 0"

section \<open>Stack traces\<close>

record trace_env =
  backtrace :: "nat \<Rightarrow> int \<times> nat list"
  backtrace_symbols :: "nat list \<Rightarrow> string list option"
  cxa_demangle :: "string \<Rightarrow> string option"
  errno_text :: string
  pointer_text :: "nat \<Rightarrow> string"

definition kMaxTraces :: nat where "kMaxTraces = 62"

text \<open>The addresses of the frames, as many as count_.\<close>

type_synonym StackTrace = "nat list"

definition new_StackTrace :: "trace_env \<Rightarrow> StackTrace" where
  "new_StackTrace e = (let (n, trace) = backtrace e kMaxTraces in take (nat (max n 0)) trace)"

definition StackTrace_of :: "nat list \<Rightarrow> nat \<Rightarrow> StackTrace" where
  "StackTrace_of trace count = take (min count kMaxTraces) trace"

definition Addresses :: "StackTrace \<Rightarrow> nat list option \<times> nat" where
  "Addresses t = (if length t \<noteq> 0 then Some t else None, length t)"

text \<open>Whether symbols were found, the strings, and the error message.\<close>

definition GetBacktraceStrings :: "trace_env \<Rightarrow> StackTrace \<Rightarrow> bool \<times> string list \<times> string" where
  "GetBacktraceStrings e t =
     (case backtrace_symbols e t of
        Some trace_symbols \<Rightarrow> (True, map (DemangleSymbols (cxa_demangle e)) (take (length t) trace_symbols), [])
      | None \<Rightarrow> (False, map (pointer_text e) t, errno_text e))"

definition trace_line :: "string \<Rightarrow> string" where
  "trace_line s = CHR 0x09 # s @ [CHR 0x0A]"

text \<open>What fprintf writes to stderr: each string up to its first NUL.\<close>

definition PrintBacktrace :: "trace_env \<Rightarrow> StackTrace \<Rightarrow> string" where
  "PrintBacktrace e t =
     concat (map (\<lambda>s. trace_line (takeWhile (\<lambda>c. c \<noteq> CHR 0x00) s)) (fst (snd (GetBacktraceStrings e t))))"

definition OutputToStream :: "trace_env \<Rightarrow> StackTrace \<Rightarrow> string" where
  "OutputToStream e t =
     (let (symbolized, trace_strings, error_message) = GetBacktraceStrings e t
      in (if symbolized then ''Backtrace:'' @ [CHR 0x0A]
          else ''Unable to get symbols for backtrace'' @
               (if error_message \<noteq> [] then '' ('' @ error_message @ '')'' else error_message) @
               ''. '' @ ''Dumping raw addresses in trace:'' @ [CHR 0x0A]) @
         concat (map trace_line trace_strings))"

definition ToString :: "trace_env \<Rightarrow> StackTrace \<Rightarrow> string" where
  "ToString e t = OutputToStream e t"

section \<open>The reference definition of demangling\<close>

text \<open>From left to right: a mangled name, with all the symbol characters that follow, is replaced if the demangler
  knows it; if not, the text behind its prefix is looked at.\<close>

function demangled :: "(string \<Rightarrow> string option) \<Rightarrow> string \<Rightarrow> string" where
  "demangled dm [] = []"
| "demangled dm (c # cs) =
     (if take 2 (c # cs) = kMangledSymbolPrefix then
        case dm (takeWhile (\<lambda>c. c \<in> set kSymbolCharacters) (c # cs)) of
          Some d \<Rightarrow> d @ demangled dm (dropWhile (\<lambda>c. c \<in> set kSymbolCharacters) (c # cs))
        | None \<Rightarrow> kMangledSymbolPrefix @ demangled dm (drop 2 (c # cs))
      else c # demangled dm cs)"
  by pat_completeness auto
termination
proof (relation "measure (\<lambda>(d, s). length s)"; (simp only: in_measure prod.case)?)
  fix c :: char and cs :: string
  assume "take 2 (c # cs) = kMangledSymbolPrefix"
  then have "c \<in> set kSymbolCharacters" by (auto simp: kMangledSymbolPrefix_def kSymbolCharacters_def)
  then show "length (dropWhile (\<lambda>c. c \<in> set kSymbolCharacters) (c # cs)) < length (c # cs)"
    using length_dropWhile_le [of _ cs] by (simp add: le_imp_less_Suc)
  show "length (drop 2 (c # cs)) < length (c # cs)" by simp
qed simp_all

declare demangled.simps(2) [simp del]

lemma demangled_None: "find_sub_from kMangledSymbolPrefix n s = None \<Longrightarrow> demangled dm s = s"
proof (induction s arbitrary: n)
  case (Cons c cs)
  then have "take 2 (c # cs) \<noteq> kMangledSymbolPrefix" "find_sub_from kMangledSymbolPrefix (Suc n) cs = None"
    by (auto simp: kMangledSymbolPrefix_def split: if_splits)
  with Cons.IH show ?case by (simp add: demangled.simps(2))
qed simp

lemma demangled_Some:
  "find_sub_from kMangledSymbolPrefix n s = Some m \<Longrightarrow>
     demangled dm s = take (m - n) s @ demangled dm (drop (m - n) s)"
proof (induction s arbitrary: n)
  case (Cons c cs)
  show ?case
  proof (cases "take 2 (c # cs) = kMangledSymbolPrefix")
    case True
    with Cons.prems have "m = n" by (simp add: kMangledSymbolPrefix_def)
    then show ?thesis by simp
  next
    case False
    then have next_c: "find_sub_from kMangledSymbolPrefix (Suc n) cs = Some m"
      using Cons.prems by (simp add: kMangledSymbolPrefix_def split: if_splits)
    then have "Suc n \<le> m" using find_sub_from_Some by blast
    then have "m - n = Suc (m - Suc n)" by linarith
    with False Cons.IH [OF next_c] show ?thesis by (simp add: demangled.simps(2))
  qed
qed simp

lemma demangle_loop_eq:
  "k \<le> length s \<Longrightarrow> demangle_loop dm s k = take k s @ demangled dm (drop k s)"
proof (induction dm s k rule: demangle_loop.induct)
  case (1 dm s k)
  show ?case
  proof (cases "k < length s")
    case False
    with 1(3) show ?thesis by (subst demangle_loop.simps) simp
  next
    case k: True
    show ?thesis
    proof (cases "find_sub s kMangledSymbolPrefix k")
      case None
      then have "demangled dm (drop k s) = drop k s"
        using k by (intro demangled_None) (simp add: find_sub_def)
      with k None show ?thesis by (subst demangle_loop.simps) simp
    next
      case (Some m)
      note at = prefix_at [OF Some]
      let ?sym = "takeWhile (\<lambda>c. c \<in> set kSymbolCharacters) (drop m s)"
      have sym: "take (mangled_end s m - m) (drop m s) = ?sym" "drop (mangled_end s m) s = dropWhile (\<lambda>c. c \<in> set kSymbolCharacters) (drop m s)"
        using at(2) by (simp_all add: mangled_end_eq dropWhile_eq_drop takeWhile_eq_take [symmetric] add.commute)
      have "find_sub_from kMangledSymbolPrefix k (drop k s) = Some m"
        using Some k by (simp add: find_sub_def)
      from demangled_Some [OF this, of dm] have to_m: "demangled dm (drop k s) = take (m - k) (drop k s) @ demangled dm (drop m s)"
        using at(1) by simp
      have before: "take k s @ take (m - k) (drop k s) = take m s"
        using at(1) by (metis le_add_diff_inverse take_add)
      obtain c cs where cs: "drop m s = c # cs" using at(2) by (cases "drop m s") auto
      show ?thesis
      proof (cases "dm ?sym")
        case None
        have "demangle_loop dm s k = demangle_loop dm s (m + 2)"
          using k Some None sym(1) by (subst demangle_loop.simps) simp
        also have "\<dots> = take (m + 2) s @ demangled dm (drop (m + 2) s)"
          using 1(1) [OF k Some, unfolded sym(1), OF None] at(2) by simp
        also have "take (m + 2) s = take m s @ kMangledSymbolPrefix"
          using at(3) by (simp only: take_add)
        also have "demangled dm (drop m s) = kMangledSymbolPrefix @ demangled dm (drop (m + 2) s)"
          using None at(3) unfolding cs by (subst demangled.simps(2)) (simp add: cs [symmetric])
        then have "(take m s @ kMangledSymbolPrefix) @ demangled dm (drop (m + 2) s) = take k s @ demangled dm (drop k s)"
          by (simp add: to_m before [symmetric])
        finally show ?thesis .
      next
        case d: (Some d)
        let ?t = "take m s @ d @ drop (mangled_end s m) s"
        have "demangle_loop dm s k = demangle_loop dm ?t (m + length d)"
          using k Some d sym(1) by (subst demangle_loop.simps) simp
        also have "\<dots> = take (m + length d) ?t @ demangled dm (drop (m + length d) ?t)"
          using 1(2) [OF k Some, unfolded sym(1), OF d] at(2) by simp
        also have "\<dots> = take m s @ d @ demangled dm (drop (mangled_end s m) s)"
          using at(2) by simp
        also have "demangled dm (drop m s) = d @ demangled dm (drop (mangled_end s m) s)"
          using d at(3) unfolding sym(2) cs by (subst demangled.simps(2)) (simp add: cs [symmetric])
        then have "take m s @ d @ demangled dm (drop (mangled_end s m) s) = take k s @ demangled dm (drop k s)"
          by (simp add: to_m before [symmetric])
        finally show ?thesis .
      qed
    qed
  qed
qed

section \<open>Properties\<close>

text \<open>C38: DemangleSymbols, which edits the text in place and searches on behind each edit, returns for every text and
  every demangler, and what it returns is the text with each mangled name replaced from left to right.\<close>

theorem DemangleSymbols_replaces: "DemangleSymbols demangle s = demangled demangle s"
  by (simp add: DemangleSymbols_def demangle_loop_eq)

text \<open>The text of a trace has a first line and one line for each frame.\<close>

definition newlines :: "string \<Rightarrow> nat" where
  "newlines s = length (filter (\<lambda>c. c = CHR 0x0A) s)"

lemma newlines_simps [simp]:
  "newlines [] = 0" "newlines (c # s) = (if c = CHR 0x0A then 1 else 0) + newlines s" "newlines (s @ t) = newlines s + newlines t"
  by (simp_all add: newlines_def)

lemma newlines_lines: "\<forall>s\<in>set ss. newlines s = 0 \<Longrightarrow> newlines (concat (map trace_line ss)) = length ss"
  by (induction ss) (simp_all add: trace_line_def)

theorem ToString_lines:
  assumes "\<And>a. newlines (pointer_text e a) = 0" and "newlines (errno_text e) = 0"
    and "\<And>ss. backtrace_symbols e t = Some ss \<Longrightarrow>
           length ss = length t \<and> (\<forall>s\<in>set ss. newlines (demangled (cxa_demangle e) s) = 0)"
  shows "newlines (ToString e t) = 1 + length t"
proof (cases "backtrace_symbols e t")
  case None
  then show ?thesis
    using assms(1,2) newlines_lines [of "map (pointer_text e) t"]
    by (simp add: ToString_def OutputToStream_def GetBacktraceStrings_def)
next
  case (Some ss)
  then show ?thesis
    using assms(3) [OF Some] newlines_lines [of "map (DemangleSymbols (cxa_demangle e)) ss"]
    by (simp add: ToString_def OutputToStream_def GetBacktraceStrings_def DemangleSymbols_replaces)
qed

end
