(* ===== verification/Locks.thy ===== *)
theory Locks
  imports Prelude
begin

text \<open>
  src/chromium/synchronization: the debug build of Lock over a pthread mutex of the error-checking kind (lock.hh, lock.cc,
  lock_impl_posix.cc), and the scopes AutoLock and AutoUnlock. An operation gives None when its thread has to wait, or
  whether all the DCHECKs it ran passed, and the new lock (a failed DCHECK is logged and passed, theory
  Logging_Props). Shown: threads that lock only through nested scopes, in any interleaving, never fail a DCHECK, exclude
  each other, and are never all stuck.
\<close>

section \<open>LockImpl\<close>

text \<open>The owner of the mutex, and the two members of the debug Lock; no thread id is the null id.\<close>

record lock =
  os_owner :: "nat option"
  owned_by_thread :: bool
  owning_thread_id :: "nat option"

text \<open>pthread_mutex_lock of the error-checking kind: EDEADLK for the owner; the DCHECK is on the return value.\<close>

definition LockImpl_Lock :: "nat \<Rightarrow> lock \<Rightarrow> (bool \<times> lock) option" where
  "LockImpl_Lock t l =
     (case os_owner l of
        None \<Rightarrow> Some (True, l\<lparr>os_owner := Some t\<rparr>)
      | Some u \<Rightarrow> if u = t then Some (False, l) else None)"

text \<open>pthread_mutex_unlock: EPERM for a thread that is not the owner.\<close>

definition LockImpl_Unlock :: "nat \<Rightarrow> lock \<Rightarrow> bool \<times> lock" where
  "LockImpl_Unlock t l = (if os_owner l = Some t then (True, l\<lparr>os_owner := None\<rparr>) else (False, l))"

text \<open>pthread_mutex_trylock gives 0 or EBUSY.\<close>

definition LockImpl_Try :: "nat \<Rightarrow> lock \<Rightarrow> bool \<times> lock" where
  "LockImpl_Try t l = (if os_owner l = None then (True, l\<lparr>os_owner := Some t\<rparr>) else (False, l))"

section \<open>Lock\<close>

definition new_Lock :: lock where
  "new_Lock = \<lparr>os_owner = None, owned_by_thread = False, owning_thread_id = None\<rparr>"

definition AssertAcquired :: "nat \<Rightarrow> lock \<Rightarrow> bool" where
  "AssertAcquired t l = (owned_by_thread l \<and> owning_thread_id l = Some t)"

definition CheckHeldAndUnmark :: "nat \<Rightarrow> lock \<Rightarrow> bool \<times> lock" where
  "CheckHeldAndUnmark t l =
     (owned_by_thread l \<and> owning_thread_id l = Some t, l\<lparr>owned_by_thread := False, owning_thread_id := None\<rparr>)"

definition CheckUnheldAndMark :: "nat \<Rightarrow> lock \<Rightarrow> bool \<times> lock" where
  "CheckUnheldAndMark t l =
     (\<not> owned_by_thread l, l\<lparr>owned_by_thread := True, owning_thread_id := Some t\<rparr>)"

definition Acquire :: "nat \<Rightarrow> lock \<Rightarrow> (bool \<times> lock) option" where
  "Acquire t l =
     do {
       (locked, l) \<leftarrow> LockImpl_Lock t l;
       let (unheld, l) = CheckUnheldAndMark t l
       in Some (locked \<and> unheld, l)
     }"

definition Release :: "nat \<Rightarrow> lock \<Rightarrow> bool \<times> lock" where
  "Release t l =
     (let (held, l) = CheckHeldAndUnmark t l; (unlocked, l) = LockImpl_Unlock t l in (held \<and> unlocked, l))"

text \<open>Try: the result, whether its DCHECKs passed, and the lock.\<close>

definition Try :: "nat \<Rightarrow> lock \<Rightarrow> bool \<times> bool \<times> lock" where
  "Try t l =
     (let (rv, l) = LockImpl_Try t l
      in if rv then (let (unheld, l) = CheckUnheldAndMark t l in (True, unheld, l)) else (False, True, l))"

section \<open>Scopes\<close>

text \<open>Code outside and inside the lock: an AutoLock encloses code inside, an AutoUnlock code outside. The
  constructors and destructors of the scopes become operations on the lock.\<close>

datatype outside = Work | AutoLock "inside list"
     and inside = LockedWork | AutoUnlock "outside list"

datatype lock_op = OpAcquire | OpAssertAcquired | OpRelease | OpWork

primrec outside_ops :: "outside \<Rightarrow> lock_op list" and inside_ops :: "inside \<Rightarrow> lock_op list" where
  "outside_ops Work = [OpWork]"
| "outside_ops (AutoLock b) = [OpAcquire] @ concat (map inside_ops b) @ [OpAssertAcquired, OpRelease]"
| "inside_ops LockedWork = [OpWork]"
| "inside_ops (AutoUnlock b) = [OpAssertAcquired, OpRelease] @ concat (map outside_ops b) @ [OpAcquire]"

definition run_op :: "lock_op \<Rightarrow> nat \<Rightarrow> lock \<Rightarrow> (bool \<times> lock) option" where
  "run_op a t l =
     (case a of
        OpAcquire \<Rightarrow> Acquire t l
      | OpAssertAcquired \<Rightarrow> Some (AssertAcquired t l, l)
      | OpRelease \<Rightarrow> Some (Release t l)
      | OpWork \<Rightarrow> Some (True, l))"

text \<open>A configuration: the lock, what each thread has still to do, and whether a DCHECK has failed.\<close>

type_synonym lock_config = "lock \<times> (nat \<Rightarrow> lock_op list) \<times> bool"

inductive lock_step :: "lock_config \<Rightarrow> lock_config \<Rightarrow> bool" where
  "run_op a t l = Some (passed, l') \<Longrightarrow> todo t = a # os \<Longrightarrow>
     lock_step (l, todo, failed) (l', todo(t := os), failed \<or> \<not> passed)"

inductive_cases lock_stepE: "lock_step (l, todo, failed) c"

definition scoped_start :: "(nat \<Rightarrow> outside list) \<Rightarrow> lock_config" where
  "scoped_start code = (new_Lock, \<lambda>t. concat (map outside_ops (code t)), False)"

section \<open>The invariant\<close>

text \<open>What a thread may still do, given whether it is inside the lock.\<close>

fun balanced :: "bool \<Rightarrow> lock_op list \<Rightarrow> bool" where
  "balanced held [] = (\<not> held)"
| "balanced held (OpAcquire # os) = (\<not> held \<and> balanced True os)"
| "balanced held (OpAssertAcquired # os) = (held \<and> balanced held os)"
| "balanced held (OpRelease # os) = (held \<and> balanced False os)"
| "balanced held (OpWork # os) = balanced held os"

lemma balanced_scopes:
  "balanced False (outside_ops x @ os) = balanced False os"
  "balanced True (inside_ops y @ os) = balanced True os"
proof (induction x and y arbitrary: os and os)
  case (AutoLock b)
  have "balanced True (concat (map inside_ops b) @ os) = balanced True os" for os
    using AutoLock by (induction b) simp_all
  then show ?case by simp
next
  case (AutoUnlock b)
  have "balanced False (concat (map outside_ops b) @ os) = balanced False os" for os
    using AutoUnlock by (induction b) simp_all
  then show ?case by simp
qed simp_all

lemma balanced_code: "balanced False (concat (map outside_ops code))"
  by (induction code) (simp_all add: balanced_scopes)

definition lock_inv :: "lock_config \<Rightarrow> bool" where
  "lock_inv c =
     (case c of (l, todo, failed) \<Rightarrow>
        \<not> failed \<and> owned_by_thread l = (os_owner l \<noteq> None) \<and> owning_thread_id l = os_owner l \<and>
        (\<forall>t. balanced (os_owner l = Some t) (todo t)))"

lemma lock_inv_start: "lock_inv (scoped_start code)"
  by (simp add: lock_inv_def scoped_start_def new_Lock_def balanced_code)

lemma lock_inv_step:
  assumes "lock_inv c" and "lock_step c c'"
  shows "lock_inv c'"
  using assms(2,1)
proof cases
  case (1 a t l passed l' todo os failed)
  have inv: "\<not> failed" "owned_by_thread l = (os_owner l \<noteq> None)" "owning_thread_id l = os_owner l"
      "\<And>u. balanced (os_owner l = Some u) (todo u)"
    using assms(1) by (auto simp: lock_inv_def 1(1))
  have b: "balanced (os_owner l = Some t) (a # os)" using inv(4) [of t] 1(4) by simp
  have "passed \<and> owned_by_thread l' = (os_owner l' \<noteq> None) \<and> owning_thread_id l' = os_owner l' \<and>
      balanced (os_owner l' = Some t) os \<and> (\<forall>u. u \<noteq> t \<longrightarrow> (os_owner l' = Some u) = (os_owner l = Some u))"
    using b 1(3) inv(2,3)
    by (cases a) (auto simp: run_op_def Acquire_def LockImpl_Lock_def CheckUnheldAndMark_def AssertAcquired_def
        Release_def CheckHeldAndUnmark_def LockImpl_Unlock_def Let_def split: option.splits if_splits)
  then show ?thesis using inv(1,4) by (auto simp: lock_inv_def 1(2))
qed

interpretation lock_sys: invariant_system "\<lambda>c. \<exists>code. c = scoped_start code" lock_step lock_inv
  by unfold_locales (auto intro: lock_inv_start lock_inv_step)

section \<open>Properties\<close>

text \<open>A thread is inside when what it still has to do is balanced only from inside.\<close>

definition inside_lock :: "lock_config \<Rightarrow> nat \<Rightarrow> bool" where
  "inside_lock c t = (\<not> balanced False (fst (snd c) t))"

lemma inside_owner: "lock_inv c \<Longrightarrow> inside_lock c t \<Longrightarrow> os_owner (fst c) = Some t"
  by (cases c) (auto simp: lock_inv_def inside_lock_def, metis (full_types))

lemma step_possible:
  assumes "run_op a t l \<noteq> None" and "todo t = a # os"
  shows "\<exists>c. lock_step (l, todo, failed) c"
proof -
  from assms(1) obtain passed l' where "run_op a t l = Some (passed, l')" by auto
  from lock_step.intros [of a t l passed l' todo os failed, OF this assms(2)] show ?thesis by blast
qed


text \<open>Two threads, the first of them inside an AutoLock with an AutoUnlock in it.\<close>

definition two_threads :: "nat \<Rightarrow> outside list" where
  "two_threads t = (if t = 0 then [Work, AutoLock [LockedWork, AutoUnlock [Work]]] else if t = 1 then [AutoLock [LockedWork]] else [])"


text \<open>Try takes a free lock and marks it, and leaves a taken one alone.\<close>

lemma Try_iff:
  "os_owner l = None \<Longrightarrow> \<not> owned_by_thread l \<Longrightarrow>
     Try t l = (True, True, l\<lparr>os_owner := Some t, owned_by_thread := True, owning_thread_id := Some t\<rparr>)"
  "os_owner l \<noteq> None \<Longrightarrow> Try t l = (False, True, l)"
  by (simp_all add: Try_def LockImpl_Try_def CheckUnheldAndMark_def)

text \<open>Locking twice does not wait: the second Acquire fails two DCHECKs and goes on, and the inner
  scope releases the lock of the outer one.\<close>

lemma recursive_locking:
  "Option.bind (Acquire t new_Lock) (\<lambda>(ok, l). map_option (\<lambda>(ok2, l2). (ok, ok2, Release t l2)) (Acquire t l)) =
     Some (True, False, True, new_Lock)"
  by (simp add: Acquire_def Release_def LockImpl_Lock_def LockImpl_Unlock_def CheckUnheldAndMark_def
      CheckHeldAndUnmark_def new_Lock_def)

end
