(* ===== verification/Os_Wrappers.thy ===== *)
theory Os_Wrappers
  imports Prelude
begin

text \<open>
  Wrappers of system calls: src/chromium/file_util.cc and file_util_posix.cc, eintr_wrapper.hh, safe_strerror_posix.cc and
  src/compat/pipe2.c. What the system answers is a parameter; a descriptor table and errno are the state of
  pipe2. Shown: the retry loops end at the first call that is not interrupted, ReadFileToString returns all it
  could read, the error text always ends in a NUL and leaves errno alone, and pipe2 sets the flags of both
  ends or leaks nothing.
\<close>

unbundle bit_operations_syntax

section \<open>Retry on EINTR\<close>

text \<open>The n-th attempt: the result, and whether it failed with EINTR.\<close>

partial_function (option) eintr_loop :: "(nat \<Rightarrow> 'a \<times> bool) \<Rightarrow> nat \<Rightarrow> 'a option" where
  "eintr_loop attempt n = (if snd (attempt n) then eintr_loop attempt (n + 1) else Some (fst (attempt n)))"

text \<open>HANDLE_EINTR repeats while the result is -1 and errno is EINTR; OpenFile while fopen returns null and
  errno is EINTR. EINTR is a parameter of both.\<close>

definition HANDLE_EINTR :: "int \<Rightarrow> (nat \<Rightarrow> int \<times> int) \<Rightarrow> int option" where
  "HANDLE_EINTR EINTR x = eintr_loop (\<lambda>n. (fst (x n), fst (x n) = - 1 \<and> snd (x n) = EINTR)) 0"

definition OpenFile :: "int \<Rightarrow> (nat \<Rightarrow> nat option \<times> int) \<Rightarrow> nat option option" where
  "OpenFile EINTR fopen = eintr_loop (\<lambda>n. (fst (fopen n), fst (fopen n) = None \<and> snd (fopen n) = EINTR)) 0"

section \<open>Files\<close>

text \<open>access (path, F_OK).\<close>

definition PathExists :: "(string \<Rightarrow> int) \<Rightarrow> string \<Rightarrow> bool" where
  "PathExists access path = (access path = 0)"

text \<open>A null file counts as closed.\<close>

definition CloseFile :: "(nat \<Rightarrow> int) \<Rightarrow> nat option \<Rightarrow> bool" where
  "CloseFile fclose f = (case f of None \<Rightarrow> True | Some h \<Rightarrow> fclose h = 0)"

text \<open>The loop of fread calls, the n-th of which fills the buffer with fread n.\<close>

partial_function (option) read_loop :: "(nat \<Rightarrow> string) \<Rightarrow> nat \<Rightarrow> string option \<Rightarrow> string option option" where
  "read_loop fread n contents =
     (if length (fread n) > 0 then read_loop fread (n + 1) (map_option (\<lambda>c. c @ fread n) contents) else Some contents)"

text \<open>The result and the new *contents, when contents is not null.\<close>

definition ReadFileToString ::
  "int \<Rightarrow> (nat \<Rightarrow> nat option \<times> int) \<Rightarrow> (nat \<Rightarrow> nat \<Rightarrow> string) \<Rightarrow> string option \<Rightarrow> (bool \<times> string option) option" where
  "ReadFileToString EINTR fopen fread contents =
     do {
       f \<leftarrow> OpenFile EINTR fopen;
       (case f of
          None \<Rightarrow> Some (False, contents)
        | Some h \<Rightarrow> map_option (\<lambda>c. (True, c)) (read_loop (fread h) 0 contents))
     }"

lemma eintr_loop_returns:
  "\<forall>k<n. snd (attempt (m + k)) \<Longrightarrow> \<not> snd (attempt (m + n)) \<Longrightarrow> eintr_loop attempt m = Some (fst (attempt (m + n)))"
proof (induction n arbitrary: m)
  case 0
  then show ?case by (subst eintr_loop.simps) simp
next
  case (Suc n)
  have "snd (attempt m)" using Suc.prems(1) by (metis add.right_neutral zero_less_Suc)
  moreover have "eintr_loop attempt (m + 1) = Some (fst (attempt (m + 1 + n)))"
    using Suc.prems by (intro Suc.IH) auto
  ultimately show ?case by (subst eintr_loop.simps) simp
qed

lemma eintr_loop_Some: "eintr_loop attempt m = Some x \<Longrightarrow> \<exists>n. \<not> snd (attempt n)"
  by (rule eintr_loop.raw_induct [where P = "\<lambda>a k y. \<exists>n. \<not> snd (a n)"]) (auto split: if_splits)

text \<open>The loop returns exactly when some attempt is not interrupted, and then the result of the first of these.\<close>

theorem eintr_loop_iff:
  "(\<exists>x. eintr_loop attempt 0 = Some x) \<longleftrightarrow> (\<exists>n. \<not> snd (attempt n))"
  "eintr_loop attempt 0 = Some x \<Longrightarrow> x = fst (attempt (LEAST n. \<not> snd (attempt n)))"
proof -
  have first: "eintr_loop attempt 0 = Some (fst (attempt (LEAST n. \<not> snd (attempt n))))" if "\<exists>n. \<not> snd (attempt n)"
    using eintr_loop_returns [of "LEAST n. \<not> snd (attempt n)" attempt 0] LeastI_ex [OF that] not_less_Least
    by fastforce
  then show "(\<exists>x. eintr_loop attempt 0 = Some x) \<longleftrightarrow> (\<exists>n. \<not> snd (attempt n))"
    using eintr_loop_Some [of attempt 0] by (intro iffI) auto
  show "eintr_loop attempt 0 = Some x \<Longrightarrow> x = fst (attempt (LEAST n. \<not> snd (attempt n)))"
    using first eintr_loop_Some [of attempt 0 x] by auto
qed

lemma read_loop_returns:
  "\<forall>k<n. fread (m + k) \<noteq> [] \<Longrightarrow> fread (m + n) = [] \<Longrightarrow>
     read_loop fread m contents = Some (map_option (\<lambda>c. c @ concat (map fread [m..<m + n])) contents)"
proof (induction n arbitrary: m contents)
  case 0
  then show ?case by (subst read_loop.simps) (simp add: option.map_ident)
next
  case (Suc n)
  have "fread m \<noteq> []" using Suc.prems(1) by (metis add.right_neutral zero_less_Suc)
  moreover have "read_loop fread (m + 1) (map_option (\<lambda>c. c @ fread m) contents) =
      Some (map_option (\<lambda>c. c @ concat (map fread [m + 1..<m + 1 + n])) (map_option (\<lambda>c. c @ fread m) contents))"
    using Suc.prems by (intro Suc.IH) auto
  moreover have "[m..<m + Suc n] = m # [m + 1..<m + 1 + n]" by (simp add: upt_conv_Cons)
  ultimately show ?case by (subst read_loop.simps) (simp add: option.map_comp comp_def)
qed

section \<open>Error texts\<close>

text \<open>Writing a text into a buffer as snprintf does: cut to fit, and with a NUL behind it.\<close>

definition write_cut :: "string \<Rightarrow> string \<Rightarrow> string" where
  "write_cut t buf = (let u = take (length buf - 1) t in u @ [CHR 0x00] @ drop (length u + 1) buf)"

text \<open>The wrapper of the GNU strerror_r, which returns its own text (or None for buf, with its new content).\<close>

definition wrap_gnu_strerror_r :: "string option \<times> string \<Rightarrow> string" where
  "wrap_gnu_strerror_r rc =
     (case rc of (None, buf) \<Rightarrow> buf | (Some t, buf) \<Rightarrow> write_cut (takeWhile (\<lambda>c. c \<noteq> CHR 0x00) t) buf)"

text \<open>The wrapper of the POSIX strerror_r, which returns a result and leaves a buffer and errno. The new errno is
  the old one.\<close>

definition wrap_posix_strerror_r :: "int \<times> string \<times> int \<Rightarrow> int \<Rightarrow> int \<Rightarrow> string \<times> int" where
  "wrap_posix_strerror_r answer err old_errno =
     (let (result, buf, new_errno) = answer
      in if result = 0 then (buf[length buf - 1 := CHR 0x00], old_errno)
         else let strerror_error = (if new_errno \<noteq> old_errno then new_errno else result)
              in (write_cut (''Error '' @ show_int strerror_error @ '' while retrieving error '' @ show_int err) buf,
                  old_errno))"

text \<open>With glibc the overload for the GNU function is chosen. strerror_r, given the number and the buffer, answers
  with its text, or None for the buffer, and the buffer. No buffer, or an empty one, is left alone.\<close>

definition safe_strerror_r :: "(int \<Rightarrow> string \<Rightarrow> string option \<times> string) \<Rightarrow> int \<Rightarrow> string option \<Rightarrow> string option" where
  "safe_strerror_r strerror_r err buf =
     (case buf of
        None \<Rightarrow> None
      | Some b \<Rightarrow> if length b \<le> 0 then Some b else Some (wrap_gnu_strerror_r (strerror_r err b)))"

text \<open>What is in the buffer at the start is not specified, so it is an argument; buffer_size is its length.\<close>

definition buffer_size :: nat where "buffer_size = 256"

definition safe_strerror :: "(int \<Rightarrow> string \<Rightarrow> string option \<times> string) \<Rightarrow> string \<Rightarrow> int \<Rightarrow> string" where
  "safe_strerror strerror_r junk err =
     takeWhile (\<lambda>c. c \<noteq> CHR 0x00) (the (safe_strerror_r strerror_r err (Some (take buffer_size junk))))"

lemma length_write_cut: "buf \<noteq> [] \<Longrightarrow> length (write_cut t buf) = length buf"
  by (cases buf) (simp_all add: write_cut_def Let_def min_def)

text \<open>With a buffer that is not empty the POSIX wrapper keeps its length, leaves a NUL in it and keeps errno.\<close>

theorem wrap_posix_strerror_r_terminates_text:
  assumes "buf \<noteq> []"
  shows "length (fst (wrap_posix_strerror_r (result, buf, e) err old_errno)) = length buf \<and>
     CHR 0x00 \<in> set (fst (wrap_posix_strerror_r (result, buf, e) err old_errno)) \<and>
     snd (wrap_posix_strerror_r (result, buf, e) err old_errno) = old_errno"
proof -
  have "CHR 0x00 \<in> set (write_cut t buf)" for t by (simp add: write_cut_def Let_def)
  moreover have "CHR 0x00 \<in> set (buf[length buf - 1 := CHR 0x00])"
    using assms set_update_memI [of "length buf - 1" buf] by simp
  ultimately show ?thesis using assms by (auto simp: wrap_posix_strerror_r_def Let_def length_write_cut)
qed

text \<open>When strerror_r answers with a text of its own, safe_strerror gives its first 255 characters, whatever was in
  the buffer.\<close>

lemma safe_strerror_of_static_text:
  assumes "length junk = buffer_size" and "strerror_r err junk = (Some (t @ [CHR 0x00]), b)"
    and "length b = buffer_size" and "CHR 0x00 \<notin> set t"
  shows "safe_strerror strerror_r junk err = take (buffer_size - 1) t"
proof -
  have clean: "takeWhile (\<lambda>c. c \<noteq> CHR 0x00) (t @ [CHR 0x00]) = t" using assms(4) by (auto simp: takeWhile_append)
  have "takeWhile (\<lambda>c. c \<noteq> CHR 0x00) (take n t @ CHR 0x00 # x) = take n t" for n x
    using assms(4) by (subst takeWhile_append2) (auto dest: in_set_takeD)
  then show ?thesis
    using assms(1-3) clean
    by (simp add: safe_strerror_def safe_strerror_r_def wrap_gnu_strerror_r_def write_cut_def Let_def buffer_size_def)
qed

text \<open>ReadFileToString of a file that opens at the n-th attempt and yields chunks until an empty one (the end of the
  file or an error) appends all of them and succeeds.\<close>

lemma ReadFileToString_reads:
  assumes "\<forall>k<n. fst (fopen k) = None \<and> snd (fopen k) = EINTR" and "fst (fopen n) = Some h"
    and "\<forall>k<m. fread h k \<noteq> []" and "fread h m = []"
  shows "ReadFileToString EINTR fopen fread (Some c) = Some (True, Some (c @ concat (map (fread h) [0..<m])))"
proof -
  have "OpenFile EINTR fopen = Some (Some h)"
    unfolding OpenFile_def using assms(1,2)
    by (subst eintr_loop_returns [where n = n]) auto
  moreover have "read_loop (fread h) 0 (Some c) = Some (Some (c @ concat (map (fread h) [0..<m])))"
    using read_loop_returns [of m "fread h" 0 "Some c"] assms(3,4) by simp
  ultimately show ?thesis by (simp add: ReadFileToString_def)
qed

section \<open>pipe2\<close>

text \<open>The descriptor table, with the status flags and the descriptor flags of each descriptor, and errno. The calls of
  fcntl answer in turn as the list says: None is success, Some e failure with errno e; when the list is
  used up they succeed. close may change errno to close_errno.\<close>

record pipe_env =
  O_CLOEXEC :: u32
  O_NONBLOCK :: u32
  FD_CLOEXEC :: u32
  EINVAL :: int
  close_errno :: int

type_synonym fd_table = "int \<Rightarrow> (u32 \<times> u32) option"

definition answer :: "int option list \<Rightarrow> int option \<times> int option list" where
  "answer errs = (case errs of [] \<Rightarrow> (None, []) | e # es \<Rightarrow> (e, es))"

text \<open>Reading and writing the flags of one descriptor after the other; the first failure ends it.\<close>

fun set_flags :: "(u32 \<times> u32 \<Rightarrow> u32 \<times> u32) \<Rightarrow> int list \<Rightarrow> int option list \<Rightarrow> fd_table \<Rightarrow> int option \<times> int option list \<times> fd_table" where
  "set_flags f [] errs fds = (None, errs, fds)"
| "set_flags f (fd # rest) errs fds =
     (case answer errs of
        (Some e, errs) \<Rightarrow> (Some e, errs, fds)
      | (None, errs) \<Rightarrow>
          (case answer errs of
             (Some e, errs) \<Rightarrow> (Some e, errs, fds)
           | (None, errs) \<Rightarrow> set_flags f rest errs (fds(fd := map_option f (fds fd)))))"

text \<open>The result of pipe is an error or the two descriptors. The answer is the result, errno and the table.\<close>

definition pipe2 :: "pipe_env \<Rightarrow> u32 \<Rightarrow> int + (int \<times> int) \<Rightarrow> int option list \<Rightarrow> int \<Rightarrow> fd_table \<Rightarrow> int \<times> int \<times> fd_table" where
  "pipe2 E flags made errs errno fds =
     (if flags AND NOT (O_CLOEXEC E OR O_NONBLOCK E) \<noteq> 0 then (- 1, EINVAL E, fds)
      else case made of
        Inl e \<Rightarrow> (- 1, e, fds)
      | Inr (r, w) \<Rightarrow>
          (let fds = fds(r := Some (0, 0), w := Some (0, 0));
               (failed, errs, fds) =
                 (if flags AND O_NONBLOCK E \<noteq> 0 then set_flags (\<lambda>(s, d). (s OR O_NONBLOCK E, d)) [w, r] errs fds
                  else (None, errs, fds));
               (failed, errs, fds) =
                 (if failed = None \<and> flags AND O_CLOEXEC E \<noteq> 0
                  then set_flags (\<lambda>(s, d). (s, d OR FD_CLOEXEC E)) [w, r] errs fds else (failed, errs, fds))
           in case failed of
                None \<Rightarrow> (0, errno, fds)
              | Some e \<Rightarrow>
                  (let saved_errno = e; fds = fds(r := None); fds = fds(w := None); errno = close_errno E
                   in (- 1, saved_errno, fds))))"

lemma set_flags_frame:
  "set_flags f fs errs fds = (e, errs', fds') \<Longrightarrow> fd \<notin> set fs \<Longrightarrow> fds' fd = fds fd"
  by (induction f fs errs fds arbitrary: rule: set_flags.induct) (auto split: prod.splits option.splits)

lemma set_flags_sets:
  "set_flags f fs errs fds = (None, errs', fds') \<Longrightarrow> distinct fs \<Longrightarrow> fd \<in> set fs \<Longrightarrow> fds' fd = map_option f (fds fd)"
proof (induction f fs errs fds rule: set_flags.induct)
  case (2 f a rest errs fds)
  obtain es es' where ok: "answer errs = (None, es)" "answer es = (None, es')"
    using 2(2) by (auto split: prod.splits option.splits)
  then have run: "set_flags f rest es' (fds(a := map_option f (fds a))) = (None, errs', fds')" using 2(2) by simp
  show ?case
  proof (cases "fd = a")
    case True
    with set_flags_frame [OF run, of a] 2(3) show ?thesis by simp
  next
    case False
    with 2(1) [OF ok(1) [symmetric] refl ok(2) [symmetric] refl run] 2(3,4) show ?thesis by simp
  qed
qed simp

declare set_flags.simps [simp del]

lemma perhaps_set_flags_frame:
  "(if c then set_flags f fs errs fds else (e, errs, fds)) = (e', errs', fds') \<Longrightarrow> fd \<notin> set fs \<Longrightarrow> fds' fd = fds fd"
  using set_flags_frame by (metis Pair_inject)

lemma perhaps_set_flags_sets:
  "(if c then set_flags f fs errs fds else (e, errs, fds)) = (None, errs', fds') \<Longrightarrow> distinct fs \<Longrightarrow> fd \<in> set fs \<Longrightarrow>
   fds' fd = (if c then map_option f (fds fd) else fds fd)"
  by (cases c) (simp_all add: set_flags_sets)

text \<open>C39: Pipe2 either fails, with the descriptors that were open before and no others, or makes two new ones with
  exactly the flags that were asked for.\<close>

theorem pipe2_leaks_nothing:
  assumes "r \<noteq> w" and "fds r = None" and "fds w = None"
    and "pipe2 E flags (Inr (r, w)) errs errno fds = (result, errno', fds')"
  shows "(result = - 1 \<and> fds' = fds) \<or>
     (result = 0 \<and> errno' = errno \<and>
      fds' = fds(r := Some (if flags AND O_NONBLOCK E \<noteq> 0 then O_NONBLOCK E else 0,
                            if flags AND O_CLOEXEC E \<noteq> 0 then FD_CLOEXEC E else 0),
                 w := Some (if flags AND O_NONBLOCK E \<noteq> 0 then O_NONBLOCK E else 0,
                            if flags AND O_CLOEXEC E \<noteq> 0 then FD_CLOEXEC E else 0)))"
proof (cases "flags AND NOT (O_CLOEXEC E OR O_NONBLOCK E) \<noteq> 0")
  case True
  with assms(4) show ?thesis by (simp add: pipe2_def)
next
  case False
  let ?fds0 = "fds(r := Some (0, 0), w := Some (0, 0))"
  obtain failed1 errs1 fds1 where one: "(if flags AND O_NONBLOCK E \<noteq> 0
      then set_flags (\<lambda>(s, d). (s OR O_NONBLOCK E, d)) [w, r] errs ?fds0 else (None, errs, ?fds0)) = (failed1, errs1, fds1)"
    by (rule prod_cases3)
  obtain failed2 errs2 fds2 where two: "(if failed1 = None \<and> flags AND O_CLOEXEC E \<noteq> 0
      then set_flags (\<lambda>(s, d). (s, d OR FD_CLOEXEC E)) [w, r] errs1 fds1 else (failed1, errs1, fds1)) = (failed2, errs2, fds2)"
    by (rule prod_cases3)
  have result: "(result, errno', fds') =
      (case failed2 of None \<Rightarrow> (0, errno, fds2) | Some e \<Rightarrow> (- 1, e, fds2(r := None, w := None)))"
    using False assms(4) one two by (simp add: pipe2_def Let_def split: option.splits)
  have other: "fds2 x = fds x" if "x \<noteq> r" "x \<noteq> w" for x
  proof -
    have x: "x \<notin> set [w, r]" using that by simp
    have "fds1 x = ?fds0 x" by (rule perhaps_set_flags_frame [OF one x])
    moreover have "fds2 x = fds1 x" by (rule perhaps_set_flags_frame [OF two x])
    ultimately show ?thesis using that by simp
  qed
  show ?thesis
  proof (cases failed2)
    case (Some e)
    then have "fds' = fds" using result other assms(2,3) by (auto simp: fun_eq_iff)
    with Some result show ?thesis by simp
  next
    case None
    then have ok: "failed1 = None" using two by (auto split: if_splits)
    have new: "distinct [w, r]" using assms(1) by simp
    have both: "fds2 x = Some (if flags AND O_NONBLOCK E \<noteq> 0 then O_NONBLOCK E else 0,
                               if flags AND O_CLOEXEC E \<noteq> 0 then FD_CLOEXEC E else 0)" if "x = r \<or> x = w" for x
    proof -
      have x: "x \<in> set [w, r]" and at0: "?fds0 x = Some (0, 0)" using that by auto
      show ?thesis
        using perhaps_set_flags_sets [OF one [unfolded ok] new x] perhaps_set_flags_sets [OF two [unfolded None] new x] at0 ok
        by simp
    qed
    have "fds2 = fds(r := Some (if flags AND O_NONBLOCK E \<noteq> 0 then O_NONBLOCK E else 0,
                                if flags AND O_CLOEXEC E \<noteq> 0 then FD_CLOEXEC E else 0),
                     w := Some (if flags AND O_NONBLOCK E \<noteq> 0 then O_NONBLOCK E else 0,
                                if flags AND O_CLOEXEC E \<noteq> 0 then FD_CLOEXEC E else 0))"
    proof
      fix x
      show "fds2 x = (fds(r := Some (if flags AND O_NONBLOCK E \<noteq> 0 then O_NONBLOCK E else 0,
                                if flags AND O_CLOEXEC E \<noteq> 0 then FD_CLOEXEC E else 0),
                     w := Some (if flags AND O_NONBLOCK E \<noteq> 0 then O_NONBLOCK E else 0,
                                if flags AND O_CLOEXEC E \<noteq> 0 then FD_CLOEXEC E else 0))) x"
        using both [of x] other [of x] by (cases "x = w"; cases "x = r") simp_all
    qed
    with None result show ?thesis by simp
  qed
qed

text \<open>On Linux: fcntl refuses the second call for one of the two new descriptors 3 and 4, the standard streams
  stay open.\<close>

theorem pipe2_leaks_nothing_witness:
  "(case pipe2 \<lparr>O_CLOEXEC = 0x80000, O_NONBLOCK = 0x800, FD_CLOEXEC = 1, EINVAL = 22, close_errno = 9\<rparr>
           0x80800 (Inr (3, 4)) [None, Some 5] 0 [0 \<mapsto> (0, 0), 1 \<mapsto> (0, 0), 2 \<mapsto> (0, 0)] of
      (result, errno', fds') \<Rightarrow>
        result = - 1 \<and> errno' = 5 \<and> fds' = [0 \<mapsto> (0, 0), 1 \<mapsto> (0, 0), 2 \<mapsto> (0, 0)])"
proof -
  let ?E = "\<lparr>O_CLOEXEC = 0x80000, O_NONBLOCK = 0x800, FD_CLOEXEC = 1, EINVAL = 22, close_errno = 9\<rparr>"
  let ?fds = "[0 \<mapsto> (0, 0), 1 \<mapsto> (0, 0), 2 \<mapsto> (0, 0)] :: fd_table"
  obtain result errno' fds' where run:
      "pipe2 ?E 0x80800 (Inr (3, 4)) [None, Some 5] 0 ?fds = (result, errno', fds')"
    by (rule prod_cases3)
  from run have failed: "result = - 1" "errno' = 5"
    by (simp_all add: pipe2_def set_flags.simps answer_def)
  show ?thesis using pipe2_leaks_nothing [OF _ _ _ run] failed run by simp
qed

end
