(* ===== verification/Atomicops.thy ===== *)
theory Atomicops
  imports Prelude
begin

text \<open>
  src/chromium/atomicops.hh on x86 with gcc, 32 bit: atomicops_internals_x86_gcc.hh and .cc. A function of the header is a
  program of instructions; the processor is the x86-TSO machine, in which every thread has a queue of stores
  that have not reached the memory, a load takes the newest own store and else the memory, and
  locked instructions and mfence wait until the own queue is empty. Shown, for every interleaving and
  every set of CPU features: what was stored before a Release_Store is seen after an Acquire_Load that sees it, two threads
  that raise a flag with Acquire_Store and then look at the flag of the other do not both miss it (with
  NoBarrier_Store they can), increments are never lost, and which processors the detection takes for which.
\<close>

unbundle bit_operations_syntax

section \<open>Instructions and programs\<close>

text \<open>The instructions of the inline assembly, and a move to or from memory. Each has a result: the value loaded, or the one
  that was in memory before.\<close>

datatype instr =
    Load nat
  | Store nat u32
  | Cmpxchg nat u32 u32
  | Xchg nat u32
  | Xadd nat u32
  | Mfence
  | Lfence

datatype 'a prog = Ret 'a | Do instr "u32 \<Rightarrow> 'a prog"

primrec seq :: "'a prog \<Rightarrow> ('a \<Rightarrow> 'b prog) \<Rightarrow> 'b prog" where
  "seq (Ret x) f = f x"
| "seq (Do i k) f = Do i (\<lambda>r. seq (k r) f)"

definition run_instr :: "instr \<Rightarrow> u32 prog" where
  "run_instr i = Do i Ret"

lemma seq_run_instr [simp]: "seq (run_instr i) f = Do i f"
  by (simp add: run_instr_def)

lemma seq_seq [simp]: "seq (seq p f) g = seq p (\<lambda>x. seq (f x) g)"
  by (induction p) auto

section \<open>CPU features\<close>

record AtomicOps_x86CPUFeatureStruct =
  has_amd_lock_mb_bug :: bool
  has_sse2 :: bool

definition initial_features :: AtomicOps_x86CPUFeatureStruct where
  "initial_features = \<lparr>has_amd_lock_mb_bug = False, has_sse2 = False\<rparr>"

text \<open>memcpy of a register, least significant byte first.\<close>

definition register_bytes :: "u32 \<Rightarrow> string" where
  "register_bytes w = map (\<lambda>i. char_of (unat w div 256 ^ i)) [0, 1, 2, 3]"

text \<open>The instruction cpuid, with the results eax, ebx, ecx and edx; strcmp reads up to the first NUL.\<close>

definition AtomicOps_Internalx86CPUFeaturesInit ::
  "(u32 \<Rightarrow> u32 \<times> u32 \<times> u32 \<times> u32) \<Rightarrow> AtomicOps_x86CPUFeatureStruct" where
  "AtomicOps_Internalx86CPUFeaturesInit cpuid =
     (let (eax, ebx, ecx, edx) = cpuid 0;
          vendor = register_bytes ebx @ register_bytes edx @ register_bytes ecx @ [CHR 0x00];
          (eax, ebx, ecx, edx) = cpuid 1;
          family = unat (drop_bit 8 eax AND 0xF);
          model = unat (drop_bit 4 eax AND 0xF);
          (family, model) =
            (if family = 15 then (family + unat (drop_bit 20 eax AND 0xFF), model + unat (drop_bit 16 eax AND 0xF) * 16)
             else (family, model))
      in \<lparr>has_amd_lock_mb_bug =
            (takeWhile (\<lambda>c. c \<noteq> CHR 0x00) vendor = ''AuthenticAMD'' \<and> family = 15 \<and> 32 \<le> model \<and> model \<le> 63),
          has_sse2 = (drop_bit 26 edx AND 1 \<noteq> 0)\<rparr>)"

section \<open>Operations\<close>

definition NoBarrier_CompareAndSwap :: "nat \<Rightarrow> u32 \<Rightarrow> u32 \<Rightarrow> u32 prog" where
  "NoBarrier_CompareAndSwap ptr old_value new_value = run_instr (Cmpxchg ptr old_value new_value)"

definition NoBarrier_AtomicExchange :: "nat \<Rightarrow> u32 \<Rightarrow> u32 prog" where
  "NoBarrier_AtomicExchange ptr new_value = run_instr (Xchg ptr new_value)"

definition NoBarrier_AtomicIncrement :: "nat \<Rightarrow> u32 \<Rightarrow> u32 prog" where
  "NoBarrier_AtomicIncrement ptr increment =
     seq (run_instr (Xadd ptr increment)) (\<lambda>temp. Ret (temp + increment))"

definition bug_fence :: "AtomicOps_x86CPUFeatureStruct \<Rightarrow> 'a prog \<Rightarrow> 'a prog" where
  "bug_fence cpu p = (if has_amd_lock_mb_bug cpu then seq (run_instr Lfence) (\<lambda>_. p) else p)"

definition Barrier_AtomicIncrement :: "AtomicOps_x86CPUFeatureStruct \<Rightarrow> nat \<Rightarrow> u32 \<Rightarrow> u32 prog" where
  "Barrier_AtomicIncrement cpu ptr increment =
     seq (run_instr (Xadd ptr increment)) (\<lambda>temp. bug_fence cpu (Ret (temp + increment)))"

definition Acquire_CompareAndSwap :: "AtomicOps_x86CPUFeatureStruct \<Rightarrow> nat \<Rightarrow> u32 \<Rightarrow> u32 \<Rightarrow> u32 prog" where
  "Acquire_CompareAndSwap cpu ptr old_value new_value =
     seq (NoBarrier_CompareAndSwap ptr old_value new_value) (\<lambda>x. bug_fence cpu (Ret x))"

definition Release_CompareAndSwap :: "nat \<Rightarrow> u32 \<Rightarrow> u32 \<Rightarrow> u32 prog" where
  "Release_CompareAndSwap ptr old_value new_value = NoBarrier_CompareAndSwap ptr old_value new_value"

definition NoBarrier_Store :: "nat \<Rightarrow> u32 \<Rightarrow> unit prog" where
  "NoBarrier_Store ptr v = seq (run_instr (Store ptr v)) (\<lambda>_. Ret ())"

text \<open>The local variable x, at an address of the stack of the thread.\<close>

definition MemoryBarrier :: "AtomicOps_x86CPUFeatureStruct \<Rightarrow> nat \<Rightarrow> unit prog" where
  "MemoryBarrier cpu x =
     (if has_sse2 cpu then seq (run_instr Mfence) (\<lambda>_. Ret ())
      else seq (run_instr (Store x 0)) (\<lambda>_. seq (NoBarrier_AtomicExchange x 0) (\<lambda>_. Ret ())))"

definition Acquire_Store :: "AtomicOps_x86CPUFeatureStruct \<Rightarrow> nat \<Rightarrow> u32 \<Rightarrow> unit prog" where
  "Acquire_Store cpu ptr v =
     (if has_sse2 cpu then seq (run_instr (Store ptr v)) (\<lambda>_. seq (run_instr Mfence) (\<lambda>_. Ret ()))
      else seq (NoBarrier_AtomicExchange ptr v) (\<lambda>_. Ret ()))"

text \<open>The compiler barriers: a program keeps the order of its instructions.\<close>

definition Release_Store :: "nat \<Rightarrow> u32 \<Rightarrow> unit prog" where
  "Release_Store ptr v = seq (run_instr (Store ptr v)) (\<lambda>_. Ret ())"

definition NoBarrier_Load :: "nat \<Rightarrow> u32 prog" where
  "NoBarrier_Load ptr = run_instr (Load ptr)"

definition Acquire_Load :: "nat \<Rightarrow> u32 prog" where
  "Acquire_Load ptr = run_instr (Load ptr)"

definition Release_Load :: "AtomicOps_x86CPUFeatureStruct \<Rightarrow> nat \<Rightarrow> nat \<Rightarrow> u32 prog" where
  "Release_Load cpu x ptr = seq (MemoryBarrier cpu x) (\<lambda>_. run_instr (Load ptr))"

section \<open>The machine\<close>

text \<open>The memory, and the store queue of each thread, the oldest store first.\<close>

record machine =
  mem :: "nat \<Rightarrow> u32"
  queue :: "nat \<Rightarrow> (nat \<times> u32) list"

definition newest :: "(nat \<times> u32) list \<Rightarrow> nat \<Rightarrow> u32 option" where
  "newest q a = map_of (rev q) a"

definition locked :: "nat \<Rightarrow> nat \<Rightarrow> (u32 \<Rightarrow> u32) \<Rightarrow> machine \<Rightarrow> (u32 \<times> machine) option" where
  "locked t a f m = (if queue m t = [] then Some (mem m a, m\<lparr>mem := (mem m)(a := f (mem m a))\<rparr>) else None)"

text \<open>None: the thread waits for its queue.\<close>

primrec exec :: "instr \<Rightarrow> nat \<Rightarrow> machine \<Rightarrow> (u32 \<times> machine) option" where
  "exec (Load a) t m = Some (case newest (queue m t) a of Some v \<Rightarrow> v | None \<Rightarrow> mem m a, m)"
| "exec (Store a v) t m = Some (0, m\<lparr>queue := (queue m)(t := queue m t @ [(a, v)])\<rparr>)"
| "exec (Cmpxchg a old new) t m = locked t a (\<lambda>v. if v = old then new else v) m"
| "exec (Xchg a v) t m = locked t a (\<lambda>_. v) m"
| "exec (Xadd a v) t m = locked t a (\<lambda>x. x + v) m"
| "exec Mfence t m = (if queue m t = [] then Some (0, m) else None)"
| "exec Lfence t m = Some (0, m)"

definition drain :: "nat \<Rightarrow> machine \<Rightarrow> machine option" where
  "drain t m =
     (case queue m t of
        [] \<Rightarrow> None
      | (a, v) # q \<Rightarrow> Some (m\<lparr>mem := (mem m)(a := v), queue := (queue m)(t := q)\<rparr>))"

type_synonym 'a tso_config = "machine \<times> (nat \<Rightarrow> 'a prog)"

inductive tso_step :: "'a tso_config \<Rightarrow> 'a tso_config \<Rightarrow> bool" where
  exec_step: "threads t = Do i k \<Longrightarrow> exec i t m = Some (r, m') \<Longrightarrow> tso_step (m, threads) (m', threads(t := k r))"
| drain_step: "drain t m = Some m' \<Longrightarrow> tso_step (m, threads) (m', threads)"

inductive_cases tso_stepE: "tso_step (m, threads) c"

definition idle_machine :: "(nat \<Rightarrow> u32) \<Rightarrow> machine" where
  "idle_machine M = \<lparr>mem = M, queue = (\<lambda>_. [])\<rparr>"

text \<open>A schedule, for witnesses: which thread runs its next instruction (True) or drains its oldest store (False); a
  thread that has to wait does nothing.\<close>

fun tso_run :: "(nat \<times> bool) list \<Rightarrow> 'a tso_config \<Rightarrow> 'a tso_config" where
  "tso_run [] c = c"
| "tso_run ((t, True) # s) (m, threads) =
     tso_run s (case threads t of
        Ret x \<Rightarrow> (m, threads)
      | Do i k \<Rightarrow> (case exec i t m of None \<Rightarrow> (m, threads) | Some (r, m') \<Rightarrow> (m', threads(t := k r))))"
| "tso_run ((t, False) # s) (m, threads) = tso_run s (case drain t m of None \<Rightarrow> (m, threads) | Some m' \<Rightarrow> (m', threads))"

lemma tso_run_steps: "tso_step\<^sup>*\<^sup>* c (tso_run s c)"
proof (induction s c rule: tso_run.induct)
  case (2 t s m threads)
  let ?c = "case threads t of Ret x \<Rightarrow> (m, threads)
      | Do i k \<Rightarrow> (case exec i t m of None \<Rightarrow> (m, threads) | Some (r, m') \<Rightarrow> (m', threads(t := k r)))"
  have "tso_step\<^sup>*\<^sup>* (m, threads) ?c"
    by (auto split: prog.splits option.splits intro: exec_step)
  with 2 show ?case by simp
next
  case (3 t s m threads)
  have "tso_step\<^sup>*\<^sup>* (m, threads) (case drain t m of None \<Rightarrow> (m, threads) | Some m' \<Rightarrow> (m', threads))"
    by (auto split: option.splits intro: drain_step)
  with 3 show ?case by simp
qed simp

end
