(* ===== verification/Atomicops_Props.thy ===== *)
theory Atomicops_Props
  imports Atomicops
begin

text \<open>
  Properties of the atomic operations on the x86-TSO machine of theory Atomicops: publication of data
  through Release_Store and Acquire_Load, mutual exclusion by flags, increments, and the detection of CPU features.
\<close>

section \<open>Publication\<close>

text \<open>A thread that stores data and then publishes them by a Release_Store to a word that is 0, as the macros of
  src/chromium/metrics/histogram.hh publish a histogram, and a thread that reads one word of the data if
  its Acquire_Load finds them published.\<close>

fun publish :: "(nat \<times> u32) list \<Rightarrow> nat \<Rightarrow> u32 \<Rightarrow> u32 option prog" where
  "publish [] f p = seq (Release_Store f p) (\<lambda>_. Ret None)"
| "publish ((a, v) # ws) f p = seq (NoBarrier_Store a v) (\<lambda>_. publish ws f p)"

definition consume :: "nat \<Rightarrow> nat \<Rightarrow> u32 option prog" where
  "consume f d =
     seq (Acquire_Load f) (\<lambda>v. if v = 0 then Ret None else seq (NoBarrier_Load d) (\<lambda>w. Ret (Some w)))"

definition publication :: "(nat \<times> u32) list \<Rightarrow> nat \<Rightarrow> u32 \<Rightarrow> (nat \<Rightarrow> nat) \<Rightarrow> (nat \<Rightarrow> u32) \<Rightarrow> u32 option tso_config" where
  "publication ws f p d M = (idle_machine M, \<lambda>t. if t = 0 then publish ws f p else consume f (d t))"

definition apply_stores :: "(nat \<times> u32) list \<Rightarrow> (nat \<Rightarrow> u32) \<Rightarrow> nat \<Rightarrow> u32" where
  "apply_stores ws M = fold (\<lambda>(a, v) M. M(a := v)) ws M"

lemma apply_stores_simps [simp]:
  "apply_stores [] M = M"
  "apply_stores ((a, v) # ws) M = apply_stores ws (M(a := v))"
  "apply_stores (us @ ws) M = apply_stores ws (apply_stores us M)"
  by (simp_all add: apply_stores_def)

lemma apply_stores_other: "a \<notin> fst ` set ws \<Longrightarrow> apply_stores ws M a = M a"
  by (induction ws arbitrary: M) auto

primrec stores :: "(nat \<times> u32) list \<Rightarrow> u32 option prog" where
  "stores [] = Ret None"
| "stores (w # ws) = Do (Store (fst w) (snd w)) (\<lambda>_. stores ws)"

lemma publish_eq: "publish ws f p = stores (ws @ [(f, p)])"
  by (induction ws) (auto simp: Release_Store_def NoBarrier_Store_def)

definition consumer_at :: "nat \<Rightarrow> nat \<Rightarrow> (nat \<Rightarrow> u32) \<Rightarrow> (nat \<Rightarrow> u32) \<Rightarrow> u32 option prog \<Rightarrow> bool" where
  "consumer_at f d G M p =
     (p = consume f d \<or> p = Do (Load d) (\<lambda>w. Ret (Some w)) \<and> M f \<noteq> 0 \<or> p = Ret None \<or> p = Ret (Some (G d)))"

text \<open>Part of the stores is in memory, part in the queue of the first thread, the rest not executed.\<close>

definition pub_inv :: "(nat \<times> u32) list \<Rightarrow> nat \<Rightarrow> u32 \<Rightarrow> (nat \<Rightarrow> nat) \<Rightarrow> (nat \<Rightarrow> u32) \<Rightarrow> u32 option tso_config \<Rightarrow> bool" where
  "pub_inv ws f p d M c =
     (f \<notin> fst ` set ws \<and> M f = 0 \<and>
      (\<exists>us rest. us @ queue (fst c) 0 @ rest = ws @ [(f, p)] \<and> mem (fst c) = apply_stores us M \<and> snd c 0 = stores rest) \<and>
      (\<forall>t. t \<noteq> 0 \<longrightarrow> queue (fst c) t = [] \<and>
         consumer_at f (d t) (apply_stores (ws @ [(f, p)]) M) (mem (fst c)) (snd c t)))"

lemma pub_invI:
  assumes "f \<notin> fst ` set ws" and "M f = 0"
    and "us @ queue m 0 @ rest = ws @ [(f, p)]" and "mem m = apply_stores us M" and "threads 0 = stores rest"
    and "\<And>t. t \<noteq> 0 \<Longrightarrow> queue m t = []"
    and "\<And>t. t \<noteq> 0 \<Longrightarrow> consumer_at f (d t) (apply_stores (ws @ [(f, p)]) M) (mem m) (threads t)"
  shows "pub_inv ws f p d M (m, threads)"
  unfolding pub_inv_def fst_conv snd_conv using assms by blast

lemma published:
  assumes "us @ q @ rest = ws @ [(f, p)]" and "f \<notin> fst ` set ws" and "M f = 0" and "apply_stores us M f \<noteq> 0"
  shows "q = []" and "rest = []" and "apply_stores us M = apply_stores (ws @ [(f, p)]) M"
proof -
  have "q @ rest = []"
  proof (rule ccontr)
    assume "q @ rest \<noteq> []"
    then obtain x y where xy: "q @ rest = x @ [y]" by (metis rev_exhaust)
    with assms(1) have "us @ x @ [y] = ws @ [(f, p)]" by simp
    then have "ws = us @ x" by simp
    with assms(2,3) have "apply_stores us M f = 0" by (simp add: apply_stores_other image_Un)
    with assms(4) show False by simp
  qed
  with assms(1) show "q = []" "rest = []" "apply_stores us M = apply_stores (ws @ [(f, p)]) M" by auto
qed

lemma pub_inv_step:
  assumes inv: "pub_inv ws f p d M c" and "tso_step c c'"
  shows "pub_inv ws f p d M c'"
  using assms(2)
proof cases
  case (exec_step threads t i k m r m')
  obtain us rest where w: "us @ queue m 0 @ rest = ws @ [(f, p)]" "mem m = apply_stores us M" "threads 0 = stores rest"
    using inv exec_step(1) by (auto simp: pub_inv_def)
  have side: "f \<notin> fst ` set ws" "M f = 0" using inv by (simp_all add: pub_inv_def)
  let ?G = "apply_stores (ws @ [(f, p)]) M"
  have others: "queue m u = []" "consumer_at f (d u) ?G (mem m) (threads u)" if "u \<noteq> 0" for u
    using inv that exec_step(1) by (simp_all add: pub_inv_def)
  show ?thesis
  proof (cases "t = 0")
    case True
    with exec_step(3) w(3) obtain a v rest' where rest: "rest = (a, v) # rest'" "i = Store a v" "k = (\<lambda>_. stores rest')"
      by (cases rest) auto
    then have m': "mem m' = mem m" "queue m' = (queue m)(0 := queue m 0 @ [(a, v)])"
      using exec_step(4) True by auto
    have "us @ queue m' 0 @ rest' = ws @ [(f, p)]" using w(1) rest m' by simp
    then show ?thesis unfolding exec_step(2)
      by (intro pub_invI [where us = us and rest = rest']) (use side others w(2) m' rest(3) True in simp_all)
  next
    case False
    from others [OF this] exec_step(3) have load: "(i = Load f \<and> threads t = consume f (d t)) \<or> (i = Load (d t) \<and> k = (\<lambda>w. Ret (Some w)) \<and> mem m f \<noteq> 0)"
      by (auto simp: consumer_at_def consume_def Acquire_Load_def)
    then obtain a where a: "i = Load a" "a = f \<or> a = d t" by auto
    have m': "m' = m" "r = mem m a"
      using exec_step(4) a(1) others(1) [OF False] by (auto simp: newest_def)
    have "consumer_at f (d t) ?G (mem m) (k r)"
      using load
    proof
      assume l: "i = Load f \<and> threads t = consume f (d t)"
      then have "k = (\<lambda>v. if v = 0 then Ret None else Do (Load (d t)) (\<lambda>w. Ret (Some w)))" "a = f"
        using exec_step(3) a by (auto simp: consume_def Acquire_Load_def NoBarrier_Load_def)
      then show ?thesis using m'(2) by (simp add: consumer_at_def)
    next
      assume l: "i = Load (d t) \<and> k = (\<lambda>w. Ret (Some w)) \<and> mem m f \<noteq> 0"
      then have "mem m = ?G" using published(3) [of us "queue m 0" rest ws f p M] w side l by simp
      with l a m'(2) show ?thesis by (simp add: consumer_at_def)
    qed
    then have "consumer_at f (d u) ?G (mem m) ((threads(t := k r)) u)" if "u \<noteq> 0" for u
      using others(2) [OF that] by (cases "u = t") simp_all
    then show ?thesis unfolding exec_step(2) m'(1) using others(1) w False
      by (intro pub_invI [where us = us and rest = rest]) (use side in simp_all)
  qed
next
  case (drain_step t m m' threads)
  obtain us rest where w: "us @ queue m 0 @ rest = ws @ [(f, p)]" "mem m = apply_stores us M" "threads 0 = stores rest"
    using inv drain_step(1) by (auto simp: pub_inv_def)
  have side: "f \<notin> fst ` set ws" "M f = 0" using inv by (simp_all add: pub_inv_def)
  let ?G = "apply_stores (ws @ [(f, p)]) M"
  have others: "queue m u = []" "consumer_at f (d u) ?G (mem m) (threads u)" if "u \<noteq> 0" for u
    using inv that drain_step(1) by (simp_all add: pub_inv_def)
  have t: "t = 0" using others(1) [of t] drain_step(3) by (cases "t = 0") (auto simp: drain_def)
  then obtain a v q where q: "queue m 0 = (a, v) # q" "m' = m\<lparr>mem := (mem m)(a := v), queue := (queue m)(0 := q)\<rparr>"
    using drain_step(3) by (auto simp: drain_def split: list.splits)
  have "mem m f = 0" using published(1) [of us "queue m 0" rest ws f p M] w(1,2) side q(1) by auto
  then have "consumer_at f (d u) ?G (mem m') (threads u)" if "u \<noteq> 0" for u
    using others(2) [OF that] by (auto simp: consumer_at_def)
  moreover have "(us @ [(a, v)]) @ queue m' 0 @ rest = ws @ [(f, p)] \<and> mem m' = apply_stores (us @ [(a, v)]) M"
    using w q by simp
  ultimately show ?thesis unfolding drain_step(2)
    using others(1) w(3) q(2) by (intro pub_invI [where us = "us @ [(a, v)]" and rest = rest]) (use side in simp_all)
qed

lemma pub_inv_start:
  assumes "f \<notin> fst ` set ws" and "M f = 0"
  shows "pub_inv ws f p d M (publication ws f p d M)"
proof -
  have "[] @ queue (idle_machine M) 0 @ ws @ [(f, p)] = ws @ [(f, p)] \<and> mem (idle_machine M) = apply_stores [] M"
    by (simp add: idle_machine_def)
  with assms show ?thesis
    unfolding pub_inv_def publication_def
    by (simp add: idle_machine_def publish_eq consumer_at_def) (metis append_Nil apply_stores_simps(1))
qed

interpretation pub: invariant_system
  "\<lambda>c. f \<notin> fst ` set ws \<and> M f = 0 \<and> c = publication ws f p d M" tso_step "pub_inv ws f p d M"
  for ws f p d M
  by unfold_locales (auto intro: pub_inv_start pub_inv_step)



section \<open>Flags\<close>

text \<open>Raise a flag, then look at the other one; two threads do so with the flags exchanged.\<close>

definition raise_and_look :: "AtomicOps_x86CPUFeatureStruct \<Rightarrow> nat \<Rightarrow> nat \<Rightarrow> u32 prog" where
  "raise_and_look cpu a b = seq (Acquire_Store cpu a 1) (\<lambda>_. NoBarrier_Load b)"

definition two_flags :: "(nat \<Rightarrow> nat \<Rightarrow> u32 prog) \<Rightarrow> nat \<Rightarrow> nat \<Rightarrow> u32 tso_config" where
  "two_flags p x y = (idle_machine (\<lambda>_. 0), \<lambda>t. if t = 0 then p x y else if t = 1 then p y x else Ret 0)"

definition looker :: "AtomicOps_x86CPUFeatureStruct \<Rightarrow> nat \<Rightarrow> nat \<Rightarrow> u32 prog \<Rightarrow> (nat \<times> u32) list \<Rightarrow> (nat \<Rightarrow> u32) \<Rightarrow> bool" where
  "looker cpu a b p q M =
     (p = raise_and_look cpu a b \<and> q = [] \<or>
      p = Do Mfence (\<lambda>_. Do (Load b) Ret) \<and> q = [(a, 1)] \<or>
      (p = Do Mfence (\<lambda>_. Do (Load b) Ret) \<or> p = Do (Load b) Ret \<or> (\<exists>v. p = Ret v)) \<and> q = [] \<and> M a = 1)"

lemma raise_and_look_eq:
  "raise_and_look cpu a b =
     (if has_sse2 cpu then Do (Store a 1) (\<lambda>_. Do Mfence (\<lambda>_. Do (Load b) Ret)) else Do (Xchg a 1) (\<lambda>_. Do (Load b) Ret))"
  by (simp add: raise_and_look_def Acquire_Store_def NoBarrier_AtomicExchange_def NoBarrier_Load_def run_instr_def)

lemma looker_exec:
  assumes "looker cpu a b (Do i k) (queue m t) (mem m)" and "exec i t m = Some (r, m')" and "a \<noteq> b"
  shows "looker cpu a b (k r) (queue m' t) (mem m')" and "mem m' b = mem m b"
    and "u \<noteq> t \<Longrightarrow> queue m' u = queue m u" and "k r = Ret v \<Longrightarrow> v = mem m b"
  using assms by (auto simp: looker_def raise_and_look_eq locked_def newest_def split: if_splits)

lemma looker_drain:
  assumes "looker cpu a b p (queue m t) (mem m)" and "drain t m = Some m'" and "a \<noteq> b"
  shows "looker cpu a b p (queue m' t) (mem m')" and "mem m' b = mem m b"
    and "u \<noteq> t \<Longrightarrow> queue m' u = queue m u" and "p \<noteq> Ret v"
  using assms by (auto simp: looker_def raise_and_look_eq drain_def split: if_splits)

lemma looker_cong: "looker cpu a b p q M \<Longrightarrow> M' a = M a \<Longrightarrow> looker cpu a b p q M'"
  by (simp add: looker_def)

lemma looker_Ret: "looker cpu a b (Ret v) q M \<Longrightarrow> M a = 1"
  by (auto simp: looker_def raise_and_look_eq split: if_splits)

definition flags_inv :: "AtomicOps_x86CPUFeatureStruct \<Rightarrow> (nat \<Rightarrow> nat) \<Rightarrow> u32 tso_config \<Rightarrow> bool" where
  "flags_inv cpu fl c =
     (fl 0 \<noteq> fl 1 \<and>
      looker cpu (fl 0) (fl 1) (snd c 0) (queue (fst c) 0) (mem (fst c)) \<and>
      looker cpu (fl 1) (fl 0) (snd c 1) (queue (fst c) 1) (mem (fst c)) \<and>
      (\<forall>t. 2 \<le> t \<longrightarrow> queue (fst c) t = [] \<and> snd c t = Ret 0) \<and>
      (\<forall>r s. snd c 0 = Ret r \<longrightarrow> snd c 1 = Ret s \<longrightarrow> r = 1 \<or> s = 1))"

lemma flags_inv_pair:
  assumes "flags_inv cpu fl (m, threads)" and "t < 2"
  shows "looker cpu (fl t) (fl (1 - t)) (threads t) (queue m t) (mem m)"
    and "looker cpu (fl (1 - t)) (fl t) (threads (1 - t)) (queue m (1 - t)) (mem m)" and "fl t \<noteq> fl (1 - t)"
proof -
  have "t = 0 \<or> t = 1" using assms(2) by auto
  with assms(1) show "looker cpu (fl t) (fl (1 - t)) (threads t) (queue m t) (mem m)"
    "looker cpu (fl (1 - t)) (fl t) (threads (1 - t)) (queue m (1 - t)) (mem m)" "fl t \<noteq> fl (1 - t)"
    by (auto simp: flags_inv_def)
qed

lemma flags_invI:
  assumes "flags_inv cpu fl (m, threads)" and "t < 2"
    and "looker cpu (fl t) (fl (1 - t)) p (queue m' t) (mem m')" and "mem m' (fl (1 - t)) = mem m (fl (1 - t))"
    and "\<And>u. u \<noteq> t \<Longrightarrow> queue m' u = queue m u"
    and "\<And>r s. p = Ret r \<Longrightarrow> threads (1 - t) = Ret s \<Longrightarrow> r = 1 \<or> s = 1"
  shows "flags_inv cpu fl (m', threads(t := p))"
proof -
  have t: "t = 0 \<or> t = 1" using assms(2) by auto
  have other: "looker cpu (fl (1 - t)) (fl t) (threads (1 - t)) (queue m' (1 - t)) (mem m')"
    using looker_cong [of cpu "fl (1 - t)" "fl t" "threads (1 - t)" "queue m (1 - t)" "mem m" "mem m'"]
      flags_inv_pair(2) [OF assms(1,2)] assms(4) assms(5) [of "1 - t"] t by auto
  have "looker cpu (fl 0) (fl 1) ((threads(t := p)) 0) (queue m' 0) (mem m')"
    "looker cpu (fl 1) (fl 0) ((threads(t := p)) 1) (queue m' 1) (mem m')"
    using t assms(3) other by auto
  moreover have "queue m' u = [] \<and> (threads(t := p)) u = Ret 0" if "2 \<le> u" for u
    using that t assms(1,5) by (auto simp: flags_inv_def)
  moreover have "r = 1 \<or> s = 1" if "(threads(t := p)) 0 = Ret r" "(threads(t := p)) 1 = Ret s" for r s
    using that t assms(6) [of r s] assms(6) [of s r] by auto
  ultimately show ?thesis using assms(1) by (simp add: flags_inv_def)
qed

lemma flags_inv_step:
  assumes inv: "flags_inv cpu fl c" and "tso_step c c'"
  shows "flags_inv cpu fl c'"
  using assms(2)
proof cases
  case (exec_step threads t i k m r m')
  have t: "t < 2" using inv exec_step(1,3) by (auto simp: flags_inv_def not_less [symmetric])
  note pair = flags_inv_pair [OF inv [unfolded exec_step(1)] t]
  note run = looker_exec [OF pair(1) [unfolded exec_step(3)] exec_step(4) pair(3)]
  have "v = 1 \<or> s = 1" if "k r = Ret v" "threads (1 - t) = Ret s" for v s
    using run(4) [OF that(1)] looker_Ret [of cpu "fl (1 - t)"] pair(2) that(2) by auto
  then show ?thesis unfolding exec_step(2)
    by (intro flags_invI [OF inv [unfolded exec_step(1)] t run(1,2)]) (use run(3) in auto)
next
  case (drain_step t m m' threads)
  have t: "t < 2" using inv drain_step(1,3) by (auto simp: flags_inv_def drain_def not_less [symmetric])
  note pair = flags_inv_pair [OF inv [unfolded drain_step(1)] t]
  note run = looker_drain [OF pair(1) drain_step(3) pair(3)]
  have "flags_inv cpu fl (m', threads(t := threads t))"
    by (intro flags_invI [OF inv [unfolded drain_step(1)] t run(1,2)]) (use run(3,4) in auto)
  then show ?thesis unfolding drain_step(2) by simp
qed

lemma flags_inv_start:
  assumes "x \<noteq> y"
  shows "flags_inv cpu (\<lambda>t. if t = 0 then x else y) (two_flags (raise_and_look cpu) x y)"
proof -
  have "raise_and_look cpu a b \<noteq> Ret r" for a b r by (simp add: raise_and_look_eq)
  then show ?thesis using assms by (simp add: flags_inv_def two_flags_def looker_def idle_machine_def)
qed

interpretation two: invariant_system
  "\<lambda>c. x \<noteq> y \<and> c = two_flags (raise_and_look cpu) x y" tso_step "flags_inv cpu (\<lambda>t. if t = 0 then x else y)"
  for x y cpu
  by unfold_locales (auto intro: flags_inv_start flags_inv_step)

text \<open>C36: Two threads that raise their flag with Acquire_Store and then look at the flag of the other: on every processor, at
  least one of them sees the flag of the other raised.\<close>

theorem raised_flags_are_seen:
  assumes "x \<noteq> y" and "tso_step\<^sup>*\<^sup>* (two_flags (raise_and_look cpu) x y) (m, threads)"
    and "threads 0 = Ret r" and "threads 1 = Ret s"
  shows "r = 1 \<or> s = 1"
proof -
  have "flags_inv cpu (\<lambda>t. if t = 0 then x else y) (m, threads)" using two.reach_inv assms(1,2) by blast
  with assms(3,4) show ?thesis by (simp add: flags_inv_def)
qed

theorem raised_flags_are_seen_witness:
  "\<exists>m threads. tso_step\<^sup>*\<^sup>* (two_flags (raise_and_look \<lparr>has_amd_lock_mb_bug = False, has_sse2 = True\<rparr>) 10 20) (m, threads) \<and>
     threads 0 = Ret 0 \<and> threads 1 = Ret 1"
proof -
  let ?c = "two_flags (raise_and_look \<lparr>has_amd_lock_mb_bug = False, has_sse2 = True\<rparr>) 10 20"
  let ?s = "[(0, True), (1, True), (0, False), (0, True), (0, True), (1, True), (1, False), (1, True), (1, True)]"
  obtain m threads where run: "tso_run ?s ?c = (m, threads)" by (rule prod.exhaust)
  then have zero: "threads 0 = Ret 0" and "\<exists>s. threads 1 = Ret s"
    by (auto simp: two_flags_def idle_machine_def raise_and_look_eq drain_def newest_def)
  then obtain s where one: "threads 1 = Ret s" by blast
  have reach: "tso_step\<^sup>*\<^sup>* ?c (m, threads)" using tso_run_steps [of ?c ?s] run by simp
  have "s = 1" using raised_flags_are_seen [OF _ reach zero one] by simp
  with reach zero one show ?thesis by auto
qed

text \<open>With NoBarrier_Store or Release_Store in place of Acquire_Store both can miss the flag of the other.\<close>

theorem raised_flags_can_be_missed:
  "\<exists>m threads. tso_step\<^sup>*\<^sup>* (two_flags (\<lambda>a b. seq (Release_Store a 1) (\<lambda>_. NoBarrier_Load b)) 10 20) (m, threads) \<and>
     threads 0 = Ret 0 \<and> threads 1 = Ret 0"
proof -
  let ?c = "two_flags (\<lambda>a b. seq (Release_Store a 1) (\<lambda>_. NoBarrier_Load b)) 10 20"
  let ?s = "[(0, True), (0, True), (1, True), (1, True)]"
  obtain m threads where run: "tso_run ?s ?c = (m, threads)" by (rule prod.exhaust)
  then have "threads 0 = Ret 0 \<and> threads 1 = Ret 0"
    by (auto simp: two_flags_def idle_machine_def Release_Store_def NoBarrier_Load_def run_instr_def newest_def)
  with tso_run_steps [of ?c ?s] run show ?thesis by auto
qed

section \<open>Increments\<close>

definition target :: "instr \<Rightarrow> nat option" where
  "target i = (case i of Store a v \<Rightarrow> Some a | Cmpxchg a old new \<Rightarrow> Some a | Xchg a v \<Rightarrow> Some a | Xadd a v \<Rightarrow> Some a | _ \<Rightarrow> None)"

text \<open>A program that, however it goes on, adds s to the word and does not write it otherwise.\<close>

inductive adds :: "nat \<Rightarrow> 'a prog \<Rightarrow> u32 \<Rightarrow> bool" for a where
  adds_Ret: "adds a (Ret x) 0"
| adds_Xadd: "(\<And>r. adds a (k r) s) \<Longrightarrow> adds a (Do (Xadd a v) k) (v + s)"
| adds_other: "target i \<noteq> Some a \<Longrightarrow> (\<And>r. adds a (k r) s) \<Longrightarrow> adds a (Do i k) s"

inductive_cases adds_DoE: "adds a (Do i k) s"
inductive_cases adds_RetE: "adds a (Ret x) s"

lemma adds_increment:
  assumes "\<And>x. adds a (f x) s"
  shows "adds a (seq (NoBarrier_AtomicIncrement a v) f) (v + s)" and "adds a (seq (Barrier_AtomicIncrement cpu a v) f) (v + s)"
proof -
  have "adds a (seq (bug_fence cpu (Ret x)) f) s" for x
    using assms by (auto simp: bug_fence_def run_instr_def target_def intro: adds_other)
  then show "adds a (seq (Barrier_AtomicIncrement cpu a v) f) (v + s)"
    by (auto simp: Barrier_AtomicIncrement_def intro: adds_Xadd)
qed (auto simp: NoBarrier_AtomicIncrement_def assms intro: adds_Xadd)

text \<open>Of the first n threads, thread t has still to add rem t; nothing in a queue is for the word.\<close>

definition count_inv :: "nat \<Rightarrow> nat \<Rightarrow> u32 \<Rightarrow> 'a tso_config \<Rightarrow> bool" where
  "count_inv a n whole c =
     (\<exists>rem. (\<forall>t. adds a (snd c t) (rem t) \<and> a \<notin> fst ` set (queue (fst c) t)) \<and> (\<forall>t\<ge>n. \<exists>x. snd c t = Ret x) \<and>
        mem (fst c) a + (\<Sum>t<n. rem t) = whole)"

lemma sum_upd: "t < n \<Longrightarrow> (\<Sum>u<n. (f(t := x)) u) = (\<Sum>u<n. f u) - f t + (x :: 'b :: ab_group_add)" for n :: nat
  by (simp add: sum.remove [of "{..<n}" t])

lemma exec_other:
  assumes "exec i t m = Some (r, m')" and "target i \<noteq> Some a"
  shows "mem m' a = mem m a" and "a \<notin> fst ` set (queue m u) \<Longrightarrow> a \<notin> fst ` set (queue m' u)"
  using assms by (cases i; auto simp: target_def locked_def split: if_splits)+

lemma drain_other:
  assumes "drain t m = Some m'" and "\<forall>u. a \<notin> fst ` set (queue m u)"
  shows "mem m' a = mem m a" and "\<forall>u. a \<notin> fst ` set (queue m' u)"
proof -
  obtain b v q where q: "queue m t = (b, v) # q" "m' = m\<lparr>mem := (mem m)(b := v), queue := (queue m)(t := q)\<rparr>"
    using assms(1) by (auto simp: drain_def split: list.splits)
  moreover have "a \<notin> fst ` set (queue m t)" using assms(2) by blast
  ultimately show "mem m' a = mem m a" "\<forall>u. a \<notin> fst ` set (queue m' u)" using assms(2) by auto
qed

lemma exec_adds:
  assumes "adds a (Do i k) s" and "exec i t m = Some (r, m')" and "\<forall>t. a \<notin> fst ` set (queue m t)"
  obtains s' where "adds a (k r) s'" "mem m' a + s' = mem m a + s" "\<forall>t. a \<notin> fst ` set (queue m' t)"
proof -
  consider (xadd) v s' where "i = Xadd a v" "s = v + s'" "adds a (k r) s'" | (other) "target i \<noteq> Some a" "adds a (k r) s"
    using assms(1) by (auto elim: adds_DoE)
  then show ?thesis
  proof cases
    case xadd
    then have "r = mem m a" "queue m' = queue m" "mem m' a = mem m a + v"
      using assms(2) by (auto simp: locked_def split: if_splits)
    with xadd assms(3) show ?thesis by (intro that [of s']) simp_all
  next
    case other
    note frame = exec_other [OF assms(2) other(1)]
    show ?thesis by (rule that [OF other(2)]) (use frame assms(3) in simp_all)
  qed
qed

lemma count_inv_step:
  assumes inv: "count_inv a n whole c" and "tso_step c c'"
  shows "count_inv a n whole c'"
  using assms(2)
proof cases
  case (exec_step threads t i k m r m')
  obtain rem where adds: "\<And>u. adds a (threads u) (rem u)" and clean: "\<forall>u. a \<notin> fst ` set (queue m u)"
    and rest: "\<And>u. n \<le> u \<Longrightarrow> \<exists>x. threads u = Ret x" and whole: "mem m a + (\<Sum>u<n. rem u) = whole"
    using inv by (auto simp: count_inv_def exec_step(1))
  have t: "t < n" using rest [of t] exec_step(3) by (cases "n \<le> t") auto
  obtain s' where s': "adds a (k r) s'" "mem m' a + s' = mem m a + rem t" "\<forall>u. a \<notin> fst ` set (queue m' u)"
    using exec_adds [OF _ exec_step(4) clean, of k "rem t"] adds [of t] exec_step(3) by auto
  have mem': "mem m' a = mem m a + rem t - s'" using s'(2) by (metis add_diff_cancel_right')
  have "mem m' a + (\<Sum>u<n. (rem(t := s')) u) = whole"
    unfolding sum_upd [OF t] mem' whole [symmetric] by simp
  moreover have "adds a ((threads(t := k r)) u) ((rem(t := s')) u)" for u using adds s'(1) by simp
  moreover have "\<exists>x. (threads(t := k r)) u = Ret x" if "n \<le> u" for u using rest [OF that] that t by auto
  ultimately show ?thesis using s'(3) unfolding count_inv_def exec_step(2) fst_conv snd_conv by blast
next
  case (drain_step t m m' threads)
  have "\<forall>u. a \<notin> fst ` set (queue m u)" using inv by (auto simp: count_inv_def drain_step(1))
  note frame = drain_other [OF drain_step(3) this]
  show ?thesis using inv frame(2) unfolding count_inv_def drain_step(1,2) fst_conv snd_conv frame(1) by blast
qed

text \<open>Threads that count in one word, each a list of increments with or without barrier.\<close>

fun increments :: "AtomicOps_x86CPUFeatureStruct \<Rightarrow> nat \<Rightarrow> (bool \<times> u32) list \<Rightarrow> u32 list \<Rightarrow> u32 list prog" where
  "increments cpu a [] results = Ret results"
| "increments cpu a ((barrier, v) # is) results =
     seq (if barrier then Barrier_AtomicIncrement cpu a v else NoBarrier_AtomicIncrement a v)
       (\<lambda>x. increments cpu a is (results @ [x]))"

lemma adds_increments: "adds a (increments cpu a is results) (sum_list (map snd is))"
proof (induction "is" arbitrary: results)
  case (Cons i "is")
  then show ?case by (cases i) (auto intro!: adds_increment)
qed (simp add: adds_Ret)

definition counting :: "AtomicOps_x86CPUFeatureStruct \<Rightarrow> nat \<Rightarrow> nat \<Rightarrow> (nat \<Rightarrow> (bool \<times> u32) list) \<Rightarrow> (nat \<Rightarrow> u32) \<Rightarrow> u32 list tso_config" where
  "counting cpu a n is M = (idle_machine M, \<lambda>t. if t < n then increments cpu a (is t) [] else Ret [])"

lemma count_inv_start: "count_inv a n (M a + (\<Sum>t<n. sum_list (map snd (is t)))) (counting cpu a n is M)"
proof -
  have "adds a (if t < n then increments cpu a (is t) [] else Ret []) (if t < n then sum_list (map snd (is t)) else 0)" for t
    by (simp add: adds_increments adds_Ret)
  moreover have "(\<Sum>t<n. if t < n then sum_list (map snd (is t)) else 0) = (\<Sum>t<n. sum_list (map snd (is t)))"
    by (rule sum.cong) auto
  ultimately show ?thesis
    unfolding count_inv_def counting_def fst_conv snd_conv
    by (intro exI [of _ "\<lambda>t. if t < n then sum_list (map snd (is t)) else 0"]) (simp add: idle_machine_def)
qed

interpretation cnt: invariant_system
  "\<lambda>c. c = counting cpu a n is M" tso_step "count_inv a n (M a + (\<Sum>t<n. sum_list (map snd (is t))))"
  for cpu a n "is" M
  by unfold_locales (auto intro: count_inv_start count_inv_step)

text \<open>However many threads count in a word and however they interleave, when all are done the word holds the sum of all
  increments modulo 2 to the 32.\<close>

theorem increments_are_not_lost:
  assumes "tso_step\<^sup>*\<^sup>* (counting cpu a n is M) (m, threads)" and "\<forall>t. \<exists>x. threads t = Ret x"
  shows "mem m a = M a + (\<Sum>t<n. sum_list (map snd (is t)))"
proof -
  have "count_inv a n (M a + (\<Sum>t<n. sum_list (map snd (is t)))) (m, threads)" using cnt.reach_inv [OF refl assms(1)] .
  then obtain rem where rem: "\<And>t. adds a (threads t) (rem t)"
    "mem m a + (\<Sum>t<n. rem t) = M a + (\<Sum>t<n. sum_list (map snd (is t)))"
    by (auto simp: count_inv_def)
  have "rem t = 0" for t using rem(1) [of t] assms(2) by (metis adds_RetE)
  with rem(2) show ?thesis by simp
qed

text \<open>An increment returns the value it has made.\<close>

lemma increment_result:
  "exec (Xadd a v) t m = Some (r, m') \<Longrightarrow> r + v = mem m' a"
  by (auto simp: locked_def split: if_splits)

section \<open>CPU features\<close>

lemma register_bytes_inj: "register_bytes w = register_bytes w' \<longleftrightarrow> w = w'"
proof
  assume "register_bytes w = register_bytes w'"
  then have eq: "unat w mod 256 = unat w' mod 256" "unat w div 256 mod 256 = unat w' div 256 mod 256"
    "unat w div 65536 mod 256 = unat w' div 65536 mod 256" "unat w div 16777216 mod 256 = unat w' div 16777216 mod 256"
    by (simp_all add: register_bytes_def char_of_eq_iff take_bit_eq_mod)
  have same: "x mod 256 = y mod 256 \<Longrightarrow> x div 256 = y div 256 \<Longrightarrow> x = y" for x y :: nat
    by (metis div_mult_mod_eq)
  have "unat x div 16777216 < 256" for x :: u32
  proof -
    have "unat x < 2 ^ LENGTH(32)" by (rule unsigned_less)
    then show ?thesis by (simp add: less_mult_imp_div_less)
  qed
  then have d3: "unat w div 16777216 = unat w' div 16777216" using eq(4) by (metis mod_less)
  have steps: "x div 65536 div 256 = x div 16777216" "x div 256 div 256 = x div 65536" for x :: nat
    by (simp_all only: div_mult2_eq [symmetric]) simp_all
  have d2: "unat w div 65536 = unat w' div 65536" by (rule same [OF eq(3)]) (simp only: steps d3)
  have d1: "unat w div 256 = unat w' div 256" by (rule same [OF eq(2)]) (simp only: steps d2)
  have "unat w = unat w'" by (rule same [OF eq(1) d1])
  then show "w = w'" by (simp only: word_unat_eq_iff)
qed simp

lemma length_register_bytes [simp]: "length (register_bytes w) = 4"
  by (simp add: register_bytes_def)

lemma cstring_eq:
  assumes "CHR 0x00 \<notin> set s" and "length v = length s"
  shows "takeWhile (\<lambda>c. c \<noteq> CHR 0x00) (v @ [CHR 0x00]) = s \<longleftrightarrow> v = s"
proof
  assume "takeWhile (\<lambda>c. c \<noteq> CHR 0x00) (v @ [CHR 0x00]) = s"
  moreover have "takeWhile (\<lambda>c. c \<noteq> CHR 0x00) (v @ [CHR 0x00]) = takeWhile (\<lambda>c. c \<noteq> CHR 0x00) v"
    by (induction v) auto
  ultimately have v: "takeWhile (\<lambda>c. c \<noteq> CHR 0x00) v = s" by simp
  then have "take (length v) v = s" using takeWhile_eq_take [of "\<lambda>c. c \<noteq> CHR 0x00" v] assms(2) by simp
  then show "v = s" by simp
next
  assume "v = s"
  show "takeWhile (\<lambda>c. c \<noteq> CHR 0x00) (v @ [CHR 0x00]) = s"
    unfolding \<open>v = s\<close> by (rule takeWhile_append_stop) (use assms(1) in auto)
qed

lemma AuthenticAMD_bytes:
  "''AuthenticAMD'' = register_bytes 0x68747541 @ register_bytes 0x69746E65 @ register_bytes 0x444D4163"
  by (simp add: register_bytes_def char_of_def bit_0)

lemma three_registers:
  "takeWhile (\<lambda>c. c \<noteq> CHR 0x00) (register_bytes b @ register_bytes d @ register_bytes c @ [CHR 0x00]) = ''AuthenticAMD'' \<longleftrightarrow>
     b = 0x68747541 \<and> d = 0x69746E65 \<and> c = 0x444D4163"
proof -
  let ?v = "register_bytes b @ register_bytes d @ register_bytes c"
  have "takeWhile (\<lambda>c. c \<noteq> CHR 0x00) (?v @ [CHR 0x00]) = ''AuthenticAMD'' \<longleftrightarrow> ?v = ''AuthenticAMD''"
    by (rule cstring_eq) simp_all
  then have "takeWhile (\<lambda>c. c \<noteq> CHR 0x00) (register_bytes b @ register_bytes d @ register_bytes c @ [CHR 0x00]) = ''AuthenticAMD'' \<longleftrightarrow>
      ?v = ''AuthenticAMD''" by (simp only: append_assoc)
  also have "\<dots> \<longleftrightarrow> b = 0x68747541 \<and> d = 0x69746E65 \<and> c = 0x444D4163"
    by (simp only: AuthenticAMD_bytes append_eq_append_conv length_register_bytes register_bytes_inj disj_not1 simp_thms)
  finally show ?thesis .
qed

lemma low_nibble: "unat (w AND 0xF :: u32) < 16"
proof -
  have "unat (w AND 0xF) \<le> unat (0xF :: u32)" by (simp only: word_le_nat_alt [symmetric] word_and_le1)
  then show ?thesis by simp
qed

text \<open>The lock bug is assumed exactly of AMD processors of the base family 15 with no extended family and the extended
  model 2 or 3; mfence is used exactly when bit 26 of edx is set.\<close>

theorem detected_features:
  assumes "cpuid 0 = (eax0, ebx0, ecx0, edx0)" and "cpuid 1 = (eax1, ebx1, ecx1, edx1)"
  shows "AtomicOps_Internalx86CPUFeaturesInit cpuid =
     \<lparr>has_amd_lock_mb_bug =
        (ebx0 = 0x68747541 \<and> edx0 = 0x69746E65 \<and> ecx0 = 0x444D4163 \<and>
         drop_bit 8 eax1 AND 0xF = 15 \<and> drop_bit 20 eax1 AND 0xFF = 0 \<and>
         (drop_bit 16 eax1 AND 0xF = 2 \<or> drop_bit 16 eax1 AND 0xF = 3)),
      has_sse2 = bit edx1 26\<rparr>"
proof -
  have nat_eq: "(x = of_nat n) = (unat x = n)" if "n < 4294967296" for x :: u32 and n
    using that by (auto simp: unat_of_nat word_unat_eq_iff)
  have sse: "(drop_bit 26 edx1 AND 1 \<noteq> 0) = bit edx1 26" by (simp add: and_one_eq bit_iff_odd_drop_bit odd_iff_mod_2_eq_one)
  let ?ext = "unat (drop_bit 16 eax1 AND 0xF)" and ?base = "unat (drop_bit 4 eax1 AND 0xF)"
  have range: "32 \<le> ?base + ?ext * 16 \<and> ?base + ?ext * 16 \<le> 63 \<longleftrightarrow> ?ext = 2 \<or> ?ext = 3"
    using low_nibble [of "drop_bit 4 eax1"] by linarith
  show ?thesis
    using nat_eq [of 15 "drop_bit 8 eax1 AND 0xF"] nat_eq [of 0 "drop_bit 20 eax1 AND 0xFF"]
      nat_eq [of 2 "drop_bit 16 eax1 AND 0xF"] nat_eq [of 3 "drop_bit 16 eax1 AND 0xF"] range sse
      low_nibble [of "drop_bit 4 eax1"]
    by (simp add: AtomicOps_Internalx86CPUFeaturesInit_def assms Let_def three_registers del: append.simps)
qed

end
