(* ===== verification/Rfa_Text.thy ===== *)
theory Rfa_Text
  imports Rfa_Config Histogram_Ascii
begin

text \<open>
  Texts that src/rfa.cc and src/rfa_logging.cc write to the log: the configuration database of RFA as a registry file, and
  the events of the RFA logger. Shown: a reader of the registry file attributes every value to the tree that holds it
  when in each tree the values come before the subtrees, and to the wrong tree in general when they do not.
\<close>

section \<open>The configuration database\<close>

text \<open>A tree has its full name and its nodes in the order of the iterator; the other types of nodes are printed alike.\<close>

datatype config_node =
    ConfigTree string "config_node list"
  | ConfigLong string u32
  | ConfigBool string bool
  | ConfigString string string
  | OtherNode string

definition kAppName :: string where "kAppName = ''Torikuru''"

definition registry_heading :: "string \<Rightarrow> string" where
  "registry_heading name =
     [CHR 0x0A] @ ''[HKEY_LOCAL_MACHINE'' @ [CHR 0x5C] @ ''SOFTWARE'' @ [CHR 0x5C] @ ''Reuters'' @ [CHR 0x5C] @ ''RFA'' @
     [CHR 0x5C] @ kAppName @ name @ '']'' @ [CHR 0x0A]"

definition in_quotes :: "string \<Rightarrow> string" where
  "in_quotes s = [CHR 0x22] @ s @ [CHR 0x22]"

primrec print_ConfigTree :: "config_node \<Rightarrow> string" where
  "print_ConfigTree (ConfigTree full_name nodes) = registry_heading full_name @ concat (map print_ConfigTree nodes)"
| "print_ConfigTree (ConfigLong name v) = in_quotes name @ ''=dword:'' @ show_hex v @ [CHR 0x0A]"
| "print_ConfigTree (ConfigBool name v) = in_quotes name @ ''='' @ in_quotes (if v then ''true'' else ''false'') @ [CHR 0x0A]"
| "print_ConfigTree (ConfigString name v) = in_quotes name @ ''='' @ in_quotes v @ [CHR 0x0A]"
| "print_ConfigTree (OtherNode name) = in_quotes name @ ''=<other type>'' @ [CHR 0x0A]"

section \<open>The log events\<close>

record LoggerNotifyEvent =
  getSeverity :: nat
  getComponentName :: string
  getLogID :: int
  getMessageText :: string

datatype logger_event = LoggerNotify LoggerNotifyEvent | OtherLoggerEvent

definition print_LoggerNotifyEvent :: "LoggerNotifyEvent \<Rightarrow> string option" where
  "print_LoggerNotifyEvent e =
     map_option (\<lambda>severity.
         ''LoggerNotifyEvent: { '' @ in_quotes ''Severity'' @ '': '' @ in_quotes severity @
         '', '' @ in_quotes ''Component'' @ '': '' @ in_quotes (getComponentName e) @
         '', '' @ in_quotes ''LogId'' @ '': '' @ show_int (getLogID e) @
         '', '' @ in_quotes ''Text'' @ '': '' @ in_quotes (getMessageText e) @ '' }'')
       (log_severity_name (getSeverity e))"

definition OnLoggerNotifyEvent :: "LoggerNotifyEvent \<Rightarrow> string list option" where
  "OnLoggerNotifyEvent e = map_option (\<lambda>line. [line]) (print_LoggerNotifyEvent e)"

text \<open>The lines that processEvent logs; None is the read past the table of severities.\<close>

definition LogEventProvider_processEvent :: "logger_event \<Rightarrow> string list option" where
  "LogEventProvider_processEvent e =
     (case e of LoggerNotify n \<Rightarrow> OnLoggerNotifyEvent n | OtherLoggerEvent \<Rightarrow> Some [])"

lemma processEvent_defined_iff:
  "LogEventProvider_processEvent e \<noteq> None \<longleftrightarrow> (\<forall>n. e = LoggerNotify n \<longrightarrow> getSeverity n < 4)"
  by (cases e) (simp_all add: LogEventProvider_processEvent_def OnLoggerNotifyEvent_def print_LoggerNotifyEvent_def
      log_severity_name_def Let_def)

section \<open>Reading the registry file\<close>

text \<open>The text as a sequence of headings and values.\<close>

datatype reg_line = Heading string | Value string string

definition line_text :: "reg_line \<Rightarrow> string" where
  "line_text l = (case l of Heading k \<Rightarrow> registry_heading k | Value n v \<Rightarrow> in_quotes n @ ''='' @ v @ [CHR 0x0A])"

primrec node_value :: "config_node \<Rightarrow> (string \<times> string) option" where
  "node_value (ConfigTree full_name nodes) = None"
| "node_value (ConfigLong name v) = Some (name, ''dword:'' @ show_hex v)"
| "node_value (ConfigBool name v) = Some (name, in_quotes (if v then ''true'' else ''false''))"
| "node_value (ConfigString name v) = Some (name, in_quotes v)"
| "node_value (OtherNode name) = Some (name, ''<other type>'')"

fun node_lines :: "config_node \<Rightarrow> reg_line list" where
  "node_lines (ConfigTree full_name nodes) = Heading full_name # concat (map node_lines nodes)"
| "node_lines n = (case node_value n of Some (name, v) \<Rightarrow> [Value name v] | None \<Rightarrow> [])"

lemma line_text_simps [simp]:
  "line_text (Heading k) = registry_heading k"
  "line_text (Value n v) = in_quotes n @ ''='' @ v @ [CHR 0x0A]"
  by (simp_all add: line_text_def)

lemma print_ConfigTree_lines: "print_ConfigTree n = concat (map line_text (node_lines n))"
proof (induction n)
  case (ConfigTree full_name nodes)
  then have "concat (map print_ConfigTree nodes) = concat (map line_text (concat (map node_lines nodes)))"
    by (induction nodes) simp_all
  then show ?case by simp
qed simp_all

text \<open>A reader attributes a value to the last heading; the database holds it in the tree that encloses it.\<close>

fun read_registry :: "string \<Rightarrow> reg_line list \<Rightarrow> (string \<times> string \<times> string) list" where
  "read_registry key [] = []"
| "read_registry key (Heading k # ls) = read_registry k ls"
| "read_registry key (Value n v # ls) = (key, n, v) # read_registry key ls"

fun database_values :: "string \<Rightarrow> config_node \<Rightarrow> (string \<times> string \<times> string) list" where
  "database_values key (ConfigTree full_name nodes) = concat (map (database_values full_name) nodes)"
| "database_values key n = (case node_value n of Some (name, v) \<Rightarrow> [(key, name, v)] | None \<Rightarrow> [])"

definition is_tree :: "config_node \<Rightarrow> bool" where
  "is_tree n = (node_value n = None)"

fun values_first :: "config_node \<Rightarrow> bool" where
  "values_first (ConfigTree full_name nodes) =
     (list_all is_tree (dropWhile (\<lambda>n. \<not> is_tree n) nodes) \<and> list_all values_first nodes)"
| "values_first n = True"

lemma read_value:
  "\<not> is_tree n \<Longrightarrow> read_registry key (node_lines n @ ls) = database_values key n @ read_registry key ls"
  by (cases n) (simp_all add: is_tree_def)

lemma read_trees:
  assumes "list_all is_tree ts"
    and "\<And>t key. t \<in> set ts \<Longrightarrow> \<exists>k. \<forall>ls. read_registry key (node_lines t @ ls) = database_values key t @ read_registry k ls"
  shows "\<exists>k. \<forall>ls. read_registry key (concat (map node_lines ts) @ ls) = concat (map (database_values key') ts) @ read_registry k ls"
  using assms
proof (induction ts arbitrary: key)
  case (Cons t ts)
  obtain k1 where k1: "\<And>ls. read_registry key (node_lines t @ ls) = database_values key t @ read_registry k1 ls"
    using Cons.prems(2) [of t key] by auto
  obtain k2 where k2: "\<And>ls. read_registry k1 (concat (map node_lines ts) @ ls) =
      concat (map (database_values key') ts) @ read_registry k2 ls"
    using Cons.IH [of k1] Cons.prems by auto
  have "database_values key t = database_values key' t"
    using Cons.prems(1) by (cases t) (simp_all add: is_tree_def)
  with k1 k2 show ?case by (intro exI [of _ k2]) simp
qed auto

lemma read_values:
  "list_all (\<lambda>n. \<not> is_tree n) vs \<Longrightarrow>
     read_registry key (concat (map node_lines vs) @ ls) = concat (map (database_values key) vs) @ read_registry key ls"
  by (induction vs) (simp_all add: read_value)

lemma read_node:
  "values_first t \<Longrightarrow> \<exists>k. \<forall>ls. read_registry key (node_lines t @ ls) = database_values key t @ read_registry k ls"
proof (induction t arbitrary: key)
  case (ConfigTree full_name nodes)
  let ?vs = "takeWhile (\<lambda>n. \<not> is_tree n) nodes" and ?ts = "dropWhile (\<lambda>n. \<not> is_tree n) nodes"
  have ts: "list_all is_tree ?ts" using ConfigTree.prems by simp
  have sub: "\<exists>k. \<forall>ls. read_registry key (node_lines t @ ls) = database_values key t @ read_registry k ls"
    if "t \<in> set ?ts" for t key
    using ConfigTree.IH [of t key] ConfigTree.prems set_dropWhileD [OF that] by (simp add: list_all_iff)
  obtain k where k: "\<And>ls. read_registry full_name (concat (map node_lines ?ts) @ ls) =
      concat (map (database_values full_name) ?ts) @ read_registry k ls"
    using read_trees [OF ts sub, of full_name full_name] by auto
  have vs: "list_all (\<lambda>n. \<not> is_tree n) ?vs" by (auto simp: list_all_iff dest: set_takeWhileD)
  have split: "concat (map f nodes) = concat (map f ?vs) @ concat (map f ?ts)" for f :: "config_node \<Rightarrow> 'b list"
    by (metis concat_append map_append takeWhile_dropWhile_id)
  show ?case
    using k read_values [OF vs] by (intro exI [of _ k]) (simp add: split [of node_lines] split [of "database_values full_name"])
qed (intro exI allI, rule read_value, simp add: is_tree_def)+

text \<open>The printed database reads back when in each tree the values come before the subtrees.\<close>

theorem registry_text_reads_back:
  assumes "values_first t"
  shows "print_ConfigTree t = concat (map line_text (node_lines t))"
    and "read_registry key (node_lines t) = database_values key t"
proof -
  obtain k where "\<And>ls. read_registry key (node_lines t @ ls) = database_values key t @ read_registry k ls"
    using read_node [OF assms, of key] by blast
  from this [of "[]"] show "read_registry key (node_lines t) = database_values key t" by simp
qed (rule print_ConfigTree_lines)

text \<open>A value after a subtree is printed under the heading of the subtree.\<close>

theorem value_behind_a_subtree_is_misread:
  "database_values [] (ConfigTree ''Root'' [ConfigTree ''Sub'' [], ConfigBool ''flag'' True]) =
     [(''Root'', ''flag'', in_quotes ''true'')]"
  "read_registry [] (node_lines (ConfigTree ''Root'' [ConfigTree ''Sub'' [], ConfigBool ''flag'' True])) =
     [(''Sub'', ''flag'', in_quotes ''true'')]"
  by simp_all

end
