(* ===== verification/Url_Parsed.thy ===== *)
theory Url_Parsed
  imports Url_Parse "HOL-Library.Monad_Syntax"
begin

text \<open>
  src/googleurl/url_parse.h and .cc: the pointer inner_parsed_ that a Parsed owns, with the constructors, the assignment and the
  destructor, over a heap of objects. None is an access to an object that does not exist (or a recursion that
  does not end, along a cycle). Shown: the copies are deep, an assignment makes the target equal to the
  source, keeps the source and every other object, reuses the objects of the target and deletes those it does not need.
\<close>

section \<open>The heap\<close>

text \<open>An object: the eight components, and inner_parsed_. The addresses from fresh on are free.\<close>

record parsed_heap =
  objects :: "nat \<Rightarrow> (Parsed \<times> nat option) option"
  fresh :: nat

definition put :: "nat \<Rightarrow> Parsed \<times> nat option \<Rightarrow> parsed_heap \<Rightarrow> parsed_heap" where
  "put p x h = h\<lparr>objects := (objects h)(p \<mapsto> x)\<rparr>"

definition alloc :: "Parsed \<times> nat option \<Rightarrow> parsed_heap \<Rightarrow> nat \<times> parsed_heap" where
  "alloc x h = (fresh h, put (fresh h) x (h\<lparr>fresh := Suc (fresh h)\<rparr>))"

definition free :: "nat \<Rightarrow> parsed_heap \<Rightarrow> parsed_heap" where
  "free p h = h\<lparr>objects := (objects h)(p := None)\<rparr>"

section \<open>Operations\<close>

definition Parsed_new :: "parsed_heap \<Rightarrow> nat \<times> parsed_heap" where
  "Parsed_new = alloc (new_Parsed, None)"

text \<open>The destructor.\<close>

partial_function (option) delete_Parsed :: "nat \<Rightarrow> parsed_heap \<Rightarrow> parsed_heap option" where
  "delete_Parsed p h =
     do {
       (parts, inner) \<leftarrow> objects h p;
       h \<leftarrow> (case inner of None \<Rightarrow> Some h | Some i \<Rightarrow> delete_Parsed i h);
       Some (free p h)
     }"

definition clear_inner_parsed :: "nat \<Rightarrow> parsed_heap \<Rightarrow> parsed_heap option" where
  "clear_inner_parsed p h =
     do {
       (parts, inner) \<leftarrow> objects h p;
       (case inner of
          None \<Rightarrow> Some h
        | Some i \<Rightarrow> do { h \<leftarrow> delete_Parsed i h; Some (put p (parts, None) h) })
     }"

text \<open>The copy constructor, on new memory; set_inner_parsed of the new object finds no inner one, so it constructs.\<close>

partial_function (option) Parsed_copy :: "nat \<Rightarrow> parsed_heap \<Rightarrow> (nat \<times> parsed_heap) option" where
  "Parsed_copy other h =
     do {
       (parts, inner) \<leftarrow> objects h other;
       let (p, h) = alloc (parts, None) h;
       (case inner of
          None \<Rightarrow> Some (p, h)
        | Some i \<Rightarrow> do { (q, h) \<leftarrow> Parsed_copy i h; Some (p, put p (parts, Some q) h) })
     }"

text \<open>The assignment; its call of set_inner_parsed constructs or assigns.\<close>

partial_function (option) Parsed_assign :: "nat \<Rightarrow> nat \<Rightarrow> parsed_heap \<Rightarrow> parsed_heap option" where
  "Parsed_assign p other h =
     (if p = other then Some h
      else do {
        (parts, other_inner) \<leftarrow> objects h other;
        (old, inner) \<leftarrow> objects h p;
        let h = put p (parts, inner) h;
        (case other_inner of
           None \<Rightarrow> clear_inner_parsed p h
         | Some j \<Rightarrow>
             (case inner of
                None \<Rightarrow> do { (q, h) \<leftarrow> Parsed_copy j h; Some (put p (parts, Some q) h) }
              | Some i \<Rightarrow> Parsed_assign i j h))
      })"

definition set_inner_parsed :: "nat \<Rightarrow> nat \<Rightarrow> parsed_heap \<Rightarrow> parsed_heap option" where
  "set_inner_parsed p other h =
     do {
       (parts, inner) \<leftarrow> objects h p;
       (case inner of
          None \<Rightarrow> do { (q, h) \<leftarrow> Parsed_copy other h; Some (put p (parts, Some q) h) }
        | Some i \<Rightarrow> Parsed_assign i other h)
     }"

section \<open>Chains\<close>

text \<open>A Parsed and all that it owns: the addresses, and the components of each, from the outside inwards.\<close>

fun owns :: "parsed_heap \<Rightarrow> nat option \<Rightarrow> nat list \<Rightarrow> Parsed list \<Rightarrow> bool" where
  "owns h None as vs = (as = [] \<and> vs = [])"
| "owns h (Some p) (a # as) (v # vs) = (a = p \<and> (\<exists>i. objects h p = Some (v, i) \<and> owns h i as vs))"
| "owns h (Some p) _ _ = False"

lemma owns_Some:
  "owns h (Some p) as vs \<longleftrightarrow> (\<exists>bs v ws i. as = p # bs \<and> vs = v # ws \<and> objects h p = Some (v, i) \<and> owns h i bs ws)"
  by (cases as; cases vs) auto

lemma owns_Nil [simp]: "owns h i [] vs \<longleftrightarrow> i = None \<and> vs = []"
  by (cases i) auto

lemma owns_cong: "owns h i as vs \<Longrightarrow> (\<And>a. a \<in> set as \<Longrightarrow> objects h' a = objects h a) \<Longrightarrow> owns h' i as vs"
  by (induction h i as vs rule: owns.induct) auto

lemma owns_length: "owns h i as vs \<Longrightarrow> length as = length vs"
  by (induction h i as vs rule: owns.induct) auto

definition heap_ok :: "parsed_heap \<Rightarrow> bool" where
  "heap_ok h = (\<forall>a\<ge>fresh h. objects h a = None)"

lemma owns_below: "owns h i as vs \<Longrightarrow> heap_ok h \<Longrightarrow> a \<in> set as \<Longrightarrow> a < fresh h"
proof (induction h i as vs rule: owns.induct)
  case (2 h p a' as v vs)
  then show ?case by (cases "a < fresh h") (auto simp: heap_ok_def not_less)
qed auto

lemma objects_put [simp]: "objects (put p x h) = (objects h)(p \<mapsto> x)" "fresh (put p x h) = fresh h"
  by (simp_all add: put_def)

lemma objects_free [simp]: "objects (free p h) = (objects h)(p := None)" "fresh (free p h) = fresh h"
  by (simp_all add: free_def)

section \<open>Copies\<close>

text \<open>The destructor removes what the object owns, and nothing else.\<close>

lemma delete_Parsed_removes:
  "owns h (Some p) as vs \<Longrightarrow> distinct as \<Longrightarrow>
   \<exists>h'. delete_Parsed p h = Some h' \<and> fresh h' = fresh h \<and> objects h' = (\<lambda>a. if a \<in> set as then None else objects h a)"
proof (induction as arbitrary: p vs h)
  case (Cons a as)
  then obtain v ws i where c: "vs = v # ws" "a = p" "objects h p = Some (v, i)" "owns h i as ws"
    by (auto simp: owns_Some)
  show ?case
  proof (cases i)
    case None
    then have "as = []" using c(4) by simp
    with None c show ?thesis by (subst delete_Parsed.simps) (auto simp: fun_eq_iff)
  next
    case (Some j)
    with Cons.IH [of h j ws] Cons.prems c obtain h' where "delete_Parsed j h = Some h'" "fresh h' = fresh h"
      "objects h' = (\<lambda>a. if a \<in> set as then None else objects h a)" by auto
    with Some c show ?thesis by (subst delete_Parsed.simps) (auto simp: fun_eq_iff)
  qed
qed simp

text \<open>The copy constructor makes as many new objects as the original owns, with the same components.\<close>

lemma Parsed_copy_copies:
  "owns h (Some p) as vs \<Longrightarrow> heap_ok h \<Longrightarrow>
   \<exists>q bs h'. Parsed_copy p h = Some (q, h') \<and> owns h' (Some q) bs vs \<and> distinct bs \<and> heap_ok h' \<and> fresh h \<le> fresh h' \<and>
     set bs = {fresh h..<fresh h'} \<and> (\<forall>a<fresh h. objects h' a = objects h a)"
proof (induction as arbitrary: p vs h)
  case (Cons a as)
  then obtain v ws i where c: "vs = v # ws" "a = p" "objects h p = Some (v, i)" "owns h i as ws"
    by (auto simp: owns_Some)
  let ?h = "put (fresh h) (v, None) (h\<lparr>fresh := Suc (fresh h)\<rparr>)"
  have ok: "heap_ok ?h" using Cons.prems(2) by (auto simp: heap_ok_def)
  show ?case
  proof (cases i)
    case None
    then have "Parsed_copy p h = Some (fresh h, ?h)" using c by (subst Parsed_copy.simps) (simp add: alloc_def)
    moreover have "owns ?h (Some (fresh h)) [fresh h] vs" using None c by simp
    ultimately show ?thesis using ok
      by (intro exI [of _ "fresh h"] exI [of _ "[fresh h]"] exI [of _ ?h]) auto
  next
    case (Some j)
    have "owns ?h (Some j) as ws"
      using owns_cong [of h i as ws ?h] c(4) owns_below [OF c(4) Cons.prems(2)] Some by fastforce
    from Cons.IH [OF this ok] obtain q bs h' where copy: "Parsed_copy j ?h = Some (q, h')" "owns h' (Some q) bs ws"
      "distinct bs" "heap_ok h'" "Suc (fresh h) \<le> fresh h'" "set bs = {Suc (fresh h)..<fresh h'}"
      "\<forall>a<Suc (fresh h). objects h' a = objects ?h a" by auto
    let ?h' = "put (fresh h) (v, Some q) h'"
    have "Parsed_copy p h = Some (fresh h, ?h')"
      using c Some copy(1) by (subst Parsed_copy.simps) (simp add: alloc_def)
    moreover have "owns ?h' (Some q) bs ws" by (rule owns_cong [OF copy(2)]) (use copy(6) in auto)
    ultimately show ?thesis using copy c
      by (intro exI [of _ "fresh h"] exI [of _ "fresh h # bs"] exI [of _ ?h']) (auto simp: heap_ok_def)
  qed
qed simp

section \<open>Assignment\<close>

text \<open>What an assignment to an object that owns as, of one with the components vs, leaves: the target owns cs.\<close>

definition assigned :: "parsed_heap \<Rightarrow> nat list \<Rightarrow> nat \<Rightarrow> Parsed list \<Rightarrow> nat list \<Rightarrow> parsed_heap \<Rightarrow> bool" where
  "assigned h as p vs cs h' =
     (owns h' (Some p) cs vs \<and> distinct cs \<and> heap_ok h' \<and> fresh h \<le> fresh h' \<and>
      set cs \<subseteq> set as \<union> {fresh h..<fresh h'} \<and> (\<forall>a. a < fresh h \<longrightarrow> a \<notin> set as \<longrightarrow> objects h' a = objects h a) \<and>
      (\<forall>a. a \<in> set as \<longrightarrow> a \<notin> set cs \<longrightarrow> objects h' a = None))"

lemma clear_inner_parsed_assigned:
  assumes h: "objects h p = Some (v, i)" "owns h i as ws" "distinct (p # as)" "heap_ok h"
  shows "\<exists>h'. clear_inner_parsed p h = Some h' \<and> assigned h (p # as) p [v] [p] h'"
proof (cases i)
  case None
  with h show ?thesis by (simp add: clear_inner_parsed_def assigned_def)
next
  case (Some j)
  with h(2,3) obtain h1 where d: "delete_Parsed j h = Some h1" "fresh h1 = fresh h"
      "objects h1 = (\<lambda>a. if a \<in> set as then None else objects h a)"
    using delete_Parsed_removes [of h j as ws] by auto
  have p: "p < fresh h" using h(1,4) by (cases "p < fresh h") (auto simp: heap_ok_def not_less)
  then have "assigned h (p # as) p [v] [p] (put p (v, None) h1)"
    using d(2,3) h(4) by (auto simp: assigned_def heap_ok_def)
  with Some h(1) d(1) show ?thesis by (auto simp: clear_inner_parsed_def)
qed

lemma assigned_copy:
  assumes h: "objects h p = Some (v, None)" "heap_ok h" and bs: "owns h (Some j) bs vs"
  shows "\<exists>q h1. Parsed_copy j h = Some (q, h1) \<and> (\<exists>cs. assigned h [p] p (v # vs) cs (put p (v, Some q) h1))"
proof -
  have p: "p < fresh h" using h by (cases "p < fresh h") (auto simp: heap_ok_def not_less)
  from Parsed_copy_copies [OF bs h(2)] obtain q cs h1 where c: "Parsed_copy j h = Some (q, h1)" "owns h1 (Some q) cs vs"
    "distinct cs" "heap_ok h1" "fresh h \<le> fresh h1" "set cs = {fresh h..<fresh h1}"
    "\<forall>a<fresh h. objects h1 a = objects h a" by blast
  have "owns (put p (v, Some q) h1) (Some q) cs vs" by (rule owns_cong [OF c(2)]) (use c(6) p in auto)
  then have "assigned h [p] p (v # vs) (p # cs) (put p (v, Some q) h1)"
    using c p unfolding assigned_def by (auto simp: heap_ok_def)
  with c(1) show ?thesis by blast
qed

lemma assigned_step:
  assumes a: "assigned (put p (v, Some i) h) as i vs cs h'" and h: "heap_ok h" "p < fresh h" "p \<notin> set as"
  shows "assigned h (p # as) p (v # vs) (p # cs) h'"
proof -
  have p: "p \<notin> set cs" "objects h' p = Some (v, Some i)" using a h(2,3) by (auto simp: assigned_def)
  with a show ?thesis by (auto simp: assigned_def)
qed

lemma Parsed_assign_assigned:
  assumes "owns h (Some p) as ws" and "owns h (Some q) bs vs" and "set as \<inter> set bs = {}" and "distinct as" and "heap_ok h"
  shows "\<exists>h' cs. Parsed_assign p q h = Some h' \<and> assigned h as p vs cs h'"
  using assms
proof (induction as arbitrary: p q ws bs vs h)
  case (Cons a as)
  obtain w ws' i where p: "a = p" "ws = w # ws'" "objects h p = Some (w, i)" "owns h i as ws'"
    using Cons.prems(1) by (auto simp: owns_Some)
  obtain v vs' j bs' where q: "bs = q # bs'" "vs = v # vs'" "objects h q = Some (v, j)" "owns h j bs' vs'"
    using Cons.prems(2) by (auto simp: owns_Some)
  let ?h = "put p (v, i) h"
  have neq: "p \<noteq> q" using Cons.prems(3) p(1) q(1) by auto
  have below: "p < fresh h" using owns_below [OF Cons.prems(1,5), of p] p(1) by simp
  have ok: "heap_ok ?h" using Cons.prems(5) below by (auto simp: heap_ok_def)
  have as: "owns ?h i as ws'" by (rule owns_cong [OF p(4)]) (use Cons.prems(4) p(1) in auto)
  have bs: "owns ?h j bs' vs'" by (rule owns_cong [OF q(4)]) (use Cons.prems(3) p(1) q(1) in auto)
  have here: "assigned ?h xs p us cs h' \<Longrightarrow> p \<in> set xs \<Longrightarrow> assigned h xs p us cs h'" for xs us cs h'
    by (auto simp: assigned_def)
  show ?case
  proof (cases j)
    case None
    have "distinct (p # as)" using Cons.prems(4) p(1) by simp
    from clear_inner_parsed_assigned [OF _ as this ok, of v] obtain h' where
      "clear_inner_parsed p ?h = Some h'" "assigned ?h (p # as) p [v] [p] h'" by auto
    moreover have "vs' = []" using None bs by simp
    ultimately show ?thesis
      using here [of "p # as" "[v]" "[p]" h'] p q neq None by (subst Parsed_assign.simps) (auto simp: Let_def)
  next
    case j: (Some j')
    show ?thesis
    proof (cases i)
      case None
      with as have "as = []" by simp
      from assigned_copy [OF _ ok bs [unfolded j], of p v] None obtain r h1 cs where
        "Parsed_copy j' ?h = Some (r, h1)" "assigned ?h [p] p (v # vs') cs (put p (v, Some r) h1)" by auto
      with here [of "[p]"] \<open>as = []\<close> show ?thesis
        using p q neq None j by (subst Parsed_assign.simps) (auto simp: Let_def)
    next
      case (Some i')
      from Cons.IH [OF as [unfolded Some] bs [unfolded Some j] _ _ ok [unfolded Some]] Cons.prems(3,4) p(1) q(1) Some obtain h' cs where
        r: "Parsed_assign i' j' ?h = Some h'" "assigned ?h as i' vs' cs h'" by auto
      have "assigned h (p # as) p (v # vs') (p # cs) h'"
        by (rule assigned_step [OF _ Cons.prems(5) below]) (use r(2) Some Cons.prems(4) p(1) in auto)
      with r(1) show ?thesis
        using p q neq Some j by (subst Parsed_assign.simps) (auto simp: Let_def)
    qed
  qed
qed simp

text \<open>C40: Assigning one Parsed (q, which owns the chain of inner objects bs) to another one (p, which owns the chain as) that
  shares no object with it, in a heap where every object lies below the next free address, and p's chain without
  repetition: the assignment returns; afterwards the target has the components of the source, with objects of its own, the source
  is as before, every other object is as before, and the objects that the target has no more use
  for are deleted.\<close>

theorem assignment_copies_deeply:
  assumes "owns h (Some p) as ws" and "owns h (Some q) bs vs" and "set as \<inter> set bs = {}" and "distinct as" and "heap_ok h"
  shows "\<exists>h' cs. Parsed_assign p q h = Some h' \<and> owns h' (Some p) cs vs \<and> owns h' (Some q) bs vs \<and> set cs \<inter> set bs = {} \<and>
     heap_ok h' \<and> (\<forall>a. a < fresh h \<longrightarrow> a \<notin> set as \<longrightarrow> objects h' a = objects h a) \<and>
     (\<forall>a. a \<in> set as \<longrightarrow> a \<notin> set cs \<longrightarrow> objects h' a = None)"
proof -
  obtain h' cs where r: "Parsed_assign p q h = Some h'" "assigned h as p vs cs h'"
    using Parsed_assign_assigned [OF assms] by blast
  have below: "b < fresh h" if "b \<in> set bs" for b using owns_below [OF assms(2,5) that] .
  then have "owns h' (Some q) bs vs"
    using r(2) assms(3) by (intro owns_cong [OF assms(2)]) (auto simp: assigned_def)
  moreover have "set cs \<inter> set bs = {}" using r(2) below assms(3) unfolding assigned_def by fastforce
  ultimately show ?thesis using r unfolding assigned_def by blast
qed

text \<open>A target with two objects and a source with one: the target keeps its own object and loses the other.\<close>

theorem assignment_copies_deeply_witness:
  "\<exists>h' cs. Parsed_assign 0 2 (put 0 (new_Parsed\<lparr>ref := mk_Component 3 4\<rparr>, Some 1) (put 1 (new_Parsed, None)
        (put 2 (new_Parsed\<lparr>host := mk_Component 7 5\<rparr>, None) \<lparr>objects = (\<lambda>_. None), fresh = 3\<rparr>))) = Some h' \<and>
     owns h' (Some 0) cs [new_Parsed\<lparr>host := mk_Component 7 5\<rparr>] \<and> objects h' 1 = None"
proof -
  let ?u = "new_Parsed\<lparr>ref := mk_Component 3 4\<rparr>" and ?v = "new_Parsed\<lparr>host := mk_Component 7 5\<rparr>"
  let ?h = "put 0 (?u, Some 1) (put 1 (new_Parsed, None) (put 2 (?v, None) \<lparr>objects = (\<lambda>_. None), fresh = 3\<rparr>))"
  have target: "owns ?h (Some 0) [0, 1] [?u, new_Parsed]" and source: "owns ?h (Some 2) [2] [?v]" and ok: "heap_ok ?h"
    by (simp_all add: heap_ok_def)
  from assignment_copies_deeply [OF target source _ _ ok] obtain h' cs where
    r: "Parsed_assign 0 2 ?h = Some h'" "owns h' (Some 0) cs [?v]" "\<forall>a. a \<in> set [0, 1] \<longrightarrow> a \<notin> set cs \<longrightarrow> objects h' a = None"
    by fastforce
  have "cs = [0]" using r(2) owns_length [OF r(2)] by (cases cs) (auto simp: owns_Some)
  with r(3) have "objects h' 1 = None" by simp
  with r(1,2) show ?thesis by blast
qed

text \<open>Assigning a Parsed to the one that it owns does not: the inner one gets the components of the outer one and
  then copies itself, where the copy of the outer one would own the old components of the inner one.\<close>

lemma assigning_to_the_inner_one:
  assumes "objects h 0 = Some (v, Some 1)" and "objects h 1 = Some (w, None)" and "fresh h = 2" and "heap_ok h"
  shows "\<exists>h'. Parsed_assign 1 0 h = Some h' \<and> owns h' (Some 1) [1, 2] [v, v]"
proof -
  let ?h = "put 1 (v, None) h"
  have "owns ?h (Some 1) [1] [v]" by simp
  have copy: "Parsed_copy 1 ?h = Some (2, put 2 (v, None) (?h\<lparr>fresh := Suc 2\<rparr>))"
    using assms(3) by (subst Parsed_copy.simps) (simp add: alloc_def)
  show ?thesis
    using assms(1,2) copy by (subst Parsed_assign.simps) (simp add: Let_def)
qed

end
