(* ===== verification/Spec2Isabelle.thy ===== *)
theory Spec2Isabelle
  imports Strings_Props Url_Props Consumer_Requests Consumer_Liveness Convert_Props Capture Command_Line
    String_Piece Vlog Rfa_Config App_Props Linked_List Singleton Statistics_Props Histogram_Ascii_Props Logging_Props
    String_Printf Rfa_Ostream_Props Stack_Trace Locks Os_Wrappers
    Atomicops_Props Rfa_Text Url_Parsed
begin

text \<open>
  Torikuru records market data from Reuters RFA sessions into an archive and converts archives to
  one CSV table per service. These theories model the program in src/ and prove what makes
  it correct. The program is built for a 32-bit target (-m32, CMakeLists.txt), so unsigned, size_t and
  the counters are 32 bits wide here.

  \<^bold>\<open>The program.\<close> main (src/main.cc) reads the command line and runs one torikuru_t (src/torikuru.cc).
  Init turns the switch --session, a list of URLs, into session configurations, initialises RFA and,
  unless --input-path asks for a conversion, opens the archive, creates one consumer_t per session
  (src/consumer.cc) and one item stream per session and instrument. MainLoop dispatches the events of the
  RFA queue: a consumer counts them, logs in, subscribes its directory, archives Marketfeed
  payloads, and calls back when all its streams have an image or are closed; with
  --terminate-on-sync the last of these callbacks ends the loop, with --time-limit the clock does. Convert reads an
  archive twice, for the names of the fields and for the rows, and writes the file of each service. Clear
  releases everything.

  \<^bold>\<open>The theories.\<close>
  \<^item> Prelude: words, lists, option monad, decimal text, find_first, and the locale invariant_system, the
    contract between an operation set and an invariant that Consumer_Run, Consumer_Sync, Command_Line
    and App_Props instantiate.
  \<^item> Strings: src/chromium/string_util.cc and string_split.cc; Strings_Props: trimming removes exactly the
    outer characters of the set, splitting undoes joining, the words of a text, and the exact
    condition under which the split at a substring ever returns.
  \<^item> Url_Parse: src/googleurl/url_parse.cc, with every component a position and a length in the text;
    all components lie inside the text; Url_Props: a printed URL is parsed back to its parts;
    Url_Parsed: a Parsed with its inner one over a heap, copied and assigned deeply.
  \<^item> Config: src/config.hh, the session URLs of torikuru_t::Init, the printers.
  \<^item> Consumer: consumer_t. Its state is a record; the item streams are a heap in the world, which also holds the
    calls made to RFA, the archive, the calls of the callback and the clock. Consumer_Props: frame
    lemmas of every operation; Consumer_Sync: the refresh counter is the number of closed streams;
    Consumer_Run: runs as sequences of steps and their invariants (counters balance, the callback
    fires once, in sync means all streams closed) with the event orders for which it fails;
    Consumer_Liveness: a clean capture synchronises once all streams are served;
    Consumer_Requests: what is archived, what is requested and what happens when RFA refuses.
  \<^item> Convert: torikuru_t::Convert, with the output streams of the services, their positions and the contents of
    the files; Convert_Props: the file of a service that no other one shares is the header and one row per readable
    record, in order; Capture: Convert exports what a capture archives, rows read back, file names, outputs
    that collide or do not open.
  \<^item> Command_Line: src/chromium/command_line.cc; String_Piece: src/chromium/string_piece.cc and .hh;
    Vlog: src/chromium/vlog.cc, with the wildcard language as an inductive specification.
  \<^item> Rfa_Config: src/rfa.cc, src/error.cc, src/rfa_logging.cc: the settings staged for each session.
    Rfa_Text: the database as a registry file, and when it reads back; the events of the RFA logger.
  \<^item> App: torikuru_t and main; App_Props: the queue is deactivated exactly when all sessions are in
    sync, when the main loop ends (its deadline is a 32-bit time_t, and wraps), Clear.
  \<^item> Logging: src/chromium/logging.cc, the macros of logging.hh and the setup of main.cc, with the terminal and the
    files in the state; Logging_Props: what every message reaches, the level that --v sets, and
    that a failed CHECK does not stop the program. String_Printf: src/chromium/stringprintf.cc over
    a locale that states what vsnprintf promises.
  \<^item> Histogram: src/chromium/metrics/histogram.cc without the registry; Histogram_Checksum: the table-driven
    checksum is the CRC-32 and finds every single corrupt bound but the last, which it does not cover;
    Histogram_Props: the three layouts are strictly increasing, below the number of buckets that the constructor CHECKs, a sample lands in its one bucket, the counts are right. The floating
    point step of the exponential layout is a parameter under the locale bucket_growth, which
    the same formula in exact arithmetic satisfies.
  \<^item> Statistics: StatisticsRecorder, the factories and the macros, over heaps of histograms and ranges;
    Statistics_Props: one histogram per name, with the class and the limits its factory asserts as long as the
    requests agree, equal ranges shared; the client's view is the locale name_table.
    Histogram_Ascii: the rendering of histograms as text, with the arithmetic of double as a parameter;
    Histogram_Ascii_Props: every bucket with samples has its row with its count and its shares, spelt out, and all bars
    are equally wide, under the locale doubles, which rational arithmetic satisfies.
  \<^item> Singleton: src/chromium/memory/singleton.hh as steps of racing threads over one word; one instance, and
    every get returns. Linked_List: src/chromium/linked_list.hh over a heap of nodes, refined by
    lists, and debug/leak_tracker.hh, refined by the set of live objects.
  \<^item> Rfa_Ostream: the printers of src/rfaostream.hh; Json: the values, the text and a parser of the JSON they
    write; Rfa_Ostream_Props: the parser reads from the text of an event the member that specifies it, and the
    exact events and requests for which it does not.
  \<^item> Locks: the debug locks of src/chromium/synchronization and their scopes as steps of threads; nested scopes
    exclude each other, fail no DCHECK and are never all stuck. Stack_Trace: src/chromium/debug/stack_trace.cc
    and stack_trace_posix.cc; the demangling in place is a replacement from left to right.
  \<^item> Os_Wrappers: src/chromium/file_util.cc, eintr_wrapper.hh, safe_strerror_posix.cc and src/compat/pipe2.c; the retries
    end at the first call that is not interrupted, and pipe2 sets all flags or leaves no descriptor open.
  \<^item> Atomicops: src/chromium/atomicops.hh on x86 with gcc, each operation a program of instructions on the x86-TSO machine
    (a queue of stores per thread), and the detection of CPU features; Atomicops_Props: publication by
    Release_Store and Acquire_Load, mutual exclusion by Acquire_Store, increments.

  \<^bold>\<open>Conventions.\<close> A C++ string is a list of characters with signed comparison where the code compares char;
  a component of a URL is a record of two integers; exceptions and the return value are a sum
  type exn + bool; option None is undefined behaviour of the program (a null or dangling pointer, a read past the
  end), the CHECK of a histogram on its number of buckets that fails, a clock or a time limit outside the range that
  MainLoop is modelled for, or, for loops the code may never leave, that it does not return. Library calls (RFA, TIB,
  protobuf, the C library's time and open) are parameters: records rfa_api, rfa_env, etl and app_env.
  Loops are structural recursion or functions with a termination measure. The one loop that may not
  end by itself, the main loop, runs over an explicit list of turns, one for each return of dispatch,
  and the result says whether it ended within them: App_Props shows exactly when, and that with a time limit
  the turn at which the clock reaches it is enough. The unbounded loops, the split at a substring and
  the retries of system calls, are partial_functions; it is shown exactly when their value is not None. So are the
  recursions along the objects that a Parsed owns (Url_Parsed), which return for every finite chain.

  \<^bold>\<open>Not modelled.\<close> The atomic operations on 64 bits (not compiled with -m32), the platform
  headers, and the code for Windows (ETW, lock_impl_win.cc, stack_trace_win.cc, file_util_win.cc, atomicops with
  MSVC). The atomics have their own theory; Singleton takes each as one step. The
  locks have their own theory; the critical sections of the other code run one at a time. Threads: RFA
  delivers events through the queue to the one thread of the main loop, so events are a
  sequence. The text that the other theories log is left out, and so are the DCHECKs but for those of the locks and
  those on the histogram a factory returns. The exceptions of the RFA configuration library are left out. The archive that
  is converted is not one of the output files, and writes to an open file succeed. std::atoi outside the range of int is undefined in C and the mathematical value here.
\<close>

end
